(* ===== verification/HS_Prelude.thy ===== *)
theory HS_Prelude
  imports Main "HOL-Library.Word" "HOL-Library.AList"
begin

text \<open>
  Shared vocabulary of the hypersync development: the widths of the integers the Rust code uses,
  its saturating and checked arithmetic, clocks and durations, little- and big-endian byte
  decoding, and hash maps as association lists.

  \<^item> \<open>u8\<close>, \<open>u16\<close> and \<open>u32\<close> are words of that width. A consensus round is a \<open>u32\<close>. Sizes
    (\<open>usize\<close>), counters (\<open>u64\<close>) and identifiers are \<open>nat\<close>.
  \<^item> \<open>Instant\<close> and \<open>Duration\<close> are nanosecond counts, so that
    \<open>now.saturating_duration_since(t)\<close> is the truncating subtraction \<open>now - t\<close> on \<open>nat\<close>.
  \<^item> A \<open>HashMap\<close> is an association list with distinct keys whose order stands for the
    (unspecified) iteration order: a statement that holds for every such list holds for every
    iteration order.
\<close>

section \<open>Types\<close>

type_synonym u8 = "8 word"
type_synonym u16 = "16 word"
type_synonym u32 = "32 word"
type_synonym bytes = "u8 list"
type_synonym instant = nat
type_synonym duration = nat
type_synonym ip = string

section \<open>Collections of rewrite rules\<close>

named_theorems word_nat \<open>comparison and arithmetic on words, moved to natural numbers\<close>
named_theorems time_simps \<open>unfolding of clock arithmetic\<close>

lemmas word_le_lt_nat [word_nat] = word_le_nat_alt word_less_nat_alt

lemma unat_eqI: "unat a = unat b \<Longrightarrow> a = b"
  by (rule unsigned_word_eqI)

section \<open>Saturating and checked arithmetic\<close>

definition saturating_add :: "'a::len word \<Rightarrow> 'a word \<Rightarrow> 'a word" where
  "saturating_add a b = (if unat a + unat b < 2 ^ LENGTH('a) then a + b else - 1)"

definition saturating_sub :: "'a::len word \<Rightarrow> 'a word \<Rightarrow> 'a word" where
  "saturating_sub a b = (if b \<le> a then a - b else 0)"

definition checked_add :: "'a::len word \<Rightarrow> 'a word \<Rightarrow> 'a word option" where
  "checked_add a b = (if unat a + unat b < 2 ^ LENGTH('a) then Some (a + b) else None)"

definition checked_sub :: "'a::len word \<Rightarrow> 'a word \<Rightarrow> 'a word option" where
  "checked_sub a b = (if b \<le> a then Some (a - b) else None)"

lemma unat_saturating_add [word_nat]:
  "unat (saturating_add a (b :: 'a::len word)) = min (unat a + unat b) (2 ^ LENGTH('a) - 1)"
proof (cases "unat a + unat b < 2 ^ LENGTH('a)")
  case True
  then show ?thesis by (simp add: saturating_add_def unat_word_ariths)
next
  case False
  then have "min (unat a + unat b) (2 ^ LENGTH('a) - 1) = 2 ^ LENGTH('a) - 1" by simp
  with False show ?thesis by (simp add: saturating_add_def unsigned_minus_1_eq_mask mask_eq_exp_minus_1)
qed

lemma unat_saturating_sub [word_nat]: "unat (saturating_sub a b) = unat a - unat b"
  by (auto simp: saturating_sub_def unat_sub word_le_nat_alt)

lemma checked_add_Some_iff:
  "checked_add a (b :: 'a::len word) = Some c \<longleftrightarrow> unat c = unat a + unat b"
proof -
  have "unat c < 2 ^ LENGTH('a)" by simp
  moreover have "unat a + unat b < 2 ^ LENGTH('a) \<Longrightarrow> unat (a + b) = unat a + unat b"
    by (simp add: unat_word_ariths)
  ultimately show ?thesis
    unfolding checked_add_def by (metis option.discI option.inject unsigned_word_eqI)
qed

lemma checked_sub_Some_iff:
  "checked_sub a b = Some c \<longleftrightarrow> unat b \<le> unat a \<and> unat c = unat a - unat b"
  unfolding checked_sub_def
  by (metis option.discI option.inject unat_sub unsigned_word_eqI word_le_nat_alt)

lemma saturating_add_ge: "a \<le> saturating_add a (b :: 'a::len word)"
proof -
  have "unat a < 2 ^ LENGTH('a)" by simp
  then have "unat a \<le> 2 ^ LENGTH('a) - 1" by linarith
  then show ?thesis by (simp add: word_le_nat_alt unat_saturating_add)
qed

lemma saturating_sub_0 [simp]: "saturating_sub a 0 = a"
  by (simp add: saturating_sub_def)

section \<open>Clocks\<close>

definition from_secs :: "nat \<Rightarrow> duration" where
  "from_secs s = s * 1000000000"

definition from_millis :: "nat \<Rightarrow> duration" where
  "from_millis m = m * 1000000"

definition as_millis :: "duration \<Rightarrow> nat" where
  "as_millis d = d div 1000000"

definition as_secs :: "duration \<Rightarrow> nat" where
  "as_secs d = d div 1000000000"

lemmas clock_defs [time_simps] = from_secs_def from_millis_def as_millis_def as_secs_def

lemma as_millis_from_millis [simp]: "as_millis (from_millis m) = m"
  by (simp add: time_simps)

lemma as_secs_from_secs [simp]: "as_secs (from_secs s) = s"
  by (simp add: time_simps)

section \<open>Byte order\<close>

definition u32_from_le_bytes :: "u8 \<Rightarrow> u8 \<Rightarrow> u8 \<Rightarrow> u8 \<Rightarrow> u32" where
  "u32_from_le_bytes a b c d =
     word_of_nat (unat a + 256 * unat b + 65536 * unat c + 16777216 * unat d)"

definition u32_from_be_bytes :: "u8 \<Rightarrow> u8 \<Rightarrow> u8 \<Rightarrow> u8 \<Rightarrow> u32" where
  "u32_from_be_bytes a b c d = u32_from_le_bytes d c b a"

definition u32_to_le_bytes :: "u32 \<Rightarrow> bytes" where
  "u32_to_le_bytes r =
     [word_of_nat (unat r), word_of_nat (unat r div 256),
      word_of_nat (unat r div 65536), word_of_nat (unat r div 16777216)]"

definition u32_to_be_bytes :: "u32 \<Rightarrow> bytes" where
  "u32_to_be_bytes r = rev (u32_to_le_bytes r)"

lemma unat_u8_lt [simp]: "unat (x :: u8) < 256"
  using unsigned_less[where 'a = nat and w = x] by simp

lemma unat_of_nat_u8: "unat (word_of_nat n :: u8) = n mod 256"
  by (simp add: unat_of_nat)

lemma unat_u32_lt: "unat (x :: u32) < 4294967296"
  using unsigned_less[where 'a = nat and w = x] by simp

lemma unat_u32_from_le:
  "unat (u32_from_le_bytes a b c d) =
     unat a + 256 * unat b + 65536 * unat c + 16777216 * unat d"
proof -
  have "unat a < 256" "unat b < 256" "unat c < 256" "unat d < 256" by simp_all
  then have "unat a + 256 * unat b + 65536 * unat c + 16777216 * unat d < 4294967296"
    by linarith
  then show ?thesis unfolding u32_from_le_bytes_def by (subst unat_of_nat) simp
qed

lemma length_u32_bytes [simp]:
  "length (u32_to_le_bytes r) = 4" "length (u32_to_be_bytes r) = 4"
  by (simp_all add: u32_to_le_bytes_def u32_to_be_bytes_def)

lemma radix_sum:
  fixes x q1 q2 q3 a b c d :: nat
  assumes "d = q3" "256 * q1 + a = x" "256 * q2 + b = q1" "256 * q3 + c = q2"
  shows "a + 256 * b + 65536 * c + 16777216 * d = x"
  using assms by simp

lemma u32_le_roundtrip:
  "u32_from_le_bytes (word_of_nat (unat r)) (word_of_nat (unat r div 256))
     (word_of_nat (unat r div 65536)) (word_of_nat (unat r div 16777216)) = (r :: u32)"
proof -
  let ?x = "unat r"
  have d: "?x div 65536 = ?x div 256 div 256" "?x div 16777216 = ?x div 256 div 256 div 256"
    by (simp_all flip: div_mult2_eq)
  have "?x div 256 div 256 div 256 < 256"
    using unat_u32_lt[of r] by (simp flip: div_mult2_eq)
  then have "?x div 256 div 256 div 256 mod 256 = ?x div 256 div 256 div 256" by simp
  moreover have "256 * (?x div 256) + ?x mod 256 = ?x"
    "256 * (?x div 256 div 256) + ?x div 256 mod 256 = ?x div 256"
    "256 * (?x div 256 div 256 div 256) + ?x div 256 div 256 mod 256 = ?x div 256 div 256"
    by (rule mult_div_mod_eq)+
  ultimately have "?x mod 256 + 256 * (?x div 256 mod 256) + 65536 * (?x div 65536 mod 256)
      + 16777216 * (?x div 16777216 mod 256) = ?x"
    unfolding d by (rule radix_sum)
  then have "unat (u32_from_le_bytes (word_of_nat (unat r)) (word_of_nat (unat r div 256))
     (word_of_nat (unat r div 65536)) (word_of_nat (unat r div 16777216))) = unat r"
    by (simp only: unat_u32_from_le unat_of_nat_u8)
  then show ?thesis by (rule unsigned_word_eqI)
qed

lemmas u32_le_roundtrip_ucast [simp] = u32_le_roundtrip [simplified]

lemma u32_bytes_roundtrip: "u32_to_le_bytes (u32_from_le_bytes a b c d) = [a, b, c, d]"
proof -
  define q where "q = unat b + 256 * (unat c + 256 * unat d)"
  define x where "x = unat a + 256 * q"
  have x: "unat (u32_from_le_bytes a b c d) = x"
    by (simp add: unat_u32_from_le x_def q_def)
  have step: "(y + 256 * z) div 256 = z" "(y + 256 * z) mod 256 = y" if "y < 256" for y z :: nat
    using that by simp_all
  have "x div 256 = q" "x mod 256 = unat a"
    unfolding x_def by (simp_all only: step unat_u8_lt)
  moreover have "q div 256 = unat c + 256 * unat d" "q mod 256 = unat b"
    unfolding q_def by (simp_all only: step unat_u8_lt)
  moreover have "(unat c + 256 * unat d) div 256 = unat d" "(unat c + 256 * unat d) mod 256 = unat c"
    by (simp_all only: step unat_u8_lt)
  moreover have "x div 65536 = x div 256 div 256" "x div 16777216 = x div 256 div 256 div 256"
    by (simp_all flip: div_mult2_eq)
  ultimately have "x mod 256 = unat a" "x div 256 mod 256 = unat b" "x div 65536 mod 256 = unat c"
    "x div 16777216 mod 256 = unat d"
    by simp_all
  then have "word_of_nat x = a" "word_of_nat (x div 256) = b" "word_of_nat (x div 65536) = c"
    "word_of_nat (x div 16777216) = d"
    by (simp_all only: unat_of_nat_u8[symmetric] unat_eqI)
  then show ?thesis
    by (simp add: u32_to_le_bytes_def x)
qed

lemma u32_be_bytes_roundtrip: "u32_to_be_bytes (u32_from_be_bytes a b c d) = [a, b, c, d]"
  by (simp add: u32_to_be_bytes_def u32_from_be_bytes_def u32_bytes_roundtrip)

text \<open>Rotations of a list visit each position once.\<close>

lemma rotate_inj:
  assumes "i < n" "j < n" "(s + i) mod n = (s + j) mod (n :: nat)"
  shows "i = j"
proof -
  have "n dvd i - j" "n dvd j - i"
    using assms(3) by (metis add_diff_cancel_left mod_eq_dvd_iff_nat dvd_0_right nat_le_linear diff_is_0_eq add_le_cancel_left)+
  then show ?thesis using assms(1,2) dvd_imp_le[of n "i - j"] dvd_imp_le[of n "j - i"] by linarith
qed

lemma nth_rotate_inj:
  assumes "distinct xs" "i < length xs" "j < length xs" "xs ! ((s + i) mod length xs) = xs ! ((s + j) mod length xs)"
  shows "i = j"
proof -
  have "0 < length xs" using assms(2) by linarith
  then have "(s + i) mod length xs = (s + j) mod length xs"
    using assms(4) nth_eq_iff_index_eq[OF assms(1), of "(s + i) mod length xs" "(s + j) mod length xs"] by simp
  then show ?thesis by (rule rotate_inj[OF assms(2,3)])
qed

end
