(* ===== verification/HS_BTreeMap.thy ===== *)
theory HS_BTreeMap
  imports HS_Prelude
begin

text \<open>
  The two standard-library maps the code uses. A \<open>BTreeMap\<close> is the list of its entries in
  ascending key order (\<open>bt_ok\<close>); its operations are the ones the code calls: \<open>insert\<close>, \<open>remove\<close>,
  \<open>get\<close>, \<open>first_key_value\<close>, \<open>pop_first\<close>, \<open>pop_last\<close> and \<open>range(lo..)\<close>. The locale \<open>ordered_map\<close>
  is the contract the clients rely on and the interpretation \<open>bt\<close> shows the list model keeps it.
  A \<open>HashMap\<close> is an association list (\<open>AList\<close>), see \<open>HS_Prelude\<close>.
\<close>

section \<open>BTreeMap\<close>

type_synonym ('k, 'v) btree = "('k \<times> 'v) list"

definition bt_ok :: "('k::linorder, 'v) btree \<Rightarrow> bool" where
  "bt_ok m \<longleftrightarrow> sorted_wrt (<) (map fst m)"

fun bt_insert :: "'k::linorder \<Rightarrow> 'v \<Rightarrow> ('k, 'v) btree \<Rightarrow> ('k, 'v) btree" where
  "bt_insert k v [] = [(k, v)]"
| "bt_insert k v ((k', v') # m) =
     (if k < k' then (k, v) # (k', v') # m
      else if k = k' then (k, v) # m
      else (k', v') # bt_insert k v m)"

definition bt_remove :: "'k::linorder \<Rightarrow> ('k, 'v) btree \<Rightarrow> ('k, 'v) btree" where
  "bt_remove k m = filter (\<lambda>p. fst p \<noteq> k) m"

definition bt_get :: "('k::linorder, 'v) btree \<Rightarrow> 'k \<Rightarrow> 'v option" where
  "bt_get m k = map_of m k"

definition bt_first :: "('k::linorder, 'v) btree \<Rightarrow> ('k \<times> 'v) option" where
  "bt_first m = (case m of [] \<Rightarrow> None | p # _ \<Rightarrow> Some p)"

definition bt_pop_first :: "('k::linorder, 'v) btree \<Rightarrow> ('k, 'v) btree" where
  "bt_pop_first m = tl m"

definition bt_last :: "('k::linorder, 'v) btree \<Rightarrow> ('k \<times> 'v) option" where
  "bt_last m = (if m = [] then None else Some (last m))"

definition bt_pop_last :: "('k::linorder, 'v) btree \<Rightarrow> ('k, 'v) btree" where
  "bt_pop_last m = butlast m"

definition bt_range_from :: "'k::linorder \<Rightarrow> ('k, 'v) btree \<Rightarrow> ('k, 'v) btree" where
  "bt_range_from lo m = filter (\<lambda>p. lo \<le> fst p) m"

section \<open>The contract of an ordered map\<close>

locale ordered_map =
  fixes invar :: "'m \<Rightarrow> bool"
    and lookup :: "'m \<Rightarrow> 'k::linorder \<Rightarrow> 'v option"
    and insert_kv :: "'k \<Rightarrow> 'v \<Rightarrow> 'm \<Rightarrow> 'm"
    and remove_k :: "'k \<Rightarrow> 'm \<Rightarrow> 'm"
    and first_kv :: "'m \<Rightarrow> ('k \<times> 'v) option"
    and pop_first :: "'m \<Rightarrow> 'm"
    and last_kv :: "'m \<Rightarrow> ('k \<times> 'v) option"
    and pop_last :: "'m \<Rightarrow> 'm"
  assumes invar_ops: "invar m \<Longrightarrow> invar (insert_kv k v m)" "invar m \<Longrightarrow> invar (remove_k k m)"
      "invar m \<Longrightarrow> invar (pop_first m)" "invar m \<Longrightarrow> invar (pop_last m)"
    and lookup_insert: "invar m \<Longrightarrow> lookup (insert_kv k v m) = (lookup m)(k \<mapsto> v)"
    and lookup_remove: "invar m \<Longrightarrow> lookup (remove_k k m) = (lookup m)(k := None)"
    and first_min: "invar m \<Longrightarrow> first_kv m = Some (k, v) \<Longrightarrow>
        lookup m k = Some v \<and> (\<forall>j \<in> dom (lookup m). k \<le> j)"
    and pop_first: "invar m \<Longrightarrow> first_kv m = Some (k, v) \<Longrightarrow>
        lookup (pop_first m) = (lookup m)(k := None)"
    and last_max: "invar m \<Longrightarrow> last_kv m = Some (k, v) \<Longrightarrow>
        lookup m k = Some v \<and> (\<forall>j \<in> dom (lookup m). j \<le> k)"
    and pop_last: "invar m \<Longrightarrow> last_kv m = Some (k, v) \<Longrightarrow>
        lookup (pop_last m) = (lookup m)(k := None)"
begin

lemma pop_last_below:
  assumes "invar m" "last_kv m = Some (k, v)" "lookup (pop_last m) j = Some w"
  shows "j < k \<and> lookup m j = Some w"
  using assms last_max[OF assms(1,2)]
  by (force simp: pop_last dom_def order.not_eq_order_implies_strict split: if_splits)

lemma pop_first_above:
  assumes "invar m" "first_kv m = Some (k, v)" "lookup (pop_first m) j = Some w"
  shows "k < j \<and> lookup m j = Some w"
  using assms first_min[OF assms(1,2)]
  by (force simp: pop_first dom_def order.not_eq_order_implies_strict split: if_splits)

lemma insert_then_get: "invar m \<Longrightarrow> lookup (insert_kv k v m) k = Some v"
  by (simp add: lookup_insert)

lemma remove_then_insert:
  "invar m \<Longrightarrow> lookup (insert_kv k v (remove_k k m)) = lookup (insert_kv k v m)"
  by (simp add: lookup_insert lookup_remove invar_ops)

end

section \<open>The list model keeps the contract\<close>

lemma bt_ok_Nil [simp]: "bt_ok []"
  by (simp add: bt_ok_def)

lemma bt_ok_Cons: "bt_ok ((k, v) # m) \<longleftrightarrow> (\<forall>p \<in> set m. k < fst p) \<and> bt_ok m"
  by (auto simp: bt_ok_def)

lemma bt_ok_distinct: "bt_ok m \<Longrightarrow> distinct (map fst m)"
  by (simp add: bt_ok_def strict_sorted_iff)

lemma set_bt_insert: "set (bt_insert k v m) \<subseteq> insert (k, v) (set m)"
  by (induction k v m rule: bt_insert.induct) auto

lemma fst_set_bt_insert: "fst ` set (bt_insert k v m) = insert k (fst ` set m)"
  by (induction k v m rule: bt_insert.induct) auto

lemma bt_ok_insert: "bt_ok m \<Longrightarrow> bt_ok (bt_insert k v m)"
proof (induction k v m rule: bt_insert.induct)
  case (2 k v k' v' m)
  then show ?case
    using set_bt_insert[of k v m] by (auto simp: bt_ok_Cons)
qed (simp add: bt_ok_def)

lemma map_of_bt_insert: "bt_ok m \<Longrightarrow> map_of (bt_insert k v m) = (map_of m)(k \<mapsto> v)"
proof (induction k v m rule: bt_insert.induct)
  case (2 k v k' v' m)
  then show ?case by (auto simp: bt_ok_Cons fun_eq_iff)
qed simp

lemma bt_ok_filter: "bt_ok m \<Longrightarrow> bt_ok (filter P m)"
  unfolding bt_ok_def by (simp add: sorted_wrt_map sorted_wrt_filter)

lemma bt_ok_remove: "bt_ok m \<Longrightarrow> bt_ok (bt_remove k m)"
  by (simp add: bt_remove_def bt_ok_filter)

lemma bt_ok_tl: "bt_ok m \<Longrightarrow> bt_ok (tl m)"
  by (cases m) (auto simp: bt_ok_def)

lemma bt_ok_append: "bt_ok (xs @ ys) \<longleftrightarrow>
    bt_ok xs \<and> bt_ok ys \<and> (\<forall>p \<in> set xs. \<forall>q \<in> set ys. fst p < fst q)"
  by (auto simp: bt_ok_def sorted_wrt_append)

lemma bt_ok_butlast: "bt_ok m \<Longrightarrow> bt_ok (butlast m)"
  by (cases m rule: rev_cases) (auto simp: bt_ok_append)

lemma map_of_bt_remove: "map_of (bt_remove k m) = (map_of m)(k := None)"
  by (induction m) (auto simp: bt_remove_def fun_eq_iff)

lemma map_of_tl: "bt_ok ((k, v) # m) \<Longrightarrow> map_of m = (map_of ((k, v) # m))(k := None)"
  by (auto simp: bt_ok_Cons fun_eq_iff map_of_eq_None_iff)

lemma map_of_butlast:
  assumes "bt_ok (m @ [(k, v)])"
  shows "map_of m = (map_of (m @ [(k, v)]))(k := None)"
  using assms by (auto simp: bt_ok_append fun_eq_iff map_add_def map_of_eq_None_iff split: option.splits)

lemma bt_get_in_set: "bt_ok m \<Longrightarrow> bt_get m k = Some v \<longleftrightarrow> (k, v) \<in> set m"
  by (simp add: bt_get_def bt_ok_distinct)

lemma dom_bt_get: "dom (bt_get m) = fst ` set m"
  by (simp add: bt_get_def[abs_def] dom_map_of_conv_image_fst)

interpretation bt: ordered_map bt_ok bt_get bt_insert bt_remove bt_first bt_pop_first bt_last bt_pop_last
proof (unfold_locales, goal_cases)
  case (7 m k v)
  then show ?case
    by (cases m) (auto simp: bt_first_def bt_get_in_set dom_bt_get bt_ok_Cons less_imp_le)
next
  case (8 m k v)
  then show ?case
    using map_of_tl[of k v] by (cases m) (auto simp: bt_first_def bt_get_def[abs_def] bt_pop_first_def)
next
  case (9 m k v)
  then show ?case
    by (cases m rule: rev_cases)
      (auto simp: bt_last_def bt_get_in_set dom_bt_get bt_ok_append less_imp_le)
next
  case (10 m k v)
  then show ?case
    using map_of_butlast[of _ k v]
    by (cases m rule: rev_cases) (auto simp: bt_last_def bt_get_def[abs_def] bt_pop_last_def)
qed (simp_all add: bt_ok_insert bt_ok_remove bt_ok_tl bt_ok_butlast bt_pop_first_def bt_pop_last_def
    bt_get_def[abs_def] map_of_bt_insert map_of_bt_remove)

section \<open>Further facts on the list model\<close>

lemma bt_ok_range_from: "bt_ok m \<Longrightarrow> bt_ok (bt_range_from lo m)"
  by (simp add: bt_range_from_def bt_ok_filter)

lemma set_bt_range_from: "set (bt_range_from lo m) = {p \<in> set m. lo \<le> fst p}"
  by (auto simp: bt_range_from_def)

lemma bt_insert_append_last: "\<forall>p \<in> set m. fst p < k \<Longrightarrow> bt_insert k v m = m @ [(k, v)]"
  by (induction k v m rule: bt_insert.induct) auto

section \<open>HashMap entries\<close>

definition hm_update :: "'k \<Rightarrow> ('v \<Rightarrow> 'v) \<Rightarrow> ('k \<times> 'v) list \<Rightarrow> ('k \<times> 'v) list" where
  "hm_update k f m = map (\<lambda>(j, v). (j, if j = k then f v else v)) m"

lemma map_fst_hm_update [simp]: "map fst (hm_update k f m) = map fst m"
  by (simp add: hm_update_def comp_def case_prod_beta)

lemma in_set_hm_update:
  "(j, w) \<in> set (hm_update k f m) \<longleftrightarrow> (\<exists>v. (j, v) \<in> set m \<and> w = (if j = k then f v else v))"
  by (force simp: hm_update_def)

lemma map_of_hm_update: "map_of (hm_update k f m) j = map_option (if j = k then f else id) (map_of m j)"
  by (induction m) (auto simp: hm_update_def)

end
