(* ===== verification/Blocks.thy ===== *)
theory Blocks
  imports HS_Prelude
begin

text \<open>
  Live-block decoding (\<open>src/src/protocol.rs\<close>): round plausibility and lag against the network
  tip, the header scan that finds a block's round and parent round, the bounded LZ4 decoder that
  produces only the scanned prefix, and the full-decompression path it must agree with.

  The LZ4 library is not part of the repository: full decompression is the parameter \<open>D\<close> (the
  function \<open>decompress_size_prepended\<close>, \<open>None\<close> where it fails). What the code relies on is stated
  as \<open>lz4_conforming\<close>: a successful result is an output of the LZ4 block format, given by the
  relation \<open>lz4_block\<close>.
\<close>

section \<open>Constants\<close>

definition GREET_FALSE :: bytes where
  "GREET_FALSE = [0, 0, 0, 3, 0, 0, 0, 0]"

definition GREET_TRUE :: bytes where
  "GREET_TRUE = [0, 0, 0, 3, 0, 1, 0, 0]"

definition MIN_PLAUSIBLE_MAINNET_ROUND :: u32 where
  "MIN_PLAUSIBLE_MAINNET_ROUND = 1000000000"

definition MAX_LIVE_FRAME :: nat where
  "MAX_LIVE_FRAME = 8000000"

definition ACTIVE_ROUND_MAX_LAG :: u32 where
  "ACTIVE_ROUND_MAX_LAG = 1500"

definition NET_TIP_SLACK_ROUNDS :: u32 where
  "NET_TIP_SLACK_ROUNDS = 200000"

definition ROUND_SCAN_BYTES :: nat where
  "ROUND_SCAN_BYTES = 1024"

definition MAX_PARENT_ROUND_GAP :: u32 where
  "MAX_PARENT_ROUND_GAP = 256"

definition MAX_DECOMPRESSED_BLOCK :: nat where
  "MAX_DECOMPRESSED_BLOCK = 4000000"

lemmas round_consts = MIN_PLAUSIBLE_MAINNET_ROUND_def ACTIVE_ROUND_MAX_LAG_def
  NET_TIP_SLACK_ROUNDS_def MAX_PARENT_ROUND_GAP_def

section \<open>Plausibility and lag\<close>

definition is_plausible_mainnet_round :: "u32 \<Rightarrow> u32 \<Rightarrow> bool" where
  "is_plausible_mainnet_round round net_tip \<longleftrightarrow>
     MIN_PLAUSIBLE_MAINNET_ROUND \<le> round \<and>
     (net_tip = 0 \<or> round \<le> saturating_add net_tip NET_TIP_SLACK_ROUNDS)"

definition round_lag_from_tip :: "u32 \<Rightarrow> u32 \<Rightarrow> u32 \<Rightarrow> u32 option" where
  "round_lag_from_tip round net_tip max_lag =
     (if net_tip = 0 \<or> net_tip \<le> round then None
      else let lag = net_tip - round in if max_lag < lag then Some lag else None)"

section \<open>The header scan\<close>

definition rd :: "bytes \<Rightarrow> nat \<Rightarrow> u32" where
  "rd dec off = u32_from_le_bytes (dec ! (off + 1)) (dec ! (off + 2)) (dec ! (off + 3)) (dec ! (off + 4))"

definition round_triple_at :: "bytes \<Rightarrow> nat \<Rightarrow> bool" where
  "round_triple_at dec off \<longleftrightarrow>
     dec ! off = 0xfc \<and> dec ! (off + 5) = 0xfc \<and> dec ! (off + 10) = 0xfc \<and>
     (let r = rd dec off; r1 = rd dec (off + 5); r2 = rd dec (off + 10) in
        r1 < r \<and> r - r1 \<le> MAX_PARENT_ROUND_GAP \<and> r2 < r1 \<and> r1 - r2 \<le> MAX_PARENT_ROUND_GAP)"

function scan_block_round :: "bytes \<Rightarrow> nat \<Rightarrow> nat \<Rightarrow> (u32 \<times> u32) option" where
  "scan_block_round dec end off =
     (if off + 15 \<le> end then
        if round_triple_at dec off then Some (rd dec off, rd dec (off + 5))
        else scan_block_round dec end (off + 1)
      else None)"
  by pat_completeness auto
termination
  by (relation "measure (\<lambda>(dec, end, off). end - off)") auto

declare scan_block_round.simps [simp del]

definition find_block_round_parent :: "bytes \<Rightarrow> (u32 \<times> u32) option" where
  "find_block_round_parent dec = scan_block_round dec (min (length dec) ROUND_SCAN_BYTES) 0"

definition find_block_round :: "bytes \<Rightarrow> u32 option" where
  "find_block_round dec = map_option fst (find_block_round_parent dec)"

section \<open>Bounded LZ4 decoding\<close>

fun lz4_len_ext :: "nat \<Rightarrow> bytes \<Rightarrow> (nat \<times> bytes) option" where
  "lz4_len_ext n [] = None"
| "lz4_len_ext n (b # bs) =
     (if b \<noteq> 255 then Some (n + unat b, bs) else lz4_len_ext (n + unat b) bs)"

definition lz4_len :: "nat \<Rightarrow> bytes \<Rightarrow> (nat \<times> bytes) option" where
  "lz4_len nibble input = (if nibble = 15 then lz4_len_ext 15 input else Some (nibble, input))"

fun lz4_copy :: "nat \<Rightarrow> nat \<Rightarrow> bytes \<Rightarrow> bytes" where
  "lz4_copy offset 0 out = out"
| "lz4_copy offset (Suc k) out = lz4_copy offset k (out @ [out ! (length out - offset)])"

lemma lz4_len_ext_shorter: "lz4_len_ext n input = Some (m, rest) \<Longrightarrow> length rest < length input"
  by (induction n input rule: lz4_len_ext.induct) (auto split: if_splits)

lemma lz4_len_shorter: "lz4_len n input = Some (m, rest) \<Longrightarrow> length rest \<le> length input"
  by (auto simp: lz4_len_def dest: lz4_len_ext_shorter split: if_splits)

text \<open>
  \<open>lz4_run n input out\<close> is the decoder's loop with \<open>input\<close> the bytes from \<open>ip\<close> on and \<open>out\<close> the
  bytes produced so far (\<open>op\<close> of them) of the \<open>n\<close> requested.
\<close>

function lz4_run :: "nat \<Rightarrow> bytes \<Rightarrow> bytes \<Rightarrow> bytes option" where
  "lz4_run n [] out = Some out"
| "lz4_run n (token # input) out =
     (case lz4_len (unat token div 16) input of
        None \<Rightarrow> None
      | Some (lit, input1) \<Rightarrow>
          if length input1 < lit then None
          else
            let out1 = out @ take (min lit (n - length out)) input1 in
            if 0 < lit \<and> n \<le> length out1 then Some out1
            else
              (case drop lit input1 of
                 [] \<Rightarrow> Some out1
               | [_] \<Rightarrow> None
               | lo # hi # input2 \<Rightarrow>
                   let offset = unat lo + 256 * unat hi in
                   if offset = 0 \<or> length out1 < offset then None
                   else
                     (case lz4_len (unat token mod 16) input2 of
                        None \<Rightarrow> None
                      | Some (mlen, input3) \<Rightarrow>
                          let out2 = lz4_copy offset (min (mlen + 4) (n - length out1)) out1 in
                          if n \<le> length out2 then Some out2 else lz4_run n input3 out2)))"
  by pat_completeness auto
termination
proof (relation "measure (\<lambda>(n, input, out). length input)", goal_cases)
  case 1
  show ?case by simp
next
  case (2 n token input out p lit input1 out1 lo rest hi input2 offset q mlen input3 out2)
  have "length input3 \<le> length input2" using 2 by (auto dest: lz4_len_shorter)
  moreover have "length input1 \<le> length input" using 2 by (auto dest: lz4_len_shorter)
  moreover have "length (drop lit input1) = length input2 + 2" using 2 by simp
  ultimately show ?case by simp
qed

declare lz4_run.simps [simp del]

definition lz4_first_n :: "bytes \<Rightarrow> nat \<Rightarrow> bytes option" where
  "lz4_first_n input n = lz4_run n input []"

section \<open>Rounds of a payload\<close>

definition declared_size_ok :: "bytes \<Rightarrow> bool" where
  "declared_size_ok payload \<longleftrightarrow>
     4 \<le> length payload \<and>
     unat (u32_from_le_bytes (payload ! 0) (payload ! 1) (payload ! 2) (payload ! 3))
       \<le> MAX_DECOMPRESSED_BLOCK"

definition decompress_block :: "(bytes \<Rightarrow> bytes option) \<Rightarrow> bytes \<Rightarrow> bytes option" where
  "decompress_block D payload = (if \<not> declared_size_ok payload then None else D payload)"

definition block_round_full :: "(bytes \<Rightarrow> bytes option) \<Rightarrow> bytes \<Rightarrow> u32 option" where
  "block_round_full D payload = Option.bind (decompress_block D payload) find_block_round"

definition block_round :: "(bytes \<Rightarrow> bytes option) \<Rightarrow> bytes \<Rightarrow> u32 option" where
  "block_round D payload =
     (if length payload < 5 \<or> \<not> declared_size_ok payload then block_round_full D payload
      else
        (case lz4_first_n (drop 4 payload) ROUND_SCAN_BYTES of
           Some buf \<Rightarrow> find_block_round buf
         | None \<Rightarrow> block_round_full D payload))"

definition block_round_parent :: "(bytes \<Rightarrow> bytes option) \<Rightarrow> bytes \<Rightarrow> (u32 \<times> u32) option" where
  "block_round_parent D payload =
     (case (if 5 \<le> length payload \<and> declared_size_ok payload
            then lz4_first_n (drop 4 payload) ROUND_SCAN_BYTES else None) of
        Some buf \<Rightarrow> find_block_round_parent buf
      | None \<Rightarrow> Option.bind (decompress_block D payload) find_block_round_parent)"

section \<open>The LZ4 block format\<close>

text \<open>
  \<open>lz4_block input out final\<close>: decoding \<open>input\<close> with \<open>out\<close> already produced ends with \<open>final\<close>. A
  block is a run of sequences, each literals followed by a match into the output; the last
  sequence is literals only.
\<close>

inductive lz4_block :: "bytes \<Rightarrow> bytes \<Rightarrow> bytes \<Rightarrow> bool" where
  last_literals:
    "lz4_len (unat token div 16) input = Some (length lits, lits) \<Longrightarrow>
     lz4_block (token # input) out (out @ lits)"
| literals_match:
    "lz4_len (unat token div 16) input = Some (length lits, lits @ lo # hi # input2) \<Longrightarrow>
     offset = unat lo + 256 * unat hi \<Longrightarrow>
     0 < offset \<Longrightarrow> offset \<le> length (out @ lits) \<Longrightarrow>
     lz4_len (unat token mod 16) input2 = Some (mlen, input3) \<Longrightarrow>
     lz4_block input3 (lz4_copy offset (mlen + 4) (out @ lits)) final \<Longrightarrow>
     lz4_block (token # input) out final"

definition lz4_conforming :: "(bytes \<Rightarrow> bytes option) \<Rightarrow> bool" where
  "lz4_conforming D \<longleftrightarrow> (\<forall>payload dec. D payload = Some dec \<longrightarrow> lz4_block (drop 4 payload) [] dec)"

section \<open>Lemmas on plausibility and lag\<close>

lemma plausible_unknown_tip [simp]:
  "is_plausible_mainnet_round r 0 \<longleftrightarrow> MIN_PLAUSIBLE_MAINNET_ROUND \<le> r"
  by (simp add: is_plausible_mainnet_round_def)

lemma plausible_nonzero: "is_plausible_mainnet_round r tip \<Longrightarrow> r \<noteq> 0"
  by (auto simp: is_plausible_mainnet_round_def round_consts)

lemma round_lag_Some_iff:
  "round_lag_from_tip r tip m = Some l \<longleftrightarrow>
     tip \<noteq> 0 \<and> unat r + unat m < unat tip \<and> unat l = unat tip - unat r"
proof -
  have "unat (tip - r) = unat tip - unat r" if "\<not> tip \<le> r"
    using that by (simp add: unat_sub word_le_nat_alt)
  then show ?thesis
    by (auto simp: round_lag_from_tip_def Let_def word_nat intro: unat_eqI)
qed

section \<open>Lemmas on the header scan\<close>

lemma scan_block_round_Some:
  assumes "scan_block_round dec end off = Some (r, p)"
  shows "\<exists>k \<ge> off. k + 15 \<le> end \<and> round_triple_at dec k \<and> r = rd dec k \<and> p = rd dec (k + 5)
    \<and> (\<forall>j. off \<le> j \<and> j < k \<longrightarrow> \<not> round_triple_at dec j)"
  using assms
proof (induction dec "end" off rule: scan_block_round.induct)
  case (1 dec "end" off)
  show ?case
  proof (cases "off + 15 \<le> end \<and> \<not> round_triple_at dec off")
    case True
    with 1 obtain k where k: "off + 1 \<le> k" "k + 15 \<le> end" "round_triple_at dec k" "r = rd dec k"
      "p = rd dec (k + 5)" "\<forall>j. off + 1 \<le> j \<and> j < k \<longrightarrow> \<not> round_triple_at dec j"
      by (auto simp: scan_block_round.simps[of dec "end" off])
    have "\<not> round_triple_at dec j" if "off \<le> j" "j < k" for j
      using that True k(6) by (cases "j = off") auto
    with k show ?thesis by (intro exI[of _ k]) auto
  next
    case False
    with 1 show ?thesis
      by (intro exI[of _ off]) (auto simp: scan_block_round.simps[of dec "end" off] split: if_splits)
  qed
qed

lemma scan_block_round_hit:
  assumes "off \<le> k" "k + 15 \<le> end" "round_triple_at dec k"
    "\<And>j. off \<le> j \<Longrightarrow> j < k \<Longrightarrow> \<not> round_triple_at dec j"
  shows "scan_block_round dec end off = Some (rd dec k, rd dec (k + 5))"
  using assms
proof (induction dec "end" off rule: scan_block_round.induct)
  case (1 dec "end" off)
  show ?case
  proof (cases "off = k")
    case True
    with 1 show ?thesis by (simp add: scan_block_round.simps[of dec "end" k])
  next
    case False
    with 1 have "scan_block_round dec end (off + 1) = Some (rd dec k, rd dec (k + 5))" by auto
    with False 1 show ?thesis by (simp add: scan_block_round.simps[of dec "end" off])
  qed
qed

lemma scan_block_round_take:
  assumes "end \<le> n" "end \<le> length dec"
  shows "scan_block_round (take n dec) end off = scan_block_round dec end off"
  using assms
proof (induction dec "end" off rule: scan_block_round.induct)
  case (1 dec "end" off)
  have "off + 15 \<le> end \<Longrightarrow> round_triple_at (take n dec) off = round_triple_at dec off"
    "off + 15 \<le> end \<Longrightarrow> rd (take n dec) off = rd dec off"
    "off + 15 \<le> end \<Longrightarrow> rd (take n dec) (off + 5) = rd dec (off + 5)"
    using 1(2,3) by (simp_all add: round_triple_at_def rd_def)
  with 1 show ?case
    by (simp add: scan_block_round.simps[of _ "end" off])
qed

lemma find_block_round_parent_take:
  "find_block_round_parent (take ROUND_SCAN_BYTES dec) = find_block_round_parent dec"
  by (simp add: find_block_round_parent_def scan_block_round_take min.commute)

section \<open>Lemmas on the bounded decoder\<close>

lemma length_lz4_copy [simp]: "length (lz4_copy offset k out) = length out + k"
  by (induction offset k out rule: lz4_copy.induct) auto

lemma lz4_copy_add: "lz4_copy offset (j + k) out = lz4_copy offset k (lz4_copy offset j out)"
  by (induction offset j out rule: lz4_copy.induct) auto

lemma take_lz4_copy: "take (length out) (lz4_copy offset k out) = out"
proof (induction offset k out rule: lz4_copy.induct)
  case (2 offset k out)
  let ?o = "out @ [out ! (length out - offset)]"
  have "take (length out) (lz4_copy offset (Suc k) out)
      = take (length out) (take (length ?o) (lz4_copy offset k ?o))"
    by simp
  then show ?case by (simp only: 2 take_append) simp
qed simp

lemma lz4_copy_min:
  assumes "length out \<le> n"
  shows "lz4_copy offset (min k (n - length out)) out = take n (lz4_copy offset k out)"
proof (cases "k \<le> n - length out")
  case True
  with assms show ?thesis by (simp add: min_absorb1)
next
  case False
  then obtain j where k: "k = (n - length out) + j" by (metis le_add_diff_inverse nat_le_linear)
  have "take n (lz4_copy offset k out) = lz4_copy offset (n - length out) out"
    using take_lz4_copy[of "lz4_copy offset (n - length out) out" offset j] assms
    unfolding k lz4_copy_add by simp
  with False show ?thesis by (simp add: min_absorb2)
qed

lemma lz4_block_extends: "lz4_block input out final \<Longrightarrow> take (length out) final = out"
proof (induction rule: lz4_block.induct)
  case (literals_match token input lits lo hi input2 offset out mlen input3 final)
  let ?o = "lz4_copy offset (mlen + 4) (out @ lits)"
  have "take (length out) final = take (length out) (take (length (out @ lits)) (take (length ?o) final))"
    by simp
  also have "\<dots> = out" using literals_match.IH take_lz4_copy[of "out @ lits" offset "mlen + 4"] by simp
  finally show ?case .
qed simp

lemma take_of_prefix: "take (length out) final = out \<Longrightarrow> n \<le> length out \<Longrightarrow> take n final = take n out"
  by (metis min.absorb1 take_take)

lemma lz4_run_prefix:
  "lz4_block input out final \<Longrightarrow> length out < n \<Longrightarrow> lz4_run n input out = Some (take n final)"
proof (induction rule: lz4_block.induct)
  case (last_literals token input lits out)
  then show ?case by (auto simp: lz4_run.simps Let_def min_def)
next
  case (literals_match token input lits lo hi input2 offset out mlen input3 final)
  let ?o1 = "out @ lits" and ?o2 = "lz4_copy offset (mlen + 4) (out @ lits)"
  have o2: "take (length ?o2) final = ?o2" by (rule lz4_block_extends) fact
  have o1: "take (length ?o1) final = ?o1"
    using o2 take_lz4_copy[of ?o1 offset "mlen + 4"]
    by (metis (no_types, lifting) length_lz4_copy le_add1 min.absorb1 take_take)
  show ?case
  proof (cases "n \<le> length ?o1")
    case True
    then have "take n final = out @ take (n - length out) lits"
      using take_of_prefix[OF o1 True] literals_match.prems by simp
    with True literals_match show ?thesis
      by (auto simp: lz4_run.simps Let_def min_absorb2)
  next
    case False
    have c: "lz4_copy offset (min (mlen + 4) (n - length ?o1)) ?o1 = take n ?o2"
      using False by (intro lz4_copy_min) simp
    show ?thesis
    proof (cases "n \<le> length ?o2")
      case True
      with False literals_match.prems literals_match.hyps c take_of_prefix[OF o2 True] show ?thesis
        by (auto simp: lz4_run.simps Let_def min_absorb1)
    next
      case F2: False
      with False literals_match c show ?thesis
        by (auto simp: lz4_run.simps Let_def min_absorb1)
    qed
  qed
qed

lemma lz4_first_n_prefix:
  "lz4_block input [] final \<Longrightarrow> 0 < n \<Longrightarrow> lz4_first_n input n = Some (take n final)"
  by (simp add: lz4_first_n_def lz4_run_prefix)

lemma block_round_conforming:
  assumes "lz4_conforming D" "D payload = Some dec" "5 \<le> length payload" "declared_size_ok payload"
  shows "lz4_first_n (drop 4 payload) ROUND_SCAN_BYTES = Some (take ROUND_SCAN_BYTES dec)"
  using assms by (intro lz4_first_n_prefix) (auto simp: lz4_conforming_def ROUND_SCAN_BYTES_def)

section \<open>Properties\<close>

text \<open>C9. The round found by the bounded decode (only the first 1024 decompressed bytes are produced)
  equals the round found by decompressing the whole block, for every payload the LZ4 library
  decompresses; the same holds for the pair of round and parent round.\<close>
theorem block_round_eq_full:
  assumes "lz4_conforming D" and "D payload = Some dec"
  shows "block_round D payload = block_round_full D payload \<and>
    block_round_parent D payload = Option.bind (decompress_block D payload) find_block_round_parent"
  using block_round_conforming[OF assms] assms(2)
  by (auto simp: block_round_def block_round_parent_def block_round_full_def decompress_block_def
      find_block_round_def find_block_round_parent_take)

definition sample_dec :: bytes where
  "sample_dec = [0, 0xfc, 18, 0, 0, 0, 0xfc, 17, 0, 0, 0, 0xfc, 16, 0, 0, 0]"

definition sample_payload :: bytes where
  "sample_payload = [16, 0, 0, 0, 0xf0, 1] @ sample_dec"

definition sample_lz4 :: "bytes \<Rightarrow> bytes option" where
  "sample_lz4 p = (if p = sample_payload then Some sample_dec else None)"

lemma sample_lz4_conforming: "lz4_conforming sample_lz4"
  by (auto simp: lz4_conforming_def sample_lz4_def sample_payload_def sample_dec_def lz4_len_def
      intro!: lz4_block.last_literals[where out = "[]", simplified] split: if_splits)

theorem block_round_eq_full_witness:
  "block_round sample_lz4 sample_payload = block_round_full sample_lz4 sample_payload"
  using block_round_eq_full[OF sample_lz4_conforming, of sample_payload sample_dec]
  by (simp add: sample_lz4_def)

text \<open>The header scan returns the round and parent round of a block whose header carries the
  varint triple (round, parent, grandparent) inside the scan window, with nothing before it that
  already is a plausible triple.\<close>
theorem find_block_round_parent_header:
  assumes dec: "dec = pre @ 0xfc # u32_to_le_bytes r @ 0xfc # u32_to_le_bytes p
      @ 0xfc # u32_to_le_bytes g @ post"
    and win: "length pre + 15 \<le> ROUND_SCAN_BYTES"
    and chain: "p < r" "unat r - unat p \<le> 256" "g < p" "unat p - unat g \<le> 256"
    and first: "\<forall>j < length pre. \<not> round_triple_at dec j"
  shows "find_block_round_parent dec = Some (r, p)"
proof -
  let ?k = "length pre"
  have rds: "rd dec ?k = r" "rd dec (?k + 5) = p" "rd dec (?k + 10) = g"
    by (simp_all add: dec rd_def nth_append u32_to_le_bytes_def u32_le_roundtrip)
  have gaps: "r - p \<le> MAX_PARENT_ROUND_GAP" "p - g \<le> MAX_PARENT_ROUND_GAP"
    using chain by (simp_all add: word_le_nat_alt unat_sub word_less_nat_alt round_consts)
  have "round_triple_at dec ?k"
    unfolding round_triple_at_def Let_def rds using gaps chain
    by (simp add: dec nth_append u32_to_le_bytes_def)
  moreover have "?k + 15 \<le> min (length dec) ROUND_SCAN_BYTES"
    using win by (simp add: dec)
  ultimately have "scan_block_round dec (min (length dec) ROUND_SCAN_BYTES) 0
      = Some (rd dec ?k, rd dec (?k + 5))"
    using first by (intro scan_block_round_hit) auto
  then show ?thesis by (simp add: find_block_round_parent_def rds)
qed

theorem find_block_round_parent_header_witness:
  "find_block_round_parent sample_dec = Some (18, 17)"
  by (rule find_block_round_parent_header[where pre = "[0]" and g = 16 and post = "[]"])
    (simp_all add: sample_dec_def u32_to_le_bytes_def ROUND_SCAN_BYTES_def round_triple_at_def)

lemma find_block_round_parent_gap:
  assumes "find_block_round_parent d = Some (r, p)"
  shows "unat p < unat r \<and> unat r \<le> unat p + 256"
proof -
  from assms obtain k where "round_triple_at d k" "r = rd d k" "p = rd d (k + 5)"
    unfolding find_block_round_parent_def by (blast dest: scan_block_round_Some)
  then have "p < r" "r - p \<le> MAX_PARENT_ROUND_GAP" by (simp_all add: round_triple_at_def Let_def)
  then show ?thesis by (simp add: word_le_nat_alt word_less_nat_alt unat_sub round_consts)
qed

lemma block_round_parent_less: "block_round_parent D payload = Some (r, p) \<Longrightarrow> p < r"
  by (auto simp: block_round_parent_def bind_eq_Some_conv word_less_nat_alt split: option.splits if_splits
      dest: find_block_round_parent_gap)

text \<open>A block whose decompressed size is declared above the 4 MB limit never yields a round,
  whatever the LZ4 library would make of it, and a round that is found lies at most 256 rounds above
  the parent found with it.\<close>
theorem block_round_parent_bounds:
  "(\<not> declared_size_ok payload \<longrightarrow>
      block_round D payload = None \<and> block_round_full D payload = None \<and>
      block_round_parent D payload = None) \<and>
   (\<forall>r p. block_round_parent D payload = Some (r, p) \<longrightarrow> unat p < unat r \<and> unat r \<le> unat p + 256)"
  by (auto simp: block_round_def block_round_full_def block_round_parent_def decompress_block_def
      bind_eq_Some_conv split: option.splits if_splits dest: find_block_round_parent_gap)

theorem block_round_parent_bounds_witness:
  "block_round sample_lz4 [255, 255, 255, 255, 31] = None"
  using block_round_parent_bounds[of "[255, 255, 255, 255, 31]" sample_lz4]
  by (simp add: declared_size_ok_def MAX_DECOMPRESSED_BLOCK_def u32_from_le_bytes_def)

end
