(* ===== verification/Failover_Core.thy ===== *)
theory Failover_Core
  imports HS_BTreeMap Blocks
begin

text \<open>
  The failover decision core, \<open>failover/core.rs\<close>. One session has an active upstream, whose blocks
  the node gets, and standbys whose blocks are buffered (\<open>u_ahead\<close>) and compared with the active's.
  Every method of \<open>Upstream\<close> and \<open>Core\<close> that changes state is a function from state to state; the
  hash of a block (a keyed \<open>SipHash\<close>) and the LZ4 decoder are parameters of \<open>classify\<close>.
\<close>

section \<open>State\<close>

definition MIN_VERIFIED :: u32 where "MIN_VERIFIED = 3"

definition MAX_MISMATCHES :: u32 where "MAX_MISMATCHES = 3"

definition LEAD_WINDOW :: nat where "LEAD_WINDOW = 40"

definition LEAD_MIN_SAMPLES :: nat where "LEAD_MIN_SAMPLES = 20"

definition FORWARDED_KEEP :: nat where "FORWARDED_KEEP = 1024"

definition AHEAD_KEEP :: nat where "AHEAD_KEEP = 512"

definition AHEAD_BYTES :: nat where "AHEAD_BYTES = 32 * 2 ^ 20"

definition I64_MIN :: int where "I64_MIN = - (2 ^ 63)"

datatype switch_reason = Stall | Lag | ActiveDead | Preferred

fun switch_reason_as_str :: "switch_reason \<Rightarrow> string" where
  "switch_reason_as_str Stall = ''stall''"
| "switch_reason_as_str Lag = ''lag''"
| "switch_reason_as_str ActiveDead = ''active-dead''"
| "switch_reason_as_str Preferred = ''preferred''"

type_synonym hash64 = "64 word"

record ahead_blk =
  a_parent :: u32
  a_hash :: hash64
  a_at :: instant
  a_frame :: bytes

record upstream =
  u_ip :: ip
  u_verified :: u32
  u_mismatches :: u32
  u_ahead :: "(u32, ahead_blk) btree"
  u_ahead_bytes :: nat
  u_dropped_max :: u32
  u_leads :: "int list"
  u_last_rx :: "instant option"
  u_preferred :: bool

definition upstream_new :: "ip \<Rightarrow> upstream" where
  "upstream_new a = \<lparr>u_ip = a, u_verified = 0, u_mismatches = 0, u_ahead = [], u_ahead_bytes = 0,
     u_dropped_max = 0, u_leads = [], u_last_rx = None, u_preferred = False\<rparr>"

datatype standby_verdict = VerdictOk | Mismatch u32

record core =
  c_last_forwarded :: u32
  c_forwarded :: "(u32, hash64 \<times> instant) btree"
  c_active :: nat
  c_ups :: "(nat \<times> upstream) list"
  c_last_switch :: "instant option"
  c_stall :: duration
  c_lag :: duration
  c_min_dwell :: duration

section \<open>Upstream operations\<close>

definition push_lead :: "int \<Rightarrow> upstream \<Rightarrow> upstream" where
  "push_lead ms u =
     (let l = (if length (u_leads u) = LEAD_WINDOW then tl (u_leads u) else u_leads u)
      in u\<lparr>u_leads := l @ [ms]\<rparr>)"

definition compared :: "bool \<Rightarrow> int \<Rightarrow> upstream \<Rightarrow> bool \<times> upstream" where
  "compared matched lead_ms u =
     (if matched then
        (False, push_lead lead_ms (u\<lparr>u_verified := u_verified u + 1, u_mismatches := 0\<rparr>))
      else
        (let u' = u\<lparr>u_verified := 0, u_mismatches := u_mismatches u + 1\<rparr>
         in (MAX_MISMATCHES \<le> u_mismatches u', u')))"

function shrink_ahead :: "upstream \<Rightarrow> upstream" where
  "shrink_ahead u =
     (if AHEAD_KEEP < length (u_ahead u) \<or> AHEAD_BYTES < u_ahead_bytes u then
        (case bt_last (u_ahead u) of
           None \<Rightarrow> u
         | Some (r, a) \<Rightarrow>
             shrink_ahead (u\<lparr>u_ahead := bt_pop_last (u_ahead u),
               u_ahead_bytes := u_ahead_bytes u - length (a_frame a),
               u_dropped_max := max (u_dropped_max u) r\<rparr>))
      else u)"
  by pat_completeness auto
termination
  by (relation "measure (\<lambda>u. length (u_ahead u))") (auto simp: bt_last_def bt_pop_last_def split: if_splits)

declare shrink_ahead.simps [simp del]

definition insert_ahead :: "u32 \<Rightarrow> ahead_blk \<Rightarrow> upstream \<Rightarrow> upstream" where
  "insert_ahead round a u =
     (let b = u_ahead_bytes u + length (a_frame a);
          b' = (case bt_get (u_ahead u) round of None \<Rightarrow> b | Some old \<Rightarrow> b - length (a_frame old))
      in shrink_ahead (u\<lparr>u_ahead := bt_insert round a (u_ahead u), u_ahead_bytes := b'\<rparr>))"

definition take_ahead :: "u32 \<Rightarrow> upstream \<Rightarrow> (ahead_blk \<times> upstream) option" where
  "take_ahead round u =
     (case bt_get (u_ahead u) round of
        None \<Rightarrow> None
      | Some a \<Rightarrow> Some (a, u\<lparr>u_ahead := bt_remove round (u_ahead u),
                             u_ahead_bytes := u_ahead_bytes u - length (a_frame a)\<rparr>))"

function trim_ahead :: "u32 \<Rightarrow> upstream \<Rightarrow> upstream" where
  "trim_ahead floor u =
     (case bt_first (u_ahead u) of
        None \<Rightarrow> u
      | Some (r, a) \<Rightarrow>
          if r \<le> floor then
            trim_ahead floor (u\<lparr>u_ahead := bt_pop_first (u_ahead u),
              u_ahead_bytes := u_ahead_bytes u - length (a_frame a)\<rparr>)
          else u)"
  by pat_completeness auto
termination
  by (relation "measure (\<lambda>(f, u). length (u_ahead u))")
    (auto simp: bt_first_def bt_pop_first_def split: list.splits)

declare trim_ahead.simps [simp del]

definition median_lead :: "upstream \<Rightarrow> int option" where
  "median_lead u =
     (if length (u_leads u) < LEAD_MIN_SAMPLES then None
      else (let v = sort (u_leads u) in Some (v ! (length v div 2))))"

definition can_continue :: "u32 \<Rightarrow> upstream \<Rightarrow> bool" where
  "can_continue from u \<longleftrightarrow> u_dropped_max u \<le> from"

fun chain_loop :: "u32 \<Rightarrow> nat \<Rightarrow> instant option \<Rightarrow> (u32 \<times> ahead_blk) list \<Rightarrow> nat \<times> instant option"
where
  "chain_loop cur n first_at [] = (n, first_at)"
| "chain_loop cur n first_at ((r, a) # rest) =
     (if a_parent a \<noteq> cur then (n, first_at)
      else chain_loop r (n + 1) (if first_at = None then Some (a_at a) else first_at) rest)"

definition chain_len :: "u32 \<Rightarrow> upstream \<Rightarrow> nat \<times> instant option" where
  "chain_len from u =
     (if \<not> can_continue from u then (0, None)
      else chain_loop from 0 None (bt_range_from (saturating_add from 1) (u_ahead u)))"

section \<open>Core operations\<close>

definition core_new :: "nat \<Rightarrow> ip \<Rightarrow> u32 \<Rightarrow> duration \<Rightarrow> duration \<Rightarrow> duration \<Rightarrow> core" where
  "core_new act active_ip last_fwd stall lag dwell =
     \<lparr>c_last_forwarded = last_fwd, c_forwarded = [], c_active = act,
      c_ups = [(act, upstream_new active_ip)], c_last_switch = None,
      c_stall = stall, c_lag = lag, c_min_dwell = dwell\<rparr>"

definition add_standby :: "nat \<Rightarrow> ip \<Rightarrow> core \<Rightarrow> core" where
  "add_standby i a c = c\<lparr>c_ups := AList.update i (upstream_new a) (c_ups c)\<rparr>"

definition mark_preferred :: "nat \<Rightarrow> core \<Rightarrow> core" where
  "mark_preferred i c = c\<lparr>c_ups := hm_update i (\<lambda>u. u\<lparr>u_preferred := True\<rparr>) (c_ups c)\<rparr>"

definition remove_up :: "nat \<Rightarrow> core \<Rightarrow> ip option \<times> core" where
  "remove_up i c =
     (map_option u_ip (map_of (c_ups c) i), c\<lparr>c_ups := AList.delete i (c_ups c)\<rparr>)"

definition record_forwarded :: "u32 \<Rightarrow> hash64 \<Rightarrow> instant \<Rightarrow> core \<Rightarrow> core" where
  "record_forwarded round hash at c =
     (let f = bt_insert round (hash, at) (c_forwarded c)
      in c\<lparr>c_last_forwarded := round, c_forwarded := drop (length f - FORWARDED_KEEP) f\<rparr>)"

definition settle_one ::
  "u32 \<Rightarrow> hash64 \<Rightarrow> instant \<Rightarrow> u32 \<Rightarrow> upstream \<Rightarrow> bool \<times> upstream" where
  "settle_one round hash at floor u =
     (case take_ahead round u of
        None \<Rightarrow> (False, trim_ahead floor u)
      | Some (a, u1) \<Rightarrow>
          (let lead = int (as_millis (at - a_at a));
               (bad, u2) = compared (a_hash a = hash) lead u1
           in (bad, trim_ahead floor u2)))"

fun settle_list :: "nat \<Rightarrow> u32 \<Rightarrow> hash64 \<Rightarrow> instant \<Rightarrow> u32 \<Rightarrow> (nat \<times> upstream) list
    \<Rightarrow> (nat \<times> u32) list \<times> (nat \<times> upstream) list" where
  "settle_list act round hash at floor [] = ([], [])"
| "settle_list act round hash at floor ((i, u) # rest) =
     (let (bad, rest') = settle_list act round hash at floor rest
      in if i = act then (bad, (i, u) # rest')
         else (let (b, u') = settle_one round hash at floor u
               in ((if b then [(i, round)] else []) @ bad, (i, u') # rest')))"

definition settle_standbys :: "u32 \<Rightarrow> hash64 \<Rightarrow> instant \<Rightarrow> core \<Rightarrow> (nat \<times> u32) list \<times> core" where
  "settle_standbys round hash at c =
     (let (bad, ups) = settle_list (c_active c) round hash at (c_last_forwarded c) (c_ups c)
      in (bad, c\<lparr>c_ups := ups\<rparr>))"

definition on_active_block ::
  "u32 \<Rightarrow> hash64 \<Rightarrow> instant \<Rightarrow> core \<Rightarrow> (bool \<times> (nat \<times> u32) list) \<times> core" where
  "on_active_block round hash at c =
     (let c1 = c\<lparr>c_ups := hm_update (c_active c) (\<lambda>u. u\<lparr>u_last_rx := Some at\<rparr>) (c_ups c)\<rparr>
      in if c_last_forwarded c1 \<noteq> 0 \<and> round \<le> c_last_forwarded c1 then ((False, []), c1)
         else (let (bad, c2) = settle_standbys round hash at (record_forwarded round hash at c1)
               in ((True, bad), c2)))"

definition on_standby_block ::
  "nat \<Rightarrow> u32 \<Rightarrow> u32 \<Rightarrow> hash64 \<Rightarrow> instant \<Rightarrow> bytes \<Rightarrow> core \<Rightarrow> standby_verdict \<times> core" where
  "on_standby_block i round parent hash at frame c =
     (case map_of (c_ups c) i of
        None \<Rightarrow> (VerdictOk, c)
      | Some u0 \<Rightarrow>
          (let u = u0\<lparr>u_last_rx := Some at\<rparr>;
               put = (\<lambda>w. c\<lparr>c_ups := hm_update i (\<lambda>_. w) (c_ups c)\<rparr>)
           in if round \<le> c_last_forwarded c then
                (case bt_get (c_forwarded c) round of
                   None \<Rightarrow> (VerdictOk, put u)
                 | Some (h, fat) \<Rightarrow>
                     (let (bad, u') = compared (h = hash) (- int (as_millis (at - fat))) u
                      in (if bad then Mismatch round else VerdictOk, put u')))
              else
                (VerdictOk, put (insert_ahead round
                   \<lparr>a_parent = parent, a_hash = hash, a_at = at, a_frame = frame\<rparr> u))))"

section \<open>Choosing and making a switch\<close>

record picks =
  stall_best :: "(nat \<times> int \<times> nat \<times> instant) option"
  lag_best :: "(nat \<times> int) option"
  preferred_best :: "(nat \<times> int) option"

text \<open>The stall comparison is Rust's lexicographic order on \<open>(lead, n, Reverse(first_at))\<close>.\<close>

fun stall_better :: "int \<Rightarrow> nat \<Rightarrow> instant \<Rightarrow> (nat \<times> int \<times> nat \<times> instant) option \<Rightarrow> bool" where
  "stall_better lead n first_at None = True"
| "stall_better lead n first_at (Some (_, bl, bn, bat)) =
     (bl < lead \<or> bl = lead \<and> (bn < n \<or> bn = n \<and> first_at < bat))"

fun lead_better :: "int \<Rightarrow> (nat \<times> int) option \<Rightarrow> bool" where
  "lead_better m None = True"
| "lead_better m (Some (_, bm)) = (bm < m)"

definition dwell_ok :: "instant \<Rightarrow> core \<Rightarrow> bool" where
  "dwell_ok now c =
     (case c_last_switch c of None \<Rightarrow> True | Some t \<Rightarrow> c_min_dwell c \<le> now - t)"

definition active_preferred :: "core \<Rightarrow> bool" where
  "active_preferred c =
     (case map_of (c_ups c) (c_active c) of None \<Rightarrow> False | Some u \<Rightarrow> u_preferred u)"

definition lead_or_min :: "upstream \<Rightarrow> int" where
  "lead_or_min u = (case median_lead u of None \<Rightarrow> I64_MIN | Some m \<Rightarrow> m)"

definition pick_one :: "core \<Rightarrow> instant \<Rightarrow> bool \<Rightarrow> nat \<times> upstream \<Rightarrow> picks \<Rightarrow> picks" where
  "pick_one c now active_dead = (\<lambda>(i, u) b.
     if i = c_active c \<or> u_verified u < MIN_VERIFIED then b
     else (case chain_len (c_last_forwarded c) u of
         (n, None) \<Rightarrow> b
       | (n, Some first_at) \<Rightarrow>
           (let held = now - first_at;
                b1 = (if (active_dead \<or> c_stall c \<le> held)
                         \<and> stall_better (lead_or_min u) n first_at (stall_best b)
                      then b\<lparr>stall_best := Some (i, lead_or_min u, n, first_at)\<rparr> else b);
                b2 = (if dwell_ok now c \<and> u_preferred u \<and> \<not> active_preferred c
                         \<and> lead_better (lead_or_min u) (preferred_best b1)
                      then b1\<lparr>preferred_best := Some (i, lead_or_min u)\<rparr> else b1)
            in if dwell_ok now c \<and> (u_preferred u \<or> \<not> active_preferred c) then
                 (case median_lead u of
                    None \<Rightarrow> b2
                  | Some m \<Rightarrow>
                      if int (as_millis (c_lag c)) \<le> m \<and> lead_better m (lag_best b2)
                      then b2\<lparr>lag_best := Some (i, m)\<rparr> else b2)
               else b2)))"

definition no_picks :: picks where
  "no_picks = \<lparr>stall_best = None, lag_best = None, preferred_best = None\<rparr>"

definition pick_switch :: "instant \<Rightarrow> bool \<Rightarrow> core \<Rightarrow> (nat \<times> switch_reason) option" where
  "pick_switch now active_dead c =
     (if c_last_forwarded c = 0 then None
      else (let b = fold (pick_one c now active_dead) (c_ups c) no_picks
            in case stall_best b of
                 Some (i, _, _, _) \<Rightarrow> Some (i, if active_dead then ActiveDead else Stall)
               | None \<Rightarrow>
                   (case preferred_best b of
                      Some (i, _) \<Rightarrow> Some (i, Preferred)
                    | None \<Rightarrow> map_option (\<lambda>(i, _). (i, Lag)) (lag_best b))))"

function take_chain :: "u32 \<Rightarrow> upstream \<Rightarrow> (u32 \<times> ahead_blk) list \<times> upstream" where
  "take_chain cur u =
     (case bt_range_from (saturating_add cur 1) (u_ahead u) of
        [] \<Rightarrow> ([], u)
      | (r, a) # _ \<Rightarrow>
          if a_parent a \<noteq> cur then ([], u)
          else (case take_ahead r u of
                  None \<Rightarrow> ([], u)
                | Some (a', u') \<Rightarrow>
                    (let (chain, u'') = take_chain r u' in ((r, a') # chain, u''))))"
  by pat_completeness auto
termination
proof (relation "measure (\<lambda>(cur, u). length (u_ahead u))", goal_cases)
  case (2 cur u p rest r a q a' u')
  then have "(r, a) \<in> set (bt_range_from (saturating_add cur 1) (u_ahead u))"
    by simp
  then have "(r, a) \<in> set (u_ahead u)"
    by (simp add: set_bt_range_from)
  then have "length (bt_remove r (u_ahead u)) < length (u_ahead u)"
    unfolding bt_remove_def by (rule length_filter_less) simp
  moreover have "u_ahead u' = bt_remove r (u_ahead u)"
    using 2 by (auto simp: take_ahead_def split: option.splits)
  ultimately show ?case
    by simp
qed simp

declare take_chain.simps [simp del]

fun replay_chain :: "(u32 \<times> ahead_blk) list \<Rightarrow> core \<Rightarrow> (bytes list \<times> (nat \<times> u32) list) \<times> core" where
  "replay_chain [] c = (([], []), c)"
| "replay_chain ((r, a) # chain) c =
     (let (bad, c1) = settle_standbys r (a_hash a) (a_at a)
                        (record_forwarded r (a_hash a) (a_at a) c);
          ((frames, bads), c2) = replay_chain chain c1
      in ((a_frame a # frames, bad @ bads), c2))"

definition switch_to ::
  "nat \<Rightarrow> instant \<Rightarrow> core \<Rightarrow> (bytes list \<times> (nat \<times> u32) list) option \<times> core" where
  "switch_to i now c =
     (case map_of (c_ups c) i of
        None \<Rightarrow> (None, c)
      | Some u \<Rightarrow>
          if \<not> can_continue (c_last_forwarded c) u then (None, c)
          else (case take_chain (c_last_forwarded c) u of
              ([], _) \<Rightarrow> (None, c)
            | (chain, u') \<Rightarrow>
                (let c1 = c\<lparr>c_ups := hm_update i (\<lambda>_. u') (c_ups c), c_active := i,
                            c_last_switch := Some now\<rparr>;
                     (out, c2) = replay_chain chain c1
                 in (Some out,
                     c2\<lparr>c_ups := map (\<lambda>(j, w). (j, w\<lparr>u_leads := []\<rparr>)) (c_ups c2)\<rparr>))))"

fun min_by_key :: "(nat \<times> int) list \<Rightarrow> (nat \<times> int) option" where
  "min_by_key [] = None"
| "min_by_key (p # rest) =
     (case min_by_key rest of
        None \<Rightarrow> Some p
      | Some q \<Rightarrow> Some (if snd p \<le> snd q then p else q))"

definition slowest_standby :: "int \<Rightarrow> (ip \<Rightarrow> bool) \<Rightarrow> core \<Rightarrow> (nat \<times> int) option" where
  "slowest_standby slower_ms exempt c =
     min_by_key (filter (\<lambda>(_, m). m < - slower_ms)
       (List.map_filter (\<lambda>(i, u). map_option (\<lambda>m. (i, m)) (median_lead u))
         (filter (\<lambda>(i, u). i \<noteq> c_active c \<and> \<not> exempt (u_ip u)) (c_ups c))))"

definition ip_of :: "nat \<Rightarrow> core \<Rightarrow> ip option" where
  "ip_of i c = map_option u_ip (map_of (c_ups c) i)"

definition standby_count :: "core \<Rightarrow> nat" where
  "standby_count c = length (c_ups c) - 1"

definition block_hash :: "(bytes \<Rightarrow> bytes option) \<Rightarrow> (bytes \<Rightarrow> hash64) \<Rightarrow> bytes \<Rightarrow> hash64" where
  "block_hash D H frame =
     (case decompress_block D (drop 5 frame) of
        Some dec \<Rightarrow> H (1 # dec)
      | None \<Rightarrow> H (0 # frame))"

definition classify ::
  "(bytes \<Rightarrow> bytes option) \<Rightarrow> (bytes \<Rightarrow> hash64) \<Rightarrow> bytes \<Rightarrow> (u32 \<times> u32 \<times> hash64) option" where
  "classify D H frame =
     (if length frame \<le> 5 \<or> frame ! 4 \<noteq> 1 then None
      else (case block_round_parent D (drop 5 frame) of
              None \<Rightarrow> None
            | Some (r, p) \<Rightarrow> Some (r, p, block_hash D H frame)))"

end
