(* ===== verification/HS_Gate.thy ===== *)
theory HS_Gate
  imports HS_Prelude
begin

text \<open>
  The contract shared by everything that decides which rounds reach a node: the failover core and
  the round gate of a plain relay. Each event emits some rounds; within one event they ascend
  strictly from the last round emitted, and the state remembers the last one. Then the whole
  stream of a run ascends strictly, so no node ever sees a round twice or out of order.
\<close>

fun gate_run :: "('e \<Rightarrow> 's \<Rightarrow> 's) \<Rightarrow> ('e \<Rightarrow> 's \<Rightarrow> 'r list) \<Rightarrow> 'e list \<Rightarrow> 's \<Rightarrow> 'r list \<times> 's" where
  "gate_run nxt emit [] s = ([], s)"
| "gate_run nxt emit (e # es) s =
     (let (rs, s') = gate_run nxt emit es (nxt e s) in (emit e s @ rs, s'))"

lemma last_max: "sorted_wrt (<) (l # rs) \<Longrightarrow> x \<in> set (l # rs) \<Longrightarrow> x \<le> last (l # (rs :: 'a::linorder list))"
  by (induction rs arbitrary: l) (auto dest: less_imp_le)

lemma sorted_snoc:
  "sorted_wrt (<) (l # rs) \<Longrightarrow> last (l # rs) < r \<Longrightarrow> sorted_wrt (<) (l # rs @ [r :: 'a::linorder])"
  using last_max[of l rs] by (fastforce simp: sorted_wrt_append)

locale forward_gate =
  fixes nxt :: "'e \<Rightarrow> 's \<Rightarrow> 's"
    and emit :: "'e \<Rightarrow> 's \<Rightarrow> ('r::linorder) list"
    and tip :: "'s \<Rightarrow> 'r"
    and inv :: "'s \<Rightarrow> bool"
    and ok :: "'e \<Rightarrow> bool"
  assumes inv_nxt: "inv s \<Longrightarrow> ok e \<Longrightarrow> inv (nxt e s)"
    and emit_ascends: "inv s \<Longrightarrow> ok e \<Longrightarrow> sorted_wrt (<) (tip s # emit e s)"
    and tip_nxt: "inv s \<Longrightarrow> ok e \<Longrightarrow> tip (nxt e s) = last (tip s # emit e s)"
begin

lemma run_inv: "inv s \<Longrightarrow> list_all ok es \<Longrightarrow> inv (snd (gate_run nxt emit es s))"
  by (induction es arbitrary: s) (simp_all add: inv_nxt case_prod_beta Let_def)

lemma run_tip:
  "inv s \<Longrightarrow> list_all ok es \<Longrightarrow>
    tip (snd (gate_run nxt emit es s)) = last (tip s # fst (gate_run nxt emit es s))"
  by (induction es arbitrary: s) (auto simp: inv_nxt case_prod_beta Let_def tip_nxt)

lemma run_ascends:
  assumes "inv s" "list_all ok es"
  shows "sorted_wrt (<) (tip s # fst (gate_run nxt emit es s))"
  using assms
proof (induction es arbitrary: s)
  case (Cons e es)
  let ?a = "tip s # emit e s" and ?b = "fst (gate_run nxt emit es (nxt e s))"
  have a: "sorted_wrt (<) ?a"
    using Cons.prems by (intro emit_ascends) simp_all
  have "sorted_wrt (<) (last ?a # ?b)"
    using Cons.IH[of "nxt e s"] Cons.prems by (simp add: inv_nxt tip_nxt)
  moreover have "x \<in> set ?a \<Longrightarrow> x \<le> last ?a" for x
    using a by (cases ?a rule: rev_cases) (auto simp: sorted_wrt_append less_imp_le)
  ultimately have "sorted_wrt (<) (?a @ ?b)"
    using a unfolding sorted_wrt_append by (auto intro: le_less_trans)
  then show ?case
    by (simp add: case_prod_beta Let_def)
qed simp

lemma run_above: "inv s \<Longrightarrow> list_all ok es \<Longrightarrow> r \<in> set (fst (gate_run nxt emit es s)) \<Longrightarrow> tip s < r"
  using run_ascends by fastforce

lemma run_distinct: "inv s \<Longrightarrow> list_all ok es \<Longrightarrow> distinct (fst (gate_run nxt emit es s))"
  using run_ascends[of s es] by (simp add: strict_sorted_iff)

end

end
