(* ===== verification/Failover_Inv.thy ===== *)
theory Failover_Inv
  imports Failover_Core HS_Gate
begin

text \<open>
  The invariant of the failover core and its preservation by every operation: buffers are sorted,
  byte-accounted and within their caps, every buffered block is newer than its parent and newer
  than the node's tip, and the forwarded window holds no round above the tip.
\<close>

section \<open>Buffers\<close>

definition ahead_size :: "(u32, ahead_blk) btree \<Rightarrow> nat" where
  "ahead_size m = sum_list (map (\<lambda>p. length (a_frame (snd p))) m)"

definition buf_wf :: "upstream \<Rightarrow> bool" where
  "buf_wf u \<longleftrightarrow> bt_ok (u_ahead u) \<and> u_ahead_bytes u = ahead_size (u_ahead u) \<and>
     (\<forall>(r, a) \<in> set (u_ahead u). a_parent a < r) \<and> length (u_leads u) \<le> LEAD_WINDOW"

definition buf_within :: "upstream \<Rightarrow> bool" where
  "buf_within u \<longleftrightarrow> length (u_ahead u) \<le> AHEAD_KEEP \<and> u_ahead_bytes u \<le> AHEAD_BYTES"

definition up_ok :: "upstream \<Rightarrow> bool" where
  "up_ok u \<longleftrightarrow> buf_wf u \<and> buf_within u"

named_theorems ahead_size_simps

lemma ahead_size_Nil [ahead_size_simps]: "ahead_size [] = 0"
  by (simp add: ahead_size_def)

lemma ahead_size_Cons [ahead_size_simps]:
  "ahead_size (p # m) = length (a_frame (snd p)) + ahead_size m"
  by (simp add: ahead_size_def)

lemma ahead_size_append [ahead_size_simps]: "ahead_size (m @ n) = ahead_size m + ahead_size n"
  by (simp add: ahead_size_def)

lemma ahead_size_remove:
  "bt_ok m \<Longrightarrow> bt_get m r = Some a \<Longrightarrow> ahead_size (bt_remove r m) + length (a_frame a) = ahead_size m"
proof (induction m)
  case (Cons p m)
  show ?case
  proof (cases "fst p = r")
    case True
    then have "bt_remove r (p # m) = m"
      using Cons.prems(1) by (cases p) (auto simp: bt_remove_def bt_ok_Cons filter_id_conv)
    with True Cons.prems(2) show ?thesis
      by (cases p) (simp add: bt_get_def ahead_size_simps)
  next
    case False
    then show ?thesis
      using Cons by (cases p) (simp add: bt_remove_def bt_get_def bt_ok_Cons ahead_size_simps)
  qed
qed (simp add: bt_get_def)

lemma ahead_size_insert:
  "bt_ok m \<Longrightarrow> ahead_size (bt_insert r a m) + (case bt_get m r of None \<Rightarrow> 0 | Some old \<Rightarrow> length (a_frame old))
    = ahead_size m + length (a_frame a)"
proof (induction r a m rule: bt_insert.induct)
  case (2 k v k' v' m)
  have "k < k' \<Longrightarrow> map_of m k = None"
    using 2 by (force simp: bt_ok_Cons map_of_eq_None_iff)
  with 2 show ?case
    by (auto simp: bt_get_def bt_ok_Cons ahead_size_simps split: option.splits)
qed (simp add: bt_get_def ahead_size_simps)

lemma buf_wf_shrink: "buf_wf u \<Longrightarrow> buf_wf (shrink_ahead u) \<and> buf_within (shrink_ahead u)"
proof (induction u rule: shrink_ahead.induct)
  case (1 u)
  show ?case
  proof (cases "AHEAD_KEEP < length (u_ahead u) \<or> AHEAD_BYTES < u_ahead_bytes u")
    case True
    then have "u_ahead u \<noteq> []"
      using "1.prems" by (auto simp: buf_wf_def ahead_size_simps)
    then obtain m r a where m: "u_ahead u = m @ [(r, a)]"
      by (cases "u_ahead u" rule: rev_cases) auto
    then have "buf_wf (u\<lparr>u_ahead := bt_pop_last (u_ahead u),
        u_ahead_bytes := u_ahead_bytes u - length (a_frame a), u_dropped_max := max (u_dropped_max u) r\<rparr>)"
      using "1.prems" by (simp add: buf_wf_def bt_pop_last_def bt_ok_append ahead_size_simps)
    with "1.IH"[OF True] m True show ?thesis
      by (simp add: shrink_ahead.simps[of u] bt_last_def)
  next
    case False
    with "1.prems" show ?thesis
      by (auto simp: shrink_ahead.simps[of u] buf_within_def)
  qed
qed

lemma up_ok_insert_ahead:
  assumes "buf_wf u" "a_parent a < r"
  shows "up_ok (insert_ahead r a u)"
proof -
  let ?b = "u_ahead_bytes u + length (a_frame a)"
  let ?u = "u\<lparr>u_ahead := bt_insert r a (u_ahead u),
     u_ahead_bytes := (case bt_get (u_ahead u) r of None \<Rightarrow> ?b | Some old \<Rightarrow> ?b - length (a_frame old))\<rparr>"
  have "u_ahead_bytes ?u = ahead_size (u_ahead ?u)"
    using assms(1) ahead_size_insert[of "u_ahead u" r a]
    by (auto simp: buf_wf_def split: option.splits)
  then have "buf_wf ?u"
    using assms set_bt_insert[of r a "u_ahead u"] by (auto simp: buf_wf_def bt_ok_insert)
  then show ?thesis
    unfolding up_ok_def insert_ahead_def Let_def by (rule buf_wf_shrink)
qed

lemma take_ahead_SomeD:
  assumes "take_ahead r u = Some (a, u')" "up_ok u"
  shows "up_ok u'" "u_ahead u' = bt_remove r (u_ahead u)" "bt_get (u_ahead u) r = Some a"
proof -
  from assms(1) have u': "u' = u\<lparr>u_ahead := bt_remove r (u_ahead u),
      u_ahead_bytes := u_ahead_bytes u - length (a_frame a)\<rparr>" and g: "bt_get (u_ahead u) r = Some a"
    by (auto simp: take_ahead_def split: option.splits)
  show "u_ahead u' = bt_remove r (u_ahead u)" "bt_get (u_ahead u) r = Some a"
    using u' g by simp_all
  have "length (bt_remove r (u_ahead u)) \<le> length (u_ahead u)"
    by (simp add: bt_remove_def)
  then show "up_ok u'"
    using assms(2) ahead_size_remove[of "u_ahead u" r a] g unfolding u'
    by (auto simp: up_ok_def buf_wf_def buf_within_def bt_ok_remove) (auto simp: bt_remove_def)
qed

lemma trim_ahead_ok:
  "up_ok u \<Longrightarrow> up_ok (trim_ahead f u) \<and> u_ahead (trim_ahead f u) = filter (\<lambda>p. f < fst p) (u_ahead u)"
proof (induction f u rule: trim_ahead.induct)
  case (1 f u)
  show ?case
  proof (cases "u_ahead u")
    case Nil
    with 1 show ?thesis by (simp add: trim_ahead.simps[of f u] bt_first_def)
  next
    case (Cons p m)
    obtain r a where p: "p = (r, a)" by (cases p)
    show ?thesis
    proof (cases "r \<le> f")
      case True
      let ?u = "u\<lparr>u_ahead := bt_pop_first (u_ahead u), u_ahead_bytes := u_ahead_bytes u - length (a_frame a)\<rparr>"
      have "up_ok ?u"
        using "1.prems" Cons p
        by (simp add: up_ok_def buf_wf_def buf_within_def bt_pop_first_def bt_ok_Cons ahead_size_simps)
      with True Cons p "1.IH"[of "(r, a)" r a] show ?thesis
        by (simp add: trim_ahead.simps[of f u] bt_first_def bt_pop_first_def)
    next
      case False
      then have "filter (\<lambda>p. f < fst p) m = m"
        using "1.prems" Cons p by (force simp: up_ok_def buf_wf_def bt_ok_Cons filter_id_conv)
      moreover have "f < r" using False by simp
      ultimately show ?thesis
        using False Cons p "1.prems" by (subst (1 2) trim_ahead.simps) (simp add: bt_first_def)
    qed
  qed
qed

lemmas up_ok_trim_ahead = trim_ahead_ok [THEN conjunct1]
lemmas u_ahead_trim_ahead = trim_ahead_ok [THEN conjunct2]

lemma up_ok_compared: "up_ok u \<Longrightarrow> up_ok (snd (compared b l u))"
  by (auto simp: compared_def push_lead_def up_ok_def buf_wf_def buf_within_def Let_def LEAD_WINDOW_def)

lemma u_ahead_compared: "u_ahead (snd (compared b l u)) = u_ahead u"
  by (simp add: compared_def push_lead_def Let_def)

lemma settle_one_ok:
  assumes "up_ok u"
  shows "up_ok (snd (settle_one r h t f u))"
    and "p \<in> set (u_ahead (snd (settle_one r h t f u))) \<Longrightarrow> p \<in> set (u_ahead u) \<and> f < fst p"
proof -
  have *: "up_ok (trim_ahead f (snd (compared b l u')))
      \<and> u_ahead (trim_ahead f (snd (compared b l u'))) = filter (\<lambda>p. f < fst p) (bt_remove r (u_ahead u))"
    if "take_ahead r u = Some (a, u')" for a u' b l
    using take_ahead_SomeD[OF that assms] by (simp add: trim_ahead_ok up_ok_compared u_ahead_compared)
  show "up_ok (snd (settle_one r h t f u))"
    using assms * by (simp add: settle_one_def trim_ahead_ok case_prod_beta Let_def split: option.split)
  show "p \<in> set (u_ahead (snd (settle_one r h t f u))) \<Longrightarrow> p \<in> set (u_ahead u) \<and> f < fst p"
    using assms *
    by (auto simp: settle_one_def trim_ahead_ok case_prod_beta Let_def bt_remove_def split: option.splits)
qed

section \<open>The chain a standby can hand over\<close>

fun links :: "u32 \<Rightarrow> (u32 \<times> ahead_blk) list \<Rightarrow> bool" where
  "links cur [] = True"
| "links cur ((r, a) # chain) = (a_parent a = cur \<and> links r chain)"

fun linked_prefix :: "u32 \<Rightarrow> (u32 \<times> ahead_blk) list \<Rightarrow> (u32 \<times> ahead_blk) list" where
  "linked_prefix cur [] = []"
| "linked_prefix cur ((r, a) # m) = (if a_parent a = cur then (r, a) # linked_prefix r m else [])"

lemma links_linked_prefix: "links cur (linked_prefix cur m)"
  by (induction cur m rule: linked_prefix.induct) auto

lemma linked_prefix_split: "\<exists>m'. m = linked_prefix cur m @ m'"
  by (induction cur m rule: linked_prefix.induct) auto

lemma linked_prefix_maximal:
  assumes "m = linked_prefix cur m @ (r, a) # m'"
  shows "a_parent a \<noteq> last (cur # map fst (linked_prefix cur m))"
  using assms by (induction cur m rule: linked_prefix.induct) (auto split: if_splits)

lemma set_linked_prefix: "set (linked_prefix cur m) \<subseteq> set m"
  using linked_prefix_split[of m cur] by (metis set_append sup_ge1)

lemma links_ascend:
  "links cur m \<Longrightarrow> \<forall>(r, a) \<in> set m. a_parent a < r \<Longrightarrow> sorted_wrt (<) (cur # map fst m)"
proof (induction cur m rule: links.induct)
  case (2 cur r a chain)
  then show ?case by (auto intro: less_trans)
qed simp

lemma chain_loop_prefix:
  "chain_loop cur n t m = (n + length (linked_prefix cur m),
     if t = None then (case linked_prefix cur m of [] \<Rightarrow> None | p # _ \<Rightarrow> Some (a_at (snd p))) else t)"
  by (induction cur m arbitrary: n t rule: linked_prefix.induct) auto

lemma range_after_first:
  fixes cur :: u32
  assumes "bt_ok m" "bt_range_from (saturating_add cur 1) m = (r, a) # rest"
  shows "bt_range_from (saturating_add r 1) (bt_remove r m) = rest"
proof -
  let ?lo = "saturating_add cur (1 :: u32)"
  have ok: "bt_ok ((r, a) # rest)"
    using bt_ok_range_from[OF assms(1), of ?lo] assms(2) by simp
  have "(r, a) \<in> set (bt_range_from ?lo m)"
    using assms(2) by simp
  then have "?lo \<le> r"
    by (simp add: set_bt_range_from)
  have nxt: "saturating_add r 1 \<le> k \<longleftrightarrow> r < k" if "k \<noteq> r" for k :: u32
  proof -
    have "unat k \<noteq> unat r"
      using that by (auto dest: unat_eqI)
    then show ?thesis
      using unat_u32_lt[of k] unat_u32_lt[of r]
      by (auto simp: word_le_nat_alt word_less_nat_alt unat_saturating_add min_def split: if_splits)
  qed
  have "bt_range_from (saturating_add r 1) (bt_remove r m) = filter (\<lambda>p. r < fst p) (bt_range_from ?lo m)"
    unfolding bt_range_from_def bt_remove_def filter_filter
    using nxt \<open>?lo \<le> r\<close> by (intro filter_cong) (auto dest: order.strict_implies_order)
  also have "\<dots> = rest"
    using ok assms(2) by (simp add: bt_ok_Cons)
  finally show ?thesis .
qed

lemma take_chain_prefix:
  "up_ok u \<Longrightarrow> fst (take_chain cur u) = linked_prefix cur (bt_range_from (saturating_add cur 1) (u_ahead u))
    \<and> up_ok (snd (take_chain cur u)) \<and> set (u_ahead (snd (take_chain cur u))) \<subseteq> set (u_ahead u)"
proof (induction cur u rule: take_chain.induct)
  case (1 cur u)
  show ?case
  proof (cases "bt_range_from (saturating_add cur 1) (u_ahead u)")
    case Nil
    with 1 show ?thesis by (simp add: take_chain.simps[of cur u])
  next
    case (Cons p rest)
    obtain r a where p: "p = (r, a)" by (cases p)
    show ?thesis
    proof (cases "a_parent a = cur")
      case True
      have mem: "(r, a) \<in> set (u_ahead u)"
        using Cons p set_bt_range_from[of "saturating_add cur 1" "u_ahead u"] by auto
      have ok: "bt_ok (u_ahead u)"
        using "1.prems" by (simp add: up_ok_def buf_wf_def)
      obtain u' where t: "take_ahead r u = Some (a, u')"
        using mem bt_get_in_set[OF ok, of r a] by (simp add: take_ahead_def)
      note tk = take_ahead_SomeD[OF t "1.prems"]
      have rest: "bt_range_from (saturating_add r 1) (u_ahead u') = rest"
        using range_after_first[OF ok Cons[unfolded p]] tk by simp
      show ?thesis
        using "1.IH"[OF Cons[unfolded p] refl, of "(a, u')" a u'] True t tk Cons p rest
        by (auto simp: take_chain.simps[of cur u] case_prod_beta Let_def bt_remove_def)
    next
      case False
      with Cons p "1.prems" show ?thesis by (simp add: take_chain.simps[of cur u])
    qed
  qed
qed

definition switch_chain :: "nat \<Rightarrow> core \<Rightarrow> (u32 \<times> ahead_blk) list" where
  "switch_chain i c =
     (case map_of (c_ups c) i of
        None \<Rightarrow> []
      | Some u \<Rightarrow>
          if can_continue (c_last_forwarded c) u
          then linked_prefix (c_last_forwarded c)
                 (bt_range_from (saturating_add (c_last_forwarded c) 1) (u_ahead u))
          else [])"

lemma chain_len_switch_chain:
  "map_of (c_ups c) i = Some u \<Longrightarrow> chain_len (c_last_forwarded c) u =
     (length (switch_chain i c), case switch_chain i c of [] \<Rightarrow> None | p # _ \<Rightarrow> Some (a_at (snd p)))"
  by (simp add: chain_len_def switch_chain_def chain_loop_prefix)

section \<open>The core invariant\<close>

definition core_wf :: "core \<Rightarrow> bool" where
  "core_wf c \<longleftrightarrow> distinct (map fst (c_ups c)) \<and> (\<forall>(i, u) \<in> set (c_ups c). up_ok u) \<and>
     bt_ok (c_forwarded c) \<and> length (c_forwarded c) \<le> FORWARDED_KEEP \<and>
     (\<forall>p \<in> set (c_forwarded c). fst p \<le> c_last_forwarded c)"

definition standbys_ahead :: "core \<Rightarrow> bool" where
  "standbys_ahead c \<longleftrightarrow> (\<forall>(i, u) \<in> set (c_ups c). i \<noteq> c_active c \<longrightarrow>
     (\<forall>p \<in> set (u_ahead u). c_last_forwarded c < fst p))"

definition core_ok :: "core \<Rightarrow> bool" where
  "core_ok c \<longleftrightarrow> core_wf c \<and> standbys_ahead c"

lemma snd_settle_list:
  "snd (settle_list act r h t f ups) =
     map (\<lambda>(i, u). (i, if i = act then u else snd (settle_one r h t f u))) ups"
  by (induction ups) (auto simp: case_prod_beta Let_def)

lemma fst_settle_list:
  "fst (settle_list act r h t f ups) =
     map (\<lambda>(i, u). (i, r)) (filter (\<lambda>(i, u). i \<noteq> act \<and> fst (settle_one r h t f u)) ups)"
  by (induction ups) (auto simp: case_prod_beta Let_def)

definition advance :: "u32 \<Rightarrow> hash64 \<Rightarrow> instant \<Rightarrow> core \<Rightarrow> core" where
  "advance r h t c = snd (settle_standbys r h t (record_forwarded r h t c))"

lemma advance_fields [simp]:
  "c_last_forwarded (advance r h t c) = r" "c_active (advance r h t c) = c_active c"
  "c_stall (advance r h t c) = c_stall c" "c_lag (advance r h t c) = c_lag c"
  "c_min_dwell (advance r h t c) = c_min_dwell c" "c_last_switch (advance r h t c) = c_last_switch c"
  by (simp_all add: advance_def settle_standbys_def record_forwarded_def Let_def case_prod_beta)

lemma c_ups_advance:
  "c_ups (advance r h t c) =
     map (\<lambda>(i, u). (i, if i = c_active c then u else snd (settle_one r h t r u))) (c_ups c)"
  by (simp add: advance_def settle_standbys_def record_forwarded_def Let_def case_prod_beta snd_settle_list)

lemma c_forwarded_advance:
  "c_forwarded (advance r h t c) =
     (let f = bt_insert r (h, t) (c_forwarded c) in drop (length f - FORWARDED_KEEP) f)"
  by (simp add: advance_def settle_standbys_def record_forwarded_def Let_def case_prod_beta)

lemma bt_ok_drop: "bt_ok m \<Longrightarrow> bt_ok (drop n m)"
  using bt_ok_append[of "take n m" "drop n m"] by simp

lemma core_ok_advance:
  assumes "core_wf c" "c_last_forwarded c \<le> r"
  shows "core_ok (advance r h t c)"
proof -
  let ?f = "bt_insert r (h, t) (c_forwarded c)"
  have "\<forall>p \<in> set ?f. fst p \<le> r"
    using assms set_bt_insert[of r "(h, t)" "c_forwarded c"] by (force simp: core_wf_def)
  then have "\<forall>p \<in> set (drop n ?f). fst p \<le> r" for n
    by (meson in_set_dropD)
  then have "core_wf (advance r h t c)"
    using assms(1) settle_one_ok(1)
    by (auto simp: core_wf_def c_ups_advance c_forwarded_advance Let_def bt_ok_drop bt_ok_insert
        comp_def case_prod_beta)
  moreover have "standbys_ahead (advance r h t c)"
    using assms(1) by (auto simp: standbys_ahead_def c_ups_advance core_wf_def dest!: settle_one_ok(2)[rotated])
  ultimately show ?thesis
    by (simp add: core_ok_def)
qed

end
