(* ===== verification/Failover_Switch.thy ===== *)
theory Failover_Switch
  imports Failover_Inv
begin

text \<open>
  Switching upstreams: what \<open>switch_to\<close> hands the node, that every event keeps the core invariant,
  that the rounds a session forwards ascend strictly whatever the upstreams send, and that
  \<open>pick_switch\<close> only names standbys that can take over.
\<close>

section \<open>switch_to\<close>

lemma replay_chain_Cons:
  "snd (replay_chain ((r, a) # chain) c) = snd (replay_chain chain (advance r (a_hash a) (a_at a) c))"
  "fst (fst (replay_chain ((r, a) # chain) c)) =
     a_frame a # fst (fst (replay_chain chain (advance r (a_hash a) (a_at a) c)))"
  by (simp_all add: advance_def case_prod_beta Let_def)

lemma replay_chain_frames: "fst (fst (replay_chain chain c)) = map (a_frame \<circ> snd) chain"
  by (induction chain arbitrary: c) (auto simp: replay_chain_Cons simp del: replay_chain.simps(2))

lemma replay_chain_fields:
  "c_last_forwarded (snd (replay_chain chain c)) = last (c_last_forwarded c # map fst chain) \<and>
   c_active (snd (replay_chain chain c)) = c_active c \<and>
   c_last_switch (snd (replay_chain chain c)) = c_last_switch c \<and>
   map fst (c_ups (snd (replay_chain chain c))) = map fst (c_ups c)"
  by (induction chain arbitrary: c)
    (auto simp: replay_chain_Cons c_ups_advance comp_def case_prod_beta simp del: replay_chain.simps(2))

lemma replay_chain_ok:
  "core_wf c \<Longrightarrow> sorted_wrt (<) (c_last_forwarded c # map fst chain) \<Longrightarrow> chain \<noteq> [] \<Longrightarrow>
     core_ok (snd (replay_chain chain c))"
proof (induction chain arbitrary: c)
  case (Cons p chain)
  obtain r a where p: "p = (r, a)" by (cases p)
  have "core_ok (advance r (a_hash a) (a_at a) c)"
    using Cons.prems p by (intro core_ok_advance) (auto simp: less_imp_le)
  moreover from this have "chain \<noteq> [] \<Longrightarrow>
      core_ok (snd (replay_chain chain (advance r (a_hash a) (a_at a) c)))"
    using Cons.prems p by (intro Cons.IH) (auto simp: core_ok_def)
  ultimately show ?case
    unfolding p replay_chain_Cons by (cases "chain = []") simp_all
qed simp

lemma map_of_up_ok: "core_wf c \<Longrightarrow> map_of (c_ups c) i = Some u \<Longrightarrow> up_ok u"
  by (auto simp: core_wf_def dest: map_of_SomeD)

lemma core_wf_put:
  "core_wf c \<Longrightarrow> up_ok u \<Longrightarrow> core_wf (c\<lparr>c_ups := hm_update i (\<lambda>_. u) (c_ups c)\<rparr>)"
  by (fastforce simp: core_wf_def in_set_hm_update)

lemma switch_chain_ascends:
  assumes "core_wf c"
  shows "sorted_wrt (<) (c_last_forwarded c # map fst (switch_chain i c))"
proof (cases "map_of (c_ups c) i")
  case (Some u)
  have "\<forall>(r, a) \<in> set (linked_prefix l (bt_range_from k (u_ahead u))). a_parent a < r" for l k
    using map_of_up_ok[OF assms Some] set_linked_prefix[of l "bt_range_from k (u_ahead u)"]
    by (auto simp: up_ok_def buf_wf_def set_bt_range_from)
  then have "sorted_wrt (<) (l # map fst (linked_prefix l (bt_range_from k (u_ahead u))))" for l k
    by (rule links_ascend[OF links_linked_prefix])
  with Some show ?thesis
    by (simp only: switch_chain_def option.case split: if_split) simp
qed (simp add: switch_chain_def)

lemma switch_to_cases:
  assumes "core_wf c"
  obtains (no) "switch_chain i c = []" "switch_to i now c = (None, c)"
  | (yes) u u' where "switch_chain i c \<noteq> []" "map_of (c_ups c) i = Some u" "up_ok u'"
      "can_continue (c_last_forwarded c) u"
      "switch_to i now c =
         (let (out, c2) = replay_chain (switch_chain i c)
                (c\<lparr>c_ups := hm_update i (\<lambda>_. u') (c_ups c), c_active := i, c_last_switch := Some now\<rparr>)
          in (Some out, c2\<lparr>c_ups := map (\<lambda>(j, w). (j, w\<lparr>u_leads := []\<rparr>)) (c_ups c2)\<rparr>))"
proof (cases "switch_chain i c = []")
  case True
  then have "switch_to i now c = (None, c)"
    using take_chain_prefix map_of_up_ok[OF assms]
    by (auto simp: switch_to_def switch_chain_def split: option.splits list.splits prod.splits)
      (metis fst_conv list.distinct(1))
  with True show ?thesis by (rule no)
next
  case False
  then obtain u where u: "map_of (c_ups c) i = Some u" "can_continue (c_last_forwarded c) u"
    by (auto simp: switch_chain_def split: option.splits if_splits)
  note tk = take_chain_prefix[OF map_of_up_ok[OF assms u(1)], of "c_last_forwarded c"]
  then obtain u' where u': "take_chain (c_last_forwarded c) u = (switch_chain i c, u')" "up_ok u'"
    using u by (cases "take_chain (c_last_forwarded c) u") (simp add: switch_chain_def)
  obtain p m where "switch_chain i c = p # m"
    using False by (cases "switch_chain i c") auto
  with u u' yes[of u u'] show ?thesis
    by (simp add: switch_to_def)
qed

lemma core_ok_switch_to:
  assumes "core_ok c"
  shows "core_ok (snd (switch_to i now c))"
    and "c_last_forwarded (snd (switch_to i now c)) = last (c_last_forwarded c # map fst (switch_chain i c))"
proof -
  have wf: "core_wf c" using assms by (simp add: core_ok_def)
  show "core_ok (snd (switch_to i now c))"
    using wf
  proof (cases rule: switch_to_cases[where i = i and now = now])
    case no
    with assms show ?thesis by simp
  next
    case (yes u u')
    let ?c = "c\<lparr>c_ups := hm_update i (\<lambda>_. u') (c_ups c), c_active := i, c_last_switch := Some now\<rparr>"
    have "core_wf ?c"
      using core_wf_put[OF wf yes(3), of i] by (simp add: core_wf_def)
    then have "core_ok (snd (replay_chain (switch_chain i c) ?c))"
      using yes(1) switch_chain_ascends[OF wf, of i] by (intro replay_chain_ok) simp_all
    then show ?thesis
      unfolding yes(5)
      by (auto simp: case_prod_beta Let_def core_ok_def core_wf_def standbys_ahead_def comp_def
          up_ok_def buf_wf_def buf_within_def)
  qed
  show "c_last_forwarded (snd (switch_to i now c)) = last (c_last_forwarded c # map fst (switch_chain i c))"
    using wf by (cases rule: switch_to_cases[where i = i and now = now])
      (simp_all add: case_prod_beta Let_def replay_chain_fields)
qed

section \<open>Every event keeps the invariant\<close>

datatype core_ev =
    EvActive u32 hash64 instant
  | EvStandby nat u32 u32 hash64 instant bytes
  | EvAdd nat ip
  | EvPrefer nat
  | EvRemove nat
  | EvSwitch nat instant

fun core_next :: "core_ev \<Rightarrow> core \<Rightarrow> core" where
  "core_next (EvActive r h t) c = snd (on_active_block r h t c)"
| "core_next (EvStandby i r p h t f) c = snd (on_standby_block i r p h t f c)"
| "core_next (EvAdd i a) c = add_standby i a c"
| "core_next (EvPrefer i) c = mark_preferred i c"
| "core_next (EvRemove i) c = snd (remove_up i c)"
| "core_next (EvSwitch i now) c = snd (switch_to i now c)"

text \<open>The rounds an event sends to the node.\<close>

fun core_emit :: "core_ev \<Rightarrow> core \<Rightarrow> u32 list" where
  "core_emit (EvActive r h t) c = (if fst (fst (on_active_block r h t c)) then [r] else [])"
| "core_emit (EvSwitch i now) c = (if fst (switch_to i now c) = None then [] else map fst (switch_chain i c))"
| "core_emit _ c = []"

text \<open>What \<open>classify\<close> guarantees of every block: a non-zero round above its parent.\<close>

fun ev_ok :: "core_ev \<Rightarrow> bool" where
  "ev_ok (EvActive r h t) = (r \<noteq> 0)"
| "ev_ok (EvStandby i r p h t f) = (p < r)"
| "ev_ok _ = True"

lemma shrink_ahead_split:
  "\<exists>d. u_ahead u = u_ahead (shrink_ahead u) @ d \<and> (\<forall>p \<in> set d. fst p \<le> u_dropped_max (shrink_ahead u)) \<and>
     u_dropped_max u \<le> u_dropped_max (shrink_ahead u)"
proof (induction u rule: shrink_ahead.induct)
  case (1 u)
  show ?case
  proof (cases "(AHEAD_KEEP < length (u_ahead u) \<or> AHEAD_BYTES < u_ahead_bytes u) \<and> u_ahead u \<noteq> []")
    case True
    then obtain m r a where m: "u_ahead u = m @ [(r, a)]"
      by (cases "u_ahead u" rule: rev_cases) auto
    let ?u = "u\<lparr>u_ahead := m, u_ahead_bytes := u_ahead_bytes u - length (a_frame a),
      u_dropped_max := max (u_dropped_max u) r\<rparr>"
    have s: "shrink_ahead u = shrink_ahead ?u"
      using True m by (subst shrink_ahead.simps) (simp add: bt_last_def bt_pop_last_def)
    obtain d where "m = u_ahead (shrink_ahead ?u) @ d"
      "\<forall>p \<in> set d. fst p \<le> u_dropped_max (shrink_ahead ?u)" "max (u_dropped_max u) r \<le> u_dropped_max (shrink_ahead ?u)"
      using "1.IH"[of "(r, a)" r a] True m by (auto simp: bt_last_def bt_pop_last_def)
    then show ?thesis
      unfolding s m by (intro exI[of _ "d @ [(r, a)]"]) auto
  next
    case False
    then have "shrink_ahead u = u"
      by (subst shrink_ahead.simps) (auto simp: bt_last_def)
    then show ?thesis by simp
  qed
qed

lemma set_shrink_ahead: "set (u_ahead (shrink_ahead u)) \<subseteq> set (u_ahead u)"
  using shrink_ahead_split[of u] by (metis set_append sup_ge1)

lemma set_insert_ahead: "set (u_ahead (insert_ahead r a u)) \<subseteq> insert (r, a) (set (u_ahead u))"
  using set_shrink_ahead set_bt_insert[of r a "u_ahead u"]
  by (fastforce simp: insert_ahead_def Let_def)

lemma up_ok_new: "up_ok (upstream_new a)"
  by (simp add: up_ok_def buf_wf_def buf_within_def upstream_new_def ahead_size_simps)

lemma core_ok_new: "core_ok (core_new i a l st lg dw)"
  by (simp add: core_ok_def core_wf_def standbys_ahead_def core_new_def up_ok_new)

lemma set_AList_update: "(j, w) \<in> set (AList.update i v m) \<Longrightarrow> (j, w) = (i, v) \<or> (j, w) \<in> set m"
  by (induction m) (auto split: if_splits)

lemma core_ok_add: "core_ok c \<Longrightarrow> core_ok (add_standby i a c)"
  unfolding core_ok_def core_wf_def standbys_ahead_def add_standby_def
  by (auto simp: up_ok_new distinct_update dest!: set_AList_update) (auto simp: upstream_new_def)

lemma ball_pair: "(\<forall>x \<in> S. case x of (a, b) \<Rightarrow> P a b) \<longleftrightarrow> (\<forall>a b. (a, b) \<in> S \<longrightarrow> P a b)"
  by auto

lemmas core_ok_unfold = core_ok_def core_wf_def standbys_ahead_def ball_pair

lemma core_ok_hm_update:
  assumes "core_ok c" "\<And>u. up_ok u \<Longrightarrow> up_ok (f u)" "\<And>u. u_ahead (f u) = u_ahead u"
  shows "core_ok (c\<lparr>c_ups := hm_update i f (c_ups c)\<rparr>)"
  using assms unfolding core_ok_unfold by (auto simp: in_set_hm_update) (metis fst_conv)+

lemma core_ok_mark: "core_ok c \<Longrightarrow> core_ok (mark_preferred i c)"
  unfolding mark_preferred_def
  by (rule core_ok_hm_update) (simp_all add: up_ok_def buf_wf_def buf_within_def)

lemma core_ok_remove: "core_ok c \<Longrightarrow> core_ok (snd (remove_up i c))"
  unfolding core_ok_def core_wf_def standbys_ahead_def remove_up_def
  by (auto simp: AList.delete_eq distinct_map_filter)

lemma core_ok_rx: "core_ok c \<Longrightarrow>
    core_ok (c\<lparr>c_ups := hm_update i (\<lambda>u. u\<lparr>u_last_rx := t\<rparr>) (c_ups c)\<rparr>)"
  by (rule core_ok_hm_update) (simp_all add: up_ok_def buf_wf_def buf_within_def)

lemma on_active_block_eq:
  "on_active_block r h t c =
     (let c1 = c\<lparr>c_ups := hm_update (c_active c) (\<lambda>u. u\<lparr>u_last_rx := Some t\<rparr>) (c_ups c)\<rparr>
      in if c_last_forwarded c \<noteq> 0 \<and> r \<le> c_last_forwarded c then ((False, []), c1)
         else ((True, fst (settle_standbys r h t (record_forwarded r h t c1))), advance r h t c1))"
  by (simp add: on_active_block_def advance_def case_prod_beta Let_def)

lemma core_ok_active: "core_ok c \<Longrightarrow> core_ok (snd (on_active_block r h t c))"
  using core_ok_rx[of c "c_active c" "Some t"] unfolding on_active_block_eq Let_def
  by (cases "c_last_forwarded c \<noteq> 0 \<and> r \<le> c_last_forwarded c")
    (auto simp: core_ok_def[of "c\<lparr>c_ups := m\<rparr>" for m] intro!: core_ok_advance)

lemma core_ok_put:
  assumes "core_ok c" "up_ok u" "i \<noteq> c_active c \<Longrightarrow> \<forall>p \<in> set (u_ahead u). c_last_forwarded c < fst p"
  shows "core_ok (c\<lparr>c_ups := hm_update i (\<lambda>_. u) (c_ups c)\<rparr>)"
  using assms core_wf_put[of c u i] by (auto simp: core_ok_def standbys_ahead_def ball_pair in_set_hm_update)

lemma core_ok_standby:
  assumes "core_ok c" "p < r"
  shows "core_ok (snd (on_standby_block i r p h t f c))"
proof (cases "map_of (c_ups c) i")
  case None
  with assms show ?thesis by (simp add: on_standby_block_def)
next
  case (Some u)
  let ?u = "u\<lparr>u_last_rx := Some t\<rparr>"
  have ok: "up_ok ?u"
    using map_of_up_ok[of c i u] assms(1) Some
    by (simp add: core_ok_def up_ok_def buf_wf_def buf_within_def)
  have low: "i \<noteq> c_active c \<Longrightarrow> \<forall>p \<in> set (u_ahead ?u). c_last_forwarded c < fst p"
    using map_of_SomeD[OF Some] assms(1) by (auto simp: core_ok_def standbys_ahead_def)
  show ?thesis
  proof (cases "r \<le> c_last_forwarded c")
    case True
    then show ?thesis
      using Some ok low core_ok_put[OF assms(1)] up_ok_compared[OF ok] u_ahead_compared[of _ _ ?u]
      by (auto simp: on_standby_block_def Let_def case_prod_beta split: option.splits)
  next
    case False
    let ?a = "\<lparr>a_parent = p, a_hash = h, a_at = t, a_frame = f\<rparr>"
    have "up_ok (insert_ahead r ?a ?u)"
      using ok assms(2) by (intro up_ok_insert_ahead) (simp_all add: up_ok_def)
    moreover have "i \<noteq> c_active c \<Longrightarrow> \<forall>p \<in> set (u_ahead (insert_ahead r ?a ?u)). c_last_forwarded c < fst p"
      using low set_insert_ahead[of r ?a ?u] False by fastforce
    ultimately show ?thesis
      using Some False core_ok_put[OF assms(1)] by (simp add: on_standby_block_def Let_def)
  qed
qed

lemma core_ok_next: "core_ok c \<Longrightarrow> ev_ok e \<Longrightarrow> core_ok (core_next e c)"
  by (cases e) (simp_all add: core_ok_active core_ok_standby core_ok_add core_ok_mark core_ok_remove
      core_ok_switch_to)

lemma c_last_forwarded_standby [simp]:
  "c_last_forwarded (snd (on_standby_block i r p h t f c)) = c_last_forwarded c"
  by (auto simp: on_standby_block_def Let_def case_prod_beta split: option.split)

lemma switch_none_iff: "core_wf c \<Longrightarrow> fst (switch_to i now c) = None \<longleftrightarrow> switch_chain i c = []"
  by (cases rule: switch_to_cases[where i = i and now = now]) (auto simp: Let_def case_prod_beta)

interpretation fg: forward_gate core_next core_emit c_last_forwarded core_ok ev_ok
proof (unfold_locales, goal_cases)
  case (1 s e)
  then show ?case by (rule core_ok_next)
next
  case (2 s e)
  then show ?case
    using switch_chain_ascends[of s]
    by (cases e) (auto simp: on_active_block_eq Let_def core_ok_def not_le word_neq_0_conv)
next
  case (3 s e)
  then show ?case
    by (cases e) (auto simp: on_active_block_eq Let_def core_ok_switch_to add_standby_def mark_preferred_def
        remove_up_def core_ok_def switch_none_iff)
qed

end
