(* ===== verification/Failover_Props.thy ===== *)
theory Failover_Props
  imports Failover_Switch
begin

text \<open>
  The properties of the failover core: the stream the node gets, the bounds of the buffers, what a
  switch delivers, which standby is picked, how standbys are verified and dropped, and that a
  buffer has no silent hole when its standby may take over.
\<close>

section \<open>Sample session\<close>

definition blk :: "u32 \<Rightarrow> core_ev" where
  "blk r = EvActive r (ucast r) 0"

definition sb :: "nat \<Rightarrow> u32 \<Rightarrow> core_ev" where
  "sb i r = EvStandby i r (r - 1) (ucast r) 0 [1, 2]"

definition sample_core :: core where
  "sample_core = core_new 1 ''10.0.0.1'' 0 (from_millis 700) (from_millis 100) (from_secs 5)"

definition sample_events :: "core_ev list" where
  "sample_events = [EvAdd 2 ''10.0.0.2'', blk 10, blk 11, blk 12, sb 2 10, sb 2 11, sb 2 12, sb 2 13,
     sb 2 14, blk 11, sb 2 16]"

lemmas core_eval = sample_core_def core_new_def blk_def sb_def upstream_new_def add_standby_def
  on_active_block_def on_standby_block_def hm_update_def record_forwarded_def settle_standbys_def
  settle_one_def compared_def push_lead_def insert_ahead_def take_ahead_def shrink_ahead.simps
  trim_ahead.simps switch_to_def switch_chain_def can_continue_def take_chain.simps
  bt_get_def bt_first_def bt_pop_first_def bt_remove_def bt_range_from_def saturating_add_def
  AHEAD_KEEP_def AHEAD_BYTES_def LEAD_WINDOW_def FORWARDED_KEEP_def MAX_MISMATCHES_def Let_def

section \<open>The stream the node gets\<close>

text \<open>C2. Whatever the upstreams send and whenever the session switches, the rounds forwarded to the
  node ascend strictly, starting above the round the session began with, and the core's tip is
  the last of them.\<close>
theorem session_rounds_ascend:
  assumes "core_ok c" "list_all ev_ok es"
  shows "sorted_wrt (<) (c_last_forwarded c # fst (gate_run core_next core_emit es c)) \<and>
    c_last_forwarded (snd (gate_run core_next core_emit es c)) =
      last (c_last_forwarded c # fst (gate_run core_next core_emit es c))"
  using fg.run_ascends[OF assms] fg.run_tip[OF assms] by simp

theorem session_rounds_ascend_witness:
  "core_ok sample_core \<and> list_all ev_ok (sample_events @ [EvSwitch 2 9]) \<and>
   fst (gate_run core_next core_emit (sample_events @ [EvSwitch 2 9]) sample_core) = [10, 11, 12, 13, 14] \<and>
   sorted_wrt (<) (c_last_forwarded sample_core #
     fst (gate_run core_next core_emit (sample_events @ [EvSwitch 2 9]) sample_core))"
proof -
  have "core_ok sample_core"
    unfolding sample_core_def by (rule core_ok_new)
  moreover have "list_all ev_ok (sample_events @ [EvSwitch 2 9])"
    by (simp add: sample_events_def blk_def sb_def)
  moreover have "fst (gate_run core_next core_emit (sample_events @ [EvSwitch 2 9]) sample_core) = [10, 11, 12, 13, 14]"
    by (simp add: sample_events_def core_eval)
  ultimately show ?thesis
    using session_rounds_ascend[of sample_core "sample_events @ [EvSwitch 2 9]"] by simp
qed

text \<open>C33. In every state a session reaches, a standby buffers at most 512 blocks and 32 MiB, its byte
  count is exact, it keeps at most 40 lead samples, every block it buffers is newer than the
  node's tip, and the core remembers at most 1024 forwarded rounds.\<close>
theorem session_bounds:
  assumes "list_all ev_ok es"
    and "c = snd (gate_run core_next core_emit es (core_new i0 a0 l0 st lg dw))"
    and "map_of (c_ups c) i = Some u"
  shows "length (c_forwarded c) \<le> 1024 \<and> length (u_ahead u) \<le> 512 \<and>
    u_ahead_bytes u = ahead_size (u_ahead u) \<and> u_ahead_bytes u \<le> 33554432 \<and> length (u_leads u) \<le> 40 \<and>
    (i \<noteq> c_active c \<longrightarrow> (\<forall>(r, a) \<in> set (u_ahead u). c_last_forwarded c < r \<and> a_parent a < r))"
proof -
  have ok: "core_ok c"
    using fg.run_inv[OF core_ok_new assms(1)] assms(2) by simp
  then have u: "up_ok u"
    using map_of_up_ok[of c i u] assms(3) by (simp add: core_ok_def)
  have "i \<noteq> c_active c \<Longrightarrow> (r, a) \<in> set (u_ahead u) \<Longrightarrow> c_last_forwarded c < r" for r a
    using ok map_of_SomeD[OF assms(3)] by (force simp: core_ok_def standbys_ahead_def)
  with ok u show ?thesis
    by (auto simp: core_ok_def core_wf_def up_ok_def buf_wf_def buf_within_def
        AHEAD_KEEP_def AHEAD_BYTES_def LEAD_WINDOW_def FORWARDED_KEEP_def)
qed

definition sample_reached :: core where
  "sample_reached = snd (gate_run core_next core_emit sample_events sample_core)"

definition sample_standby :: upstream where
  "sample_standby = \<lparr>u_ip = ''10.0.0.2'', u_verified = 3, u_mismatches = 0,
     u_ahead = [(13, \<lparr>a_parent = 12, a_hash = 13, a_at = 0, a_frame = [1, 2]\<rparr>),
                (14, \<lparr>a_parent = 13, a_hash = 14, a_at = 0, a_frame = [1, 2]\<rparr>),
                (16, \<lparr>a_parent = 15, a_hash = 16, a_at = 0, a_frame = [1, 2]\<rparr>)],
     u_ahead_bytes = 6, u_dropped_max = 0, u_leads = [0, 0, 0], u_last_rx = Some 0, u_preferred = False\<rparr>"

lemma sample_events_ok: "list_all ev_ok sample_events"
  by (simp add: sample_events_def blk_def sb_def)

lemma sample_reached_eq:
  "sample_reached = \<lparr>c_last_forwarded = 12,
     c_forwarded = [(10, (10, 0)), (11, (11, 0)), (12, (12, 0))], c_active = 1,
     c_ups = [(1, (upstream_new ''10.0.0.1'')\<lparr>u_last_rx := Some 0\<rparr>), (2, sample_standby)],
     c_last_switch = None, c_stall = from_millis 700, c_lag = from_millis 100, c_min_dwell = from_secs 5\<rparr>"
  by (simp add: sample_reached_def sample_standby_def sample_events_def core_eval as_millis_def)

lemma sample_reached_ok: "core_ok sample_reached"
  unfolding sample_reached_def sample_core_def by (rule fg.run_inv[OF core_ok_new sample_events_ok])

theorem session_bounds_witness:
  "\<exists>u. map_of (c_ups sample_reached) 2 = Some u \<and> length (u_ahead u) = 3 \<and> u_ahead_bytes u = 6 \<and>
     (\<forall>(r, a) \<in> set (u_ahead u). c_last_forwarded sample_reached < r \<and> a_parent a < r)"
  using session_bounds[OF sample_events_ok sample_reached_def[unfolded sample_core_def], of 2 sample_standby]
  by (simp add: sample_reached_eq sample_standby_def)

section \<open>Switching\<close>

text \<open>C3. A switch never leaves a gap: the frames sent are those of the standby's buffered blocks
  directly above the node's tip, each the child of the one before and the first the child of the
  tip; the run is as long as the parent links allow, nothing the standby discarded is missing, and
  the tip moves to its last round.\<close>
theorem switch_to_gap_free:
  assumes "core_ok c" "switch_to i now c = (Some (frames, bad), c')"
  shows "\<exists>u chain rest. map_of (c_ups c) i = Some u \<and> u_dropped_max u \<le> c_last_forwarded c \<and>
    chain \<noteq> [] \<and> bt_range_from (saturating_add (c_last_forwarded c) 1) (u_ahead u) = chain @ rest \<and>
    links (c_last_forwarded c) chain \<and> frames = map (\<lambda>(r, a). a_frame a) chain \<and>
    (case rest of [] \<Rightarrow> True | (r, a) # _ \<Rightarrow> a_parent a \<noteq> fst (last chain)) \<and>
    c_last_forwarded c' = fst (last chain) \<and> c_active c' = i \<and> c_last_switch c' = Some now"
proof -
  have wf: "core_wf c" using assms(1) by (simp add: core_ok_def)
  from wf show ?thesis
  proof (cases rule: switch_to_cases[where i = i and now = now])
    case no
    with assms(2) show ?thesis by simp
  next
    case (yes u u')
    let ?m = "bt_range_from (saturating_add (c_last_forwarded c) 1) (u_ahead u)"
    have ch: "switch_chain i c = linked_prefix (c_last_forwarded c) ?m"
      using yes(2,4) by (simp add: switch_chain_def)
    obtain rest where rest: "?m = switch_chain i c @ rest"
      using linked_prefix_split ch by metis
    have "case rest of [] \<Rightarrow> True | (r, a) # _ \<Rightarrow> a_parent a \<noteq> fst (last (switch_chain i c))"
    proof (cases rest)
      case (Cons p rest')
      obtain r a where "p = (r, a)" by (cases p)
      with Cons rest ch have "a_parent a \<noteq> last (c_last_forwarded c # map fst (switch_chain i c))"
        using linked_prefix_maximal[of ?m "c_last_forwarded c" r a rest'] by metis
      with Cons yes(1) \<open>p = (r, a)\<close> show ?thesis by (simp add: last_map)
    qed simp
    moreover have "links (c_last_forwarded c) (switch_chain i c)"
      unfolding ch by (rule links_linked_prefix)
    moreover have "frames = map (\<lambda>(r, a). a_frame a) (switch_chain i c)"
      using assms(2) replay_chain_frames[of "switch_chain i c" "c\<lparr>c_ups := hm_update i (\<lambda>_. u') (c_ups c),
          c_active := i, c_last_switch := Some now\<rparr>"] unfolding yes(5)
      by (simp add: case_prod_beta Let_def comp_def)
    moreover have "c_last_forwarded c' = fst (last (switch_chain i c)) \<and> c_active c' = i \<and> c_last_switch c' = Some now"
      using assms(2) yes(1) unfolding yes(5) by (auto simp: case_prod_beta Let_def replay_chain_fields last_map)
    ultimately show ?thesis
      using yes(1,2,4) rest unfolding can_continue_def by blast
  qed
qed

lemma sample_switch: "switch_to 2 9 sample_reached =
    (Some ([[1, 2], [1, 2]], []), snd (switch_to 2 9 sample_reached))"
  by (simp add: sample_reached_eq sample_standby_def upstream_new_def core_eval)

theorem switch_to_gap_free_witness:
  "core_ok sample_reached \<and> c_last_forwarded (snd (switch_to 2 9 sample_reached)) = 14 \<and>
   (\<exists>chain. links 12 chain \<and> [[1, 2], [1, 2]] = map (\<lambda>(r, a). a_frame a) chain)"
  using switch_to_gap_free[OF sample_reached_ok sample_switch] sample_reached_ok
  by (auto simp: sample_reached_eq sample_standby_def upstream_new_def core_eval)

text \<open>C34. A switch that is refused changes nothing, and it is refused exactly when the standby is
  unknown, has discarded a block the node still needs, or holds no child of the node's tip.\<close>
theorem switch_to_refused:
  assumes "core_ok c"
  shows "(fst (switch_to i now c) = None \<longleftrightarrow>
      (case map_of (c_ups c) i of
         None \<Rightarrow> True
       | Some u \<Rightarrow> c_last_forwarded c < u_dropped_max u \<or> fst (chain_len (c_last_forwarded c) u) = 0)) \<and>
    (fst (switch_to i now c) = None \<longrightarrow> snd (switch_to i now c) = c)"
proof -
  have wf: "core_wf c" using assms by (simp add: core_ok_def)
  have "fst (switch_to i now c) = None \<longrightarrow> snd (switch_to i now c) = c"
    using wf by (cases rule: switch_to_cases[where i = i and now = now]) (auto simp: Let_def case_prod_beta)
  then show ?thesis
    using switch_none_iff[OF wf, of i now] chain_len_switch_chain[of c i]
    by (cases "map_of (c_ups c) i") (auto simp: switch_chain_def can_continue_def)
qed

theorem switch_to_refused_witness:
  "core_ok sample_reached \<and> fst (switch_to 1 9 sample_reached) = None \<and> snd (switch_to 1 9 sample_reached) = sample_reached"
  using switch_to_refused[OF sample_reached_ok, of 1 9] sample_reached_ok
  by (simp add: sample_reached_eq chain_len_def upstream_new_def bt_range_from_def)

section \<open>Choosing a standby\<close>

text \<open>A standby that may take over: not the active, verified, and holding a child of the tip.\<close>

definition can_take_over :: "core \<Rightarrow> nat \<Rightarrow> upstream \<Rightarrow> bool" where
  "can_take_over c i u \<longleftrightarrow> (i, u) \<in> set (c_ups c) \<and> i \<noteq> c_active c \<and> 3 \<le> u_verified u \<and>
     snd (chain_len (c_last_forwarded c) u) \<noteq> None"

definition held_since :: "core \<Rightarrow> upstream \<Rightarrow> instant" where
  "held_since c u = the (snd (chain_len (c_last_forwarded c) u))"

definition picks_ok :: "core \<Rightarrow> instant \<Rightarrow> bool \<Rightarrow> picks \<Rightarrow> bool" where
  "picks_ok c now dead b \<longleftrightarrow>
     (\<forall>i l n t. stall_best b = Some (i, l, n, t) \<longrightarrow> (\<exists>u. can_take_over c i u \<and>
        (dead \<or> c_stall c \<le> now - held_since c u))) \<and>
     (\<forall>i l. preferred_best b = Some (i, l) \<longrightarrow> (\<exists>u. can_take_over c i u \<and> dwell_ok now c \<and>
        u_preferred u \<and> \<not> active_preferred c)) \<and>
     (\<forall>i m. lag_best b = Some (i, m) \<longrightarrow> (\<exists>u. can_take_over c i u \<and> dwell_ok now c \<and>
        (u_preferred u \<or> \<not> active_preferred c) \<and> median_lead u = Some m \<and> int (as_millis (c_lag c)) \<le> m))"

lemma picks_ok_one:
  assumes "(i, u) \<in> set (c_ups c)" "picks_ok c now dead b"
  shows "picks_ok c now dead (pick_one c now dead (i, u) b)"
proof (cases "i = c_active c \<or> u_verified u < MIN_VERIFIED \<or> snd (chain_len (c_last_forwarded c) u) = None")
  case True
  then have "pick_one c now dead (i, u) b = b"
    by (cases "chain_len (c_last_forwarded c) u") (auto simp: pick_one_def)
  with assms(2) show ?thesis by simp
next
  case False
  then obtain n t where ch: "chain_len (c_last_forwarded c) u = (n, Some t)"
    by (cases "chain_len (c_last_forwarded c) u") auto
  have cu: "can_take_over c i u"
    using False assms(1) by (simp add: can_take_over_def MIN_VERIFIED_def not_less)
  have t: "held_since c u = t"
    by (simp add: held_since_def ch)
  show ?thesis
    using assms(2) False cu t
    unfolding picks_ok_def pick_one_def prod.case ch option.case Let_def
    by (auto split: option.splits if_splits)
qed

lemma picks_ok_fold: "picks_ok c now dead (fold (pick_one c now dead) (c_ups c) no_picks)"
proof (rule fold_invariant[where Q = "\<lambda>p. p \<in> set (c_ups c)"])
  show "picks_ok c now dead no_picks"
    by (simp add: picks_ok_def no_picks_def)
  show "p \<in> set (c_ups c) \<Longrightarrow> picks_ok c now dead b \<Longrightarrow> picks_ok c now dead (pick_one c now dead p b)" for p b
    using picks_ok_one by (cases p) simp
qed simp

lemma can_take_over_switches:
  assumes "core_ok c" "can_take_over c i u"
  shows "map_of (c_ups c) i = Some u \<and> fst (switch_to i now c) \<noteq> None"
proof -
  have wf: "core_wf c" using assms(1) by (simp add: core_ok_def)
  have "map_of (c_ups c) i = Some u"
    using assms(2) wf by (simp add: can_take_over_def core_wf_def)
  moreover from this have "switch_chain i c \<noteq> []"
    using assms(2) chain_len_switch_chain[of c i u] by (auto simp: can_take_over_def)
  ultimately show ?thesis
    using switch_none_iff[OF wf] by blast
qed

text \<open>C14. Whoever is picked can take over at once: it is not the active, its last blocks matched the
  active's at least three times, and switching to it succeeds. A stall switch has waited the
  stall time, a lag or preferred switch the dwell time; a lag switch leaves a priority active
  only for another priority peer, and a preferred switch goes from a pool active to a priority
  peer.\<close>
theorem pick_switch_sound:
  assumes "core_ok c" "pick_switch now dead c = Some (i, why)"
  shows "\<exists>u. map_of (c_ups c) i = Some u \<and> i \<noteq> c_active c \<and> 3 \<le> u_verified u \<and>
    fst (switch_to i now c) \<noteq> None \<and>
    (why = ActiveDead \<longrightarrow> dead) \<and>
    (why = Stall \<longrightarrow> c_stall c \<le> now - held_since c u) \<and>
    (why = Preferred \<longrightarrow> dwell_ok now c \<and> u_preferred u \<and> \<not> active_preferred c) \<and>
    (why = Lag \<longrightarrow> dwell_ok now c \<and> (active_preferred c \<longrightarrow> u_preferred u) \<and>
       (\<exists>m. median_lead u = Some m \<and> int (as_millis (c_lag c)) \<le> m))"
proof -
  let ?b = "fold (pick_one c now dead) (c_ups c) no_picks"
  note ok = picks_ok_fold[of c now dead, unfolded picks_ok_def]
  obtain u where u: "can_take_over c i u"
    and why: "(why = ActiveDead \<longrightarrow> dead) \<and> (why = Stall \<longrightarrow> c_stall c \<le> now - held_since c u) \<and>
      (why = Preferred \<longrightarrow> dwell_ok now c \<and> u_preferred u \<and> \<not> active_preferred c) \<and>
      (why = Lag \<longrightarrow> dwell_ok now c \<and> (active_preferred c \<longrightarrow> u_preferred u) \<and>
       (\<exists>m. median_lead u = Some m \<and> int (as_millis (c_lag c)) \<le> m))"
    using assms(2) ok unfolding pick_switch_def Let_def
    by (fastforce split: if_splits option.splits)
  with can_take_over_switches[OF assms(1) u, of now] show ?thesis
    by (auto simp: can_take_over_def)
qed

theorem pick_switch_sound_witness:
  "core_ok sample_reached \<and> pick_switch 800000000 False sample_reached = Some (2, Stall) \<and>
   fst (switch_to 2 800000000 sample_reached) \<noteq> None"
proof -
  have p: "pick_switch 800000000 False sample_reached = Some (2, Stall)"
    by (simp add: sample_reached_eq sample_standby_def upstream_new_def core_eval pick_switch_def
        pick_one_def no_picks_def chain_len_def median_lead_def LEAD_MIN_SAMPLES_def lead_or_min_def
        dwell_ok_def active_preferred_def MIN_VERIFIED_def from_millis_def)
  show ?thesis
    using pick_switch_sound[OF sample_reached_ok p] sample_reached_ok p by auto
qed

end
