(* ===== verification/Failover_More.thy ===== *)
theory Failover_More
  imports Failover_Props
begin

text \<open>
  Further properties of the failover core: the ranking of stall candidates, the verification
  counters of a standby, buffers without silent holes, and the standby named for replacement.
\<close>

section \<open>Ranking of stall candidates\<close>

definition stall_ready :: "core \<Rightarrow> instant \<Rightarrow> bool \<Rightarrow> nat \<times> upstream \<Rightarrow> bool" where
  "stall_ready c now dead = (\<lambda>(i, u). i \<noteq> c_active c \<and> MIN_VERIFIED \<le> u_verified u \<and>
     (case snd (chain_len (c_last_forwarded c) u) of None \<Rightarrow> False | Some t \<Rightarrow> dead \<or> c_stall c \<le> now - t))"

definition outranks :: "core \<Rightarrow> upstream \<Rightarrow> upstream \<Rightarrow> bool" where
  "outranks c u v = stall_better (lead_or_min u) (fst (chain_len (c_last_forwarded c) u)) (held_since c u)
     (Some (0, lead_or_min v, fst (chain_len (c_last_forwarded c) v), held_since c v))"

definition best_so_far :: "core \<Rightarrow> instant \<Rightarrow> bool \<Rightarrow> (nat \<times> upstream) list \<Rightarrow> picks \<Rightarrow> bool" where
  "best_so_far c now dead seen b \<longleftrightarrow>
     (case stall_best b of
        None \<Rightarrow> (\<forall>p \<in> set seen. \<not> stall_ready c now dead p)
      | Some (i, l, n, t) \<Rightarrow> (\<exists>u. (i, u) \<in> set seen \<and> stall_ready c now dead (i, u) \<and> l = lead_or_min u \<and>
          chain_len (c_last_forwarded c) u = (n, Some t) \<and>
          (\<forall>(j, v) \<in> set seen. stall_ready c now dead (j, v) \<longrightarrow> \<not> outranks c v u)))"

lemma stall_best_pick_one:
  "stall_best (pick_one c now dead (i, u) b) =
     (if stall_ready c now dead (i, u) \<and>
         stall_better (lead_or_min u) (fst (chain_len (c_last_forwarded c) u)) (held_since c u) (stall_best b)
      then Some (i, lead_or_min u, fst (chain_len (c_last_forwarded c) u), held_since c u) else stall_best b)"
proof (cases "i = c_active c \<or> u_verified u < MIN_VERIFIED \<or> snd (chain_len (c_last_forwarded c) u) = None")
  case True
  then show ?thesis
    by (cases "chain_len (c_last_forwarded c) u") (auto simp: pick_one_def stall_ready_def)
next
  case False
  then obtain n t where ch: "chain_len (c_last_forwarded c) u = (n, Some t)"
    by (cases "chain_len (c_last_forwarded c) u") auto
  have "MIN_VERIFIED \<le> u_verified u" using False by (simp add: not_less)
  then show ?thesis
    using False by (cases "median_lead u") (auto simp: pick_one_def stall_ready_def held_since_def Let_def ch
        if_distrib[of stall_best])
qed

lemma outranks_trans: "\<not> outranks c w u \<Longrightarrow> outranks c v u \<Longrightarrow> \<not> outranks c w v"
  by (auto simp: outranks_def)

lemma outranks_irrefl: "\<not> outranks c u u"
  by (simp add: outranks_def)

lemma best_so_far_snoc:
  assumes "best_so_far c now dead seen b"
  shows "best_so_far c now dead (seen @ [(i, u)]) (pick_one c now dead (i, u) b)"
proof (cases "stall_best b")
  case None
  then show ?thesis
    using assms by (cases "snd (chain_len (c_last_forwarded c) u)")
      (auto simp: best_so_far_def stall_best_pick_one stall_ready_def held_since_def outranks_irrefl prod_eq_iff)
next
  case (Some q)
  obtain j l n t where q: "q = (j, l, n, t)" by (cases q)
  then obtain v where v: "(j, v) \<in> set seen" "stall_ready c now dead (j, v)" "l = lead_or_min v"
      "chain_len (c_last_forwarded c) v = (n, Some t)"
      "\<forall>(k, w) \<in> set seen. stall_ready c now dead (k, w) \<longrightarrow> \<not> outranks c w v"
    using assms Some by (auto simp: best_so_far_def)
  have rank: "stall_better (lead_or_min u) (fst (chain_len (c_last_forwarded c) u)) (held_since c u) (stall_best b)
      = outranks c u v"
    using v(3,4) Some q by (simp add: outranks_def held_since_def)
  show ?thesis
  proof (cases "stall_ready c now dead (i, u) \<and> outranks c u v")
    case True
    have "\<not> outranks c w u" if "(k, w) \<in> set (seen @ [(i, u)])" "stall_ready c now dead (k, w)" for k w
      using that v(5) True outranks_trans[of c w v u] outranks_irrefl[of c u] by auto
    moreover obtain t' where "snd (chain_len (c_last_forwarded c) u) = Some t'"
      using True by (auto simp: stall_ready_def split: option.splits)
    ultimately show ?thesis
      using True rank by (auto simp: best_so_far_def stall_best_pick_one held_since_def prod_eq_iff)
  next
    case False
    then have "stall_best (pick_one c now dead (i, u) b) = Some (j, l, n, t)"
      using rank Some q by (auto simp: stall_best_pick_one)
    then show ?thesis
      using False v unfolding best_so_far_def by auto
  qed
qed

lemma best_so_far_fold: "best_so_far c now dead xs (fold (pick_one c now dead) xs no_picks)"
proof (induction xs rule: rev_induct)
  case Nil
  then show ?case by (simp add: best_so_far_def no_picks_def)
next
  case (snoc p xs)
  then show ?case using best_so_far_snoc[of c now dead xs] by (cases p) simp
qed

text \<open>C15. When the active is dead or stalled and some verified standby continues the node's chain, one
  is picked, and no ready standby outranks it: none has a larger median lead over the active, or an
  equal lead and a longer chain, or both equal and an earlier first block.\<close>
theorem pick_switch_best:
  assumes "core_ok c" "c_last_forwarded c \<noteq> 0" "(j, v) \<in> set (c_ups c)" "stall_ready c now dead (j, v)"
  shows "\<exists>i u. pick_switch now dead c = Some (i, if dead then ActiveDead else Stall) \<and>
    (i, u) \<in> set (c_ups c) \<and> stall_ready c now dead (i, u) \<and>
    (\<forall>(k, w) \<in> set (c_ups c). stall_ready c now dead (k, w) \<longrightarrow> \<not> outranks c w u)"
proof -
  let ?b = "fold (pick_one c now dead) (c_ups c) no_picks"
  have best: "best_so_far c now dead (c_ups c) ?b" by (rule best_so_far_fold)
  with assms(3,4) obtain i l n t where s: "stall_best ?b = Some (i, l, n, t)"
    by (cases "stall_best ?b") (auto simp: best_so_far_def)
  with best assms(2) show ?thesis
    by (auto simp: best_so_far_def pick_switch_def Let_def)
qed

theorem pick_switch_best_witness:
  "core_ok sample_reached \<and> stall_ready sample_reached 5 True (2, sample_standby) \<and>
   (\<exists>i. pick_switch 5 True sample_reached = Some (i, ActiveDead))"
proof -
  have r: "stall_ready sample_reached 5 True (2, sample_standby)"
    by (simp add: sample_reached_eq sample_standby_def stall_ready_def MIN_VERIFIED_def chain_len_def
        can_continue_def bt_range_from_def saturating_add_def)
  have "c_last_forwarded sample_reached \<noteq> 0" "(2, sample_standby) \<in> set (c_ups sample_reached)"
    by (simp_all add: sample_reached_eq)
  from pick_switch_best[OF sample_reached_ok this r] r sample_reached_ok show ?thesis
    by auto
qed

section \<open>Verification of a standby\<close>

definition compare_run :: "(bool \<times> int) list \<Rightarrow> upstream \<Rightarrow> upstream" where
  "compare_run cs u = fold (\<lambda>(m, l) u. snd (compared m l u)) cs u"

lemma compare_run_snoc: "compare_run (cs @ [(m, l)]) u = snd (compared m l (compare_run cs u))"
  by (simp add: compare_run_def)

text \<open>The counters of a standby say what its history of comparisons was: \<open>verified\<close> is the length
  of the run of matches since the last mismatch, \<open>mismatches\<close> that of the run of mismatches since
  the last match (both modulo the width of the counter), and the leads are the last forty of the
  matched blocks. So three mismatches in a row, and only those, ask for the standby to be dropped.\<close>
theorem compare_run_counters:
  "u_verified (compare_run cs (upstream_new a)) = of_nat (length (takeWhile fst (rev cs))) \<and>
   u_mismatches (compare_run cs (upstream_new a)) = of_nat (length (takeWhile (Not \<circ> fst) (rev cs))) \<and>
   u_leads (compare_run cs (upstream_new a)) =
     (let ls = map snd (filter fst cs) in drop (length ls - 40) ls) \<and>
   fst (compared m l (compare_run cs (upstream_new a))) =
     (\<not> m \<and> 3 \<le> (of_nat (Suc (length (takeWhile (Not \<circ> fst) (rev cs)))) :: u32))"
proof (induction cs arbitrary: m l rule: rev_induct)
  case Nil
  then show ?case
    by (simp add: compare_run_def upstream_new_def compared_def MAX_MISMATCHES_def Let_def)
next
  case (snoc p cs)
  obtain m' l' where p: "p = (m', l')" by (cases p)
  have win: "drop (Suc (length xs) - 40) (xs @ [x]) =
      (if length (drop (length xs - 40) xs) = 40 then tl (drop (length xs - 40) xs) else drop (length xs - 40) xs) @ [x]"
    for xs :: "int list" and x
    by (auto simp: drop_Suc[symmetric] tl_drop intro!: arg_cong[of _ _ "\<lambda>n. drop n xs"])
  show ?case
    using snoc[of m' l'] win[of "map snd (filter fst cs)" l'] by (auto simp: p compare_run_snoc compared_def push_lead_def LEAD_WINDOW_def MAX_MISMATCHES_def Let_def)
qed

section \<open>No silent holes\<close>

definition covered :: "u32 \<Rightarrow> nat \<Rightarrow> core \<Rightarrow> bool" where
  "covered r i c \<longleftrightarrow> (\<forall>u. map_of (c_ups c) i = Some u \<longrightarrow>
     r \<le> c_last_forwarded c \<or> r \<le> u_dropped_max u \<or> r \<in> fst ` set (u_ahead u))"

lemma covered_cong:
  "c_ups c' = c_ups c \<Longrightarrow> c_last_forwarded c' = c_last_forwarded c \<Longrightarrow> covered r i c' = covered r i c"
  by (simp add: covered_def)

lemma take_ahead_fields: "take_ahead q u = Some (a, v) \<Longrightarrow>
    u_dropped_max v = u_dropped_max u \<and> u_ahead v = bt_remove q (u_ahead u)"
  by (auto simp: take_ahead_def split: option.splits)

lemma trim_ahead_dropped [simp]: "u_dropped_max (trim_ahead f u) = u_dropped_max u"
proof (induction f u rule: trim_ahead.induct)
  case (1 f u)
  show ?case
  proof (cases "bt_first (u_ahead u)")
    case (Some p)
    with 1[of p "fst p" "snd p"] show ?thesis
      by (cases p) (simp add: trim_ahead.simps[of f u])
  qed (simp add: trim_ahead.simps[of f u])
qed

lemma compared_dropped [simp]: "u_dropped_max (snd (compared m l u)) = u_dropped_max u"
  by (simp add: compared_def push_lead_def Let_def)

lemma settle_one_covers:
  assumes "up_ok u" "r \<in> fst ` set (u_ahead u)" "q < r"
  shows "r \<in> fst ` set (u_ahead (snd (settle_one q h t q u)))"
proof (cases "take_ahead q u")
  case None
  with assms show ?thesis by (auto simp: settle_one_def u_ahead_trim_ahead)
next
  case (Some p)
  obtain a v where p: "p = (a, v)" by (cases p)
  note tk = take_ahead_SomeD[OF Some[unfolded p] assms(1)]
  with assms Some p show ?thesis
    by (force simp: settle_one_def trim_ahead_ok up_ok_compared u_ahead_compared case_prod_beta Let_def bt_remove_def)
qed

lemma settle_one_dropped [simp]: "u_dropped_max (snd (settle_one q h t f u)) = u_dropped_max u"
  by (auto simp: settle_one_def case_prod_beta Let_def dest: take_ahead_fields split: option.split)

lemma map_of_map_snd: "map_of (map (\<lambda>(i, u). (i, g i u)) m) k = map_option (g k) (map_of m k)"
  by (induction m) auto

lemma covered_advance:
  assumes "core_wf c" "covered r i c" "c_last_forwarded c \<le> q"
  shows "covered r i (advance q h t c)"
  unfolding covered_def
proof (intro allI impI)
  fix v assume "map_of (c_ups (advance q h t c)) i = Some v"
  then obtain u where u: "map_of (c_ups c) i = Some u"
    and v: "v = (if i = c_active c then u else snd (settle_one q h t q u))"
    by (auto simp: c_ups_advance map_of_map_snd)
  show "r \<le> c_last_forwarded (advance q h t c) \<or> r \<le> u_dropped_max v \<or> r \<in> fst ` set (u_ahead v)"
  proof (cases "q < r")
    case True
    then have "\<not> r \<le> c_last_forwarded c"
      using assms(3) by simp
    then have "r \<le> u_dropped_max u \<or> r \<in> fst ` set (u_ahead u)"
      using assms(2) u unfolding covered_def by blast
    then have "r \<le> u_dropped_max v \<or> r \<in> fst ` set (u_ahead v)"
      using settle_one_covers[OF map_of_up_ok[OF assms(1) u] _ True, of h t]
      by (cases "i = c_active c") (simp_all only: v if_True if_False settle_one_dropped simp_thms, blast)
    then show ?thesis by blast
  qed (simp add: not_less)
qed

lemma covered_replay:
  "core_wf c \<Longrightarrow> covered r i c \<Longrightarrow> sorted_wrt (<) (c_last_forwarded c # map fst chain) \<Longrightarrow>
     covered r i (snd (replay_chain chain c))"
proof (induction chain arbitrary: c)
  case (Cons p chain)
  obtain q a where p: "p = (q, a)" by (cases p)
  let ?c = "advance q (a_hash a) (a_at a) c"
  have le: "c_last_forwarded c \<le> q"
    using Cons.prems(3) p by (simp add: less_imp_le)
  have "covered r i (snd (replay_chain chain ?c))"
    using Cons.prems p core_ok_advance[OF Cons.prems(1) le, of "a_hash a" "a_at a"]
    by (intro Cons.IH covered_advance le) (auto simp: core_ok_def)
  then show ?case
    by (simp only: p replay_chain_Cons)
qed simp

lemma covered_switch_other:
  assumes "core_ok c" "covered r i c" "j \<noteq> i"
  shows "covered r i (snd (switch_to j now c))"
proof -
  have wf: "core_wf c" using assms(1) by (simp add: core_ok_def)
  from wf show ?thesis
  proof (cases rule: switch_to_cases[where i = j and now = now])
    case no
    with assms show ?thesis by simp
  next
    case (yes u u')
    let ?c = "c\<lparr>c_ups := hm_update j (\<lambda>_. u') (c_ups c), c_active := j, c_last_switch := Some now\<rparr>"
    have "core_wf ?c"
      using core_wf_put[OF wf yes(3), of j] by (simp add: core_wf_def)
    moreover have "covered r i ?c"
      using assms(2,3) by (simp add: covered_def map_of_hm_update option.map_id0)
    ultimately have "covered r i (snd (replay_chain (switch_chain j c) ?c))"
      using switch_chain_ascends[OF wf, of j] by (intro covered_replay) simp_all
    then show ?thesis
      unfolding yes(5) by (auto simp: case_prod_beta Let_def covered_def map_of_map_snd)
  qed
qed

lemma insert_ahead_covers:
  assumes "r \<in> insert q (fst ` set (u_ahead u)) \<or> r \<le> u_dropped_max u"
  shows "r \<le> u_dropped_max (insert_ahead q a u) \<or> r \<in> fst ` set (u_ahead (insert_ahead q a u))"
proof -
  let ?b = "u_ahead_bytes u + length (a_frame a)"
  let ?u = "u\<lparr>u_ahead := bt_insert q a (u_ahead u),
     u_ahead_bytes := (case bt_get (u_ahead u) q of None \<Rightarrow> ?b | Some old \<Rightarrow> ?b - length (a_frame old))\<rparr>"
  have ins: "insert_ahead q a u = shrink_ahead ?u"
    by (simp add: insert_ahead_def Let_def)
  obtain d where d: "bt_insert q a (u_ahead u) = u_ahead (insert_ahead q a u) @ d"
    "\<forall>p \<in> set d. fst p \<le> u_dropped_max (insert_ahead q a u)" "u_dropped_max u \<le> u_dropped_max (insert_ahead q a u)"
    using shrink_ahead_split[of ?u] unfolding ins by auto
  have "insert q (fst ` set (u_ahead u)) = fst ` set (u_ahead (insert_ahead q a u)) \<union> fst ` set d"
    using fst_set_bt_insert[of q a "u_ahead u"] d(1) by (simp add: image_Un)
  with assms d(2,3) show ?thesis by auto
qed

lemma covered_standby:
  assumes "covered r i c \<or> (j = i \<and> r = q)"
  shows "covered r i (snd (on_standby_block j q p h t f c))"
proof (cases "map_of (c_ups c) j")
  case None
  with assms show ?thesis by (auto simp: on_standby_block_def covered_def)
next
  case (Some u)
  let ?u = "u\<lparr>u_last_rx := Some t\<rparr>" and ?a = "\<lparr>a_parent = p, a_hash = h, a_at = t, a_frame = f\<rparr>"
  have put: "covered r i (c\<lparr>c_ups := hm_update j (\<lambda>_. w) (c_ups c)\<rparr>)"
    if "j = i \<Longrightarrow> r \<le> c_last_forwarded c \<or> r \<le> u_dropped_max w \<or> r \<in> fst ` set (u_ahead w)" for w
    using assms that by (auto simp: covered_def map_of_hm_update)
  show ?thesis
  proof (cases "q \<le> c_last_forwarded c")
    case True
    then have "j = i \<Longrightarrow> r \<le> c_last_forwarded c \<or> r \<le> u_dropped_max u \<or> r \<in> fst ` set (u_ahead u)"
      using assms Some unfolding covered_def by blast
    then have "covered r i (c\<lparr>c_ups := hm_update j (\<lambda>_. w) (c_ups c)\<rparr>)"
      if "u_dropped_max w = u_dropped_max u" "u_ahead w = u_ahead u" for w
      using that put by presburger
    with True Some show ?thesis
      by (simp add: on_standby_block_def Let_def case_prod_beta u_ahead_compared split: option.split)
  next
    case False
    have "j = i \<Longrightarrow> r \<le> c_last_forwarded c \<or> r \<le> u_dropped_max (insert_ahead q ?a ?u) \<or>
        r \<in> fst ` set (u_ahead (insert_ahead q ?a ?u))"
      using insert_ahead_covers[of r q ?u ?a] assms Some by (auto simp: covered_def)
    then show ?thesis
      using False Some put by (simp add: on_standby_block_def Let_def)
  qed
qed

text \<open>Events that do not replace upstream \<open>i\<close> or make it the active.\<close>

fun leaves_standby :: "nat \<Rightarrow> core_ev \<Rightarrow> bool" where
  "leaves_standby i (EvAdd j _) = (j \<noteq> i)"
| "leaves_standby i (EvSwitch j _) = (j \<noteq> i)"
| "leaves_standby i _ = True"

lemma covered_next:
  assumes "core_ok c" "ev_ok e" "leaves_standby i e" "covered r i c"
  shows "covered r i (core_next e c)"
proof (cases e)
  case (EvActive q h t)
  let ?c = "c\<lparr>c_ups := hm_update (c_active c) (\<lambda>u. u\<lparr>u_last_rx := Some t\<rparr>) (c_ups c)\<rparr>"
  have "covered r i ?c"
    using assms(4) by (auto simp: covered_def map_of_hm_update split: if_splits)
  moreover have "core_wf ?c"
    using core_ok_rx[OF assms(1)] by (simp add: core_ok_def)
  ultimately show ?thesis
    using EvActive covered_advance[of ?c r i q h t] by (auto simp: on_active_block_eq Let_def)
next
  case (EvAdd j a)
  with assms show ?thesis by (simp add: add_standby_def covered_def update_conv')
next
  case (EvPrefer j)
  with assms(4) show ?thesis
    by (auto simp: mark_preferred_def covered_def map_of_hm_update split: if_splits)
next
  case (EvRemove j)
  with assms(4) show ?thesis
    by (auto simp: remove_up_def covered_def delete_conv')
next
  case (EvSwitch j now)
  with assms show ?thesis by (simp add: covered_switch_other)
qed (use assms in \<open>simp add: covered_standby\<close>)

lemma covered_run:
  "core_ok c \<Longrightarrow> list_all ev_ok es \<Longrightarrow> list_all (leaves_standby i) es \<Longrightarrow> covered r i c \<Longrightarrow>
     covered r i (snd (gate_run core_next core_emit es c))"
  by (induction es arbitrary: c) (simp_all add: core_ok_next covered_next case_prod_beta Let_def)

text \<open>C10. A buffer has no silent hole: once a standby has delivered a block, then as long as it stays a
  standby and whatever happens meanwhile, if the standby is allowed to take over, the node already
  has that round or the block is still in the buffer.\<close>
theorem standby_no_hole:
  assumes "core_ok c" "ev_ok (EvStandby i r p h t f)" "list_all ev_ok es" "list_all (leaves_standby i) es"
    and "c' = snd (gate_run core_next core_emit (EvStandby i r p h t f # es) c)"
    and "map_of (c_ups c') i = Some u" "can_continue (c_last_forwarded c') u"
  shows "r \<le> c_last_forwarded c' \<or> r \<in> fst ` set (u_ahead u)"
proof -
  have "covered r i (snd (on_standby_block i r p h t f c))"
    by (rule covered_standby) simp
  then have "covered r i c'"
    using covered_run[of "snd (on_standby_block i r p h t f c)" es i r] assms(1-5)
    by (simp add: core_ok_standby case_prod_beta Let_def)
  with assms(6,7) show ?thesis
    by (auto simp: covered_def can_continue_def)
qed

definition hole_core :: core where
  "hole_core = add_standby 2 ''10.0.0.2'' (core_new 1 ''10.0.0.1'' 12 (from_millis 700) (from_millis 100) (from_secs 5))"

definition hole_standby :: upstream where
  "hole_standby = (upstream_new ''10.0.0.2'')\<lparr>u_last_rx := Some 0, u_ahead_bytes := 4,
     u_ahead := [(13, \<lparr>a_parent = 12, a_hash = 13, a_at = 0, a_frame = [1, 2]\<rparr>),
                 (14, \<lparr>a_parent = 13, a_hash = 14, a_at = 0, a_frame = [1, 2]\<rparr>)]\<rparr>"

lemma hole_run:
  "map_of (c_ups (snd (gate_run core_next core_emit [EvStandby 2 13 12 13 0 [1, 2], sb 2 14] hole_core))) 2 = Some hole_standby"
  "c_last_forwarded (snd (gate_run core_next core_emit [EvStandby 2 13 12 13 0 [1, 2], sb 2 14] hole_core)) = 12"
  by (simp_all add: hole_core_def hole_standby_def core_eval)

theorem standby_no_hole_witness:
  "\<not> (13::u32) \<le> 12 \<and> 13 \<in> fst ` set (u_ahead hole_standby)"
proof -
  have "core_ok hole_core"
    unfolding hole_core_def by (intro core_ok_add core_ok_new)
  moreover have "can_continue 12 hole_standby"
    by (simp add: can_continue_def hole_standby_def upstream_new_def)
  moreover have "ev_ok (EvStandby 2 13 12 13 0 [1, 2])" "list_all ev_ok [sb 2 14]" "list_all (leaves_standby 2) [sb 2 14]"
    by (simp_all add: sb_def)
  ultimately show ?thesis
    using standby_no_hole[OF _ _ _ _ refl hole_run(1)] hole_run(2) by simp
qed

section \<open>The standby named for replacement\<close>

lemma min_by_key_None: "min_by_key xs = None \<longleftrightarrow> xs = []"
  by (cases xs) (simp_all split: option.split)

lemma min_by_key_Some:
  "min_by_key xs = Some p \<Longrightarrow> p \<in> set xs \<and> (\<forall>q \<in> set xs. snd p \<le> snd q)"
proof (induction xs arbitrary: p)
  case (Cons x xs)
  then show ?case
    by (cases "min_by_key xs") (auto simp: min_by_key_None split: if_splits dest: order_trans)
qed simp

text \<open>\<open>slowest_standby\<close> names a standby exactly when some non-exempt standby trails the active by
  more than the threshold; the one named is such a standby with the smallest median lead.\<close>
theorem slowest_standby_spec:
  "case slowest_standby ms exempt c of
     None \<Rightarrow> \<forall>(i, u) \<in> set (c_ups c). i \<noteq> c_active c \<and> \<not> exempt (u_ip u) \<longrightarrow>
       (\<forall>m. median_lead u = Some m \<longrightarrow> - ms \<le> m)
   | Some (i, m) \<Rightarrow> m < - ms \<and> (\<exists>u. (i, u) \<in> set (c_ups c) \<and> i \<noteq> c_active c \<and> \<not> exempt (u_ip u) \<and> median_lead u = Some m) \<and>
       (\<forall>(j, v) \<in> set (c_ups c). j \<noteq> c_active c \<and> \<not> exempt (u_ip v) \<longrightarrow>
         (\<forall>k. median_lead v = Some k \<longrightarrow> m \<le> k))"
proof -
  define xs where "xs = filter (\<lambda>(_, m). m < - ms)
       (List.map_filter (\<lambda>(i, u). map_option (\<lambda>m. (i, m)) (median_lead u))
         (filter (\<lambda>(i, u). i \<noteq> c_active c \<and> \<not> exempt (u_ip u)) (c_ups c)))"
  have mem: "(i, m) \<in> set xs \<longleftrightarrow> m < - ms \<and> (\<exists>u. (i, u) \<in> set (c_ups c) \<and> i \<noteq> c_active c \<and>
      \<not> exempt (u_ip u) \<and> median_lead u = Some m)" for i m
    by (force simp: xs_def map_filter_def)
  have sl: "slowest_standby ms exempt c = min_by_key xs"
    by (simp add: slowest_standby_def xs_def)
  show ?thesis
  proof (cases "min_by_key xs")
    case None
    then have "xs = []" by (simp add: min_by_key_None)
    with mem have "\<not> (m < - ms \<and> (i, u) \<in> set (c_ups c) \<and> i \<noteq> c_active c \<and> \<not> exempt (u_ip u) \<and>
        median_lead u = Some m)" for i u m
      by (metis empty_iff list.set(1))
    with None show ?thesis
      unfolding sl by (auto simp: not_less)
  next
    case (Some p)
    obtain i m where p: "p = (i, m)" by (cases p)
    have in_xs: "(i, m) \<in> set xs" and least: "(j, k) \<in> set xs \<Longrightarrow> m \<le> k" for j k
      using min_by_key_Some[OF Some] p by auto
    have "m \<le> k" if "(j, v) \<in> set (c_ups c)" "j \<noteq> c_active c" "\<not> exempt (u_ip v)" "median_lead v = Some k" for j v k
      using that least[of j k] in_xs mem[of j k] mem[of i m] by (cases "k < - ms") auto
    with Some p in_xs mem[of i m] show ?thesis
      unfolding sl by auto
  qed
qed

theorem slowest_standby_spec_witness:
  "\<exists>u. slowest_standby 100 (\<lambda>_. False)
     ((core_new 1 ''10.0.0.1'' 5 0 0 0)\<lparr>c_ups := [(1, upstream_new ''10.0.0.1''),
        (2, (upstream_new ''10.0.0.2'')\<lparr>u_leads := replicate 20 (- 500)\<rparr>)]\<rparr>) = Some (2, - 500) \<and> median_lead u = Some (- 500)"
proof -
  let ?c = "((core_new 1 ''10.0.0.1'' 5 0 0 0)\<lparr>c_ups := [(1, upstream_new ''10.0.0.1''),
        (2, (upstream_new ''10.0.0.2'')\<lparr>u_leads := replicate 20 (- 500)\<rparr>)]\<rparr>)"
  have "sort (replicate 20 (- 500 :: int)) = replicate 20 (- 500)"
    by (simp add: sorted_sort_id)
  then have "median_lead ((upstream_new ''10.0.0.2'')\<lparr>u_leads := replicate 20 (- 500)\<rparr>) = Some (- 500)"
    by (simp add: median_lead_def LEAD_MIN_SAMPLES_def)
  then have "slowest_standby 100 (\<lambda>_. False) ?c = Some (2, - 500)"
    by (simp add: slowest_standby_def core_new_def map_filter_simps)
  with slowest_standby_spec[where c = ?c and ms = 100 and exempt = "\<lambda>_. False"] show ?thesis by auto
qed

end
