(* ===== verification/Round_Gate.thy ===== *)
theory Round_Gate
  imports HS_Gate Blocks
begin

unbundle bit_operations_syntax

text \<open>
  The round gate of a plain relay, \<open>protocol.rs\<close>: the window of recent rounds (\<open>RoundDedup\<close>) and the
  gate that lets through each round once and in order (\<open>RoundForwardGate\<close>).
\<close>

section \<open>Definitions\<close>

record round_dedup =
  slots :: "u32 list"
  dmask :: nat

function pow2_from :: "nat \<Rightarrow> nat \<Rightarrow> nat" where
  "pow2_from p n = (if p = 0 \<or> n \<le> p then p else pow2_from (2 * p) n)"
  by pat_completeness auto
termination
  by (relation "measure (\<lambda>(p, n). n - p)") auto

declare pow2_from.simps [simp del]

definition next_power_of_two :: "nat \<Rightarrow> nat" where
  "next_power_of_two n = pow2_from 1 n"

definition round_dedup_new :: "nat \<Rightarrow> round_dedup" where
  "round_dedup_new cap0 =
     (let cap = next_power_of_two cap0 in \<lparr>slots = replicate cap 0, dmask = cap - 1\<rparr>)"

definition is_new :: "u32 \<Rightarrow> round_dedup \<Rightarrow> bool \<times> round_dedup" where
  "is_new r d =
     (let i = unat r AND dmask d
      in (slots d ! i \<noteq> r, d\<lparr>slots := (slots d)[i := r]\<rparr>))"

record round_forward_gate =
  g_last_forwarded :: u32
  g_dedup :: round_dedup

definition with_last_forwarded :: "nat \<Rightarrow> u32 \<Rightarrow> round_forward_gate" where
  "with_last_forwarded cap last_fwd = \<lparr>g_last_forwarded = last_fwd, g_dedup = round_dedup_new cap\<rparr>"

definition should_forward_block_round ::
  "u32 \<Rightarrow> bool \<Rightarrow> u32 \<Rightarrow> round_dedup \<Rightarrow> bool \<times> u32 \<times> round_dedup" where
  "should_forward_block_round round from_active prev d =
     (if from_active then
        (if prev \<noteq> 0 \<and> round \<le> prev then (False, prev, d)
         else (let (new, d') = is_new round d
               in if \<not> new then (False, prev, d') else (True, round, d')))
      else if prev = 0 \<or> round \<noteq> saturating_add prev 1 then (False, prev, d)
      else (let (new, d') = is_new round d
            in if \<not> new then (False, prev, d') else (True, round, d')))"

definition should_forward :: "u32 \<Rightarrow> bool \<Rightarrow> round_forward_gate \<Rightarrow> bool \<times> round_forward_gate" where
  "should_forward round from_active g =
     (let (fwd, l, d) = should_forward_block_round round from_active (g_last_forwarded g) (g_dedup g)
      in (fwd, \<lparr>g_last_forwarded = l, g_dedup = d\<rparr>))"

section \<open>The window\<close>

lemma pow2_from_pow2: "p = 2 ^ k \<Longrightarrow> \<exists>j. pow2_from p n = 2 ^ j \<and> n \<le> 2 ^ j"
proof (induction p n arbitrary: k rule: pow2_from.induct)
  case (1 p n)
  show ?case
  proof (cases "n \<le> p")
    case True
    then have "pow2_from p n = p" by (simp add: pow2_from.simps[of p n])
    with True "1.prems" show ?thesis by (intro exI[of _ k]) simp
  next
    case False
    then have "pow2_from p n = pow2_from (2 * p) n" using "1.prems" by (subst pow2_from.simps) simp
    with False "1.prems" 1(1)[of "Suc k"] show ?thesis by simp
  qed
qed

lemma next_power_of_two_pow2: "\<exists>j. next_power_of_two n = 2 ^ j \<and> n \<le> 2 ^ j"
  unfolding next_power_of_two_def by (rule pow2_from_pow2[of _ 0]) simp

text \<open>Every slot holds zero or a round at or below the tip, in the slot of its low bits.\<close>

definition gate_ok :: "round_forward_gate \<Rightarrow> bool" where
  "gate_ok g \<longleftrightarrow> (\<exists>j. dmask (g_dedup g) = 2 ^ j - 1 \<and> length (slots (g_dedup g)) = 2 ^ j) \<and>
     (\<forall>s \<in> set (slots (g_dedup g)). s \<le> g_last_forwarded g)"

lemma slot_index: "(n::nat) AND (2 ^ j - 1) < 2 ^ j"
proof -
  have "n AND (2 ^ j - 1) = n AND mask j"
    by (simp add: mask_eq_exp_minus_1)
  also have "\<dots> = n mod 2 ^ j"
    by (simp add: take_bit_eq_mask[symmetric] take_bit_eq_mod)
  finally show ?thesis by simp
qed

lemma gate_ok_new: "gate_ok (with_last_forwarded cap l)"
  using next_power_of_two_pow2[of cap]
  by (auto simp: gate_ok_def with_last_forwarded_def round_dedup_new_def Let_def)

text \<open>At the largest round the successor saturates at the tip itself; the window then has to know that round.\<close>

definition gate_top :: "round_forward_gate \<Rightarrow> bool" where
  "gate_top g \<longleftrightarrow> (g_last_forwarded g = - 1 \<longrightarrow> slots (g_dedup g) ! (unat (- 1 :: u32) AND dmask (g_dedup g)) = - 1)"

text \<open>The gate as its tip alone: what the relay promises.\<close>

definition tip_accepts :: "u32 \<Rightarrow> bool \<Rightarrow> u32 \<Rightarrow> bool" where
  "tip_accepts round from_active prev \<longleftrightarrow>
     (if from_active then prev < round else prev \<noteq> 0 \<and> prev < round \<and> round = prev + 1)"

lemma unat_top: "unat (- 1 :: u32) = 4294967295"
  by (simp add: unsigned_minus_1_eq_mask mask_eq_exp_minus_1)

lemma sat_succ: "prev \<noteq> - 1 \<Longrightarrow> round = saturating_add prev 1 \<longleftrightarrow> prev < round \<and> round = prev + (1::u32)"
proof -
  assume p: "prev \<noteq> - 1"
  have "unat prev + 1 < 2 ^ 32"
  proof (rule ccontr)
    assume "\<not> unat prev + 1 < 2 ^ 32"
    then have "unat prev = unat (- 1 :: u32)" using unat_u32_lt[of prev] by (simp add: unat_top)
    with p show False by (simp only: word_unat_eq_iff)
  qed
  then have "prev < prev + 1" "saturating_add prev 1 = prev + 1"
    by (simp_all add: word_less_nat_alt unat_word_ariths saturating_add_def)
  then show ?thesis by auto
qed

lemma sat_top: "saturating_add (- 1) 1 = (- 1 :: u32)"
  by (simp add: saturating_add_def unat_top)

lemma should_forward_tip:
  assumes "gate_ok g" "from_active \<or> gate_top g"
  shows "fst (should_forward round from_active g) = tip_accepts round from_active (g_last_forwarded g)"
    and "g_last_forwarded (snd (should_forward round from_active g)) =
      (if tip_accepts round from_active (g_last_forwarded g) then round else g_last_forwarded g)"
    and "gate_ok (snd (should_forward round from_active g))"
proof -
  let ?d = "g_dedup g" and ?l = "g_last_forwarded g"
  let ?i = "unat round AND dmask ?d"
  obtain j where j: "dmask ?d = 2 ^ j - 1" "length (slots ?d) = 2 ^ j"
    and le: "\<forall>s \<in> set (slots ?d). s \<le> ?l"
    using assms(1) by (auto simp: gate_ok_def)
  have i: "?i < length (slots ?d)"
    using slot_index[of "unat round" j] j by simp
  then have slot: "slots ?d ! ?i \<le> ?l"
    using le by simp
  have pass: "(if from_active then \<not> (?l \<noteq> 0 \<and> round \<le> ?l) else \<not> (?l = 0 \<or> round \<noteq> saturating_add ?l 1)) \<and>
      slots ?d ! ?i \<noteq> round \<longleftrightarrow> tip_accepts round from_active ?l"
  proof (cases "?l = 0")
    case True
    then have "slots ?d ! ?i = 0" using slot by simp
    moreover have "round \<noteq> 0 \<longleftrightarrow> 0 < round" by (simp add: word_neq_0_conv)
    ultimately show ?thesis using True by (auto simp: tip_accepts_def)
  next
    case False
    show ?thesis
    proof (cases "?l = - 1")
      case True
      with False slot sat_top assms(2) show ?thesis by (auto simp: tip_accepts_def gate_top_def not_le)
    next
      case False
      with \<open>?l \<noteq> 0\<close> slot sat_succ[OF False, of round] show ?thesis by (auto simp: tip_accepts_def not_le)
    qed
  qed
  show "fst (should_forward round from_active g) = tip_accepts round from_active ?l"
    unfolding pass[symmetric] by (auto simp: should_forward_def should_forward_block_round_def is_new_def Let_def)
  show "g_last_forwarded (snd (should_forward round from_active g)) = (if tip_accepts round from_active ?l then round else ?l)"
    unfolding pass[symmetric] by (auto simp: should_forward_def should_forward_block_round_def is_new_def Let_def)
  have upd: "s \<in> set ((slots ?d)[?i := round]) \<Longrightarrow> s = round \<or> s \<le> ?l" for s
    using le set_update_subset_insert[of "slots ?d" ?i round] by auto
  have "tip_accepts round from_active ?l \<Longrightarrow> ?l \<le> round"
    by (auto simp: tip_accepts_def split: if_splits)
  then show "gate_ok (snd (should_forward round from_active g))"
    using assms(1) upd j slot pass
    by (auto simp: gate_ok_def should_forward_def should_forward_block_round_def is_new_def Let_def
        dest: order_trans split: if_splits)
qed

definition gate_next :: "u32 \<times> bool \<Rightarrow> round_forward_gate \<Rightarrow> round_forward_gate" where
  "gate_next = (\<lambda>(r, act) g. snd (should_forward r act g))"

definition gate_emit :: "u32 \<times> bool \<Rightarrow> round_forward_gate \<Rightarrow> u32 list" where
  "gate_emit = (\<lambda>(r, act) g. if fst (should_forward r act g) then [r] else [])"

lemma should_forward_top:
  assumes "gate_ok g" "gate_top g"
  shows "gate_top (snd (should_forward round from_active g))"
proof (cases "fst (should_forward round from_active g)")
  case True
  let ?d = "g_dedup g"
  obtain j where "dmask ?d = 2 ^ j - 1" "length (slots ?d) = 2 ^ j" using assms(1) by (auto simp: gate_ok_def)
  then have "unat round AND dmask ?d < length (slots ?d)" using slot_index[of "unat round" j] by simp
  with True show ?thesis
    by (auto simp: gate_top_def should_forward_def should_forward_block_round_def is_new_def Let_def split: if_splits)
next
  case False
  let ?i = "unat round AND dmask (g_dedup g)"
  have same: "slots (g_dedup g) ! ?i = round \<Longrightarrow> (slots (g_dedup g))[?i := round] = slots (g_dedup g)"
    using list_update_id[of "slots (g_dedup g)" ?i] by simp
  have eq: "g_last_forwarded (snd (should_forward round from_active g)) = g_last_forwarded g"
    "slots (g_dedup (snd (should_forward round from_active g))) = slots (g_dedup g)"
    "dmask (g_dedup (snd (should_forward round from_active g))) = dmask (g_dedup g)"
    using False same
    by (auto simp: should_forward_def should_forward_block_round_def is_new_def Let_def split: if_splits)
  show ?thesis using assms(2) unfolding gate_top_def eq .
qed

interpretation rg: forward_gate gate_next gate_emit g_last_forwarded "\<lambda>g. gate_ok g \<and> gate_top g" "\<lambda>_. True"
  by unfold_locales
    (auto simp: gate_next_def gate_emit_def should_forward_tip should_forward_top tip_accepts_def split: if_splits)

interpretation ra: forward_gate gate_next gate_emit g_last_forwarded gate_ok "\<lambda>(r, act). act"
  by unfold_locales
    (auto simp: gate_next_def gate_emit_def should_forward_tip tip_accepts_def split: if_splits)

section \<open>Properties\<close>

text \<open>C35. The gate of a plain relay forwards strictly ascending rounds, and its decisions are those of the tip alone: a
  round from the active source passes exactly when it is above the tip, one from elsewhere exactly when it is the tip's
  successor. The window never rejects such a round. This holds for every sequence of rounds when the gate starts below
  the largest round, and from every start when all rounds come from the active source, as in every session.\<close>
theorem round_gate_refines_tip:
  assumes "l \<noteq> - 1 \<or> (\<forall>e \<in> set es. snd e)" "g = with_last_forwarded cap l"
  shows "sorted_wrt (<) (l # fst (gate_run gate_next gate_emit es g)) \<and>
    (\<forall>r act. l \<noteq> - 1 \<or> act \<longrightarrow> fst (should_forward r act (snd (gate_run gate_next gate_emit es g))) =
       tip_accepts r act (last (l # fst (gate_run gate_next gate_emit es g))))"
proof -
  have ok: "gate_ok g" "g_last_forwarded g = l"
    using gate_ok_new assms(2) by (simp_all add: with_last_forwarded_def)
  show ?thesis
  proof (cases "l = - 1")
    case False
    then have top: "gate_ok g \<and> gate_top g" using ok by (simp add: gate_top_def)
    have l: "list_all (\<lambda>_. True) es" by (simp add: list_all_iff)
    show ?thesis
      using rg.run_ascends[OF top l] should_forward_tip(1)[OF conjunct1[OF rg.run_inv[OF top l]]] rg.run_inv[OF top l]
      unfolding ok(2) rg.run_tip[OF top l, unfolded ok(2)] by blast
  next
    case True
    then have l: "list_all (\<lambda>(r, act). act) es" using assms(1) by (auto simp: list_all_iff)
    show ?thesis
      using ra.run_ascends[OF ok(1) l] should_forward_tip(1)[OF ra.run_inv[OF ok(1) l]] True
      unfolding ok(2) ra.run_tip[OF ok(1) l, unfolded ok(2)] by blast
  qed
qed

theorem round_gate_refines_tip_witness:
  "fst (gate_run gate_next gate_emit [(7, True), (7, True), (8, False), (10, False), (12, True)] (with_last_forwarded 4 5))
     = [7, 8, 12] \<and>
   sorted_wrt (<) (5 # fst (gate_run gate_next gate_emit
     [(7, True), (7, True), (8, False), (10, False), (12, True)] (with_last_forwarded 4 5)))"
  using round_gate_refines_tip[of 5 "[(7, True), (7, True), (8, False), (10, False), (12, True)]" "with_last_forwarded 4 5" 4]
  by (simp add: gate_next_def gate_emit_def should_forward_def should_forward_block_round_def is_new_def
      with_last_forwarded_def round_dedup_new_def next_power_of_two_def pow2_from.simps saturating_add_def Let_def)

text \<open>The excluded case: a gate that starts at the largest round takes that round from another source as its successor
  and forwards it once more.\<close>

lemma gate_repeats_top: "fst (should_forward (- 1) False (with_last_forwarded cap (- 1)))"
proof -
  obtain j where j: "next_power_of_two cap = 2 ^ j" using next_power_of_two_pow2 by blast
  have "unat (- 1 :: u32) AND (2 ^ j - 1) < 2 ^ j" by (rule slot_index)
  then show ?thesis
    by (simp add: should_forward_def should_forward_block_round_def is_new_def with_last_forwarded_def round_dedup_new_def
        sat_top j Let_def)
qed

end
