(* ===== verification/Frames.thy ===== *)
theory Frames
  imports Blocks
begin

text \<open>
  Framing and tip estimation, \<open>protocol.rs\<close>: length-prefixed frames, counting the complete frames
  of a capture, reading a header or a frame from a stream that delivers bytes in arbitrary chunks,
  recognising a refused greeting, and the clustered round estimates over frames and peers.
\<close>

section \<open>Frames\<close>

definition MIN_COMPLETE_BOOTSTRAP_BYTES :: nat where
  "MIN_COMPLETE_BOOTSTRAP_BYTES = 5200000000"

definition MIN_COMPLETE_BOOTSTRAP_FRAMES :: nat where
  "MIN_COMPLETE_BOOTSTRAP_FRAMES = 4000"

definition complete_bootstrap_at_frame_boundary :: "nat \<Rightarrow> nat \<Rightarrow> bool" where
  "complete_bootstrap_at_frame_boundary nbytes frames \<longleftrightarrow>
     MIN_COMPLETE_BOOTSTRAP_BYTES \<le> nbytes \<and> MIN_COMPLETE_BOOTSTRAP_FRAMES \<le> frames"

definition be_len :: "bytes \<Rightarrow> nat \<Rightarrow> nat" where
  "be_len buf off = unat (u32_from_be_bytes (buf ! off) (buf ! (off + 1)) (buf ! (off + 2)) (buf ! (off + 3)))"

definition MAX_COUNTED_FRAME :: nat where
  "MAX_COUNTED_FRAME = 1500000000"

function count_frames :: "bytes \<Rightarrow> nat \<Rightarrow> nat \<Rightarrow> nat option" where
  "count_frames buf off frames =
     (if off < length buf then
        (if length buf - off < 5 then None
         else if MAX_COUNTED_FRAME < be_len buf off then None
         else if length buf < off + 5 + be_len buf off then None
         else count_frames buf (off + 5 + be_len buf off) (frames + 1))
      else Some frames)"
  by pat_completeness auto
termination
  by (relation "measure (\<lambda>(buf, off, frames). length buf - off)") auto

declare count_frames.simps [simp del]

definition complete_frame_count :: "bytes \<Rightarrow> nat option" where
  "complete_frame_count buf = count_frames buf 0 0"

definition peer_full_text :: bytes where
  "peer_full_text = map of_char ''Peer full''"

fun has_window :: "bytes \<Rightarrow> bytes \<Rightarrow> bool" where
  "has_window w [] = (w = [])"
| "has_window w (b # bs) = (take (length w) (b # bs) = w \<or> has_window w bs)"

definition response_is_peer_full :: "bytes \<Rightarrow> bool" where
  "response_is_peer_full payload =
     (if length payload = 6 \<and> take 4 payload = [0, 0, 0, 1] \<and> payload ! 4 = 0 then payload ! 5 = 4
      else has_window peer_full_text payload)"

section \<open>Reading from a stream\<close>

text \<open>
  What an awaited read can see: bytes, end of stream, an error, or nothing before its deadline.
\<close>

datatype rd_ev = Chunk bytes | Eof | Fail | Quiet

datatype io_error = UnexpectedEof | IoFailed | Elapsed | TooLarge

text \<open>One \<open>read\<close> into a buffer of \<open>n\<close> bytes; what does not fit stays in the stream.\<close>

fun read_some :: "nat \<Rightarrow> rd_ev list \<Rightarrow> (io_error + bytes) \<times> rd_ev list" where
  "read_some n [] = (Inl Elapsed, [])"
| "read_some n (Chunk bs # s) =
     (if bs = [] then read_some n s
      else (Inr (take n bs), if length bs \<le> n then s else Chunk (drop n bs) # s))"
| "read_some n (Eof # s) = (Inr [], Eof # s)"
| "read_some n (Fail # s) = (Inl IoFailed, s)"
| "read_some n (Quiet # s) = (Inl Elapsed, s)"

fun stream_len :: "rd_ev list \<Rightarrow> nat" where
  "stream_len [] = 0"
| "stream_len (Chunk bs # s) = length bs + stream_len s"
| "stream_len (_ # s) = stream_len s"

lemma read_some_progress:
  "read_some n s = (Inr bs, s') \<Longrightarrow> bs \<noteq> [] \<Longrightarrow> stream_len s' + length bs = stream_len s \<and> length bs \<le> n"
  by (induction n s rule: read_some.induct) (auto split: if_splits)

lemma read_some_shrinks: "read_some n s = (x, s') \<Longrightarrow> length s' \<le> length s"
  by (induction n s rule: read_some.induct) (auto split: if_splits)

text \<open>\<open>read_exact\<close>: read until the buffer is full.\<close>

function read_exact :: "nat \<Rightarrow> rd_ev list \<Rightarrow> (io_error + bytes) \<times> rd_ev list" where
  "read_exact n s =
     (if n = 0 then (Inr [], s)
      else (case read_some n s of
              (Inl e, s') \<Rightarrow> (Inl e, s')
            | (Inr bs, s') \<Rightarrow>
                if bs = [] then (Inl UnexpectedEof, s')
                else (case read_exact (n - length bs) s' of
                        (Inl e, s'') \<Rightarrow> (Inl e, s'')
                      | (Inr rest, s'') \<Rightarrow> (Inr (bs @ rest), s''))))"
  by pat_completeness auto
termination
  by (relation "measure fst") auto

declare read_exact.simps [simp del]

definition read_live_frame_with_timeout :: "nat \<Rightarrow> rd_ev list \<Rightarrow> (io_error + bytes) \<times> rd_ev list" where
  "read_live_frame_with_timeout max_len s =
     (case read_exact 5 s of
        (Inl e, s1) \<Rightarrow> (Inl e, s1)
      | (Inr hdr, s1) \<Rightarrow>
          (let len = be_len hdr 0
           in if max_len < len then (Inl TooLarge, s1)
              else (case read_exact len s1 of
                      (Inl e, s2) \<Rightarrow> (Inl e, s2)
                    | (Inr payload, s2) \<Rightarrow> (Inr (hdr @ payload), s2))))"

text \<open>The header reads keep the bytes got so far in \<open>hdr\<close>; its length is the offset of the code.\<close>

datatype header_read = Complete | TimedOut nat

function read_header_or_timeout :: "bytes \<Rightarrow> rd_ev list \<Rightarrow> (io_error + header_read) \<times> bytes \<times> rd_ev list" where
  "read_header_or_timeout hdr s =
     (if length hdr < 5 then
        (case read_some (5 - length hdr) s of
           (Inr [], s') \<Rightarrow> (Inl UnexpectedEof, hdr, s')
         | (Inr bs, s') \<Rightarrow> read_header_or_timeout (hdr @ bs) s'
         | (Inl Elapsed, s') \<Rightarrow> (Inr (TimedOut (length hdr)), hdr, s')
         | (Inl e, s') \<Rightarrow> (Inl e, hdr, s'))
      else (Inr Complete, hdr, s))"
  by pat_completeness auto
termination
  by (relation "measure (\<lambda>(hdr, s). 5 - length hdr)") auto

declare read_header_or_timeout.simps [simp del]

text \<open>No deadline here: a quiet spell is waited out.\<close>

definition skip_quiet :: "rd_ev list \<Rightarrow> rd_ev list" where
  "skip_quiet s = filter (\<lambda>e. e \<noteq> Quiet) s"

function finish_header_after_partial :: "bytes \<Rightarrow> rd_ev list \<Rightarrow> (io_error + bytes) \<times> rd_ev list" where
  "finish_header_after_partial hdr s =
     (if length hdr < 5 then
        (case read_some (5 - length hdr) (skip_quiet s) of
           (Inl e, s') \<Rightarrow> (Inl e, s')
         | (Inr bs, s') \<Rightarrow>
             if bs = [] then (Inl UnexpectedEof, s') else finish_header_after_partial (hdr @ bs) s')
      else (Inr hdr, s))"
  by pat_completeness auto
termination
  by (relation "measure (\<lambda>(hdr, s). 5 - length hdr)") (auto simp: neq_Nil_conv)

declare finish_header_after_partial.simps [simp del]

section \<open>Clusters of rounds\<close>

definition cluster_step :: "u32 list \<Rightarrow> u32 \<Rightarrow> nat \<Rightarrow> nat \<times> nat \<times> nat \<Rightarrow> nat \<times> nat \<times> nat" where
  "cluster_step rounds max_gap i = (\<lambda>(best_start, best_len, cur_start).
     if i < length rounds \<and> saturating_sub (rounds ! i) (rounds ! (i - 1)) \<le> max_gap
     then (best_start, best_len, cur_start)
     else if best_len \<le> i - cur_start then (cur_start, i - cur_start, i)
     else (best_start, best_len, i))"

definition best_round_cluster :: "u32 list \<Rightarrow> nat \<Rightarrow> u32 \<Rightarrow> u32 list option" where
  "best_round_cluster rounds0 min_cluster max_gap =
     (if length rounds0 < min_cluster \<or> min_cluster = 0 then None
      else (let rounds = sort rounds0;
                (best_start, best_len, cur_start) =
                  fold (cluster_step rounds max_gap) [1..<length rounds + 1] (0, 1, 0)
            in if min_cluster \<le> best_len then Some (take best_len (drop best_start rounds)) else None))"

definition max_clustered_round :: "u32 list \<Rightarrow> nat \<Rightarrow> u32 \<Rightarrow> u32 option" where
  "max_clustered_round rounds min_cluster max_gap =
     map_option (\<lambda>c. c ! (length c - 1)) (best_round_cluster rounds min_cluster max_gap)"

definition corroborated_clustered_round :: "u32 list \<Rightarrow> nat \<Rightarrow> u32 \<Rightarrow> u32 option" where
  "corroborated_clustered_round rounds min_cluster max_gap =
     map_option (\<lambda>c. c ! ((length c - 1) div 2)) (best_round_cluster rounds (max min_cluster 2) max_gap)"

definition MIN_ROUND_CLUSTER :: nat where
  "MIN_ROUND_CLUSTER = 4"

definition MAX_ROUND_CLUSTER_GAP :: u32 where
  "MAX_ROUND_CLUSTER_GAP = 10000"

function rounds_in_frames :: "(bytes \<Rightarrow> bytes option) \<Rightarrow> bytes \<Rightarrow> nat \<Rightarrow> u32 list" where
  "rounds_in_frames D blob off =
     (if off + 5 \<le> length blob then
        (let len = be_len blob off; typ = blob ! (off + 4); off' = off + 5
         in if length blob - off' < len then []
            else (let payload = take len (drop off' blob);
                      here = (if typ = 1 \<and> len \<le> MAX_LIVE_FRAME then
                                (case block_round D payload of
                                   Some r \<Rightarrow> if is_plausible_mainnet_round r 0 then [r] else []
                                 | None \<Rightarrow> [])
                              else [])
                  in here @ rounds_in_frames D blob (off' + len)))
      else [])"
  by pat_completeness auto
termination
  by (relation "measure (\<lambda>(D, blob, off). length blob - off)") auto

declare rounds_in_frames.simps [simp del]

definition max_block_round_in_frames :: "(bytes \<Rightarrow> bytes option) \<Rightarrow> bytes \<Rightarrow> u32 option" where
  "max_block_round_in_frames D blob =
     max_clustered_round (rounds_in_frames D blob 0) MIN_ROUND_CLUSTER MAX_ROUND_CLUSTER_GAP"

section \<open>Counting frames\<close>

definition encode_frame :: "u8 \<Rightarrow> bytes \<Rightarrow> bytes" where
  "encode_frame typ payload = u32_to_be_bytes (of_nat (length payload)) @ typ # payload"

definition encode_frames :: "(u8 \<times> bytes) list \<Rightarrow> bytes" where
  "encode_frames fs = concat (map (\<lambda>(t, p). encode_frame t p) fs)"

lemma encode_frames_simps [simp]:
  "encode_frames [] = []" "encode_frames ((t, p) # fs) = encode_frame t p @ encode_frames fs"
  by (simp_all add: encode_frames_def)

lemma length_encode_frame [simp]: "length (encode_frame t p) = 5 + length p"
  by (simp add: encode_frame_def)

lemma u32_be_roundtrip:
  "u32_from_be_bytes (u32_to_be_bytes r ! 0) (u32_to_be_bytes r ! 1) (u32_to_be_bytes r ! 2) (u32_to_be_bytes r ! 3) = r"
  using u32_le_roundtrip[of r] by (simp add: u32_from_be_bytes_def u32_to_be_bytes_def u32_to_le_bytes_def)

lemma be_len_encode:
  assumes "length p < 2 ^ 32"
  shows "be_len (pre @ encode_frame t p @ post) (length pre) = length p"
proof -
  have idx: "(pre @ encode_frame t p @ post) ! (length pre + k) = u32_to_be_bytes (of_nat (length p)) ! k" if "k < 4" for k
    using that by (simp add: nth_append encode_frame_def)
  show ?thesis
    using idx[of 0] idx[of 1] idx[of 2] idx[of 3] u32_be_roundtrip[of "of_nat (length p)"] assms
    by (simp add: be_len_def unat_of_nat)
qed

lemma count_frames_shift: "count_frames buf off n = map_option (\<lambda>k. n + k) (count_frames buf off 0)"
proof (induction "length buf - off" arbitrary: off n rule: less_induct)
  case less
  let ?off = "off + 5 + be_len buf off"
  show ?case
  proof (cases "off < length buf \<and> 5 \<le> length buf - off \<and> be_len buf off \<le> MAX_COUNTED_FRAME \<and> ?off \<le> length buf")
    case True
    then have eq: "count_frames buf off k = count_frames buf ?off (k + 1)" for k
      by (simp add: count_frames.simps[of buf off])
    have "length buf - ?off < length buf - off" using True by linarith
    then show ?thesis
      unfolding eq using less[of ?off "n + 1"] less[of ?off 1]
      by (cases "count_frames buf ?off 0") simp_all
  next
    case False
    then show ?thesis by (auto simp: count_frames.simps[of buf off] not_le)
  qed
qed

lemma count_frames_encode:
  "\<forall>(t, p) \<in> set fs. length p \<le> MAX_COUNTED_FRAME \<Longrightarrow>
     count_frames (pre @ encode_frames fs) (length pre) 0 = Some (length fs)"
proof (induction fs arbitrary: pre)
  case Nil
  then show ?case by (simp add: count_frames.simps)
next
  case (Cons f fs)
  obtain t p where f: "f = (t, p)" by (cases f)
  have len: "be_len (pre @ encode_frame t p @ encode_frames fs) (length pre) = length p"
    using Cons.prems f by (intro be_len_encode) (simp add: MAX_COUNTED_FRAME_def)
  have "count_frames (pre @ encode_frame t p @ encode_frames fs) (length pre) 0 =
      count_frames (pre @ encode_frame t p @ encode_frames fs) (length pre + 5 + length p) 1"
    using Cons.prems f by (subst count_frames.simps) (simp add: len)
  also have "\<dots> = map_option (\<lambda>k. 1 + k) (count_frames ((pre @ encode_frame t p) @ encode_frames fs) (length (pre @ encode_frame t p)) 0)"
    by (subst count_frames_shift) (simp add: ac_simps)
  also have "\<dots> = Some (length (f # fs))"
    using Cons.IH[of "pre @ encode_frame t p"] Cons.prems f by simp
  finally show ?case using f by simp
qed

lemma split_frame:
  assumes "off + 5 + be_len buf off \<le> length buf"
  shows "\<exists>t p. drop off buf = encode_frame t p @ drop (off + 5 + be_len buf off) buf \<and> length p = be_len buf off"
proof -
  let ?p = "take (be_len buf off) (drop (off + 5) buf)"
  have l: "length ?p = be_len buf off" using assms by simp
  have h: "drop off buf = buf ! off # buf ! (off + 1) # buf ! (off + 2) # buf ! (off + 3) # buf ! (off + 4) # drop (off + 5) buf"
    using assms Cons_nth_drop_Suc[of off buf] Cons_nth_drop_Suc[of "off + 1" buf] Cons_nth_drop_Suc[of "off + 2" buf]
      Cons_nth_drop_Suc[of "off + 3" buf] Cons_nth_drop_Suc[of "off + 4" buf] by (simp add: eval_nat_numeral)
  have "u32_to_be_bytes (of_nat (be_len buf off)) = [buf ! off, buf ! (off + 1), buf ! (off + 2), buf ! (off + 3)]"
    using u32_be_bytes_roundtrip[of "buf ! off" "buf ! (off + 1)" "buf ! (off + 2)" "buf ! (off + 3)"]
    by (simp add: be_len_def)
  moreover have "drop (off + 5) buf = ?p @ drop (off + 5 + be_len buf off) buf"
    by (metis append_take_drop_id drop_drop add.commute)
  ultimately have "drop off buf = encode_frame (buf ! (off + 4)) ?p @ drop (off + 5 + be_len buf off) buf"
    using h l by (simp add: encode_frame_def)
  with l show ?thesis by blast
qed

lemma count_frames_decode:
  "count_frames buf off 0 = Some n \<Longrightarrow> off \<le> length buf \<Longrightarrow>
     \<exists>fs. drop off buf = encode_frames fs \<and> length fs = n \<and> (\<forall>(t, p) \<in> set fs. length p \<le> MAX_COUNTED_FRAME)"
proof (induction "length buf - off" arbitrary: off n rule: less_induct)
  case less
  let ?off = "off + 5 + be_len buf off"
  show ?case
  proof (cases "off < length buf")
    case False
    with less.prems show ?thesis by (intro exI[of _ "[]"]) (simp add: count_frames.simps)
  next
    case True
    with less.prems(1) have ok: "be_len buf off \<le> MAX_COUNTED_FRAME" "?off \<le> length buf"
      and c: "count_frames buf ?off 1 = Some n"
      by (auto simp: count_frames.simps[of buf off] not_less split: if_splits)
    from c obtain k where k: "count_frames buf ?off 0 = Some k" "n = Suc k"
      by (subst (asm) count_frames_shift) auto
    have "length buf - ?off < length buf - off" using True ok(2) by linarith
    with k ok less.hyps[of ?off k] obtain fs where fs: "drop ?off buf = encode_frames fs" "length fs = k"
        "\<forall>(t, p) \<in> set fs. length p \<le> MAX_COUNTED_FRAME"
      by blast
    obtain t p where "drop off buf = encode_frame t p @ drop ?off buf" "length p = be_len buf off"
      using split_frame[OF ok(2)] by blast
    with fs ok(1) k(2) show ?thesis
      by (intro exI[of _ "(t, p) # fs"]) auto
  qed
qed

text \<open>A capture has a frame count exactly when it is a concatenation of whole frames of at most
  1.5 GB each, and the count is their number; anything left over yields none.\<close>
theorem complete_frame_count_iff:
  "complete_frame_count buf = Some n \<longleftrightarrow>
     (\<exists>fs. buf = encode_frames fs \<and> length fs = n \<and> (\<forall>(t, p) \<in> set fs. length p \<le> 1500000000))"
  using count_frames_encode[of _ "[]"] count_frames_decode[of buf 0 n]
  by (auto simp: complete_frame_count_def MAX_COUNTED_FRAME_def)

theorem complete_frame_count_iff_witness:
  "complete_frame_count [0, 0, 0, 1, 7, 9, 0, 0, 0, 0, 2] = Some 2"
  unfolding complete_frame_count_iff
  by (rule exI[of _ "[(7, [9]), (2, [])]"]) (simp add: encode_frame_def u32_to_be_bytes_def u32_to_le_bytes_def)

end
