(* ===== verification/HS_Text.thy ===== *)
theory HS_Text
  imports HS_Prelude "HOL-Library.Sublist"
begin

text \<open>
  The text operations of the standard library the code uses on its settings, files and addresses:
  \<open>split\<close>, \<open>trim\<close>, \<open>lines\<close>, \<open>find\<close>, integer parsing and the strict IPv4 parser and printer. Strings are
  lists of characters; the texts concerned are ASCII, so white space is ASCII white space.
\<close>

section \<open>Splitting and trimming\<close>

fun split_on :: "char \<Rightarrow> string \<Rightarrow> string list" where
  "split_on c [] = [[]]"
| "split_on c (x # xs) =
     (if x = c then [] # split_on c xs
      else (case split_on c xs of [] \<Rightarrow> [[x]] | p # ps \<Rightarrow> (x # p) # ps))"

fun join_with :: "string \<Rightarrow> string list \<Rightarrow> string" where
  "join_with sep [] = []"
| "join_with sep [p] = p"
| "join_with sep (p # q # ps) = p @ sep @ join_with sep (q # ps)"

definition is_ws :: "char \<Rightarrow> bool" where
  "is_ws c \<longleftrightarrow> c \<in> {CHR 0x09, CHR 0x0A, CHR 0x0B, CHR 0x0C, CHR 0x0D, CHR '' ''}"

definition trim_with :: "(char \<Rightarrow> bool) \<Rightarrow> string \<Rightarrow> string" where
  "trim_with P s = rev (dropWhile P (rev (dropWhile P s)))"

definition trim :: "string \<Rightarrow> string" where
  "trim s = trim_with is_ws s"

definition strip_cr :: "string \<Rightarrow> string" where
  "strip_cr l = (if l \<noteq> [] \<and> last l = CHR 0x0D then butlast l else l)"

definition text_lines :: "string \<Rightarrow> string list" where
  "text_lines s =
     (let ps = split_on (CHR 0x0A) s
      in map strip_cr (butlast ps) @ (if last ps = [] then [] else [last ps]))"

definition to_lower :: "string \<Rightarrow> string" where
  "to_lower s = map (\<lambda>c. if 65 \<le> (of_char c :: nat) \<and> (of_char c :: nat) \<le> 90
     then char_of ((of_char c :: nat) + 32) else c) s"

definition is_digit :: "char \<Rightarrow> bool" where
  "is_digit c \<longleftrightarrow> 48 \<le> (of_char c :: nat) \<and> (of_char c :: nat) \<le> 57"

definition digit_val :: "char \<Rightarrow> nat" where
  "digit_val c = of_char c - 48"

definition dec_val :: "string \<Rightarrow> nat" where
  "dec_val s = foldl (\<lambda>n c. 10 * n + digit_val c) 0 s"

text \<open>\<open>str::parse\<close> of an unsigned integer with the given maximum: an optional plus sign and digits.\<close>

definition parse_uint :: "nat \<Rightarrow> string \<Rightarrow> nat option" where
  "parse_uint mx s =
     (let ds = (case s of c # cs \<Rightarrow> if c = CHR ''+'' then cs else s | [] \<Rightarrow> [])
      in if ds \<noteq> [] \<and> list_all is_digit ds \<and> dec_val ds \<le> mx then Some (dec_val ds) else None)"

abbreviation U8_MAX :: nat where "U8_MAX \<equiv> 255"
abbreviation U16_MAX :: nat where "U16_MAX \<equiv> 65535"
abbreviation U32_MAX :: nat where "U32_MAX \<equiv> 4294967295"
abbreviation U64_MAX :: nat where "U64_MAX \<equiv> 18446744073709551615"

definition starts_with :: "string \<Rightarrow> string \<Rightarrow> bool" where
  "starts_with s p \<longleftrightarrow> take (length p) s = p"

definition strip_prefix :: "string \<Rightarrow> string \<Rightarrow> string option" where
  "strip_prefix s p = (if starts_with s p then Some (drop (length p) s) else None)"

text \<open>Byte offset of the first occurrence.\<close>

fun find_str :: "string \<Rightarrow> string \<Rightarrow> nat option" where
  "find_str p [] = (if p = [] then Some 0 else None)"
| "find_str p (c # s) = (if starts_with (c # s) p then Some 0 else map_option Suc (find_str p s))"

fun rsplit_once :: "char \<Rightarrow> string \<Rightarrow> (string \<times> string) option" where
  "rsplit_once c [] = None"
| "rsplit_once c (x # xs) =
     (case rsplit_once c xs of
        Some (h, t) \<Rightarrow> Some (x # h, t)
      | None \<Rightarrow> if x = c then Some ([], xs) else None)"

section \<open>IPv4 addresses\<close>

datatype ipv4 = Ipv4 u8 u8 u8 u8

definition parse_octet :: "string \<Rightarrow> u8 option" where
  "parse_octet p =
     (if p \<noteq> [] \<and> length p \<le> 3 \<and> list_all is_digit p \<and> (hd p = CHR ''0'' \<longrightarrow> length p = 1) \<and> dec_val p \<le> 255
      then Some (word_of_nat (dec_val p)) else None)"

definition parse_ipv4 :: "string \<Rightarrow> ipv4 option" where
  "parse_ipv4 s =
     (case map parse_octet (split_on (CHR ''.'') s) of
        [Some a, Some b, Some c, Some d] \<Rightarrow> Some (Ipv4 a b c d)
      | _ \<Rightarrow> None)"

definition digit_char :: "nat \<Rightarrow> char" where
  "digit_char n = char_of (48 + n)"

definition show_octet :: "u8 \<Rightarrow> string" where
  "show_octet w =
     (let n = unat w
      in if n < 10 then [digit_char n]
         else if n < 100 then [digit_char (n div 10), digit_char (n mod 10)]
         else [digit_char (n div 100), digit_char (n div 10 mod 10), digit_char (n mod 10)])"

fun show_ipv4 :: "ipv4 \<Rightarrow> string" where
  "show_ipv4 (Ipv4 a b c d) =
     join_with ''.'' [show_octet a, show_octet b, show_octet c, show_octet d]"

text \<open>\<open>to_string\<close> of an unsigned integer.\<close>

function show_nat :: "nat \<Rightarrow> string" where
  "show_nat n = (if n < 10 then [digit_char n] else show_nat (n div 10) @ [digit_char (n mod 10)])"
  by pat_completeness auto
termination
  by (relation "measure id") auto

declare show_nat.simps [simp del]

section \<open>Lemmas\<close>

lemma split_on_nonempty [simp]: "split_on c s \<noteq> []"
  by (induction s) (auto split: list.split)

lemma split_on_no_sep: "c \<notin> set s \<Longrightarrow> split_on c s = [s]"
  by (induction s) auto

lemma split_on_pieces: "p \<in> set (split_on c s) \<Longrightarrow> c \<notin> set p"
proof (induction s arbitrary: p)
  case (Cons x s)
  then show ?case by (cases "split_on c s") (auto split: if_splits)
qed simp

lemma split_on_append: "c \<notin> set p \<Longrightarrow> split_on c (p @ c # s) = p # split_on c s"
  by (induction p) auto

lemma join_split: "join_with [c] (split_on c s) = s"
proof (induction s)
  case (Cons x s)
  then show ?case
    by (cases "split_on c s"; cases "tl (split_on c s)") auto
qed simp

lemma of_char_digit_char [simp]: "n < 10 \<Longrightarrow> of_char (digit_char n) = 48 + n"
  by (simp add: digit_char_def)

lemma is_digit_digit_char [simp]: "n < 10 \<Longrightarrow> is_digit (digit_char n)"
  by (simp add: is_digit_def)

lemma digit_val_digit_char [simp]: "n < 10 \<Longrightarrow> digit_val (digit_char n) = n"
  by (simp add: digit_val_def)

lemma digit_val_lt: "is_digit c \<Longrightarrow> digit_val c < 10"
  by (auto simp: is_digit_def digit_val_def)

lemma digit_char_digit_val: "is_digit c \<Longrightarrow> digit_char (digit_val c) = c"
  by (simp add: is_digit_def digit_val_def digit_char_def)

lemma digit_0_iff: "is_digit c \<Longrightarrow> c = CHR ''0'' \<longleftrightarrow> digit_val c = 0"
proof -
  assume d: "is_digit c"
  have "digit_val (CHR ''0'') = 0" by (simp add: digit_val_def)
  moreover have "digit_char 0 = CHR ''0''" by code_simp
  ultimately show ?thesis using digit_char_digit_val[OF d] by metis
qed

lemma digit_not_sep: "is_digit c \<Longrightarrow> c \<noteq> CHR ''.'' \<and> c \<noteq> CHR '':'' \<and> c \<noteq> CHR '','' \<and> c \<noteq> CHR ''#'' \<and> \<not> is_ws c"
  by (auto simp: is_digit_def is_ws_def)

lemma dec_val_simps:
  "dec_val [a] = digit_val a" "dec_val [a, b] = 10 * digit_val a + digit_val b"
  "dec_val [a, b, c] = 100 * digit_val a + 10 * digit_val b + digit_val c"
  by (simp_all add: dec_val_def)

lemma list_upto3:
  assumes "xs \<noteq> []" "length xs \<le> 3"
  obtains a where "xs = [a]" | a b where "xs = [a, b]" | a b c where "xs = [a, b, c]"
  using assms by (cases xs; cases "tl xs"; cases "tl (tl xs)") auto

lemma octet_div: "unat (w :: u8) div 100 < 10" "unat w < 100 \<Longrightarrow> unat w div 10 < 10"
  by (simp_all add: div_less_iff_less_mult less_trans[OF unat_u8_lt])

lemma radix10:
  fixes x q r a b :: nat
  assumes "10 * q + a = x" "10 * r + b = q"
  shows "100 * r + 10 * b + a = x"
  using assms by simp

lemma dec3: "100 * (n div 100) + 10 * (n div 10 mod 10) + n mod 10 = (n :: nat)"
proof -
  have a: "n div 100 = n div 10 div 10" by (simp flip: div_mult2_eq)
  show ?thesis unfolding a by (rule radix10[OF mult_div_mod_eq mult_div_mod_eq])
qed

lemma dec3_digits:
  fixes x y z :: nat
  assumes "x < 10" "y < 10" "z < 10"
  shows "(100 * x + 10 * y + z) div 100 = x" "(100 * x + 10 * y + z) div 10 mod 10 = y"
    "(100 * x + 10 * y + z) mod 10 = z"
proof -
  have n: "100 * x + 10 * y + z = z + (y + x * 10) * 10" by simp
  have q: "(z + (y + x * 10) * 10) div 10 = y + x * 10" using assms(3) by simp
  have h: "k div 100 = k div 10 div 10" for k :: nat by (simp flip: div_mult2_eq)
  show "(100 * x + 10 * y + z) div 100 = x" "(100 * x + 10 * y + z) div 10 mod 10 = y"
    unfolding n h q using assms(2) by simp_all
  show "(100 * x + 10 * y + z) mod 10 = z"
    unfolding n mod_mult_self1 using assms(3) by simp
qed

lemma show_octet_digits: "list_all is_digit (show_octet w)"
  by (simp add: show_octet_def Let_def octet_div)

lemma show_octet_ok: "show_octet w \<noteq> [] \<and> length (show_octet w) \<le> 3"
  by (simp add: show_octet_def Let_def)

lemma dec_val_show_octet: "dec_val (show_octet w) = unat w"
proof -
  have "n div 10 mod 10 < 10" "n mod 10 < 10" for n :: nat by simp_all
  then show ?thesis
    by (simp add: show_octet_def Let_def dec_val_simps octet_div dec3)
qed

lemma parse_show_octet: "parse_octet (show_octet w) = Some w"
proof -
  have "hd (show_octet w) = CHR ''0'' \<longrightarrow> length (show_octet w) = 1"
    by (auto simp: show_octet_def Let_def octet_div digit_0_iff)
  moreover have "dec_val (show_octet w) \<le> 255"
    unfolding dec_val_show_octet using unat_u8_lt[of w] by linarith
  ultimately show ?thesis
    using show_octet_ok[of w] show_octet_digits[of w] by (simp add: parse_octet_def dec_val_show_octet)
qed

lemma show_parse_octet:
  assumes "parse_octet p = Some w"
  shows "show_octet w = p"
proof -
  from assms have p: "p \<noteq> []" "length p \<le> 3" "list_all is_digit p" "hd p = CHR ''0'' \<longrightarrow> length p = 1"
      "dec_val p \<le> 255" "w = word_of_nat (dec_val p)"
    by (auto simp: parse_octet_def split: if_splits)
  then have n: "unat w = dec_val p"
    by (simp only: unat_of_nat_u8) simp
  from p(1,2) show ?thesis
  proof (cases rule: list_upto3)
    case (1 a)
    with p n show ?thesis by (simp add: show_octet_def Let_def dec_val_simps digit_val_lt digit_char_digit_val)
  next
    case (2 a b)
    then have "digit_val a \<noteq> 0" "digit_val a < 10" "digit_val b < 10"
      using p digit_0_iff[of a] by (auto simp: digit_val_lt)
    with 2 p n show ?thesis
      by (simp add: show_octet_def Let_def dec_val_simps digit_char_digit_val)
  next
    case (3 a b c)
    then have "digit_val a \<noteq> 0" "digit_val a < 10" "digit_val b < 10" "digit_val c < 10"
      using p digit_0_iff[of a] by (auto simp: digit_val_lt)
    with dec3_digits[of "digit_val a" "digit_val b" "digit_val c"] 3 p n show ?thesis
      by (simp add: show_octet_def Let_def dec_val_simps digit_char_digit_val)
  qed
qed

lemma sep_notin_octet: "CHR ''.'' \<notin> set (show_octet w)"
  using show_octet_digits[of w] by (auto simp: list_all_iff is_digit_def)

lemma split_show_ipv4:
  "split_on (CHR ''.'') (show_ipv4 (Ipv4 a b c d)) = [show_octet a, show_octet b, show_octet c, show_octet d]"
  by (simp add: split_on_append sep_notin_octet split_on_no_sep)

lemma parse_show_ipv4: "parse_ipv4 (show_ipv4 i) = Some i"
  by (cases i) (simp only: parse_ipv4_def split_show_ipv4, simp add: parse_show_octet)

lemma show_parse_ipv4:
  assumes "parse_ipv4 s = Some i"
  shows "show_ipv4 i = s"
proof -
  let ?ps = "split_on (CHR ''.'') s"
  obtain a b c d where m: "map parse_octet ?ps = [Some a, Some b, Some c, Some d]" and i: "i = Ipv4 a b c d"
    using assms by (auto simp: parse_ipv4_def split: list.splits option.splits)
  then obtain p q r t where ps: "?ps = [p, q, r, t]" "parse_octet p = Some a" "parse_octet q = Some b"
      "parse_octet r = Some c" "parse_octet t = Some d"
    by (auto simp: map_eq_Cons_conv)
  have "show_ipv4 i = join_with ''.'' ?ps"
    by (simp add: i ps(1) show_parse_octet[OF ps(2)] show_parse_octet[OF ps(3)] show_parse_octet[OF ps(4)]
        show_parse_octet[OF ps(5)])
  then show ?thesis by (simp add: join_split)
qed

lemma show_ipv4_inj: "show_ipv4 i = show_ipv4 j \<Longrightarrow> i = j"
  by (metis option.inject parse_show_ipv4)

lemma set_show_ipv4: "c \<in> set (show_ipv4 i) \<Longrightarrow> is_digit c \<or> c = CHR ''.''"
  using show_octet_digits by (cases i) (auto simp: list_all_iff)

lemma show_ipv4_nonempty: "show_ipv4 i \<noteq> []"
  using show_octet_ok by (cases i) simp

lemma trim_with_id: "list_all (Not \<circ> P) s \<Longrightarrow> trim_with P s = s"
proof -
  have *: "list_all (Not \<circ> P) s \<Longrightarrow> dropWhile P s = s" for s by (cases s) auto
  show "list_all (Not \<circ> P) s \<Longrightarrow> ?thesis" by (simp add: trim_with_def *)
qed

lemma trim_show_ipv4: "trim (show_ipv4 i) = show_ipv4 i"
  unfolding trim_def
  by (rule trim_with_id) (use set_show_ipv4[of _ i] digit_not_sep in \<open>force simp: list_all_iff is_ws_def\<close>)

lemma rsplit_once_none: "c \<notin> set s \<Longrightarrow> rsplit_once c s = None"
  by (induction s) auto

lemma rsplit_once_append: "c \<notin> set t \<Longrightarrow> rsplit_once c (s @ c # t) = Some (s, t)"
  by (induction s) (auto simp: rsplit_once_none)

lemma find_str_Some:
  "find_str p s = Some q \<Longrightarrow> q + length p \<le> length s \<and> starts_with (drop q s) p"
proof (induction s arbitrary: q)
  case (Cons c s)
  show ?case
  proof (cases "starts_with (c # s) p")
    case True
    then have "length p \<le> length (c # s)"
      by (metis starts_with_def length_take min.cobounded1)
    with True Cons.prems show ?thesis by auto
  next
    case False
    with Cons show ?thesis by auto
  qed
qed (auto simp: starts_with_def split: if_splits)

lemma find_str_None: "find_str p s = None \<Longrightarrow> q \<le> length s \<Longrightarrow> \<not> starts_with (drop q s) p"
proof (induction s arbitrary: q)
  case (Cons c s)
  then show ?case by (cases q) (auto split: if_splits)
qed (auto simp: starts_with_def split: if_splits)

lemma find_str_first: "find_str p s = Some q \<Longrightarrow> k < q \<Longrightarrow> \<not> starts_with (drop k s) p"
proof (induction s arbitrary: q k)
  case (Cons c s)
  then show ?case by (cases k) (auto split: if_splits)
qed (auto split: if_splits)

end
