(* ===== verification/Push_Live.thy ===== *)
theory Push_Live
  imports Round_Gate Frames HS_Text "HOL-Library.AList"
begin

text \<open>
  The push session, \<open>push/live.rs\<close>: the node-bound queue and its byte budget, the progress and lag
  guards of the active stream, the gateway's freshest round, the session's accounting, and the two
  frame handlers \<open>process_live_frame\<close> and \<open>pump_merge\<close>. Times, the network tip and the node's floor are
  values read when the code reads them.
\<close>

section \<open>The node-bound queue\<close>

definition NODE_QUEUE_BYTES :: nat where "NODE_QUEUE_BYTES = 64 * 2 ^ 20"

definition PUSH_MERGE_QUEUE_FRAMES :: nat where "PUSH_MERGE_QUEUE_FRAMES = 256"

definition NODE_BACKLOG_EXEMPT_FRAMES :: nat where "NODE_BACKLOG_EXEMPT_FRAMES = 32"

definition NODE_BACKLOG_EXEMPT_BYTES :: nat where "NODE_BACKLOG_EXEMPT_BYTES = 8 * 2 ^ 20"

text \<open>Queued frames with the permits each holds; \<open>q_budget\<close> is what is left of the byte budget.\<close>

record node_queue =
  q_frames :: "(bytes \<times> nat) list"
  q_capacity :: nat
  q_budget :: nat
  q_open :: bool

definition node_queue_budget :: nat where "node_queue_budget = NODE_QUEUE_BYTES"

definition node_queue_new :: "nat \<Rightarrow> node_queue" where
  "node_queue_new frames = \<lparr>q_frames = [], q_capacity = frames, q_budget = node_queue_budget, q_open = True\<rparr>"

text \<open>\<open>send\<close> first waits for the frame's permits and then, holding them, for a slot of the channel; a
  closed channel fails it and gives the permits back.\<close>

datatype send_result = Sent node_queue | WriterGone node_queue | WaitsBudget | WaitsSlot node_queue

definition frame_permits :: "bytes \<Rightarrow> nat" where
  "frame_permits frame = max 1 (min NODE_QUEUE_BYTES (length frame))"

definition take_slot :: "bytes \<Rightarrow> nat \<Rightarrow> node_queue \<Rightarrow> send_result" where
  "take_slot frame n q =
     (if \<not> q_open q then WriterGone (q\<lparr>q_budget := q_budget q + n\<rparr>)
      else if q_capacity q \<le> length (q_frames q) then WaitsSlot q
      else Sent (q\<lparr>q_frames := q_frames q @ [(frame, n)]\<rparr>))"

definition queue_frame :: "bytes \<Rightarrow> node_queue \<Rightarrow> send_result" where
  "queue_frame frame q =
     (let n = frame_permits frame
      in if q_budget q < n then WaitsBudget else take_slot frame n (q\<lparr>q_budget := q_budget q - n\<rparr>))"

text \<open>The writer takes a frame and gives its permits back once it is written.\<close>

definition queue_written :: "node_queue \<Rightarrow> (bytes \<times> node_queue) option" where
  "queue_written q =
     (case q_frames q of
        [] \<Rightarrow> None
      | (f, n) # rest \<Rightarrow> Some (f, q\<lparr>q_frames := rest, q_budget := q_budget q + n\<rparr>))"

definition backlog :: "node_queue \<Rightarrow> nat" where
  "backlog q = q_capacity q - (q_capacity q - length (q_frames q))"

definition backed_up :: "node_queue \<Rightarrow> bool" where
  "backed_up q \<longleftrightarrow> NODE_BACKLOG_EXEMPT_FRAMES < backlog q \<or>
     NODE_BACKLOG_EXEMPT_BYTES < NODE_QUEUE_BYTES - q_budget q"

section \<open>Progress of the active stream\<close>

definition MAX_ACTIVE_ROUND_JUMP :: u32 where "MAX_ACTIVE_ROUND_JUMP = 20000"

definition ACTIVE_BLOCK_STALL :: duration where "ACTIVE_BLOCK_STALL = from_secs 30"

definition PEER_LAG_ROUNDS :: u32 where "PEER_LAG_ROUNDS = 100"

definition PEER_LAG_GRACE :: duration where "PEER_LAG_GRACE = from_secs 5"

definition FRESHEST_STALE :: duration where "FRESHEST_STALE = from_secs 30"

definition STALL_LAG_ROUNDS :: u32 where "STALL_LAG_ROUNDS = 45"

definition STALL_LAG_GRACE :: duration where "STALL_LAG_GRACE = from_secs 3"

definition STALL_LAG_WIDEN :: u32 where "STALL_LAG_WIDEN = 30"

definition FRESHEST_TIP_SLACK :: u32 where "FRESHEST_TIP_SLACK = MAX_ACTIVE_ROUND_JUMP"

record block_progress =
  p_last_round :: u32
  p_at :: instant
  p_lag_since :: "instant option"

definition block_progress_new :: "u32 \<Rightarrow> instant \<Rightarrow> block_progress" where
  "block_progress_new last_round now = \<lparr>p_last_round = last_round, p_at = now, p_lag_since = None\<rparr>"

datatype push_error =
    RoundJump u32 u32
  | NoProgress u32
  | IdleTimeout
  | IdlePayload
  | ReadFailed io_error
  | Oversized
  | Implausible u32
  | LagsFreshest u32
  | LaggedTip u32 u32
  | ShortFrame
  | MisSized
  | NodeWriterClosed

definition on_round :: "u32 \<Rightarrow> instant \<Rightarrow> block_progress \<Rightarrow> push_error + block_progress" where
  "on_round rnd now p =
     (if p_last_round p \<noteq> 0 \<and> saturating_add (p_last_round p) MAX_ACTIVE_ROUND_JUMP < rnd
      then Inl (RoundJump rnd (p_last_round p))
      else Inr (if p_last_round p < rnd then p\<lparr>p_last_round := rnd, p_at := now\<rparr> else p))"

definition hold :: "instant \<Rightarrow> block_progress \<Rightarrow> block_progress" where
  "hold now p = p\<lparr>p_at := now\<rparr>"

definition stalled :: "instant \<Rightarrow> block_progress \<Rightarrow> bool" where
  "stalled now p \<longleftrightarrow> p_last_round p \<noteq> 0 \<and> ACTIVE_BLOCK_STALL < now - p_at p"

record stalled_behind =
  s_rounds :: u32
  s_grace :: duration
  s_widen :: u32
  s_since :: "(instant \<times> u32) option"

definition stalled_behind_new :: "u32 \<Rightarrow> duration \<Rightarrow> u32 \<Rightarrow> stalled_behind" where
  "stalled_behind_new rounds grace widen =
     \<lparr>s_rounds = rounds, s_grace = grace, s_widen = widen, s_since = None\<rparr>"

definition behind_of :: "u32 option \<Rightarrow> u32 \<Rightarrow> u32" where
  "behind_of freshest own = (case freshest of None \<Rightarrow> 0 | Some f \<Rightarrow> saturating_sub f own)"

definition stalled_check ::
  "u32 \<Rightarrow> u32 option \<Rightarrow> bool \<Rightarrow> instant \<Rightarrow> stalled_behind \<Rightarrow> u32 option \<times> stalled_behind" where
  "stalled_check own_round freshest node_backed_up now s =
     (let behind = behind_of freshest own_round
      in if own_round = 0 \<or> node_backed_up \<or> behind < s_rounds s then (None, s\<lparr>s_since := None\<rparr>)
         else (let (at, start) = (case s_since s of Some x \<Rightarrow> x | None \<Rightarrow> (now, behind))
               in (if s_grace s \<le> now - at \<and> saturating_add start (s_widen s) \<le> behind
                   then Some behind else None,
                   s\<lparr>s_since := Some (at, start)\<rparr>)))"

section \<open>The freshest round\<close>

record freshest_round =
  f_streams :: "(nat \<times> (ip \<times> u32 \<times> instant)) list"
  f_next_id :: nat
  f_lag_rounds :: u32
  f_grace :: duration
  f_stale :: duration

definition freshest_new :: "u32 \<Rightarrow> duration \<Rightarrow> duration \<Rightarrow> freshest_round" where
  "freshest_new lag_rounds grace stale =
     \<lparr>f_streams = [], f_next_id = 0, f_lag_rounds = lag_rounds, f_grace = grace, f_stale = stale\<rparr>"

definition feed :: "freshest_round \<Rightarrow> nat \<times> freshest_round" where
  "feed f = (f_next_id f, f\<lparr>f_next_id := f_next_id f + 1\<rparr>)"

definition offer :: "u32 \<Rightarrow> nat \<Rightarrow> ip \<Rightarrow> u32 \<Rightarrow> instant \<Rightarrow> freshest_round \<Rightarrow> freshest_round" where
  "offer net_tip i peer round now f =
     (if net_tip = 0 \<or> saturating_add net_tip FRESHEST_TIP_SLACK < round then f
      else (let kept = filter (\<lambda>(_, _, _, at). now - at \<le> f_stale f) (f_streams f);
                (p, r, at) = (case map_of kept i of Some e \<Rightarrow> e | None \<Rightarrow> (peer, round, now));
                e = (if r < round then (p, round, now) else (p, r, at))
            in f\<lparr>f_streams := AList.update i e kept\<rparr>))"

definition drop_feed :: "nat \<Rightarrow> freshest_round \<Rightarrow> freshest_round" where
  "drop_feed i f = f\<lparr>f_streams := AList.delete i (f_streams f)\<rparr>"

fun per_peer :: "(ip \<times> u32 \<times> instant) list \<Rightarrow> (ip \<times> u32) list \<Rightarrow> (ip \<times> u32) list" where
  "per_peer [] m = m"
| "per_peer ((peer, round, at) # es) m =
     per_peer es (AList.update peer (max (case map_of m peer of Some b \<Rightarrow> b | None \<Rightarrow> 0) round) m)"

definition get_within :: "u32 \<Rightarrow> duration \<Rightarrow> instant \<Rightarrow> freshest_round \<Rightarrow> u32 option" where
  "get_within tip max_age now f =
     (if tip = 0 then None
      else (let ceiling = saturating_add tip FRESHEST_TIP_SLACK;
                live = filter (\<lambda>(peer, round, at). now - at \<le> max_age \<and> round \<le> ceiling) (map snd (f_streams f));
                rounds = rev (sort (map snd (per_peer live [])))
            in if 1 < length rounds then Some (rounds ! 1) else None))"

definition freshest_get :: "u32 \<Rightarrow> instant \<Rightarrow> freshest_round \<Rightarrow> u32 option" where
  "freshest_get tip now f = get_within tip (f_stale f) now f"

definition select_floor :: "u32 \<Rightarrow> instant \<Rightarrow> freshest_round \<Rightarrow> u32" where
  "select_floor tip now f =
     (case get_within tip (f_stale f - f_grace f) now f of
        None \<Rightarrow> 0 | Some r \<Rightarrow> saturating_sub r (f_lag_rounds f))"

definition lagging ::
  "freshest_round \<Rightarrow> u32 option \<Rightarrow> bool \<Rightarrow> instant \<Rightarrow> block_progress \<Rightarrow> u32 option \<times> block_progress" where
  "lagging f freshest node_backed_up now p =
     (let behind = behind_of freshest (p_last_round p)
      in if p_last_round p = 0 \<or> node_backed_up \<or> behind \<le> f_lag_rounds f
         then (None, p\<lparr>p_lag_since := None\<rparr>)
         else (let since = (case p_lag_since p of Some t \<Rightarrow> t | None \<Rightarrow> now)
               in (if f_grace f \<le> now - since then Some behind else None, p\<lparr>p_lag_since := Some since\<rparr>)))"

section \<open>Accounting\<close>

datatype frame_kind = Control | Block | DataNoRound

record push_stats =
  control_fwd :: nat
  blocks_fwd :: nat
  data_noround_fwd :: nat
  bytes_fwd :: nat
  drop_floor :: nat
  drop_gate :: nat
  drop_samples :: nat

definition push_stats_default :: push_stats where
  "push_stats_default = \<lparr>control_fwd = 0, blocks_fwd = 0, data_noround_fwd = 0, bytes_fwd = 0,
     drop_floor = 0, drop_gate = 0, drop_samples = 0\<rparr>"

definition stats_forwarded :: "bytes \<Rightarrow> frame_kind \<Rightarrow> push_stats \<Rightarrow> push_stats" where
  "stats_forwarded frame kind s =
     (let s1 = (case kind of
                  Control \<Rightarrow> s\<lparr>control_fwd := control_fwd s + 1\<rparr>
                | Block \<Rightarrow> s\<lparr>blocks_fwd := blocks_fwd s + 1\<rparr>
                | DataNoRound \<Rightarrow> s\<lparr>data_noround_fwd := data_noround_fwd s + 1\<rparr>)
      in s1\<lparr>bytes_fwd := bytes_fwd s1 + length frame\<rparr>)"

definition stats_dropped :: "string \<Rightarrow> push_stats \<Rightarrow> push_stats" where
  "stats_dropped why s =
     (let s1 = (if why = ''floor'' then s\<lparr>drop_floor := drop_floor s + 1\<rparr>
                else s\<lparr>drop_gate := drop_gate s + 1\<rparr>)
      in s1\<lparr>drop_samples := drop_samples s1 + 1\<rparr>)"

definition no_block_rounds_alarm :: "nat \<Rightarrow> nat \<Rightarrow> string" where
  "no_block_rounds_alarm blocks noround =
     (if blocks = 0 \<and> 100 \<le> noround then '' ALERT=no_block_rounds_decoded(wire format change?)'' else [])"

definition stats_summary :: "push_stats \<Rightarrow> string" where
  "stats_summary s =
     ''ctl='' @ show_nat (control_fwd s) @ '' blocks='' @ show_nat (blocks_fwd s)
     @ '' data_noround='' @ show_nat (data_noround_fwd s) @ '' bytes='' @ show_nat (bytes_fwd s)
     @ '' drop_floor='' @ show_nat (drop_floor s) @ '' drop_dup='' @ show_nat (drop_gate s)
     @ no_block_rounds_alarm (blocks_fwd s) (data_noround_fwd s)"

definition RETURNING_TO_PRIORITY :: string where
  "RETURNING_TO_PRIORITY = ''returning to a priority peer''"

definition NODE_CATCHUP_STUCK :: string where
  "NODE_CATCHUP_STUCK = ''node catch-up not converging''"

definition push_exit_is_upstream_fault :: "string \<Rightarrow> bool" where
  "push_exit_is_upstream_fault reason \<longleftrightarrow>
     \<not> (starts_with reason ''node outbound ended''
        \<or> starts_with reason ''node outbound read failed''
        \<or> starts_with reason ''node outbound task join error''
        \<or> starts_with reason ''active task join error''
        \<or> starts_with reason ''active lag logger''
        \<or> starts_with reason ''event channel closed''
        \<or> starts_with reason ''node write''
        \<or> starts_with reason ''node greeting write''
        \<or> starts_with reason ''active superseded''
        \<or> starts_with reason RETURNING_TO_PRIORITY
        \<or> starts_with reason NODE_CATCHUP_STUCK)"

section \<open>Frame handlers\<close>

text \<open>What a session's handlers share: the gate, the highest round, the stream's entry in the freshest
  round (its id, peer and own highest round), the accounting, and the frames sent to the node.\<close>

record push_sess =
  ps_gate :: round_forward_gate
  ps_active_round :: u32
  ps_feed :: "(nat \<times> ip \<times> u32) option"
  ps_freshest :: freshest_round
  ps_stats :: push_stats
  ps_sent :: "bytes list"
  ps_writer_open :: bool

definition feed_offer :: "u32 \<Rightarrow> u32 \<Rightarrow> instant \<Rightarrow> push_sess \<Rightarrow> push_sess" where
  "feed_offer net_tip rnd now st =
     (case ps_feed st of
        None \<Rightarrow> st
      | Some (i, peer, own) \<Rightarrow>
          st\<lparr>ps_feed := Some (i, peer, max own rnd),
             ps_freshest := offer net_tip i peer rnd now (ps_freshest st)\<rparr>)"

definition send_node :: "bytes \<Rightarrow> frame_kind \<Rightarrow> push_sess \<Rightarrow> bool \<times> push_sess" where
  "send_node frame kind st =
     (let st1 = st\<lparr>ps_stats := stats_forwarded frame kind (ps_stats st)\<rparr>
      in if ps_writer_open st1 then (True, st1\<lparr>ps_sent := ps_sent st1 @ [frame]\<rparr>) else (False, st1))"

text \<open>The floor and gate tests at the end of both handlers: the frame is sent as a block, or dropped.\<close>

definition gate_block :: "u32 \<Rightarrow> u32 \<Rightarrow> bytes \<Rightarrow> push_sess \<Rightarrow> bool option \<times> push_sess" where
  "gate_block floor rnd frame st =
     (if rnd \<le> floor then (None, st\<lparr>ps_stats := stats_dropped ''floor'' (ps_stats st)\<rparr>)
      else (let (fwd, g) = should_forward rnd True (ps_gate st); st1 = st\<lparr>ps_gate := g\<rparr>
            in if \<not> fwd then (None, st1\<lparr>ps_stats := stats_dropped ''dup'' (ps_stats st1)\<rparr>)
               else (let (ok, st2) = send_node frame Block st1 in (Some ok, st2))))"

definition sent_or_closed :: "bool \<Rightarrow> push_error option" where
  "sent_or_closed ok = (if ok then None else Some NodeWriterClosed)"

definition process_live_frame ::
  "(bytes \<Rightarrow> bytes option) \<Rightarrow> u32 \<Rightarrow> u32 \<Rightarrow> instant \<Rightarrow> bytes \<Rightarrow> push_sess \<Rightarrow> push_error option \<times> push_sess" where
  "process_live_frame D floor net_tip now frame st =
     (if length frame < 5 then (Some ShortFrame, st)
      else if be_len frame 0 \<noteq> length frame - 5 then (Some MisSized, st)
      else if frame ! 4 \<noteq> 1 then
        (let (ok, st1) = send_node frame Control st in (sent_or_closed ok, st1))
      else (case block_round D (drop 5 frame) of
          None \<Rightarrow> (let (ok, st1) = send_node frame DataNoRound st in (sent_or_closed ok, st1))
        | Some rnd \<Rightarrow>
            if \<not> is_plausible_mainnet_round rnd net_tip then (Some (Implausible rnd), st)
            else (let prev = ps_active_round st
              in if prev \<noteq> 0 \<and> saturating_add prev MAX_ACTIVE_ROUND_JUMP < rnd
                 then (Some (RoundJump rnd prev), st)
                 else (let st1 = feed_offer net_tip rnd now (st\<lparr>ps_active_round := max prev rnd\<rparr>)
                   in case round_lag_from_tip rnd net_tip ACTIVE_ROUND_MAX_LAG of
                        Some lag \<Rightarrow> (Some (LaggedTip rnd lag), st1)
                      | None \<Rightarrow>
                          (case gate_block floor rnd frame st1 of
                             (None, st2) \<Rightarrow> (None, st2)
                           | (Some ok, st2) \<Rightarrow> (sent_or_closed ok, st2))))))"

text \<open>One pass of the loop of \<open>pump_merge\<close> after a frame was read. \<open>None\<close> goes on, \<open>Some (Inl e)\<close> ends with
  an error and \<open>Some (Inr ())\<close> ends because the writer is gone.\<close>

definition pump_frame ::
  "(bytes \<Rightarrow> bytes option) \<Rightarrow> u32 \<Rightarrow> u32 \<Rightarrow> bool \<Rightarrow> instant \<Rightarrow> bytes \<Rightarrow> block_progress \<times> push_sess
     \<Rightarrow> (push_error + unit) option \<times> block_progress \<times> push_sess" where
  "pump_frame D floor net_tip backed now frame = (\<lambda>(p, st).
     let closed = (\<lambda>ok. if ok then None else Some (Inr ()))
     in if frame ! 4 \<noteq> 1 then
          (let (ok, st1) = send_node frame Control st in (closed ok, p, st1))
        else (case block_round D (drop 5 frame) of
            None \<Rightarrow> (let (ok, st1) = send_node frame DataNoRound st in (closed ok, p, st1))
          | Some rnd \<Rightarrow>
              if \<not> is_plausible_mainnet_round rnd net_tip then (Some (Inl (Implausible rnd)), p, st)
              else (case on_round rnd now p of
                  Inl e \<Rightarrow> (Some (Inl e), p, st)
                | Inr p1 \<Rightarrow>
                    (let st1 = feed_offer net_tip rnd now (st\<lparr>ps_active_round := max (ps_active_round st) rnd\<rparr>);
                         (lag, p2) = (case ps_feed st1 of
                                        None \<Rightarrow> (None, p1)
                                      | Some _ \<Rightarrow> lagging (ps_freshest st1) (freshest_get net_tip now (ps_freshest st1)) backed now p1)
                     in case lag of
                          Some b \<Rightarrow> (Some (Inl (LagsFreshest b)), p2, st1)
                        | None \<Rightarrow>
                            (case round_lag_from_tip rnd net_tip ACTIVE_ROUND_MAX_LAG of
                               Some l \<Rightarrow> (Some (Inl (LaggedTip rnd l)), p2, st1)
                             | None \<Rightarrow>
                                 (case gate_block floor rnd frame st1 of
                                    (None, st2) \<Rightarrow> (None, p2, st2)
                                  | (Some ok, st2) \<Rightarrow> (closed ok, p2, st2)))))))"

text \<open>What one pass of the loop meets: the time at its start and when the frame is in, whether the node
  is backed up (at the start and at the lag test), the tip and floor in force, what the other streams
  did to the shared freshest round meanwhile, and what the stream gives to read.\<close>

record pump_input =
  i_now :: instant
  i_at :: instant
  i_backed :: bool
  i_backed_lag :: bool
  i_tip :: u32
  i_floor :: u32
  i_others :: "freshest_round \<Rightarrow> freshest_round"
  i_read :: "rd_ev list"

definition read_frame_checked :: "rd_ev list \<Rightarrow> push_error + bytes" where
  "read_frame_checked s =
     (case read_exact 5 s of
        (Inl Elapsed, _) \<Rightarrow> Inl IdleTimeout
      | (Inl e, _) \<Rightarrow> Inl (ReadFailed e)
      | (Inr hdr, s1) \<Rightarrow>
          (let len = be_len hdr 0
           in if MAX_LIVE_FRAME < len then Inl Oversized
              else (case read_exact len s1 of
                      (Inl Elapsed, _) \<Rightarrow> Inl IdlePayload
                    | (Inl e, _) \<Rightarrow> Inl (ReadFailed e)
                    | (Inr payload, _) \<Rightarrow> Inr (hdr @ payload))))"

fun pump_merge :: "(bytes \<Rightarrow> bytes option) \<Rightarrow> pump_input list \<Rightarrow> block_progress \<times> push_sess
    \<Rightarrow> (push_error + unit) option \<times> block_progress \<times> push_sess" where
  "pump_merge D [] x = (None, x)"
| "pump_merge D (i # is) (p, st) =
     (let p1 = (if i_backed i then hold (i_now i) p else p)
      in if stalled (i_now i) p1 then (Some (Inl (NoProgress (p_last_round p1))), p1, st)
         else (case read_frame_checked (i_read i) of
             Inl e \<Rightarrow> (Some (Inl e), p1, st)
           | Inr frame \<Rightarrow>
               (case pump_frame D (i_floor i) (i_tip i) (i_backed_lag i) (i_at i) frame
                        (p1, st\<lparr>ps_freshest := i_others i (ps_freshest st)\<rparr>) of
                  (Some r, x) \<Rightarrow> (Some r, x)
                | (None, x) \<Rightarrow> pump_merge D is x)))"

end
