(* ===== verification/Push_Session.thy ===== *)
theory Push_Session
  imports Push_Live
begin

text \<open>
  The relays and the session of \<open>push/live.rs\<close>: \<open>copy_node_to_upstream\<close>, \<open>splice_with_idle\<close> and
  \<open>serve_push\<close>. Concurrent tasks are modelled by the order in which their events happen: a schedule is a
  list of events, and a run that has not ended yet returns \<open>None\<close>. Messages of the operating system are
  a parameter \<open>msg\<close>.
\<close>

section \<open>Relays\<close>

datatype write_res = Wrote | WriteFailed string | WriteTimeout

text \<open>The node to upstream half. A read with no deadline waits, so a quiet spell is no event.\<close>

definition copy_step :: "rd_ev \<Rightarrow> write_res \<Rightarrow> nat \<Rightarrow> nat + nat \<times> bool" where
  "copy_step r w copied =
     (case r of
        Chunk bs \<Rightarrow>
          if bs = [] then Inl copied
          else if w = Wrote then Inl (copied + length bs) else Inr (copied, True)
      | Eof \<Rightarrow> Inr (copied, False)
      | Fail \<Rightarrow> Inr (copied, False)
      | Quiet \<Rightarrow> Inl copied)"

fun copy_node_to_upstream :: "(rd_ev \<times> write_res) list \<Rightarrow> nat \<Rightarrow> (nat \<times> bool) option" where
  "copy_node_to_upstream [] copied = None"
| "copy_node_to_upstream ((r, w) # evs) copied =
     (case copy_step r w copied of
        Inl c \<Rightarrow> copy_node_to_upstream evs c
      | Inr res \<Rightarrow> Some res)"

text \<open>The upstream to node half: \<open>idle\<close> says whether silence ends it.\<close>

definition push_step :: "bool \<Rightarrow> rd_ev \<Rightarrow> write_res \<Rightarrow> nat \<Rightarrow> nat \<times> bool option" where
  "push_step idle r w to_node =
     (case r of
        Quiet \<Rightarrow> (to_node, if idle then Some True else None)
      | Eof \<Rightarrow> (to_node, Some True)
      | Fail \<Rightarrow> (to_node, Some True)
      | Chunk bs \<Rightarrow>
          if bs = [] then (to_node, None)
          else if w = Wrote then (to_node + length bs, None) else (to_node, Some False))"

datatype relay_ev = FromNode rd_ev write_res | FromPeer rd_ev write_res | RelayBlacklisted

record relayed =
  to_node :: nat
  to_peer :: nat
  upstream_ended :: bool

fun splice_with_idle :: "bool \<Rightarrow> relay_ev list \<Rightarrow> nat \<Rightarrow> nat \<Rightarrow> relayed option" where
  "splice_with_idle idle [] n copied = None"
| "splice_with_idle idle (RelayBlacklisted # evs) n copied =
     Some \<lparr>to_node = n, to_peer = 0, upstream_ended = True\<rparr>"
| "splice_with_idle idle (FromNode r w # evs) n copied =
     (case copy_step r w copied of
        Inl c \<Rightarrow> splice_with_idle idle evs n c
      | Inr (c, up) \<Rightarrow> Some \<lparr>to_node = n, to_peer = c, upstream_ended = up\<rparr>)"
| "splice_with_idle idle (FromPeer r w # evs) n copied =
     (case push_step idle r w n of
        (n', None) \<Rightarrow> splice_with_idle idle evs n' copied
      | (n', Some up) \<Rightarrow> Some \<lparr>to_node = n', to_peer = 0, upstream_ended = up\<rparr>)"

definition splice :: "relay_ev list \<Rightarrow> (nat \<times> nat) option" where
  "splice evs = map_option (\<lambda>r. (to_node r, to_peer r)) (splice_with_idle False evs 0 0)"

section \<open>The push session\<close>

record push_config =
  pc_hosts :: "ip list"
  pc_active_idx :: nat
  pc_prefetched_greeting :: "bytes option"
  pc_prefetched_frames :: "bytes list"
  pc_initial_last_forwarded :: u32
  pc_freshest :: "freshest_round option"

definition greeting_written :: "write_res \<Rightarrow> bytes \<Rightarrow> string + bytes" where
  "greeting_written w greet =
     (case w of
        Wrote \<Rightarrow> Inr greet
      | WriteFailed e \<Rightarrow> Inl (''node greeting write failed: '' @ e)
      | WriteTimeout \<Rightarrow> Inl ''node greeting write failed: timeout'')"

definition serve_greeting ::
  "(io_error \<Rightarrow> string) \<Rightarrow> bytes option \<Rightarrow> rd_ev list \<Rightarrow> write_res \<Rightarrow> string + bytes" where
  "serve_greeting msg prefetched act_r w =
     (case prefetched of
        Some greet \<Rightarrow> greeting_written w greet
      | None \<Rightarrow>
          (case read_live_frame_with_timeout 1000 act_r of
             (Inl e, _) \<Rightarrow> Inl (''active greeting read failed: '' @ msg e)
           | (Inr greet, _) \<Rightarrow>
               if response_is_peer_full greet then Inl ''active peer full'' else greeting_written w greet))"

definition push_error_msg :: "(io_error \<Rightarrow> string) \<Rightarrow> push_error \<Rightarrow> string" where
  "push_error_msg msg e =
     (case e of
        RoundJump r prev \<Rightarrow> ''active block round jump round='' @ show_nat (unat r) @ '' prev='' @ show_nat (unat prev)
                              @ '' max_jump='' @ show_nat (unat MAX_ACTIVE_ROUND_JUMP)
      | NoProgress r \<Rightarrow> ''no block progress for '' @ show_nat (ACTIVE_BLOCK_STALL div from_secs 1)
                              @ ''s (last round '' @ show_nat (unat r) @ '')''
      | IdleTimeout \<Rightarrow> ''idle timeout''
      | IdlePayload \<Rightarrow> ''idle timeout (payload)''
      | ReadFailed x \<Rightarrow> msg x
      | Oversized \<Rightarrow> ''oversized frame from active peer''
      | Implausible r \<Rightarrow> ''implausible active block round '' @ show_nat (unat r)
      | LagsFreshest b \<Rightarrow> ''active peer lags the freshest stream by '' @ show_nat (unat b) @ '' rounds''
      | LaggedTip r lag \<Rightarrow> ''active block round lagged round='' @ show_nat (unat r)
                              @ '' net_tip='' @ show_nat (unat (r + lag)) @ '' lag='' @ show_nat (unat lag)
                              @ '' max_lag='' @ show_nat (unat ACTIVE_ROUND_MAX_LAG)
      | ShortFrame \<Rightarrow> ''short prefetched frame''
      | MisSized \<Rightarrow> ''mis-sized prefetched frame''
      | NodeWriterClosed \<Rightarrow> ''node writer closed'')"

text \<open>The frames that came with the selection, each with the floor, tip and time at which it is handled.\<close>

fun serve_prefetched ::
  "(bytes \<Rightarrow> bytes option) \<Rightarrow> (bytes \<times> u32 \<times> u32 \<times> instant) list \<Rightarrow> push_sess \<Rightarrow> push_error option \<times> push_sess" where
  "serve_prefetched D [] st = (None, st)"
| "serve_prefetched D ((frame, floor, tip, now) # fs) st =
     (case process_live_frame D floor tip now frame st of
        (Some e, st1) \<Rightarrow> (Some e, st1)
      | (None, st1) \<Rightarrow> serve_prefetched D fs st1)"

text \<open>The session once its tasks run: the pump and its result, the frames written to the node so far, and
  the stall timer.\<close>

record serve_state =
  sv_progress :: block_progress
  sv_sess :: push_sess
  sv_written :: "bytes list"
  sv_stall :: stalled_behind

datatype pump_end = PumpOk | PumpErr push_error | PumpPanic string

definition active_exit_reason :: "(io_error \<Rightarrow> string) \<Rightarrow> pump_end \<Rightarrow> string" where
  "active_exit_reason msg r =
     (case r of
        PumpOk \<Rightarrow> ''active stream ended''
      | PumpErr e \<Rightarrow> ''active stream error: '' @ push_error_msg msg e
      | PumpPanic e \<Rightarrow> ''active task join error: '' @ e)"

datatype sess_ev =
    Superseded
  | PeerBlacklisted
  | EndWhen string
  | StallTick "u32 option" bool instant
  | NodeWrite write_res
  | NodeOutbound rd_ev write_res
  | NodeOutboundPanic string
  | PumpPass pump_input
  | PumpPanics string
  | LagLogEnded "string option"

text \<open>The node to peer task of the session: a read with no deadline and a bounded write.\<close>

definition node_outbound :: "rd_ev \<Rightarrow> write_res \<Rightarrow> string option" where
  "node_outbound r w =
     (case r of
        Chunk bs \<Rightarrow>
          if bs = [] then None
          else (case w of
                  Wrote \<Rightarrow> None
                | WriteFailed e \<Rightarrow> Some (''node outbound write failed: '' @ e)
                | WriteTimeout \<Rightarrow> Some ''node outbound write timeout'')
      | Quiet \<Rightarrow> None
      | Eof \<Rightarrow> Some ''node outbound ended''
      | Fail \<Rightarrow> Some ''node outbound ended'')"

definition serve_event ::
  "(bytes \<Rightarrow> bytes option) \<Rightarrow> (io_error \<Rightarrow> string) \<Rightarrow> sess_ev \<Rightarrow> serve_state \<Rightarrow> string option \<times> serve_state" where
  "serve_event D msg ev s =
     (case ev of
        Superseded \<Rightarrow> (Some ''active superseded by failover'', s)
      | PeerBlacklisted \<Rightarrow> (Some ''active peer blacklisted'', s)
      | EndWhen reason \<Rightarrow> (Some reason, s)
      | StallTick freshest backed now \<Rightarrow>
          (case ps_feed (sv_sess s) of
             None \<Rightarrow> (None, s)
           | Some (_, _, own) \<Rightarrow>
               (let (b, st) = stalled_check own freshest backed now (sv_stall s)
                in (map_option (\<lambda>behind. ''active peer stalled behind the freshest stream by ''
                                  @ show_nat (unat behind) @ '' rounds'') b, s\<lparr>sv_stall := st\<rparr>)))
      | NodeWrite w \<Rightarrow>
          (let n = length (sv_written s)
           in if length (ps_sent (sv_sess s)) \<le> n then (None, s)
              else (case w of
                      Wrote \<Rightarrow> (None, s\<lparr>sv_written := sv_written s @ [ps_sent (sv_sess s) ! n]\<rparr>)
                    | WriteFailed e \<Rightarrow> (Some (''node write failed: '' @ e), s)
                    | WriteTimeout \<Rightarrow> (Some ''node write timeout'', s)))
      | NodeOutbound r w \<Rightarrow> (node_outbound r w, s)
      | NodeOutboundPanic e \<Rightarrow> (Some (''node outbound task join error: '' @ e), s)
      | PumpPass i \<Rightarrow>
          (case pump_merge D [i] (sv_progress s, sv_sess s) of
             (r, p, st) \<Rightarrow>
               (map_option (\<lambda>x. active_exit_reason msg (case x of Inl e \<Rightarrow> PumpErr e | Inr _ \<Rightarrow> PumpOk)) r,
                s\<lparr>sv_progress := p, sv_sess := st\<rparr>))
      | PumpPanics e \<Rightarrow> (Some (active_exit_reason msg (PumpPanic e)), s)
      | LagLogEnded None \<Rightarrow> (Some ''active lag logger ended'', s)
      | LagLogEnded (Some e) \<Rightarrow> (Some (''active lag logger task join error: '' @ e), s))"

fun serve_loop ::
  "(bytes \<Rightarrow> bytes option) \<Rightarrow> (io_error \<Rightarrow> string) \<Rightarrow> sess_ev list \<Rightarrow> serve_state \<Rightarrow> string option \<times> serve_state" where
  "serve_loop D msg [] s = (None, s)"
| "serve_loop D msg (ev # evs) s =
     (case serve_event D msg ev s of
        (Some reason, s1) \<Rightarrow>
          (Some (reason @ '' stats=['' @ stats_summary (ps_stats (sv_sess s1)) @ '']''), s1)
      | (None, s1) \<Rightarrow> serve_loop D msg evs s1)"

definition push_sess_start :: "push_config \<Rightarrow> push_sess" where
  "push_sess_start cfg =
     \<lparr>ps_gate = with_last_forwarded 16384 (pc_initial_last_forwarded cfg),
      ps_active_round = pc_initial_last_forwarded cfg,
      ps_feed = map_option (\<lambda>f. (fst (feed f), pc_hosts cfg ! pc_active_idx cfg, 0)) (pc_freshest cfg),
      ps_freshest = (case pc_freshest cfg of
                       Some f \<Rightarrow> snd (feed f) | None \<Rightarrow> freshest_new PEER_LAG_ROUNDS PEER_LAG_GRACE FRESHEST_STALE),
      ps_stats = push_stats_default, ps_sent = [], ps_writer_open = True\<rparr>"

text \<open>The whole session. The greeting is written before anything else; \<open>conds\<close> are the floor, tip and time
  when the \<open>k\<close>-th prefetched frame is handled.\<close>

definition serve_push ::
  "(bytes \<Rightarrow> bytes option) \<Rightarrow> (io_error \<Rightarrow> string) \<Rightarrow> push_config \<Rightarrow> rd_ev list \<Rightarrow> write_res
     \<Rightarrow> (nat \<Rightarrow> u32 \<times> u32 \<times> instant) \<Rightarrow> instant \<Rightarrow> sess_ev list \<Rightarrow> string option \<times> bytes list" where
  "serve_push D msg cfg act_r w conds start evs =
     (case serve_greeting msg (pc_prefetched_greeting cfg) act_r w of
        Inl reason \<Rightarrow> (Some reason, [])
      | Inr greet \<Rightarrow>
          (case serve_prefetched D (map (\<lambda>(k, f). (f, conds k)) (enumerate 0 (pc_prefetched_frames cfg))) (push_sess_start cfg) of
             (Some e, st) \<Rightarrow> (Some (''prefetched frame processing failed: '' @ push_error_msg msg e), [greet])
           | (None, st) \<Rightarrow>
               (case serve_loop D msg evs
                       \<lparr>sv_progress = block_progress_new (ps_active_round st) start, sv_sess = st, sv_written = [],
                        sv_stall = stalled_behind_new STALL_LAG_ROUNDS STALL_LAG_GRACE STALL_LAG_WIDEN\<rparr> of
                  (r, s) \<Rightarrow> (r, greet # sv_written s))))"

end
