(* ===== verification/Blacklist.thy ===== *)
theory Blacklist
  imports HS_Text
begin

text \<open>
  The upstream blacklist (\<open>blacklist.rs\<close>) and the comma-separated settings (\<open>util.rs\<close>). The
  process-wide list, its length, the reported invalid entries and the version counter are one
  record; the environment variable and the file contents are arguments of \<open>reload\<close>.
\<close>

section \<open>Definitions\<close>

definition split_csv :: "string \<Rightarrow> string list" where
  "split_csv v = filter (\<lambda>s. s \<noteq> []) (map trim (split_on (CHR '','') v))"

record blacklist =
  bl_list :: "ipv4 set"
  bl_len :: nat
  bl_invalid :: "string list"
  bl_version :: nat

definition blacklist_init :: blacklist where
  "blacklist_init = \<lparr>bl_list = {}, bl_len = 0, bl_invalid = [], bl_version = 0\<rparr>"

definition install_set :: "ipv4 set \<Rightarrow> blacklist \<Rightarrow> blacklist" where
  "install_set ips st = st\<lparr>bl_len := card ips, bl_list := ips, bl_version := bl_version st + 1\<rparr>"

definition source_tokens :: "string option \<Rightarrow> string option \<Rightarrow> string list" where
  "source_tokens env_val file =
     (case env_val of None \<Rightarrow> [] | Some v \<Rightarrow> split_on (CHR '','') v) @
     (case file of None \<Rightarrow> [] | Some f \<Rightarrow> map (\<lambda>l. hd (split_on (CHR ''#'') l)) (text_lines f))"

definition bl_parse :: "string option \<Rightarrow> string option \<Rightarrow> ipv4 set \<times> string list" where
  "bl_parse env_val file =
     (let toks = filter (\<lambda>t. t \<noteq> []) (map trim (source_tokens env_val file))
      in (set (List.map_filter parse_ipv4 toks), filter (\<lambda>t. parse_ipv4 t = None) toks))"

definition reload :: "string option \<Rightarrow> string option \<Rightarrow> blacklist \<Rightarrow> nat \<times> blacklist" where
  "reload env_val file st =
     (let (ips, invalid) = bl_parse env_val file;
          st1 = (if bl_invalid st \<noteq> invalid then st\<lparr>bl_invalid := invalid\<rparr> else st)
      in (card ips, if bl_list st1 \<noteq> ips then install_set ips st1 else st1))"

definition host_of :: "string \<Rightarrow> string" where
  "host_of addr =
     (case rsplit_once (CHR '':'') addr of
        Some (h, p) \<Rightarrow> if parse_uint U16_MAX p \<noteq> None then h else addr
      | None \<Rightarrow> addr)"

definition bl_contains :: "blacklist \<Rightarrow> string \<Rightarrow> bool" where
  "bl_contains st addr =
     (if bl_len st = 0 then False
      else (case parse_ipv4 (host_of addr) of Some i \<Rightarrow> i \<in> bl_list st | None \<Rightarrow> False))"

definition bl_ips :: "blacklist \<Rightarrow> string set" where
  "bl_ips st = show_ipv4 ` bl_list st"

definition bl_filtered :: "blacklist \<Rightarrow> string list \<Rightarrow> string list" where
  "bl_filtered st addrs =
     (if bl_len st \<noteq> 0 then filter (\<lambda>a. \<not> bl_contains st a) addrs else addrs)"

datatype dial = PermissionDenied | Dialed string

definition connect :: "blacklist \<Rightarrow> string \<Rightarrow> dial" where
  "connect st addr = (if bl_contains st addr then PermissionDenied else Dialed addr)"

text \<open>The poll of \<open>wait_blacklisted\<close> over the successive lists it sees, five seconds apart.\<close>

fun wait_blacklisted :: "string \<Rightarrow> blacklist list \<Rightarrow> nat option" where
  "wait_blacklisted a [] = None"
| "wait_blacklisted a (st # sts) =
     (if bl_contains st a then Some 0 else map_option Suc (wait_blacklisted a sts))"

section \<open>Lemmas\<close>

definition bl_ok :: "blacklist \<Rightarrow> bool" where
  "bl_ok st \<longleftrightarrow> finite (bl_list st) \<and> bl_len st = card (bl_list st)"

lemma bl_ok_init: "bl_ok blacklist_init"
  by (simp add: bl_ok_def blacklist_init_def)

lemma hd_split_on: "hd (split_on c s) = takeWhile (\<lambda>x. x \<noteq> c) s"
proof (induction s)
  case (Cons x s)
  then show ?case by (cases "split_on c s") auto
qed simp

text \<open>What the two sources list, stated without the parser: an entry of the variable, or a line of
  the file up to its comment, that is an address apart from surrounding blanks.\<close>

definition listed :: "string option \<Rightarrow> string option \<Rightarrow> ipv4 \<Rightarrow> bool" where
  "listed env_val file i \<longleftrightarrow>
     (\<exists>v. env_val = Some v \<and> (\<exists>t \<in> set (split_on (CHR '','') v). trim t = show_ipv4 i)) \<or>
     (\<exists>f. file = Some f \<and> (\<exists>l \<in> set (text_lines f). trim (takeWhile (\<lambda>c. c \<noteq> CHR ''#'') l) = show_ipv4 i))"

lemma bl_parse_listed: "fst (bl_parse env_val file) = {i. listed env_val file i}"
proof -
  have "i \<in> fst (bl_parse env_val file) \<longleftrightarrow> (\<exists>t \<in> set (source_tokens env_val file). trim t = show_ipv4 i)" for i
  proof -
    have "i \<in> fst (bl_parse env_val file) \<longleftrightarrow>
        (\<exists>t \<in> set (source_tokens env_val file). trim t \<noteq> [] \<and> parse_ipv4 (trim t) = Some i)"
      by (force simp: bl_parse_def Let_def map_filter_def)
    also have "\<dots> \<longleftrightarrow> (\<exists>t \<in> set (source_tokens env_val file). trim t = show_ipv4 i)"
      using show_parse_ipv4[of _ i] parse_show_ipv4[of i] show_ipv4_nonempty[of i] by metis
    finally show ?thesis .
  qed
  moreover have "(\<exists>t \<in> set (source_tokens env_val file). trim t = show_ipv4 i) \<longleftrightarrow> listed env_val file i" for i
    by (cases env_val; cases "file") (simp_all add: listed_def source_tokens_def hd_split_on bex_Un)
  ultimately show ?thesis by blast
qed

lemma finite_listed: "finite {i. listed env_val file i}"
  unfolding bl_parse_listed[symmetric] by (simp add: bl_parse_def Let_def)

lemma bl_list_reload: "bl_list (snd (reload env_val file st)) = {i. listed env_val file i}"
  unfolding bl_parse_listed[symmetric]
  by (simp add: reload_def Let_def case_prod_beta install_set_def)

lemma bl_ok_reload: "bl_ok st \<Longrightarrow> bl_ok (snd (reload env_val file st))"
  using finite_listed[of env_val "file"] unfolding bl_parse_listed[symmetric]
  by (auto simp: bl_ok_def reload_def Let_def case_prod_beta install_set_def)

lemma bl_contains_ok: "bl_ok st \<Longrightarrow> bl_contains st a \<longleftrightarrow> (\<exists>i \<in> bl_list st. parse_ipv4 (host_of a) = Some i)"
  by (auto simp: bl_contains_def bl_ok_def split: option.splits)

lemma dec_val_snoc: "dec_val (s @ [c]) = 10 * dec_val s + digit_val c"
  by (simp add: dec_val_def)

lemma show_nat_digits: "show_nat n \<noteq> [] \<and> list_all is_digit (show_nat n) \<and> dec_val (show_nat n) = n"
proof (induction n rule: show_nat.induct)
  case (1 n)
  show ?case
    using 1 by (subst (1 2 3) show_nat.simps) (auto simp: dec_val_simps dec_val_snoc)
qed

lemma parse_show_nat: "n \<le> mx \<Longrightarrow> parse_uint mx (show_nat n) = Some n"
proof -
  have "c # cs = show_nat n \<Longrightarrow> c \<noteq> CHR ''+''" for c cs
    using show_nat_digits[of n] by (auto simp: is_digit_def dest: sym)
  then show "n \<le> mx \<Longrightarrow> ?thesis"
    using show_nat_digits[of n] by (cases "show_nat n") (auto simp: parse_uint_def Let_def)
qed

lemma colon_notin:
  "CHR '':'' \<notin> set (show_ipv4 i)" "CHR '':'' \<notin> set (show_nat n)"
  using set_show_ipv4[of "CHR '':''" i] show_nat_digits[of n] by (auto simp: is_digit_def list_all_iff)

lemma host_of_plain: "host_of (show_ipv4 i) = show_ipv4 i"
  by (simp add: host_of_def rsplit_once_none colon_notin)

lemma host_of_port: "port \<le> 65535 \<Longrightarrow> host_of (show_ipv4 i @ CHR '':'' # show_nat port) = show_ipv4 i"
  by (simp add: host_of_def rsplit_once_append colon_notin parse_show_nat)

section \<open>Properties\<close>

text \<open>C38. After a reload, dialing an address, alone or with a port, is refused exactly when the
  environment or the file lists it.\<close>
theorem connect_refused_iff_listed:
  assumes "bl_ok st" "port \<le> 65535"
  shows "(connect (snd (reload env_val file st)) (show_ipv4 i) = PermissionDenied \<longleftrightarrow> listed env_val file i) \<and>
    (connect (snd (reload env_val file st)) (show_ipv4 i @ '':'' @ show_nat port) = PermissionDenied \<longleftrightarrow>
       listed env_val file i)"
  using assms
  by (simp add: connect_def bl_contains_ok bl_ok_reload bl_list_reload host_of_plain host_of_port parse_show_ipv4)

theorem connect_refused_iff_listed_witness:
  "listed (Some '' 192.0.2.7 ,x'') None (Ipv4 192 0 2 7) \<and>
   connect (snd (reload (Some '' 192.0.2.7 ,x'') None blacklist_init)) (show_ipv4 (Ipv4 192 0 2 7) @ '':'' @ show_nat 4001)
     = PermissionDenied"
proof -
  have "listed (Some '' 192.0.2.7 ,x'') None (Ipv4 192 0 2 7)"
    by (simp add: listed_def trim_def trim_with_def is_ws_def show_octet_def digit_char_def Let_def) code_simp
  then show ?thesis
    using connect_refused_iff_listed[OF bl_ok_init, of 4001 "Some '' 192.0.2.7 ,x''" None "Ipv4 192 0 2 7"] by simp
qed

text \<open>The version moves exactly when the set of blacklisted addresses does, so a session that
  re-checks its peers only when the version changed never misses a change.\<close>
theorem version_tracks_list:
  "bl_version (snd (reload env_val file st)) \<noteq> bl_version st \<longleftrightarrow>
     bl_list (snd (reload env_val file st)) \<noteq> bl_list st"
  by (auto simp: reload_def Let_def case_prod_beta install_set_def)

end
