(* ===== verification/Priority.thy ===== *)
theory Priority
  imports Blacklist "HOL-Library.Product_Lexorder"
begin

text \<open>
  The priority tier, \<open>priority.rs\<close>: the operator's peers, their session counts, cooldowns and the
  policies read from the environment, and the redaction of their addresses in log lines. The
  environment is a lookup function from variable names; the blacklist and the time are arguments.
\<close>

section \<open>State and settings\<close>

definition PRIORITY_COOLDOWN :: duration where
  "PRIORITY_COOLDOWN = from_secs 30"

definition PRIORITY_HUNG_COOLDOWN :: duration where
  "PRIORITY_HUNG_COOLDOWN = from_secs 4"

definition DEFAULT_STAGE_MS :: nat where
  "DEFAULT_STAGE_MS = 1500"

datatype bootstrap_policy = Fallback | Never | Prefer

definition bootstrap_policy_parse :: "string \<Rightarrow> bootstrap_policy option" where
  "bootstrap_policy_parse v =
     (let s = to_lower (trim v)
      in if s = ''fallback'' then Some Fallback
         else if s = ''never'' then Some Never
         else if s = ''prefer'' then Some Prefer
         else None)"

fun bootstrap_policy_as_str :: "bootstrap_policy \<Rightarrow> string" where
  "bootstrap_policy_as_str Fallback = ''fallback''"
| "bootstrap_policy_as_str Never = ''never''"
| "bootstrap_policy_as_str Prefer = ''prefer''"

record priority_tier =
  t_peers :: "ip list"
  t_sessions :: "nat list"
  t_cooldown_until :: "instant option list"
  t_max_sessions :: nat
  t_stage :: duration
  t_bootstrap :: bootstrap_policy
  t_exclusive :: bool

definition priority_new :: "ip list \<Rightarrow> nat \<Rightarrow> duration \<Rightarrow> bootstrap_policy \<Rightarrow> priority_tier" where
  "priority_new peers max_sessions stage boot =
     \<lparr>t_peers = peers, t_sessions = replicate (length peers) 0,
      t_cooldown_until = replicate (length peers) None, t_max_sessions = max_sessions,
      t_stage = stage, t_bootstrap = boot, t_exclusive = False\<rparr>"

definition with_exclusive :: "bool \<Rightarrow> priority_tier \<Rightarrow> priority_tier" where
  "with_exclusive e t = t\<lparr>t_exclusive := e\<rparr>"

definition exclusive :: "priority_tier \<Rightarrow> bool" where
  "exclusive t \<longleftrightarrow> t_exclusive t \<and> t_peers t \<noteq> []"

fun peers_from_items :: "string list \<Rightarrow> ip list \<Rightarrow> ip list" where
  "peers_from_items [] out = out"
| "peers_from_items (x # xs) out =
     (case parse_ipv4 x of
        Some i \<Rightarrow> peers_from_items xs (if show_ipv4 i \<in> set out then out else out @ [show_ipv4 i])
      | None \<Rightarrow> peers_from_items xs out)"

definition priority_peers_from_raw :: "string \<Rightarrow> ip list" where
  "priority_peers_from_raw raw = peers_from_items (split_csv raw) []"

type_synonym env = "string \<Rightarrow> string option"

definition priority_peers_from_env :: "env \<Rightarrow> ip list" where
  "priority_peers_from_env e =
     priority_peers_from_raw (case e ''HYPERSYNC_PRIORITY_PEERS'' of Some v \<Rightarrow> v | None \<Rightarrow> [])"

definition exclusive_setting :: "string option \<Rightarrow> bool" where
  "exclusive_setting ov =
     (case ov of
        None \<Rightarrow> True
      | Some v \<Rightarrow> to_lower (trim_with (\<lambda>c. c = CHR 0x22 \<or> c = CHR 0x27) (trim v))
                    \<notin> {''0'', ''false'', ''no'', ''off''})"

definition stage_setting :: "string option \<Rightarrow> nat" where
  "stage_setting ov =
     (let ms = (case ov of
                  None \<Rightarrow> DEFAULT_STAGE_MS
                | Some v \<Rightarrow> (case parse_uint U64_MAX (trim v) of Some n \<Rightarrow> n | None \<Rightarrow> DEFAULT_STAGE_MS))
      in max 200 (min 3000 ms))"

definition bootstrap_setting :: "string option \<Rightarrow> bool \<Rightarrow> bootstrap_policy" where
  "bootstrap_setting ov excl =
     (case ov of
        Some v \<Rightarrow>
          if trim v \<noteq> [] then (case bootstrap_policy_parse v of Some b \<Rightarrow> b | None \<Rightarrow> Fallback)
          else if excl then Prefer else Fallback
      | None \<Rightarrow> if excl then Prefer else Fallback)"

definition priority_from_env :: "env \<Rightarrow> priority_tier" where
  "priority_from_env e =
     (let excl = exclusive_setting (e ''HYPERSYNC_PRIORITY_EXCLUSIVE'');
          max_sessions = (case e ''HYPERSYNC_PRIORITY_MAX_SESSIONS'' of
                            None \<Rightarrow> 0
                          | Some v \<Rightarrow> (case parse_uint U64_MAX (trim v) of Some n \<Rightarrow> n | None \<Rightarrow> 0))
      in with_exclusive excl
           (priority_new (priority_peers_from_env e) max_sessions
              (from_millis (stage_setting (e ''HYPERSYNC_PRIORITY_STAGE_MS'')))
              (bootstrap_setting (e ''HYPERSYNC_PRIORITY_BOOTSTRAP'') excl)))"

section \<open>Operations\<close>

fun position :: "ip \<Rightarrow> ip list \<Rightarrow> nat option" where
  "position a [] = None"
| "position a (p # ps) = (if p = a then Some 0 else map_option Suc (position a ps))"

definition tier_index :: "priority_tier \<Rightarrow> ip \<Rightarrow> nat option" where
  "tier_index t a = position a (t_peers t)"

definition tier_contains :: "priority_tier \<Rightarrow> ip \<Rightarrow> bool" where
  "tier_contains t a \<longleftrightarrow> tier_index t a \<noteq> None"

definition candidates_at :: "blacklist \<Rightarrow> instant \<Rightarrow> priority_tier \<Rightarrow> ip list" where
  "candidates_at bl now t =
     (let keep = (\<lambda>i. \<not> ((case t_cooldown_until t ! i of Some u \<Rightarrow> now < u | None \<Rightarrow> False)
                          \<or> bl_contains bl (t_peers t ! i))
                      \<and> \<not> (t_max_sessions t \<noteq> 0 \<and> t_max_sessions t \<le> t_sessions t ! i));
          out = map (\<lambda>i. (t_sessions t ! i, i)) (filter keep [0..<length (t_cooldown_until t)])
      in map (\<lambda>(_, i). t_peers t ! i) (sort out))"

definition pool_allowed :: "blacklist \<Rightarrow> instant \<Rightarrow> priority_tier \<Rightarrow> bool" where
  "pool_allowed bl now t \<longleftrightarrow> \<not> exclusive t \<or> candidates_at bl now t = []"

definition cool_until :: "ip \<Rightarrow> instant \<Rightarrow> priority_tier \<Rightarrow> priority_tier" where
  "cool_until a until t =
     (case tier_index t a of
        None \<Rightarrow> t
      | Some i \<Rightarrow>
          t\<lparr>t_cooldown_until := (t_cooldown_until t)[i :=
              Some (case t_cooldown_until t ! i of None \<Rightarrow> until | Some u \<Rightarrow> max u until)]\<rparr>)"

definition mark_failed_at :: "ip \<Rightarrow> instant \<Rightarrow> priority_tier \<Rightarrow> priority_tier" where
  "mark_failed_at a now t = cool_until a (now + PRIORITY_COOLDOWN) t"

definition mark_hung_at :: "ip \<Rightarrow> instant \<Rightarrow> priority_tier \<Rightarrow> priority_tier" where
  "mark_hung_at a now t =
     (if exclusive t then cool_until a (now + PRIORITY_HUNG_COOLDOWN) t else mark_failed_at a now t)"

text \<open>A session guard is the index it counts on.\<close>

definition acquire :: "ip \<Rightarrow> priority_tier \<Rightarrow> nat option \<times> priority_tier" where
  "acquire a t =
     (case tier_index t a of
        None \<Rightarrow> (None, t)
      | Some i \<Rightarrow> (Some i, t\<lparr>t_sessions := (t_sessions t)[i := t_sessions t ! i + 1]\<rparr>))"

definition try_acquire :: "ip \<Rightarrow> priority_tier \<Rightarrow> nat option \<times> priority_tier" where
  "try_acquire a t =
     (case tier_index t a of
        None \<Rightarrow> (None, t)
      | Some i \<Rightarrow>
          if t_max_sessions t = 0 \<or> t_sessions t ! i < t_max_sessions t
          then (Some i, t\<lparr>t_sessions := (t_sessions t)[i := t_sessions t ! i + 1]\<rparr>)
          else (None, t))"

definition drop_session :: "nat \<Rightarrow> priority_tier \<Rightarrow> priority_tier" where
  "drop_session i t = t\<lparr>t_sessions := (t_sessions t)[i := t_sessions t ! i - 1]\<rparr>"

definition tier_sessions :: "priority_tier \<Rightarrow> ip \<Rightarrow> nat" where
  "tier_sessions t a = (case tier_index t a of Some i \<Rightarrow> t_sessions t ! i | None \<Rightarrow> 0)"

definition strip :: "priority_tier \<Rightarrow> ip list \<Rightarrow> ip list" where
  "strip t pool = (if t_peers t = [] then pool else filter (\<lambda>a. \<not> tier_contains t a) pool)"

definition tier_of :: "priority_tier \<Rightarrow> ip \<Rightarrow> string" where
  "tier_of t a = (if tier_contains t a then ''prio'' else ''pool'')"

section \<open>Log redaction\<close>

definition before_ok :: "string \<Rightarrow> nat \<Rightarrow> bool" where
  "before_ok out pos \<longleftrightarrow> pos = 0 \<or> \<not> (is_digit (out ! (pos - 1)) \<or> out ! (pos - 1) = CHR ''.'')"

definition after_ok :: "string \<Rightarrow> nat \<Rightarrow> bool" where
  "after_ok out fin =
     (if length out \<le> fin then True
      else if is_digit (out ! fin) then False
      else if out ! fin = CHR ''.'' then \<not> (fin + 1 < length out \<and> is_digit (out ! (fin + 1)))
      else True)"

text \<open>The labelled addresses are never empty (they come from the address parser); the loop is only
  defined for such needles.\<close>

function redact_one :: "ip \<Rightarrow> string \<Rightarrow> string \<Rightarrow> nat \<Rightarrow> string" where
  "redact_one a label out start =
     (if a = [] then out
      else (case find_str a (drop start out) of
              None \<Rightarrow> out
            | Some p \<Rightarrow>
                (let pos = p + start; fin = pos + length a
                 in if before_ok out pos \<and> after_ok out fin
                    then redact_one a label (take pos out @ label @ drop fin out) (pos + length label)
                    else redact_one a label out (pos + 1))))"
  by pat_completeness auto
termination
proof (relation "measure (\<lambda>(a, label, out, start). length out - start)", goal_cases)
  case (2 a label out start p pos fin)
  then show ?case using find_str_Some[of a "drop start out" p] by (cases a) auto
next
  case (3 a label out start p pos fin)
  then show ?case using find_str_Some[of a "drop start out" p] by (cases a) auto
qed simp

declare redact_one.simps [simp del]

fun redact_all :: "nat \<Rightarrow> ip list \<Rightarrow> string \<Rightarrow> string" where
  "redact_all i [] out = out"
| "redact_all i (a # as) out = redact_all (i + 1) as (redact_one a (''prio-'' @ show_nat (i + 1)) out 0)"

definition redact_with :: "string \<Rightarrow> ip list \<Rightarrow> string" where
  "redact_with line peers =
     (if peers = [] \<or> \<not> list_ex (\<lambda>p. find_str p line \<noteq> None) peers then line
      else redact_all 0 peers line)"

end
