(* ===== verification/Failover_Session.thy ===== *)
theory Failover_Session
  imports Failover_Switch Push_Session Priority
begin

text \<open>
  The failover session, \<open>failover/session.rs\<close> and the settings of \<open>failover/mod.rs\<close>: the upstream reader,
  the race for a standby, and \<open>serve_failover\<close>, whose select loop is a function of the events it takes.
  Sockets and tasks appear only through their events; what the loop reads from shared state when it
  handles an event (time, tip, floor, blacklist, pool, priority tier) is a record \<open>fo_env\<close>.
\<close>

section \<open>Settings\<close>

definition EVENT_BYTES_PER_READER :: nat where "EVENT_BYTES_PER_READER = 2 * MAX_LIVE_FRAME"

definition ACTIVE_DEAD_GRACE :: duration where "ACTIVE_DEAD_GRACE = from_secs 3"

definition BAD_PEER_COOLDOWN :: duration where "BAD_PEER_COOLDOWN = from_secs 120"

definition UPSTREAM_IDLE :: duration where "UPSTREAM_IDLE = from_secs 5"

definition STANDBY_RETRY :: duration where "STANDBY_RETRY = from_secs 2"

definition STANDBY_RACE :: nat where "STANDBY_RACE = 4"

definition SLOW_PEER_COOLDOWN :: duration where "SLOW_PEER_COOLDOWN = from_secs (30 * 60)"

definition ACCEPT_GREETING :: bytes where "ACCEPT_GREETING = [0, 0, 0, 1, 0, 3]"

record failover_config =
  fc_standbys :: nat
  fc_stall :: duration
  fc_lag :: duration
  fc_min_dwell :: duration
  fc_rotate_slower :: duration
  fc_rotate_every :: duration
  fc_status_dir :: "string option"

definition env_num :: "env \<Rightarrow> string \<Rightarrow> nat \<Rightarrow> nat" where
  "env_num e k d =
     (case e k of
        None \<Rightarrow> d
      | Some v \<Rightarrow> (case parse_uint U64_MAX (trim v) of Some n \<Rightarrow> n | None \<Rightarrow> d))"

definition failover_config_from_env :: "env \<Rightarrow> failover_config" where
  "failover_config_from_env e =
     \<lparr>fc_standbys = min 16 (env_num e ''HYPERSYNC_FAILOVER_STANDBYS'' 0),
      fc_stall = from_millis (max 50 (env_num e ''HYPERSYNC_FAILOVER_STALL_MS'' 400)),
      fc_lag = from_millis (max 20 (env_num e ''HYPERSYNC_FAILOVER_LAG_MS'' 150)),
      fc_min_dwell = from_millis (env_num e ''HYPERSYNC_FAILOVER_DWELL_MS'' 10000),
      fc_rotate_slower = from_millis (env_num e ''HYPERSYNC_FAILOVER_ROTATE_MS'' 100),
      fc_rotate_every = from_secs (max 10 (env_num e ''HYPERSYNC_FAILOVER_ROTATE_SECS'' 60)),
      fc_status_dir = (case e ''HYPERSYNC_FAILOVER_STATUS_DIR'' of
                         None \<Rightarrow> None | Some v \<Rightarrow> if trim v = [] then None else Some v)\<rparr>"

section \<open>Readers and dials\<close>

text \<open>One pass of an upstream's reader: the frame it hands to the loop, or the reason it closes with.\<close>

definition reader_pass :: "(io_error \<Rightarrow> string) \<Rightarrow> rd_ev list \<Rightarrow> string + bytes" where
  "reader_pass msg s =
     (case read_exact 5 s of
        (Inl Elapsed, _) \<Rightarrow> Inl (''idle '' @ show_nat (as_secs UPSTREAM_IDLE) @ ''s'')
      | (Inl e, _) \<Rightarrow> Inl (''read error: '' @ msg e)
      | (Inr hdr, s1) \<Rightarrow>
          (let len = be_len hdr 0
           in if MAX_LIVE_FRAME < len then Inl (''oversized frame len='' @ show_nat len)
              else (case read_exact len s1 of
                      (Inl Elapsed, _) \<Rightarrow> Inl ''idle (payload)''
                    | (Inl e, _) \<Rightarrow> Inl (''read error: '' @ msg e)
                    | (Inr payload, _) \<Rightarrow> Inr (hdr @ payload))))"

text \<open>The outer \<open>None\<close> skips a full priority peer, the inner one is a pool peer, which needs no slot.\<close>

definition standby_slot :: "priority_tier \<Rightarrow> ip \<Rightarrow> nat option option \<times> priority_tier" where
  "standby_slot t a =
     (if tier_contains t a then
        (case try_acquire a t of
           (None, t') \<Rightarrow> (None, t')
         | (Some g, t') \<Rightarrow> (Some (Some g), t'))
      else (Some None, t))"

definition standby_attempt :: "blacklist \<Rightarrow> ip \<Rightarrow> rd_ev list \<Rightarrow> bool" where
  "standby_attempt bl a answer \<longleftrightarrow>
     connect bl (a @ '':4001'') \<noteq> PermissionDenied \<and> fst (read_exact 6 answer) = Inr ACCEPT_GREETING"

fun take_slots :: "priority_tier \<Rightarrow> ip list \<Rightarrow> (ip \<times> nat option) list \<times> priority_tier" where
  "take_slots t [] = ([], t)"
| "take_slots t (a # as) =
     (case standby_slot t a of
        (None, t1) \<Rightarrow> take_slots t1 as
      | (Some prio, t1) \<Rightarrow> (let (rest, t2) = take_slots t1 as in ((a, prio) # rest, t2)))"

definition release_slots :: "(ip \<times> nat option) list \<Rightarrow> priority_tier \<Rightarrow> priority_tier" where
  "release_slots ds t = fold (\<lambda>(_, prio) t. case prio of Some g \<Rightarrow> drop_session g t | None \<Rightarrow> t) ds t"

text \<open>\<open>first\<close> names the first of a batch's dials to accept, if any. Losers give their slots back.\<close>

function connect_standby ::
  "(ip list \<Rightarrow> ip option) \<Rightarrow> ip list \<Rightarrow> priority_tier \<Rightarrow> (ip \<times> nat option) option \<times> priority_tier" where
  "connect_standby first [] t = (None, t)"
| "connect_standby first (a # as) t =
     (let batch = take STANDBY_RACE (a # as); rest = drop STANDBY_RACE (a # as);
          (dials, t1) = take_slots t batch
      in case first (map fst dials) of
           Some w \<Rightarrow>
             (case map_of dials w of
                Some prio \<Rightarrow> (Some (w, prio), release_slots (remove1 (w, prio) dials) t1)
              | None \<Rightarrow> connect_standby first rest (release_slots dials t1))
         | None \<Rightarrow> connect_standby first rest (release_slots dials t1))"
  by pat_completeness auto
termination
  by (relation "measure (\<lambda>(first, as, t). length as)") (simp_all add: STANDBY_RACE_def)

section \<open>Session state\<close>

record fo_sess =
  fs_core :: core
  fs_lives :: "(nat \<times> nat option) list"
  fs_next_id :: nat
  fs_cooldown :: "(ip \<times> instant) list"
  fs_connecting :: bool
  fs_dialing :: "ip list"
  fs_next_connect :: instant
  fs_active_dead :: "(instant \<times> string) option"
  fs_switches :: nat
  fs_progress :: block_progress
  fs_last_rotate :: instant
  fs_rot :: nat
  fs_blacklist_seen :: nat
  fs_queued :: "bytes list"
  fs_repins :: "(ip \<times> nat option) list"

record fo_env =
  fe_now :: instant
  fe_tip :: u32
  fe_floor :: u32
  fe_writer_open :: bool
  fe_bl :: blacklist
  fe_pool :: "ip list"
  fe_tier :: priority_tier

definition fo_start :: "failover_config \<Rightarrow> push_config \<Rightarrow> fo_env \<Rightarrow> fo_sess" where
  "fo_start fo cfg e =
     (let active_ip = pc_hosts cfg ! pc_active_idx cfg;
          c = core_new 0 active_ip (pc_initial_last_forwarded cfg) (fc_stall fo) (fc_lag fo) (fc_min_dwell fo)
      in \<lparr>fs_core = (if tier_contains (fe_tier e) active_ip then mark_preferred 0 c else c),
          fs_lives = [(0, None)], fs_next_id = 1, fs_cooldown = [], fs_connecting = False, fs_dialing = [],
          fs_next_connect = fe_now e, fs_active_dead = None, fs_switches = 0,
          fs_progress = block_progress_new (pc_initial_last_forwarded cfg) (fe_now e),
          fs_last_rotate = fe_now e, fs_rot = 0, fs_blacklist_seen = U64_MAX, fs_queued = [], fs_repins = []\<rparr>)"

definition queue_node :: "fo_env \<Rightarrow> bytes \<Rightarrow> fo_sess \<Rightarrow> string option \<times> fo_sess" where
  "queue_node e frame s =
     (if fe_writer_open e then (None, s\<lparr>fs_queued := fs_queued s @ [frame]\<rparr>)
      else (Some ''node writer closed'', s))"

fun queue_all :: "fo_env \<Rightarrow> bytes list \<Rightarrow> fo_sess \<Rightarrow> bool \<times> fo_sess" where
  "queue_all e [] s = (True, s)"
| "queue_all e (f # fs) s =
     (case queue_node e f s of
        (Some _, s1) \<Rightarrow> (False, s1)
      | (None, s1) \<Rightarrow> queue_all e fs s1)"

definition mark_dead :: "instant \<Rightarrow> string \<Rightarrow> fo_sess \<Rightarrow> fo_sess" where
  "mark_dead now why s =
     (if fs_active_dead s = None then s\<lparr>fs_active_dead := Some (now, why)\<rparr> else s)"

definition drop_live :: "nat \<Rightarrow> fo_sess \<Rightarrow> fo_sess" where
  "drop_live i s = s\<lparr>fs_lives := AList.delete i (fs_lives s)\<rparr>"

text \<open>Remove an upstream from the core; its address, if it was there, cools until the given time.\<close>

definition drop_upstream :: "nat \<Rightarrow> instant option \<Rightarrow> fo_sess \<Rightarrow> fo_sess" where
  "drop_upstream i until s =
     (case remove_up i (fs_core s) of
        (removed, c) \<Rightarrow>
          (let s1 = s\<lparr>fs_core := c\<rparr>
           in case (removed, until) of
                (Some a, Some t) \<Rightarrow> s1\<lparr>fs_cooldown := AList.update a t (fs_cooldown s1)\<rparr>
              | _ \<Rightarrow> s1))"

fun drop_bad :: "instant \<Rightarrow> (nat \<times> u32) list \<Rightarrow> fo_sess \<Rightarrow> fo_sess" where
  "drop_bad until [] s = s"
| "drop_bad until ((i, r) # bad) s = drop_bad until bad (drop_live i (drop_upstream i (Some until) s))"

definition forward_active_block ::
  "fo_env \<Rightarrow> bytes \<Rightarrow> u32 \<Rightarrow> hash64 \<Rightarrow> instant \<Rightarrow> fo_sess \<Rightarrow> string option \<times> fo_sess" where
  "forward_active_block e frame r h at s =
     (if fe_floor e < r then
        (case on_active_block r h at (fs_core s) of
           ((fwd, bad), c) \<Rightarrow>
             (let s1 = drop_bad (fe_now e + BAD_PEER_COOLDOWN) bad (s\<lparr>fs_core := c\<rparr>)
              in if fwd then queue_node e frame s1 else (None, s1)))
      else (None, s))"

section \<open>Prefetched frames\<close>

fun fo_prefetched ::
  "(bytes \<Rightarrow> bytes option) \<Rightarrow> (bytes \<Rightarrow> hash64) \<Rightarrow> (io_error \<Rightarrow> string) \<Rightarrow> (fo_env \<times> bytes) list \<Rightarrow> fo_sess
     \<Rightarrow> string option \<times> fo_sess" where
  "fo_prefetched D H msg [] s = (None, s)"
| "fo_prefetched D H msg ((e, frame) # fs) s =
     (case classify D H frame of
        Some (r, _, h) \<Rightarrow>
          if \<not> is_plausible_mainnet_round r (fe_tip e)
          then (Some (''implausible prefetched round '' @ show_nat (unat r)), s)
          else (case on_round r (fe_now e) (fs_progress s) of
              Inl err \<Rightarrow> (Some (''prefetched '' @ push_error_msg msg err), s)
            | Inr p \<Rightarrow>
                (let s1 = s\<lparr>fs_progress := p\<rparr>
                 in if fe_floor e < r then
                      (case on_active_block r h (fe_now e) (fs_core s1) of
                         ((fwd, bad), c) \<Rightarrow>
                           (let s2 = s1\<lparr>fs_core := c\<rparr>
                            in if fwd then
                                 (case queue_node e frame s2 of
                                    (Some why, s3) \<Rightarrow> (Some why, s3)
                                  | (None, s3) \<Rightarrow> fo_prefetched D H msg fs s3)
                               else fo_prefetched D H msg fs s2))
                    else fo_prefetched D H msg fs s1))
      | None \<Rightarrow>
          (case queue_node e frame s of
             (Some why, s1) \<Rightarrow> (Some why, s1)
           | (None, s1) \<Rightarrow> fo_prefetched D H msg fs s1))"

section \<open>Events\<close>

datatype fo_ev =
    FoFrame nat bytes instant
  | FoClosed nat string
  | FoConnected ip "nat option"
  | FoConnectFailed
  | FoNodeBytes bool
  | FoNodeClosed string
  | FoWriterEnded string
  | FoTick

definition bad_round :: "fo_env \<Rightarrow> u32 \<Rightarrow> string option" where
  "bad_round e r =
     (let lagged = round_lag_from_tip r (fe_tip e) ACTIVE_ROUND_MAX_LAG
      in if \<not> is_plausible_mainnet_round r (fe_tip e) \<or> lagged \<noteq> None
         then Some (case lagged of
                      Some l \<Rightarrow> ''round '' @ show_nat (unat r) @ '' lags tip '' @ show_nat (unat (fe_tip e))
                                @ '' by '' @ show_nat (unat l)
                    | None \<Rightarrow> ''implausible round '' @ show_nat (unat r))
         else None)"

definition fo_block ::
  "(io_error \<Rightarrow> string) \<Rightarrow> fo_env \<Rightarrow> nat \<Rightarrow> bytes \<Rightarrow> instant \<Rightarrow> u32 \<Rightarrow> u32 \<Rightarrow> hash64 \<Rightarrow> fo_sess
     \<Rightarrow> string option \<times> fo_sess" where
  "fo_block msg e i frame at r p h s =
     (let is_active = (i = c_active (fs_core s))
      in case bad_round e r of
           Some why \<Rightarrow>
             (None,
              if is_active then mark_dead (fe_now e) why s
              else if map_of (c_ups (fs_core s)) i = None then s
              else drop_live i (drop_upstream i (Some (fe_now e + BAD_PEER_COOLDOWN)) s))
         | None \<Rightarrow>
             if is_active then
               (if fs_active_dead s \<noteq> None then (None, s)
                else (case on_round r at (fs_progress s) of
                        Inr pr \<Rightarrow> forward_active_block e frame r h at (s\<lparr>fs_progress := pr\<rparr>)
                      | Inl err \<Rightarrow> (None, s\<lparr>fs_active_dead := Some (fe_now e, push_error_msg msg err)\<rparr>)))
             else (case on_standby_block i r p h at frame (fs_core s) of
                 (VerdictOk, c) \<Rightarrow> (None, s\<lparr>fs_core := c\<rparr>)
               | (Mismatch _, c) \<Rightarrow>
                   (None, drop_live i (drop_upstream i (Some (fe_now e + BAD_PEER_COOLDOWN)) (s\<lparr>fs_core := c\<rparr>)))))"

definition fo_frame ::
  "(bytes \<Rightarrow> bytes option) \<Rightarrow> (bytes \<Rightarrow> hash64) \<Rightarrow> (io_error \<Rightarrow> string) \<Rightarrow> fo_env \<Rightarrow> nat \<Rightarrow> bytes \<Rightarrow> instant
     \<Rightarrow> fo_sess \<Rightarrow> string option \<times> fo_sess" where
  "fo_frame D H msg e i frame at s =
     (if map_of (fs_lives s) i = None then (None, s)
      else (case classify D H frame of
          Some (r, p, h) \<Rightarrow> fo_block msg e i frame at r p h s
        | None \<Rightarrow>
            if i = c_active (fs_core s) \<and> fs_active_dead s = None then queue_node e frame s else (None, s)))"

definition fo_closed :: "fo_env \<Rightarrow> nat \<Rightarrow> string \<Rightarrow> fo_sess \<Rightarrow> fo_sess" where
  "fo_closed e i reason s =
     (if i = c_active (fs_core s) then mark_dead (fe_now e) reason s
      else drop_upstream i (Some (fe_now e + STANDBY_RETRY * 5)) (drop_live i s))"

definition fo_connected :: "fo_env \<Rightarrow> ip \<Rightarrow> nat option \<Rightarrow> fo_sess \<Rightarrow> fo_sess" where
  "fo_connected e a prio s =
     (let i = fs_next_id s; c = add_standby i a (fs_core s)
      in s\<lparr>fs_connecting := False, fs_next_id := i + 1, fs_lives := AList.update i prio (fs_lives s),
           fs_core := (if tier_contains (fe_tier e) a then mark_preferred i c else c)\<rparr>)"

definition fo_node_bytes :: "fo_env \<Rightarrow> bool \<Rightarrow> fo_sess \<Rightarrow> fo_sess" where
  "fo_node_bytes e written s =
     (if map_of (fs_lives s) (c_active (fs_core s)) = None then s
      else if written then s else mark_dead (fe_now e) ''active write failed'' s)"

section \<open>The tick\<close>

definition tick_stall :: "fo_env \<Rightarrow> fo_sess \<Rightarrow> fo_sess" where
  "tick_stall e s =
     (if fs_active_dead s = None \<and> stalled (fe_now e) (fs_progress s)
      then s\<lparr>fs_active_dead := Some (fe_now e, ''no block above round '' @ show_nat (unat (p_last_round (fs_progress s)))
               @ '' for '' @ show_nat (as_secs ACTIVE_BLOCK_STALL) @ ''s'')\<rparr>
      else s)"

definition ip_banned :: "fo_env \<Rightarrow> core \<Rightarrow> nat \<Rightarrow> bool" where
  "ip_banned e c i = (case ip_of i c of Some a \<Rightarrow> bl_contains (fe_bl e) a | None \<Rightarrow> False)"

definition tick_blacklist :: "fo_env \<Rightarrow> fo_sess \<Rightarrow> fo_sess" where
  "tick_blacklist e s =
     (if bl_version (fe_bl e) = fs_blacklist_seen s then s
      else (let act = c_active (fs_core s);
                s1 = s\<lparr>fs_blacklist_seen := bl_version (fe_bl e)\<rparr>;
                s2 = (if ip_banned e (fs_core s1) act then mark_dead (fe_now e) ''active peer blacklisted'' s1 else s1);
                banned = filter (\<lambda>i. i \<noteq> act \<and> ip_banned e (fs_core s2) i) (map fst (fs_lives s2))
            in fold (\<lambda>i. drop_live i \<circ> drop_upstream i None) banned s2))"

text \<open>The bookkeeping once the standby's blocks are queued: the repin with the standby's priority slot, and the
  removal of the old active and of the standbys that turned out bad.\<close>

definition after_switch :: "fo_env \<Rightarrow> nat \<Rightarrow> ip \<Rightarrow> nat \<Rightarrow> (nat \<times> u32) list \<Rightarrow> fo_sess \<Rightarrow> fo_sess" where
  "after_switch e old old_ip i bad s1 =
     (let new_ip = (case ip_of i (fs_core s1) of Some a \<Rightarrow> a | None \<Rightarrow> ''?'');
          slot = (case map_of (fs_lives s1) i of Some p \<Rightarrow> p | None \<Rightarrow> None);
          s2 = s1\<lparr>fs_active_dead := None, fs_switches := fs_switches s1 + 1,
                  fs_progress := block_progress_new (c_last_forwarded (fs_core s1)) (fe_now e),
                  fs_lives := hm_update i (\<lambda>_. None) (fs_lives s1),
                  fs_repins := fs_repins s1 @ [(new_ip, slot)]\<rparr>;
          s3 = drop_live old (drop_upstream old None s2);
          s4 = s3\<lparr>fs_cooldown := AList.update old_ip (fe_now e + BAD_PEER_COOLDOWN) (fs_cooldown s3)\<rparr>
      in drop_bad (fe_now e + BAD_PEER_COOLDOWN) bad s4)"

definition tick_switch :: "fo_env \<Rightarrow> fo_sess \<Rightarrow> string option \<times> fo_sess" where
  "tick_switch e s =
     (case pick_switch (fe_now e) (fs_active_dead s \<noteq> None) (fs_core s) of
        None \<Rightarrow> (None, s)
      | Some (i, reason) \<Rightarrow>
          (let old = c_active (fs_core s);
               old_ip = (case ip_of old (fs_core s) of Some a \<Rightarrow> a | None \<Rightarrow> ''?'')
           in case switch_to i (fe_now e) (fs_core s) of
                (None, c) \<Rightarrow> (None, s\<lparr>fs_core := c\<rparr>)
              | (Some (frames, bad), c) \<Rightarrow>
                  (case queue_all e frames (s\<lparr>fs_core := c\<rparr>) of
                     (False, s1) \<Rightarrow> (Some ''node writer closed'', s1)
                   | (True, s1) \<Rightarrow> (None, after_switch e old old_ip i bad s1))))"

definition tick_dead :: "fo_env \<Rightarrow> fo_sess \<Rightarrow> string option" where
  "tick_dead e s =
     (case fs_active_dead s of
        None \<Rightarrow> None
      | Some (t, reason) \<Rightarrow>
          if ACTIVE_DEAD_GRACE \<le> fe_now e - t
          then Some (''active failed and no standby could continue the chain: '' @ reason) else None)"

definition tick_rotate :: "failover_config \<Rightarrow> fo_env \<Rightarrow> fo_sess \<Rightarrow> fo_sess" where
  "tick_rotate fo e s =
     (if 0 < fc_rotate_slower fo \<and> \<not> fs_connecting s \<and> fs_active_dead s = None
         \<and> fc_standbys fo \<le> standby_count (fs_core s) \<and> fc_rotate_every fo \<le> fe_now e - fs_last_rotate s
      then (let s1 = s\<lparr>fs_last_rotate := fe_now e\<rparr>
            in case slowest_standby (int (as_millis (fc_rotate_slower fo))) (\<lambda>a. tier_of (fe_tier e) a = ''prio'') (fs_core s1) of
                 None \<Rightarrow> s1
               | Some (i, m) \<Rightarrow> drop_live i (drop_upstream i (Some (fe_now e + SLOW_PEER_COOLDOWN)) s1))
      else s)"

fun keep_first :: "(ip \<Rightarrow> bool) \<Rightarrow> ip list \<Rightarrow> ip list \<Rightarrow> ip list" where
  "keep_first p seen [] = []"
| "keep_first p seen (a # as) =
     (if p a \<and> a \<notin> set seen then a # keep_first p (a # seen) as else keep_first p seen as)"

definition standby_candidates :: "fo_env \<Rightarrow> fo_sess \<Rightarrow> ip list" where
  "standby_candidates e s =
     (let in_use = List.map_filter (\<lambda>i. ip_of i (fs_core s)) (map fst (fs_lives s));
          pool = fe_pool e;
          prio = candidates_at (fe_bl e) (fe_now e) (fe_tier e);
          cands = (if pool \<noteq> [] \<and> pool_allowed (fe_bl e) (fe_now e) (fe_tier e)
                   then prio @ map (\<lambda>i. pool ! ((fs_rot s + i) mod length pool)) [0..<length pool] else prio)
      in take (STANDBY_RACE * 3)
           (keep_first (\<lambda>a. a \<notin> set in_use \<and> map_of (fs_cooldown s) a = None) [] cands))"

definition tick_fill :: "failover_config \<Rightarrow> fo_env \<Rightarrow> fo_sess \<Rightarrow> fo_sess" where
  "tick_fill fo e s =
     (if \<not> fs_connecting s \<and> standby_count (fs_core s) < fc_standbys fo \<and> fs_next_connect s \<le> fe_now e
      then (let s1 = s\<lparr>fs_cooldown := filter (\<lambda>(_, until). fe_now e < until) (fs_cooldown s)\<rparr>;
                cands = standby_candidates e s1;
                s2 = s1\<lparr>fs_rot := fs_rot s1 + 1\<rparr>
            in if cands = [] then s2\<lparr>fs_next_connect := fe_now e + STANDBY_RETRY\<rparr>
               else s2\<lparr>fs_connecting := True, fs_dialing := cands\<rparr>)
      else s)"

definition fo_tick :: "failover_config \<Rightarrow> fo_env \<Rightarrow> fo_sess \<Rightarrow> string option \<times> fo_sess" where
  "fo_tick fo e s =
     (case tick_switch e (tick_blacklist e (tick_stall e s)) of
        (Some why, s1) \<Rightarrow> (Some why, s1)
      | (None, s1) \<Rightarrow>
          (case tick_dead e s1 of
             Some why \<Rightarrow> (Some why, s1)
           | None \<Rightarrow> (None, tick_fill fo e (tick_rotate fo e s1))))"

section \<open>The loop\<close>

definition fo_event ::
  "(bytes \<Rightarrow> bytes option) \<Rightarrow> (bytes \<Rightarrow> hash64) \<Rightarrow> (io_error \<Rightarrow> string) \<Rightarrow> failover_config \<Rightarrow> fo_env \<Rightarrow> fo_ev
     \<Rightarrow> fo_sess \<Rightarrow> string option \<times> fo_sess" where
  "fo_event D H msg fo e ev s =
     (case ev of
        FoFrame i frame at \<Rightarrow> fo_frame D H msg e i frame at s
      | FoClosed i reason \<Rightarrow> (None, fo_closed e i reason s)
      | FoConnected a prio \<Rightarrow> (None, fo_connected e a prio s)
      | FoConnectFailed \<Rightarrow> (None, s\<lparr>fs_connecting := False, fs_next_connect := fe_now e + STANDBY_RETRY\<rparr>)
      | FoNodeBytes written \<Rightarrow> (None, fo_node_bytes e written s)
      | FoNodeClosed reason \<Rightarrow> (Some reason, s)
      | FoWriterEnded reason \<Rightarrow> (Some reason, s)
      | FoTick \<Rightarrow> fo_tick fo e s)"

fun fo_loop ::
  "(bytes \<Rightarrow> bytes option) \<Rightarrow> (bytes \<Rightarrow> hash64) \<Rightarrow> (io_error \<Rightarrow> string) \<Rightarrow> failover_config
     \<Rightarrow> (fo_env \<times> fo_ev) list \<Rightarrow> fo_sess \<Rightarrow> string option \<times> fo_sess" where
  "fo_loop D H msg fo [] s = (None, s)"
| "fo_loop D H msg fo ((e, ev) # evs) s =
     (case fo_event D H msg fo e ev s of
        (Some why, s1) \<Rightarrow> (Some (why @ '' switches='' @ show_nat (fs_switches s1)), s1)
      | (None, s1) \<Rightarrow> fo_loop D H msg fo evs s1)"

text \<open>The whole session: the greeting, the prefetched frames in order, then the loop. The result is the exit
  reason, if it ended, with what the node was given and the final state.\<close>

definition serve_failover ::
  "(bytes \<Rightarrow> bytes option) \<Rightarrow> (bytes \<Rightarrow> hash64) \<Rightarrow> (io_error \<Rightarrow> string) \<Rightarrow> failover_config \<Rightarrow> push_config
     \<Rightarrow> rd_ev list \<Rightarrow> write_res \<Rightarrow> fo_env \<Rightarrow> (nat \<Rightarrow> fo_env) \<Rightarrow> (fo_env \<times> fo_ev) list
     \<Rightarrow> string option \<times> bytes list \<times> fo_sess" where
  "serve_failover D H msg fo cfg act_r w e0 pre_env evs =
     (let s0 = fo_start fo cfg e0
      in case serve_greeting msg (pc_prefetched_greeting cfg) act_r w of
           Inl why \<Rightarrow> (Some why, [], s0)
         | Inr greet \<Rightarrow>
             (case fo_prefetched D H msg (map (\<lambda>(k, f). (pre_env k, f)) (enumerate 0 (pc_prefetched_frames cfg))) s0 of
                (Some why, s1) \<Rightarrow> (Some (why @ '' switches='' @ show_nat (fs_switches s1)), greet # fs_queued s1, s1)
              | (None, s1) \<Rightarrow>
                  (case fo_loop D H msg fo evs s1 of (r, s2) \<Rightarrow> (r, greet # fs_queued s2, s2))))"

end
