(* ===== verification/Frames_Props.thy ===== *)
theory Frames_Props
  imports Frames
begin

text \<open>
  Properties of the clustered round estimates and of the stream readers.
\<close>

section \<open>Clusters\<close>

definition is_run :: "u32 list \<Rightarrow> u32 \<Rightarrow> nat \<Rightarrow> nat \<Rightarrow> bool" where
  "is_run xs g a b \<longleftrightarrow> a < b \<and> b \<le> length xs \<and>
     (\<forall>j. a < j \<and> j < b \<longrightarrow> saturating_sub (xs ! j) (xs ! (j - 1)) \<le> g)"

definition cluster_inv :: "u32 list \<Rightarrow> u32 \<Rightarrow> nat \<Rightarrow> nat \<times> nat \<times> nat \<Rightarrow> bool" where
  "cluster_inv xs g k = (\<lambda>(bs, bl, cs). cs \<le> k \<and>
     (\<forall>j. cs < j \<and> j \<le> k \<and> j < length xs \<longrightarrow> saturating_sub (xs ! j) (xs ! (j - 1)) \<le> g) \<and>
     (cs = 0 \<or> cs = length xs \<or> \<not> saturating_sub (xs ! cs) (xs ! (cs - 1)) \<le> g) \<and>
     is_run xs g bs (bs + bl) \<and>
     (\<forall>a b. is_run xs g a b \<and> b \<le> cs \<longrightarrow> b - a < bl \<or> (b - a = bl \<and> a \<le> bs)) \<and>
     (k = length xs \<longrightarrow> cs = length xs))"

lemma cluster_inv_step:
  assumes "cluster_inv xs g k s" "k < length xs"
  shows "cluster_inv xs g (Suc k) (cluster_step xs g (Suc k) s)"
proof -
  obtain bs bl cs where s: "s = (bs, bl, cs)" by (cases s)
  note inv = assms(1)[unfolded s cluster_inv_def prod.case]
  show ?thesis
  proof (cases "Suc k < length xs \<and> saturating_sub (xs ! Suc k) (xs ! k) \<le> g")
    case True
    then show ?thesis
      using inv by (auto simp: s cluster_step_def cluster_inv_def le_Suc_eq)
  next
    case False
    have new: "is_run xs g cs (Suc k)"
      using inv assms(2) by (auto simp: is_run_def)
    have inside: "b - a < Suc k - cs \<or> (b - a = Suc k - cs \<and> a = cs)"
      if r: "is_run xs g a b" "b \<le> Suc k" "cs < b" for a b
    proof -
      have "\<not> a < cs"
        using r inv by (auto simp: is_run_def)
      with r show ?thesis by (auto simp: is_run_def)
    qed
    have brk: "Suc k = length xs \<or> \<not> saturating_sub (xs ! Suc k) (xs ! (Suc k - 1)) \<le> g"
      using False assms(2) by auto
    have old: "b - a < bl \<or> (b - a = bl \<and> a \<le> bs)" if "is_run xs g a b" "b \<le> cs" for a b
      using inv that by blast
    show ?thesis
    proof (cases "bl \<le> Suc k - cs")
      case True
      have "b - a < Suc k - cs \<or> (b - a = Suc k - cs \<and> a \<le> cs)" if "is_run xs g a b" "b \<le> Suc k" for a b
        using inside[OF that] old[OF that(1)] True that(1) by (cases "b \<le> cs") (auto simp: is_run_def)
      with False True new brk inv show ?thesis
        by (auto simp: s cluster_step_def cluster_inv_def)
    next
      case bl: False
      have "b - a < bl \<or> (b - a = bl \<and> a \<le> bs)" if "is_run xs g a b" "b \<le> Suc k" for a b
        using inside[OF that] old[OF that(1)] bl by (cases "b \<le> cs") auto
      with False bl brk inv show ?thesis
        by (auto simp: s cluster_step_def cluster_inv_def)
    qed
  qed
qed

lemma cluster_inv_fold:
  "xs \<noteq> [] \<Longrightarrow> k \<le> length xs \<Longrightarrow> cluster_inv xs g k (fold (cluster_step xs g) [1..<k + 1] (0, 1, 0))"
proof (induction k)
  case 0
  then show ?case by (auto simp: cluster_inv_def is_run_def Suc_le_eq)
next
  case (Suc k)
  then have "cluster_inv xs g k (fold (cluster_step xs g) [1..<k + 1] (0, 1, 0))" by simp
  from cluster_inv_step[OF this] Suc.prems show ?case by simp
qed

lemma cluster_result:
  assumes "k \<le> length rs" "k \<noteq> 0"
  obtains bs bl where
    "best_round_cluster rs k g = (if k \<le> bl then Some (take bl (drop bs (sort rs))) else None)"
    "is_run (sort rs) g bs (bs + bl)"
    "\<And>a b. is_run (sort rs) g a b \<Longrightarrow> b - a < bl \<or> (b - a = bl \<and> a \<le> bs)"
proof -
  define xs where "xs = sort rs"
  obtain bs bl cs where f: "fold (cluster_step xs g) [1..<length xs + 1] (0, 1, 0) = (bs, bl, cs)"
    by (cases "fold (cluster_step xs g) [1..<length xs + 1] (0, 1, 0)")
  have "xs \<noteq> []" using assms by (auto simp: xs_def dest: arg_cong[of _ _ length])
  then have "cluster_inv xs g (length xs) (bs, bl, cs)"
    using cluster_inv_fold[of xs "length xs" g] f by simp
  then have "is_run xs g bs (bs + bl)" "is_run xs g a b \<Longrightarrow> b - a < bl \<or> (b - a = bl \<and> a \<le> bs)" for a b
    by (auto simp: cluster_inv_def is_run_def)
  moreover have "best_round_cluster rs k g = (if k \<le> bl then Some (take bl (drop bs xs)) else None)"
    using assms f unfolding best_round_cluster_def xs_def[symmetric] by simp
  ultimately show ?thesis
    using that unfolding xs_def by blast
qed

text \<open>The cluster found is the longest run of sorted rounds with neighbours at most the gap apart,
  the highest of the longest ones; none is reported exactly when no run has the required size.\<close>
theorem best_round_cluster_spec:
  "case best_round_cluster rs k g of
     None \<Rightarrow> k = 0 \<or> (\<nexists>a b. is_run (sort rs) g a b \<and> k \<le> b - a)
   | Some c \<Rightarrow> \<exists>a b. c = take (b - a) (drop a (sort rs)) \<and> is_run (sort rs) g a b \<and> 0 < k \<and> k \<le> b - a \<and>
       (\<forall>a' b'. is_run (sort rs) g a' b' \<longrightarrow> b' - a' < b - a \<or> (b' - a' = b - a \<and> a' \<le> a))"
proof (cases "length rs < k \<or> k = 0")
  case True
  then show ?thesis by (auto simp: best_round_cluster_def is_run_def)
next
  case False
  then have "k \<le> length rs" "k \<noteq> 0" by auto
  then obtain bs bl where *:
      "best_round_cluster rs k g = (if k \<le> bl then Some (take bl (drop bs (sort rs))) else None)"
      "is_run (sort rs) g bs (bs + bl)"
      "\<And>a b. is_run (sort rs) g a b \<Longrightarrow> b - a < bl \<or> (b - a = bl \<and> a \<le> bs)"
    by (rule cluster_result[where g = g]) blast
  show ?thesis
  proof (cases "k \<le> bl")
    case True
    with *(1) have some: "best_round_cluster rs k g = Some (take bl (drop bs (sort rs)))" by simp
    show ?thesis
      unfolding some option.case
      by (rule exI[of _ bs], rule exI[of _ "bs + bl"]) (use *(2,3) True False in auto)
  next
    case n: False
    have "\<not> (is_run (sort rs) g a b \<and> k \<le> b - a)" for a b
      using *(3)[of a b] n by auto
    with n *(1) show ?thesis by auto
  qed
qed

theorem best_round_cluster_spec_witness:
  "best_round_cluster [30, 10, 11, 32, 31, 12] 3 2 = Some [30, 31, 32] \<and>
   (\<exists>a b. is_run (sort [30, 10, 11, 32, 31, 12]) 2 a b \<and> b - a \<ge> 3)"
proof -
  have "best_round_cluster [30, 10, 11, 32, 31, 12] 3 2 = Some [30, 31, 32]"
    by (simp add: best_round_cluster_def cluster_step_def upt_rec saturating_sub_def)
  then show ?thesis
    using best_round_cluster_spec[where rs = "[30, 10, 11, 32, 31, 12]" and k = 3 and g = 2] by auto
qed

lemma cluster_sorted:
  assumes "best_round_cluster rs k g = Some c"
  shows "sorted c \<and> k \<le> length c \<and> set c \<subseteq> set rs"
proof -
  have "k \<le> length rs" "k \<noteq> 0"
    using assms by (auto simp: best_round_cluster_def split: if_splits)
  then obtain bs bl where c: "c = take bl (drop bs (sort rs))" "k \<le> bl" "bs + bl \<le> length rs"
    using assms by (rule_tac cluster_result[of k rs g]) (auto simp: is_run_def split: if_splits)
  moreover have "set (take bl (drop bs (sort rs))) \<subseteq> set (sort rs)"
    by (rule subset_trans[OF set_take_subset set_drop_subset])
  ultimately show ?thesis
    by (simp add: sorted_wrt_take sorted_wrt_drop)
qed

text \<open>C36. The corroborated tip is bracketed by honest peers: when more than half of the cluster's
  members are honest, some honest round is at or below the result and some honest round at or
  above it, so a dishonest minority can neither raise nor lower it past every honest report.\<close>
theorem corroborated_between_honest:
  assumes "best_round_cluster rs (max k 2) g = Some c"
    and "length c < 2 * length (filter honest c)"
  shows "\<exists>m lo hi. corroborated_clustered_round rs k g = Some m \<and> lo \<in> set c \<and> honest lo \<and> lo \<le> m \<and>
    hi \<in> set c \<and> honest hi \<and> m \<le> hi"
proof -
  let ?i = "(length c - 1) div 2" and ?n = "length c"
  have srt: "sorted c" and n: "2 \<le> ?n"
    using cluster_sorted[OF assms(1)] by auto
  have up: "c ! ?i \<le> x" if "x \<in> set (drop ?i c)" for x
    using that srt n by (fastforce simp: in_set_conv_nth sorted_iff_nth_mono)
  have dn: "x \<le> c ! ?i" if "x \<in> set (take (Suc ?i) c)" for x
    using that srt n by (fastforce simp: in_set_conv_nth sorted_iff_nth_mono)
  have split: "length (filter honest c) = length (filter honest (take j c)) + length (filter honest (drop j c))" for j
    by (metis append_take_drop_id filter_append length_append)
  have "filter honest (drop ?i c) \<noteq> []"
  proof
    assume "filter honest (drop ?i c) = []"
    then have "length (filter honest c) \<le> ?i"
      using split[of ?i] le_trans[OF length_filter_le, of "take ?i c" ?i honest] by simp
    with assms(2) n show False by linarith
  qed
  then obtain hi where hi: "hi \<in> set (drop ?i c)" "honest hi" by (auto simp: filter_empty_conv)
  have "filter honest (take (Suc ?i) c) \<noteq> []"
  proof
    assume "filter honest (take (Suc ?i) c) = []"
    then have "length (filter honest c) \<le> ?n - Suc ?i"
      using split[of "Suc ?i"] length_filter_le[of honest "drop (Suc ?i) c"] by simp
    with assms(2) n show False by linarith
  qed
  then obtain lo where lo: "lo \<in> set (take (Suc ?i) c)" "honest lo" by (auto simp: filter_empty_conv)
  show ?thesis
    using assms(1) hi lo up[OF hi(1)] dn[OF lo(1)] in_set_dropD[OF hi(1)] in_set_takeD[OF lo(1)]
    by (auto simp: corroborated_clustered_round_def)
qed

theorem corroborated_between_honest_witness:
  "best_round_cluster [100, 102, 149] (max 2 2) 50 = Some [100, 102, 149] \<and>
   (\<exists>m lo hi. corroborated_clustered_round [100, 102, 149] 2 50 = Some m \<and> lo \<le> m \<and> m \<le> hi \<and> hi \<noteq> 149)"
proof -
  have c: "best_round_cluster [100, 102, 149] (max 2 2) 50 = Some [100, 102, 149]"
    by (simp add: best_round_cluster_def cluster_step_def upt_rec saturating_sub_def)
  show ?thesis
    using corroborated_between_honest[OF c, of "\<lambda>r. r \<noteq> 149"] c by auto
qed

text \<open>The middle report itself may come from a dishonest peer, between two honest ones.\<close>

lemma corroborated_may_be_dishonest:
  "corroborated_clustered_round [100, 120, 149] 2 50 = Some 120"
  by (simp add: corroborated_clustered_round_def best_round_cluster_def cluster_step_def upt_rec saturating_sub_def)

section \<open>Readers\<close>

fun stream_bytes :: "rd_ev list \<Rightarrow> bytes" where
  "stream_bytes [] = []"
| "stream_bytes (Chunk bs # s) = bs @ stream_bytes s"
| "stream_bytes (_ # s) = stream_bytes s"

text \<open>A live stream: bytes and quiet spells, no end and no failure.\<close>

definition live :: "rd_ev list \<Rightarrow> bool" where
  "live s \<longleftrightarrow> Eof \<notin> set s \<and> Fail \<notin> set s"

definition busy :: "rd_ev list \<Rightarrow> bool" where
  "busy s \<longleftrightarrow> live s \<and> Quiet \<notin> set s"

lemma read_some_live:
  "live s \<Longrightarrow> 0 < n \<Longrightarrow> case read_some n s of
     (Inl e, s') \<Rightarrow> e = Elapsed \<and> live s' \<and> stream_bytes s' = stream_bytes s \<and> (busy s \<longrightarrow> busy s' \<and> stream_bytes s = [])
   | (Inr bs, s') \<Rightarrow> bs \<noteq> [] \<and> length bs \<le> n \<and> live s' \<and> stream_bytes s = bs @ stream_bytes s' \<and> (busy s \<longrightarrow> busy s')"
  by (induction n s rule: read_some.induct) (auto simp: live_def busy_def split: sum.split)

lemma read_exact_busy:
  "busy s \<Longrightarrow> n \<le> length (stream_bytes s) \<Longrightarrow>
     \<exists>s'. read_exact n s = (Inr (take n (stream_bytes s)), s') \<and> busy s' \<and> stream_bytes s' = drop n (stream_bytes s)"
proof (induction n s rule: read_exact.induct)
  case (1 n s)
  show ?case
  proof (cases "n = 0")
    case True
    with 1 show ?thesis by (simp add: read_exact.simps)
  next
    case False
    have "live s" using "1.prems"(1) by (simp add: busy_def)
    note rs = read_some_live[OF this, of n]
    obtain bs s1 where r: "read_some n s = (Inr bs, s1)"
      using rs False 1(2,3) by (cases "read_some n s"; cases "fst (read_some n s)") auto
    with rs False 1(2) have b: "bs \<noteq> []" "length bs \<le> n" "busy s1" "stream_bytes s = bs @ stream_bytes s1"
      by auto
    moreover have "n - length bs \<le> length (stream_bytes s1)" using b(4) "1.prems"(2) by simp
    ultimately obtain s2 where "read_exact (n - length bs) s1 = (Inr (take (n - length bs) (stream_bytes s1)), s2)"
        "busy s2" "stream_bytes s2 = drop (n - length bs) (stream_bytes s1)"
      using 1(1)[OF False r[symmetric], of bs] by blast
    with False r b show ?thesis by (simp add: read_exact.simps[of n s])
  qed
qed

text \<open>C37. A frame survives any chunking: if the stream carries an encoded frame of acceptable size,
  split anywhere, the reader returns exactly that frame and leaves exactly the bytes after it.\<close>
theorem read_live_frame_reassembles:
  assumes "busy s" "stream_bytes s = encode_frame t p @ rest" "length p \<le> max_len" "length p < 2 ^ 32"
  shows "\<exists>s'. read_live_frame_with_timeout max_len s = (Inr (encode_frame t p), s') \<and> stream_bytes s' = rest"
proof -
  obtain hdr where hdr: "encode_frame t p = hdr @ p" "length hdr = 5"
    by (simp add: encode_frame_def)
  obtain s1 where s1: "read_exact 5 s = (Inr hdr, s1)" "busy s1" "stream_bytes s1 = p @ rest"
    using read_exact_busy[OF assms(1), of 5] assms(2) hdr by auto
  have "be_len hdr 0 = length p"
    using be_len_encode[OF assms(4), of "[]" t "[]"] hdr
    by (simp add: be_len_def nth_append)
  moreover obtain s2 where "read_exact (length p) s1 = (Inr p, s2)" "stream_bytes s2 = rest"
    using read_exact_busy[OF s1(2), of "length p"] s1(3) by auto
  ultimately show ?thesis
    using s1(1) assms(3) hdr(1) by (simp add: read_live_frame_with_timeout_def)
qed

theorem read_live_frame_reassembles_witness:
  "\<exists>s'. read_live_frame_with_timeout 10 [Chunk [0, 0], Chunk [0, 2, 1, 8], Chunk [9, 7]]
     = (Inr (encode_frame 1 [8, 9]), s') \<and> stream_bytes s' = [7]"
  by (rule read_live_frame_reassembles)
    (simp_all add: busy_def live_def encode_frame_def u32_to_be_bytes_def u32_to_le_bytes_def)

lemma live_skip_quiet: "live s \<Longrightarrow> busy (skip_quiet s) \<and> stream_bytes (skip_quiet s) = stream_bytes s"
proof -
  have "stream_bytes (filter (\<lambda>e. e \<noteq> Quiet) s) = stream_bytes s"
    by (induction s rule: stream_bytes.induct) auto
  then show "live s \<Longrightarrow> ?thesis" by (auto simp: skip_quiet_def busy_def live_def)
qed

lemma header_or_timeout_live:
  "live s \<Longrightarrow> length hdr \<le> 5 \<Longrightarrow> \<exists>more s'. live s' \<and> stream_bytes s = more @ stream_bytes s' \<and>
     length (hdr @ more) \<le> 5 \<and>
     (read_header_or_timeout hdr s = (Inr (TimedOut (length (hdr @ more))), hdr @ more, s') \<and> length (hdr @ more) < 5 \<or>
      read_header_or_timeout hdr s = (Inr Complete, hdr @ more, s') \<and> length (hdr @ more) = 5)"
proof (induction hdr s rule: read_header_or_timeout.induct)
  case (1 hdr s)
  show ?case
  proof (cases "length hdr < 5")
    case False
    with 1 show ?thesis
      by (intro exI[of _ "[]"] exI[of _ s]) (simp add: read_header_or_timeout.simps[of hdr s])
  next
    case True
    note rs = read_some_live[OF "1.prems"(1), of "5 - length hdr"]
    show ?thesis
    proof (cases "fst (read_some (5 - length hdr) s)")
      case (Inl e)
      with rs True show ?thesis
        by (intro exI[of _ "[]"] exI[of _ "snd (read_some (5 - length hdr) s)"])
          (cases "read_some (5 - length hdr) s", auto simp: read_header_or_timeout.simps[of hdr s])
    next
      case (Inr bs)
      then obtain s1 where r: "read_some (5 - length hdr) s = (Inr bs, s1)"
        by (cases "read_some (5 - length hdr) s") auto
      with rs True obtain b bs' where b: "bs = b # bs'" "length bs \<le> 5 - length hdr" "live s1"
          "stream_bytes s = bs @ stream_bytes s1"
        by (cases bs) auto
      then have eq: "read_header_or_timeout hdr s = read_header_or_timeout (hdr @ bs) s1"
        using r True by (simp add: read_header_or_timeout.simps[of hdr s])
      have "length (hdr @ bs) \<le> 5" using b(2) True by simp
      with "1.IH"[OF True r[symmetric] refl b(1)] b(1,3) obtain more s' where
        "live s' \<and> stream_bytes s1 = more @ stream_bytes s' \<and> length ((hdr @ bs) @ more) \<le> 5 \<and>
         (read_header_or_timeout (hdr @ bs) s1 = (Inr (TimedOut (length ((hdr @ bs) @ more))), (hdr @ bs) @ more, s') \<and>
            length ((hdr @ bs) @ more) < 5 \<or>
          read_header_or_timeout (hdr @ bs) s1 = (Inr Complete, (hdr @ bs) @ more, s') \<and> length ((hdr @ bs) @ more) = 5)"
        by metis
      with b(4) eq show ?thesis
        by (intro exI[of _ "bs @ more"] exI[of _ s']) simp
    qed
  qed
qed

lemma finish_header_live:
  "live s \<Longrightarrow> length hdr \<le> 5 \<Longrightarrow> 5 \<le> length (hdr @ stream_bytes s) \<Longrightarrow>
     \<exists>s'. finish_header_after_partial hdr s = (Inr (take 5 (hdr @ stream_bytes s)), s') \<and>
       live s' \<and> stream_bytes s' = drop 5 (hdr @ stream_bytes s)"
proof (induction hdr s rule: finish_header_after_partial.induct)
  case (1 hdr s)
  show ?case
  proof (cases "length hdr < 5")
    case False
    with 1 show ?thesis by (simp add: finish_header_after_partial.simps[of hdr s])
  next
    case True
    have bz: "busy (skip_quiet s)" "stream_bytes (skip_quiet s) = stream_bytes s" "live (skip_quiet s)"
      using live_skip_quiet[OF "1.prems"(1)] by (auto simp: busy_def)
    note rs = read_some_live[OF bz(3), of "5 - length hdr"]
    have "stream_bytes s \<noteq> []" using "1.prems"(3) True by auto
    with rs True bz obtain bs s1 where r: "read_some (5 - length hdr) (skip_quiet s) = (Inr bs, s1)"
      by (cases "read_some (5 - length hdr) (skip_quiet s)"; cases "fst (read_some (5 - length hdr) (skip_quiet s))") auto
    with rs True bz have b: "bs \<noteq> []" "length bs \<le> 5 - length hdr" "live s1" "stream_bytes s = bs @ stream_bytes s1"
      by auto
    with "1.IH"[OF True r[symmetric] refl b(1)] "1.prems" True r show ?thesis
      by (simp add: finish_header_after_partial.simps[of hdr s])
  qed
qed

text \<open>An idle deadline in the middle of a header loses no byte: when the first read times out with
  part of the header and the stream goes on, finishing the header returns the first five bytes of
  the stream and leaves the rest.\<close>
theorem header_survives_timeout:
  assumes "live s" "read_header_or_timeout [] s = (Inr (TimedOut k), hdr, s1)" "5 \<le> length (stream_bytes s)"
  shows "k = length hdr \<and> (\<exists>s2. finish_header_after_partial hdr s1 = (Inr (take 5 (stream_bytes s)), s2) \<and>
    stream_bytes s2 = drop 5 (stream_bytes s))"
proof -
  obtain more s' where m: "live s'" "stream_bytes s = more @ stream_bytes s'" "length more \<le> 5"
    "read_header_or_timeout [] s = (Inr (TimedOut (length more)), more, s') \<or>
     read_header_or_timeout [] s = (Inr Complete, more, s')"
    using header_or_timeout_live[OF assms(1), of "[]"] by auto
  with assms(2) have "hdr = more" "s1 = s'" "k = length more" by auto
  then show ?thesis
    using finish_header_live[OF m(1) m(3)] m(2) assms(3) by auto
qed

theorem header_survives_timeout_witness:
  "\<exists>s2. finish_header_after_partial [0, 0] [Chunk [0, 4], Quiet, Chunk [1, 6]] = (Inr [0, 0, 0, 4, 1], s2) \<and>
     stream_bytes s2 = [6]"
proof -
  let ?s = "[Chunk [0, 0], Quiet, Chunk [0, 4], Quiet, Chunk [1, 6]]"
  have "read_header_or_timeout [] ?s = (Inr (TimedOut 2), [0, 0], [Chunk [0, 4], Quiet, Chunk [1, 6]])"
    by (simp add: read_header_or_timeout.simps)
  moreover have "live ?s" by (simp add: live_def)
  ultimately show ?thesis
    using header_survives_timeout[of ?s 2 "[0, 0]" "[Chunk [0, 4], Quiet, Chunk [1, 6]]"] by simp
qed

end
