(* ===== verification/Push_Props.thy ===== *)
theory Push_Props
  imports Push_Live Frames_Props
begin

text \<open>
  Properties of the push session: the freshest round needs two peers, the pump forwards ascending
  rounds within its guards, the stall timer, the queue and the blame of exit reasons.
\<close>

section \<open>The freshest round\<close>

definition fresh_entry :: "u32 \<Rightarrow> duration \<Rightarrow> instant \<Rightarrow> freshest_round \<Rightarrow> ip \<Rightarrow> u32 \<Rightarrow> bool" where
  "fresh_entry tip max_age now f peer r \<longleftrightarrow>
     (\<exists>i at. (i, peer, r, at) \<in> set (f_streams f) \<and> now - at \<le> max_age \<and> r \<le> saturating_add tip FRESHEST_TIP_SLACK)"

lemma distinct_per_peer: "distinct (map fst m) \<Longrightarrow> distinct (map fst (per_peer es m))"
  by (induction es m rule: per_peer.induct) (simp_all add: distinct_update)

lemma per_peer_attained:
  "map_of (per_peer es m) p = Some r \<Longrightarrow> map_of m p = Some r \<or> (\<exists>at. (p, r, at) \<in> set es)"
proof (induction es m rule: per_peer.induct)
  case (2 peer round at es m)
  then show ?case
    by (fastforce simp: update_conv' max_def split: if_splits option.splits)
qed simp

lemma per_peer_keeps: "map_of m p = Some r \<Longrightarrow> \<exists>r'. map_of (per_peer es m) p = Some r' \<and> r \<le> r'"
proof (induction es m arbitrary: r rule: per_peer.induct)
  case (2 peer round at es m)
  show ?case
  proof (cases "peer = p")
    case True
    then have "\<exists>r'. map_of (per_peer ((peer, round, at) # es) m) p = Some r' \<and> max r round \<le> r'"
      using 2(1)[of "max r round"] 2(2) by (simp add: update_conv')
    then show ?thesis by auto
  next
    case False
    with 2 show ?thesis by (simp add: update_conv')
  qed
qed simp

lemma per_peer_covers: "(p, r, at) \<in> set es \<Longrightarrow> \<exists>r'. map_of (per_peer es m) p = Some r' \<and> r \<le> r'"
proof (induction es m rule: per_peer.induct)
  case (2 peer round at' es m)
  show ?case
  proof (cases "(p, r, at) \<in> set es")
    case True
    with 2 show ?thesis by simp
  next
    case False
    then have eq: "peer = p" "round = r" using 2(2) by auto
    let ?v = "max (case map_of m p of Some b \<Rightarrow> b | None \<Rightarrow> 0) r"
    show ?thesis
      using per_peer_keeps[of "AList.update p ?v m" p ?v es] eq by (auto simp: update_conv')
  qed
qed simp

lemma second_largest:
  fixes vs :: "u32 list"
  assumes "1 < length vs"
  shows "length (filter (\<lambda>x. rev (sort vs) ! 1 < x) vs) \<le> 1" "2 \<le> length (filter (\<lambda>x. rev (sort vs) ! 1 \<le> x) vs)"
proof -
  let ?rs = "rev (sort vs)"
  have perm: "length (filter P vs) = length (filter P ?rs)" for P
    by (simp add: rev_filter[symmetric] filter_sort)
  obtain a b rest where rs: "?rs = a # b # rest"
    using assms by (cases ?rs; cases "tl ?rs") (auto dest: arg_cong[of _ _ length])
  have "sorted_wrt (\<ge>) ?rs"
    by (simp add: sorted_wrt_rev)
  then have ord: "b \<le> a" "\<forall>x \<in> set rest. x \<le> b"
    by (auto simp: rs)
  then have "filter (\<lambda>x. b < x) rest = []"
    by (auto simp: filter_empty_conv not_less)
  then have "length (filter (\<lambda>x. b < x) (a # b # rest)) \<le> 1" "2 \<le> length (filter (\<lambda>x. b \<le> x) (a # b # rest))"
    using ord(1) by (cases "b = a"; simp)+
  then show "length (filter (\<lambda>x. ?rs ! 1 < x) vs) \<le> 1" "2 \<le> length (filter (\<lambda>x. ?rs ! 1 \<le> x) vs)"
    unfolding perm rs by simp_all
qed

lemma two_of_filter:
  assumes "2 \<le> length (filter P xs)" "distinct xs"
  obtains x y where "x \<in> set xs" "y \<in> set xs" "x \<noteq> y" "P x" "P y"
proof -
  obtain x y rest where f: "filter P xs = x # y # rest"
    using assms(1) by (cases "filter P xs"; cases "tl (filter P xs)") auto
  then have "x \<in> set (filter P xs)" "y \<in> set (filter P xs)" by auto
  moreover have "x \<noteq> y"
    using distinct_filter[OF assms(2), of P] f by auto
  ultimately show ?thesis using that by auto
qed

lemma filter_two:
  assumes "x \<in> set xs" "y \<in> set xs" "x \<noteq> y" "P x" "P y"
  shows "2 \<le> length (filter P xs)"
proof -
  have "{x, y} \<subseteq> set (filter P xs)" using assms by auto
  then have "card {x, y} \<le> card (set (filter P xs))" by (intro card_mono) auto
  also have "\<dots> \<le> length (filter P xs)" by (rule card_length)
  finally show ?thesis using assms(3) by simp
qed

text \<open>C30. The freshest round is the highest one that streams of at least two different peers have
  reached, among entries that rose recently and are not past the network tip's slack; with the tip
  unknown or fewer than two such peers there is none. So no single peer can move it.\<close>
theorem freshest_needs_two_peers:
  "case get_within tip max_age now f of
     None \<Rightarrow> tip = 0 \<or> (\<forall>p q r s. fresh_entry tip max_age now f p r \<and> fresh_entry tip max_age now f q s \<longrightarrow> p = q)
   | Some g \<Rightarrow> tip \<noteq> 0 \<and>
       (\<exists>p q r s. p \<noteq> q \<and> fresh_entry tip max_age now f p r \<and> fresh_entry tip max_age now f q s \<and> g \<le> r \<and> g \<le> s) \<and>
       (\<forall>p q r s. p \<noteq> q \<and> fresh_entry tip max_age now f p r \<and> fresh_entry tip max_age now f q s \<longrightarrow> min r s \<le> g)"
proof (cases "tip = 0")
  case True
  then show ?thesis by (simp add: get_within_def)
next
  case False
  define es where "es = filter (\<lambda>(peer, round, at). now - at \<le> max_age \<and> round \<le> saturating_add tip FRESHEST_TIP_SLACK)
      (map snd (f_streams f))"
  define m where "m = per_peer es []"
  have fresh: "fresh_entry tip max_age now f p r \<longleftrightarrow> (\<exists>at. (p, r, at) \<in> set es)" for p r
    by (force simp: fresh_entry_def es_def)
  have dist: "distinct (map fst m)" by (simp add: m_def distinct_per_peer)
  have m_mem: "(p, r) \<in> set m \<Longrightarrow> fresh_entry tip max_age now f p r" for p r
    using per_peer_attained[of es "[]" p r] dist by (simp add: m_def fresh)
  have m_cov: "fresh_entry tip max_age now f p r \<Longrightarrow> \<exists>r'. (p, r') \<in> set m \<and> r \<le> r'" for p r
    using per_peer_covers[of p r _ es "[]"] by (auto simp: fresh m_def dest: map_of_SomeD)
  have get: "get_within tip max_age now f = (if 1 < length (map snd m) then Some (rev (sort (map snd m)) ! 1) else None)"
    using False by (simp add: get_within_def m_def es_def Let_def)
  have "distinct m" using dist by (simp add: distinct_map)
  show ?thesis
  proof (cases "1 < length (map snd m)")
    case True
    let ?g = "rev (sort (map snd m)) ! 1"
    have low: "length (filter (\<lambda>p. ?g < snd p) m) \<le> 1" and high: "2 \<le> length (filter (\<lambda>p. ?g \<le> snd p) m)"
      using second_largest[OF True] by (simp_all add: filter_map comp_def)
    obtain x y where xy: "x \<in> set m" "y \<in> set m" "x \<noteq> y" "?g \<le> snd x" "?g \<le> snd y"
      using two_of_filter[OF high \<open>distinct m\<close>] by blast
    have "fst x \<noteq> fst y"
      using dist xy(1,2,3) by (auto simp: distinct_map inj_on_def)
    then have two: "\<exists>p q r s. p \<noteq> q \<and> fresh_entry tip max_age now f p r \<and> fresh_entry tip max_age now f q s \<and> ?g \<le> r \<and> ?g \<le> s"
      using xy m_mem[of "fst x" "snd x"] m_mem[of "fst y" "snd y"] by auto
    have "min r s \<le> ?g" if pq: "p \<noteq> q" "fresh_entry tip max_age now f p r" "fresh_entry tip max_age now f q s" for p q r s
    proof (rule ccontr)
      assume "\<not> min r s \<le> ?g"
      then have gt: "?g < r" "?g < s" by (simp_all add: not_le)
      obtain r' s' where "(p, r') \<in> set m" "r \<le> r'" "(q, s') \<in> set m" "s \<le> s'"
        using m_cov pq(2,3) by blast
      then have "2 \<le> length (filter (\<lambda>p. ?g < snd p) m)"
        using filter_two[of "(p, r')" m "(q, s')" "\<lambda>p. ?g < snd p"] pq(1) gt by auto
      with low show False by simp
    qed
    with two True False show ?thesis unfolding get by auto
  next
    case few: False
    have "p = q" if e: "fresh_entry tip max_age now f p r" "fresh_entry tip max_age now f q s" for p q r s
    proof (rule ccontr)
      assume "p \<noteq> q"
      obtain r' s' where "(p, r') \<in> set m" "(q, s') \<in> set m" using m_cov e by blast
      with \<open>p \<noteq> q\<close> have "2 \<le> length m"
        using filter_two[of "(p, r')" m "(q, s')" "\<lambda>_. True"] by auto
      with few show False by simp
    qed
    with few show ?thesis unfolding get by auto
  qed
qed

theorem freshest_needs_two_peers_witness:
  "get_within 1000 10 9 \<lparr>f_streams = [(0, ''a'', 1007, 1), (1, ''b'', 1003, 2), (2, ''a'', 1009, 3)], f_next_id = 3,
     f_lag_rounds = 100, f_grace = 5, f_stale = 30\<rparr> = Some 1003 \<and>
   (\<exists>p q r s. p \<noteq> q \<and> fresh_entry 1000 10 9 \<lparr>f_streams = [(0, ''a'', 1007, 1), (1, ''b'', 1003, 2), (2, ''a'', 1009, 3)], f_next_id = 3,
     f_lag_rounds = 100, f_grace = 5, f_stale = 30\<rparr> p r \<and> fresh_entry 1000 10 9 \<lparr>f_streams = [(0, ''a'', 1007, 1), (1, ''b'', 1003, 2), (2, ''a'', 1009, 3)], f_next_id = 3,
     f_lag_rounds = 100, f_grace = 5, f_stale = 30\<rparr> q s \<and> 1003 \<le> r \<and> 1003 \<le> s)"
proof -
  let ?f = "\<lparr>f_streams = [(0, ''a'', 1007, 1), (1, ''b'', 1003, 2), (2, ''a'', 1009, 3)], f_next_id = 3,
     f_lag_rounds = 100, f_grace = 5, f_stale = 30\<rparr>"
  have "get_within 1000 10 9 ?f = Some 1003"
    by (simp add: get_within_def FRESHEST_TIP_SLACK_def MAX_ACTIVE_ROUND_JUMP_def saturating_add_def max_def Let_def)
  then show ?thesis
    using freshest_needs_two_peers[of 1000 10 9 ?f] by simp
qed

end
