(* ===== verification/Push_Session_Props.thy ===== *)
theory Push_Session_Props
  imports Push_Session Push_Props
begin

text \<open>
  What a push session shows its node: the rounds of the blocks it sends, the guards each of them passed,
  who is blamed for the end of a session, and what a relay reports.
\<close>

section \<open>The rounds a session sends\<close>

definition frame_round :: "(bytes \<Rightarrow> bytes option) \<Rightarrow> bytes \<Rightarrow> u32 option" where
  "frame_round D f = (if f ! 4 = 1 then block_round D (drop 5 f) else None)"

definition sent_rounds :: "(bytes \<Rightarrow> bytes option) \<Rightarrow> bytes list \<Rightarrow> u32 list" where
  "sent_rounds D fs = List.map_filter (frame_round D) fs"

lemma sent_rounds_simps [simp]:
  "sent_rounds D [] = []"
  "sent_rounds D (fs @ gs) = sent_rounds D fs @ sent_rounds D gs"
  "sent_rounds D (f # fs) = (case frame_round D f of None \<Rightarrow> sent_rounds D fs | Some r \<Rightarrow> r # sent_rounds D fs)"
  by (simp_all add: sent_rounds_def map_filter_def split: option.splits)

definition stream_ok :: "(bytes \<Rightarrow> bytes option) \<Rightarrow> u32 \<Rightarrow> push_sess \<Rightarrow> bool" where
  "stream_ok D l st \<longleftrightarrow> gate_ok (ps_gate st) \<and> sorted_wrt (<) (l # sent_rounds D (ps_sent st)) \<and>
     g_last_forwarded (ps_gate st) = last (l # sent_rounds D (ps_sent st))"

lemma stream_ok_fields:
  "stream_ok D l (st\<lparr>ps_active_round := a\<rparr>) = stream_ok D l st"
  "stream_ok D l (st\<lparr>ps_freshest := f\<rparr>) = stream_ok D l st"
  "stream_ok D l (st\<lparr>ps_stats := t\<rparr>) = stream_ok D l st"
  by (simp_all add: stream_ok_def)

lemma feed_offer_fields [simp]:
  "ps_sent (feed_offer tip rnd now st) = ps_sent st"
  "ps_gate (feed_offer tip rnd now st) = ps_gate st"
  "ps_active_round (feed_offer tip rnd now st) = ps_active_round st"
  "ps_writer_open (feed_offer tip rnd now st) = ps_writer_open st"
  by (simp_all add: feed_offer_def split: option.splits)

lemma stream_ok_feed_offer: "stream_ok D l (feed_offer tip rnd now st) = stream_ok D l st"
  by (simp add: stream_ok_def)

lemma send_node_fields [simp]:
  "ps_gate (snd (send_node f k st)) = ps_gate st"
  "ps_sent (snd (send_node f k st)) = (if ps_writer_open st then ps_sent st @ [f] else ps_sent st)"
  "fst (send_node f k st) = ps_writer_open st"
  "ps_writer_open (snd (send_node f k st)) = ps_writer_open st"
  by (simp_all add: send_node_def Let_def)

lemma stream_ok_send: "frame_round D f = None \<Longrightarrow> stream_ok D l st \<Longrightarrow> stream_ok D l (snd (send_node f k st))"
  by (simp add: stream_ok_def)

text \<open>The end of both handlers. A block is sent only with the writer open, which a session keeps.\<close>

lemma stream_ok_gate_block:
  assumes "stream_ok D l st" "frame_round D f = Some rnd" "ps_writer_open st"
  shows "stream_ok D l (snd (gate_block floor rnd f st))"
proof (cases "rnd \<le> floor")
  case False
  let ?g = "snd (should_forward rnd True (ps_gate st))"
  have ok: "gate_ok (ps_gate st)" using assms(1) by (simp add: stream_ok_def)
  have g: "gate_ok ?g" "fst (should_forward rnd True (ps_gate st)) \<longleftrightarrow> g_last_forwarded (ps_gate st) < rnd"
    "g_last_forwarded ?g = (if g_last_forwarded (ps_gate st) < rnd then rnd else g_last_forwarded (ps_gate st))"
    using should_forward_tip[OF ok, of True rnd] by (simp_all add: tip_accepts_def)
  show ?thesis
  proof (cases "g_last_forwarded (ps_gate st) < rnd")
    case True
    with assms(1) have "sorted_wrt (<) (l # sent_rounds D (ps_sent st) @ [rnd])"
      by (intro sorted_snoc) (simp_all add: stream_ok_def)
    with True False g assms show ?thesis
      by (simp add: gate_block_def case_prod_beta Let_def stream_ok_def)
  next
    case no: False
    with False g assms(1) show ?thesis
      by (simp add: gate_block_def case_prod_beta Let_def stream_ok_def)
  qed
qed (use assms in \<open>simp add: gate_block_def stream_ok_fields\<close>)

lemma gate_block_open: "ps_writer_open (snd (gate_block floor rnd f st)) = ps_writer_open st"
  by (simp add: gate_block_def case_prod_beta Let_def)

lemma gate_block_fst: "ps_writer_open st \<Longrightarrow> fst (gate_block floor rnd f st) \<noteq> Some False"
  by (simp add: gate_block_def case_prod_beta Let_def)

definition serving :: "(bytes \<Rightarrow> bytes option) \<Rightarrow> u32 \<Rightarrow> push_sess \<Rightarrow> bool" where
  "serving D l st \<longleftrightarrow> stream_ok D l st \<and> ps_writer_open st"

lemma serving_fields [simp]:
  "serving D l (st\<lparr>ps_active_round := a\<rparr>) = serving D l st"
  "serving D l (st\<lparr>ps_freshest := f\<rparr>) = serving D l st"
  "serving D l (feed_offer tip rnd now st) = serving D l st"
  by (simp_all add: serving_def stream_ok_fields stream_ok_feed_offer)

lemma serving_gate_block:
  "serving D l st \<Longrightarrow> frame_round D f = Some rnd \<Longrightarrow> serving D l (snd (gate_block floor rnd f st))"
  by (simp add: serving_def stream_ok_gate_block gate_block_open)

lemma serving_send: "serving D l st \<Longrightarrow> frame_round D f = None \<Longrightarrow> serving D l (snd (send_node f k st))"
  by (simp add: serving_def stream_ok_send)

lemma serving_process_live_frame:
  assumes "serving D l st"
  shows "serving D l (snd (process_live_frame D floor tip now f st))"
proof (cases "length f < 5 \<or> be_len f 0 \<noteq> length f - 5 \<or> frame_round D f = None")
  case True
  with assms show ?thesis
    by (auto simp: process_live_frame_def frame_round_def case_prod_beta Let_def intro!: serving_send
        split: option.splits if_splits)
next
  case False
  then obtain rnd where rnd: "frame_round D f = Some rnd" by auto
  then have "f ! 4 = 1" "block_round D (drop 5 f) = Some rnd"
    by (auto simp: frame_round_def split: if_splits)
  with False assms show ?thesis
    using serving_gate_block[OF _ rnd, of l "feed_offer tip rnd now (st\<lparr>ps_active_round := max (ps_active_round st) rnd\<rparr>)" floor]
    by (auto simp: process_live_frame_def Let_def split: option.splits prod.splits)
qed

lemma serving_pump_frame:
  assumes "serving D l st"
  shows "serving D l (snd (snd (pump_frame D floor tip backed now f (p, st))))"
proof (cases "frame_round D f")
  case None
  with assms show ?thesis
    by (auto simp: pump_frame_def frame_round_def case_prod_beta Let_def intro!: serving_send
        split: option.splits if_splits)
next
  case (Some rnd)
  then have "f ! 4 = 1" "block_round D (drop 5 f) = Some rnd"
    by (auto simp: frame_round_def split: if_splits)
  with assms show ?thesis
    using serving_gate_block[OF _ Some, of l "feed_offer tip rnd now (st\<lparr>ps_active_round := max (ps_active_round st) rnd\<rparr>)" floor]
    by (auto simp: pump_frame_def Let_def case_prod_beta split: option.splits prod.splits sum.splits)
qed

lemma serving_pump_merge:
  "serving D l (snd x) \<Longrightarrow> serving D l (snd (snd (pump_merge D is x)))"
proof (induction D "is" x rule: pump_merge.induct)
  case (2 D i "is" p st)
  then show ?case
    using serving_pump_frame[of D l "st\<lparr>ps_freshest := i_others i (ps_freshest st)\<rparr>"]
    by (auto simp: Let_def split: sum.splits option.splits prod.splits) (metis snd_conv)+
qed simp

lemma serving_prefetched: "serving D l st \<Longrightarrow> serving D l (snd (serve_prefetched D fs st))"
proof (induction D fs st rule: serve_prefetched.induct)
  case (2 D frame floor tip now fs st)
  then show ?case
    using serving_process_live_frame[OF "2.prems", of floor tip now frame]
    by (auto split: option.splits prod.splits)
qed simp

lemma serving_start: "serving D (pc_initial_last_forwarded cfg) (push_sess_start cfg)"
  by (simp add: serving_def stream_ok_def push_sess_start_def gate_ok_new)
    (simp add: with_last_forwarded_def)

text \<open>The writer takes the frames in the order they were queued.\<close>

definition node_view :: "(bytes \<Rightarrow> bytes option) \<Rightarrow> u32 \<Rightarrow> serve_state \<Rightarrow> bool" where
  "node_view D l s \<longleftrightarrow> serving D l (sv_sess s) \<and> sv_written s = take (length (sv_written s)) (ps_sent (sv_sess s))"

lemma pump_frame_sent: "\<exists>gs. ps_sent (snd (snd (pump_frame D floor tip backed now f (p, st)))) = ps_sent st @ gs"
  by (auto simp: pump_frame_def gate_block_def Let_def case_prod_beta split: option.splits prod.splits sum.splits)

lemma pump_merge_sent: "\<exists>gs. ps_sent (snd (snd (pump_merge D is x))) = ps_sent (snd x) @ gs"
proof (induction D "is" x rule: pump_merge.induct)
  case (2 D i "is" p st)
  show ?case
  proof (cases "stalled (i_now i) (if i_backed i then hold (i_now i) p else p)")
    case False
    show ?thesis
    proof (cases "read_frame_checked (i_read i)")
      case (Inr frame)
      obtain r y where x: "pump_frame D (i_floor i) (i_tip i) (i_backed_lag i) (i_at i) frame
          (if i_backed i then hold (i_now i) p else p, st\<lparr>ps_freshest := i_others i (ps_freshest st)\<rparr>) = (r, y)"
        by (cases "pump_frame D (i_floor i) (i_tip i) (i_backed_lag i) (i_at i) frame
          (if i_backed i then hold (i_now i) p else p, st\<lparr>ps_freshest := i_others i (ps_freshest st)\<rparr>)")
      then obtain gs where gs: "ps_sent (snd y) = ps_sent st @ gs"
        using pump_frame_sent[of D "i_floor i" "i_tip i" "i_backed_lag i" "i_at i" frame
            "if i_backed i then hold (i_now i) p else p" "st\<lparr>ps_freshest := i_others i (ps_freshest st)\<rparr>"]
        by (metis push_sess.select_convs(6) push_sess.update_convs(4) snd_conv push_sess.surjective)
      show ?thesis
        using 2[OF refl False Inr x[symmetric]] False Inr x gs by (cases r) (auto simp: Let_def)
    qed (use False in \<open>simp add: Let_def\<close>)
  qed (simp add: Let_def)
qed simp

lemma take_grows: "xs = take (length xs) ys \<Longrightarrow> xs = take (length xs) (ys @ gs)"
  by (metis length_take linorder_not_le min.absorb4 min.cobounded2 order_less_imp_le take_append
      append.right_neutral diff_is_0_eq take0 take_all_iff)

lemma node_view_event: "node_view D l s \<Longrightarrow> node_view D l (snd (serve_event D msg ev s))"
proof (cases ev)
  case (PumpPass i)
  assume v: "node_view D l s"
  obtain gs where "ps_sent (snd (snd (pump_merge D [i] (sv_progress s, sv_sess s)))) = ps_sent (sv_sess s) @ gs"
    using pump_merge_sent[of D "[i]" "(sv_progress s, sv_sess s)"] by auto
  then show ?thesis
    using v serving_pump_merge[of D l "(sv_progress s, sv_sess s)" "[i]"] take_grows[of "sv_written s" "ps_sent (sv_sess s)" gs]
    by (auto simp: PumpPass serve_event_def node_view_def split: prod.splits simp del: pump_merge.simps)
next
  case (NodeWrite w)
  assume "node_view D l s"
  then show ?thesis
    by (cases w) (auto simp: NodeWrite serve_event_def node_view_def Let_def take_Suc_conv_app_nth)
qed (auto simp: serve_event_def case_prod_beta split: option.splits, auto simp: node_view_def)

lemma node_view_loop: "node_view D l s \<Longrightarrow> node_view D l (snd (serve_loop D msg evs s))"
proof (induction D msg evs s rule: serve_loop.induct)
  case (2 D msg ev evs s)
  then show ?case
    using node_view_event[OF "2.prems", of msg ev] by (auto split: option.splits prod.splits)
qed simp

lemma node_view_sorted: "node_view D l s \<Longrightarrow> sorted_wrt (<) (l # sent_rounds D (sv_written s))"
proof -
  assume v: "node_view D l s"
  have "ps_sent (sv_sess s) = sv_written s @ drop (length (sv_written s)) (ps_sent (sv_sess s))"
    using v by (metis append_take_drop_id node_view_def)
  then have "sent_rounds D (ps_sent (sv_sess s)) =
      sent_rounds D (sv_written s) @ sent_rounds D (drop (length (sv_written s)) (ps_sent (sv_sess s)))"
    by (metis sent_rounds_simps(2))
  with v show ?thesis
    by (auto simp: node_view_def serving_def stream_ok_def sorted_wrt_append)
qed

lemma push_stream:
  assumes "serve_push D msg cfg act_r w conds start evs = (r, out)"
  shows "out = [] \<or> (\<exists>greet fs. out = greet # fs \<and>
     serve_greeting msg (pc_prefetched_greeting cfg) act_r w = Inr greet \<and>
     sorted_wrt (<) (pc_initial_last_forwarded cfg # sent_rounds D fs))"
proof (cases "serve_greeting msg (pc_prefetched_greeting cfg) act_r w")
  case (Inr greet)
  let ?fs = "map (\<lambda>(k, f). (f, conds k)) (enumerate 0 (pc_prefetched_frames cfg))"
  obtain e st where pre: "serve_prefetched D ?fs (push_sess_start cfg) = (e, st)"
    by (cases "serve_prefetched D ?fs (push_sess_start cfg)")
  have st: "serving D (pc_initial_last_forwarded cfg) st"
    using serving_prefetched[OF serving_start, of D cfg ?fs] by (simp add: pre)
  show ?thesis
  proof (cases e)
    case None
    let ?s = "\<lparr>sv_progress = block_progress_new (ps_active_round st) start, sv_sess = st, sv_written = [],
                sv_stall = stalled_behind_new STALL_LAG_ROUNDS STALL_LAG_GRACE STALL_LAG_WIDEN\<rparr>"
    have "node_view D (pc_initial_last_forwarded cfg) ?s"
      using st by (simp add: node_view_def)
    then have "sorted_wrt (<) (pc_initial_last_forwarded cfg # sent_rounds D (sv_written (snd (serve_loop D msg evs ?s))))"
      by (intro node_view_sorted node_view_loop)
    with assms Inr pre None show ?thesis
      by (auto simp: serve_push_def split: prod.splits)
  qed (use assms Inr pre in \<open>auto simp: serve_push_def\<close>)
qed (use assms in \<open>auto simp: serve_push_def\<close>)

text \<open>C4. Whatever the upstream sends, however its tasks are scheduled and wherever the session ends, what
  the node reads is the peer's greeting first and then frames whose block rounds ascend strictly above the
  round the session started at; only greeting frames that do not report a full peer are passed on.\<close>
theorem serve_push_node_stream:
  assumes "serve_push D msg cfg act_r w conds start evs = (r, out)"
  shows "out = [] \<or> (\<exists>greet fs. out = greet # fs \<and>
     serve_greeting msg (pc_prefetched_greeting cfg) act_r w = Inr greet \<and>
     sorted_wrt (<) (pc_initial_last_forwarded cfg # sent_rounds D fs))"
  by (rule push_stream[OF assms])

text \<open>A live block frame of round \<open>1500000000 + b\<close>, uncompressed literals only.\<close>

definition live_frame :: "u8 \<Rightarrow> bytes" where
  "live_frame b = encode_frame 1 ([15, 0, 0, 0, 0xf0, 0,
     0xfc, b, 0x2f, 0x68, 0x59, 0xfc, b - 1, 0x2f, 0x68, 0x59, 0xfc, b - 2, 0x2f, 0x68, 0x59])"

lemma encode_frame_parts [simp]: "encode_frame t p ! 4 = t" "drop 5 (encode_frame t p) = p"
  by (simp_all add: encode_frame_def u32_to_be_bytes_def u32_to_le_bytes_def)

lemma live_frame_round:
  "frame_round D (live_frame 2) = Some 1500000002" "frame_round D (live_frame 3) = Some 1500000003"
  by (simp_all add: frame_round_def live_frame_def block_round_def declared_size_ok_def
      MAX_DECOMPRESSED_BLOCK_def u32_from_le_bytes_def lz4_first_n_def lz4_run.simps lz4_len_def find_block_round_def
      find_block_round_parent_def scan_block_round.simps round_triple_at_def rd_def ROUND_SCAN_BYTES_def Let_def
      round_consts)

lemma live_frame_shape:
  "length (live_frame b) = 26" "live_frame b ! 4 = 1" "be_len (live_frame b) 0 = 21"
  using be_len_encode[of "[15, 0, 0, 0, 0xf0, 0, 0xfc, b, 0x2f, 0x68, 0x59, 0xfc, b - 1, 0x2f, 0x68, 0x59, 0xfc, b - 2, 0x2f, 0x68, 0x59]" "[]" 1 "[]"]
  by (simp_all add: live_frame_def)

definition sample_config :: push_config where
  "sample_config = \<lparr>pc_hosts = [''192.0.2.1''], pc_active_idx = 0, pc_prefetched_greeting = Some [0, 0, 0, 1, 0, 1],
     pc_prefetched_frames = [live_frame 2, live_frame 2], pc_initial_last_forwarded = 1500000001, pc_freshest = None\<rparr>"

lemma should_forward_active:
  assumes "gate_ok g"
  obtains g' where "should_forward r True g = (g_last_forwarded g < r, g')" "gate_ok g'"
    "g_last_forwarded g' = (if g_last_forwarded g < r then r else g_last_forwarded g)"
  using should_forward_tip[OF assms, of True r]
  by (cases "should_forward r True g") (auto simp: tip_accepts_def)

lemma sample_sends_once:
  "snd (serve_push D msg sample_config [] Wrote (\<lambda>_. (0, 0, 0)) 0
     [NodeWrite Wrote, NodeWrite Wrote, EndWhen RETURNING_TO_PRIORITY]) = [[0, 0, 0, 1, 0, 1], live_frame 2]"
proof -
  let ?g = "with_last_forwarded 16384 1500000001" and ?r = "1500000002"
  obtain g1 where g1: "should_forward ?r True ?g = (True, g1)" "gate_ok g1" "g_last_forwarded g1 = ?r"
    by (rule should_forward_active[OF gate_ok_new, of ?r 16384 1500000001]) (simp add: with_last_forwarded_def max_def)
  obtain g2 where g2: "should_forward ?r True g1 = (False, g2)"
    by (rule should_forward_active[OF g1(2), of ?r]) (simp add: g1(3))
  have b: "block_round D (drop 5 (live_frame 2)) = Some ?r"
    using live_frame_round(1)[of D] by (simp add: frame_round_def live_frame_shape)
  show ?thesis
    by (simp add: serve_push_def serve_greeting_def greeting_written_def sample_config_def push_sess_start_def
        process_live_frame_def live_frame_shape b is_plausible_mainnet_round_def round_consts saturating_add_def
        MAX_ACTIVE_ROUND_JUMP_def feed_offer_def round_lag_from_tip_def gate_block_def send_node_def g1 g2
        sent_or_closed_def serve_event_def Let_def max_def)
qed

theorem serve_push_node_stream_witness:
  "sorted_wrt (<) (1500000001 # sent_rounds (\<lambda>_. None) (tl (snd (serve_push (\<lambda>_. None) (\<lambda>_. []) sample_config [] Wrote (\<lambda>_. (0, 0, 0)) 0
     [NodeWrite Wrote, NodeWrite Wrote, EndWhen RETURNING_TO_PRIORITY])))) \<and>
   sent_rounds (\<lambda>_. None) (tl (snd (serve_push (\<lambda>_. None) (\<lambda>_. []) sample_config [] Wrote (\<lambda>_. (0, 0, 0)) 0
     [NodeWrite Wrote, NodeWrite Wrote, EndWhen RETURNING_TO_PRIORITY]))) = [1500000002]"
  using serve_push_node_stream[of "\<lambda>_. None" "\<lambda>_. []" sample_config "[]" Wrote "\<lambda>_. (0, 0, 0)" 0
      "[NodeWrite Wrote, NodeWrite Wrote, EndWhen RETURNING_TO_PRIORITY]"] sample_sends_once[of "\<lambda>_. None" "\<lambda>_. []"]
  by (cases "serve_push (\<lambda>_. None) (\<lambda>_. []) sample_config [] Wrote (\<lambda>_. (0, 0, 0)) 0
      [NodeWrite Wrote, NodeWrite Wrote, EndWhen RETURNING_TO_PRIORITY]")
    (auto simp: sample_config_def live_frame_round)

end
