(* ===== verification/Failover_Stream.thy ===== *)
theory Failover_Stream
  imports Failover_Session Push_Session_Props
begin

text \<open>
  The stream a failover session gives its node. Every buffered block keeps the frame it was classified
  from, so the frames replayed at a switch carry the rounds of the chain, and the whole stream ascends.
\<close>

section \<open>Buffered blocks\<close>

definition buffered :: "core \<Rightarrow> (u32 \<times> ahead_blk) set" where
  "buffered c = (\<Union>(i, u) \<in> set (c_ups c). set (u_ahead u))"

lemma buffered_update:
  assumes "\<And>i u. (i, u) \<in> set ups \<Longrightarrow> \<exists>v. (i, v) \<in> set (c_ups c) \<and> set (u_ahead u) \<subseteq> set (u_ahead v) \<union> X"
  shows "buffered (c\<lparr>c_ups := ups\<rparr>) \<subseteq> buffered c \<union> X"
  using assms by (fastforce simp: buffered_def)

lemma buffered_advance: "core_wf c \<Longrightarrow> buffered (advance r h t c) \<subseteq> buffered c"
proof
  fix p assume wf: "core_wf c" and "p \<in> buffered (advance r h t c)"
  then obtain i u where u: "(i, u) \<in> set (c_ups c)"
      "p \<in> set (u_ahead (if i = c_active c then u else snd (settle_one r h t r u)))"
    by (auto simp: buffered_def c_ups_advance)
  moreover have "up_ok u" using wf u(1) by (auto simp: core_wf_def)
  ultimately have "p \<in> set (u_ahead u)" using settle_one_ok(2)[of u p r h t r] by (auto split: if_splits)
  with u(1) show "p \<in> buffered c" by (auto simp: buffered_def)
qed

lemma buffered_active: "core_ok c \<Longrightarrow> buffered (snd (on_active_block r h t c)) \<subseteq> buffered c"
proof -
  assume ok: "core_ok c"
  let ?c = "c\<lparr>c_ups := hm_update (c_active c) (\<lambda>u. u\<lparr>u_last_rx := Some t\<rparr>) (c_ups c)\<rparr>"
  have "buffered ?c \<subseteq> buffered c"
    using buffered_update[of "hm_update (c_active c) (\<lambda>u. u\<lparr>u_last_rx := Some t\<rparr>) (c_ups c)" c "{}"]
    by (fastforce simp: in_set_hm_update)
  moreover have "core_wf ?c"
    using core_ok_rx[OF ok] by (simp add: core_ok_def)
  ultimately show ?thesis
    using buffered_advance[of ?c r h t] by (auto simp: on_active_block_eq Let_def)
qed

lemma buffered_standby:
  "buffered (snd (on_standby_block i r p h t f c)) \<subseteq>
     insert (r, \<lparr>a_parent = p, a_hash = h, a_at = t, a_frame = f\<rparr>) (buffered c)"
proof (cases "map_of (c_ups c) i")
  case (Some u)
  let ?a = "\<lparr>a_parent = p, a_hash = h, a_at = t, a_frame = f\<rparr>"
  have put: "buffered (c\<lparr>c_ups := hm_update i (\<lambda>_. w) (c_ups c)\<rparr>) \<subseteq> insert (r, ?a) (buffered c)"
    if "set (u_ahead w) \<subseteq> insert (r, ?a) (set (u_ahead u))" for w
    using that map_of_SomeD[OF Some] by (auto simp: buffered_def in_set_hm_update split: if_splits) blast+
  let ?u = "u\<lparr>u_last_rx := Some t\<rparr>"
  have parts: "buffered (c\<lparr>c_ups := hm_update i (\<lambda>_. ?u) (c_ups c)\<rparr>) \<subseteq> insert (r, ?a) (buffered c)"
    "buffered (c\<lparr>c_ups := hm_update i (\<lambda>_. insert_ahead r ?a ?u) (c_ups c)\<rparr>) \<subseteq> insert (r, ?a) (buffered c)"
    "buffered (c\<lparr>c_ups := hm_update i (\<lambda>_. snd (compared b l ?u)) (c_ups c)\<rparr>) \<subseteq> insert (r, ?a) (buffered c)" for b l
    using set_insert_ahead[of r ?a ?u] by (auto intro!: put simp: u_ahead_compared)
  have "snd (on_standby_block i r p h t f c) \<in> {c\<lparr>c_ups := hm_update i (\<lambda>_. ?u) (c_ups c)\<rparr>,
      c\<lparr>c_ups := hm_update i (\<lambda>_. insert_ahead r ?a ?u) (c_ups c)\<rparr>} \<union>
      {c\<lparr>c_ups := hm_update i (\<lambda>_. snd (compared b l ?u)) (c_ups c)\<rparr> | b l. True}"
    using Some by (auto simp: on_standby_block_def Let_def case_prod_beta split: option.split)
  then show ?thesis using parts by fastforce
qed (auto simp: on_standby_block_def)

lemma buffered_remove: "buffered (snd (remove_up i c)) \<subseteq> buffered c"
  by (auto simp: buffered_def remove_up_def AList.delete_eq)

lemma buffered_add: "buffered (add_standby i a c) \<subseteq> buffered c"
  by (auto simp: buffered_def add_standby_def upstream_new_def dest!: set_AList_update)

lemma buffered_mark: "buffered (mark_preferred i c) \<subseteq> buffered c"
  by (fastforce simp: buffered_def mark_preferred_def in_set_hm_update split: if_splits)

lemma buffered_replay: "core_wf c \<Longrightarrow> sorted_wrt (<) (c_last_forwarded c # map fst chain) \<Longrightarrow>
    buffered (snd (replay_chain chain c)) \<subseteq> buffered c"
proof (induction chain arbitrary: c)
  case (Cons p chain)
  obtain r a where p: "p = (r, a)" by (cases p)
  have "core_ok (advance r (a_hash a) (a_at a) c)"
    using Cons.prems p by (intro core_ok_advance) (auto simp: less_imp_le)
  then have "buffered (snd (replay_chain chain (advance r (a_hash a) (a_at a) c))) \<subseteq> buffered (advance r (a_hash a) (a_at a) c)"
    using Cons.prems p by (intro Cons.IH) (auto simp: core_ok_def)
  also have "\<dots> \<subseteq> buffered c" using Cons.prems(1) by (rule buffered_advance)
  finally show ?case unfolding p replay_chain_Cons .
qed simp

lemma buffered_leads: "buffered (c\<lparr>c_ups := map (\<lambda>(j, w). (j, w\<lparr>u_leads := []\<rparr>)) (c_ups c)\<rparr>) = buffered c"
  by (simp add: buffered_def case_prod_beta image_image)

lemma buffered_switch: "core_ok c \<Longrightarrow> buffered (snd (switch_to i now c)) \<subseteq> buffered c"
proof -
  assume ok: "core_ok c"
  then have wf: "core_wf c" by (simp add: core_ok_def)
  show ?thesis
  proof (cases "map_of (c_ups c) i")
    case (Some u)
    note tk = take_chain_prefix[OF map_of_up_ok[OF wf Some], of "c_last_forwarded c"]
    obtain chain u' where ch: "take_chain (c_last_forwarded c) u = (chain, u')" by (cases "take_chain (c_last_forwarded c) u")
    let ?c = "c\<lparr>c_ups := hm_update i (\<lambda>_. u') (c_ups c), c_active := i, c_last_switch := Some now\<rparr>"
    have "buffered ?c \<subseteq> buffered c"
      using tk ch map_of_SomeD[OF Some] by (auto simp: buffered_def in_set_hm_update split: if_splits) blast+
    moreover have "core_wf ?c"
      using core_wf_put[OF wf, of u' i] tk ch by (simp add: core_wf_def)
    moreover have "can_continue (c_last_forwarded c) u \<Longrightarrow> sorted_wrt (<) (c_last_forwarded c # map fst chain)"
      using switch_chain_ascends[OF wf, of i] tk ch Some by (simp add: switch_chain_def)
    ultimately have "can_continue (c_last_forwarded c) u \<Longrightarrow> buffered (snd (replay_chain chain ?c)) \<subseteq> buffered c"
      using buffered_replay[of ?c chain] by auto
    then show ?thesis
      using Some ch by (auto simp: switch_to_def Let_def case_prod_beta buffered_leads split: list.splits)
  qed (simp add: switch_to_def)
qed

lemma switch_chain_buffered: "set (switch_chain i c) \<subseteq> buffered c"
proof (cases "map_of (c_ups c) i")
  case (Some u)
  have "set (linked_prefix l (bt_range_from k (u_ahead u))) \<subseteq> set (u_ahead u)" for l k
    using set_linked_prefix[of l "bt_range_from k (u_ahead u)"] by (auto simp: set_bt_range_from)
  with map_of_SomeD[OF Some] Some show ?thesis
    by (auto simp: switch_chain_def buffered_def split: if_splits)
qed (simp add: switch_chain_def)

lemma switch_to_frames:
  assumes "core_ok c" "switch_to i now c = (Some (frames, bad), c')"
  shows "frames = map (a_frame \<circ> snd) (switch_chain i c)"
proof -
  have "core_wf c" using assms(1) by (simp add: core_ok_def)
  then show ?thesis
  proof (cases rule: switch_to_cases[where i = i and now = now])
    case (yes u u')
    let ?c = "c\<lparr>c_ups := hm_update i (\<lambda>_. u') (c_ups c), c_active := i, c_last_switch := Some now\<rparr>"
    have "fst (replay_chain (switch_chain i c) ?c) = (frames, bad)"
      using assms(2) unfolding yes(5) by (simp add: case_prod_beta Let_def)
    then show ?thesis using replay_chain_frames[of "switch_chain i c" ?c] by simp
  qed (use assms(2) in simp)
qed

section \<open>The stream\<close>

definition block_rounds :: "(bytes \<Rightarrow> bytes option) \<Rightarrow> (bytes \<Rightarrow> hash64) \<Rightarrow> bytes list \<Rightarrow> u32 list" where
  "block_rounds D H fs = List.map_filter (\<lambda>f. map_option fst (classify D H f)) fs"

lemma block_rounds_simps [simp]:
  "block_rounds D H [] = []"
  "block_rounds D H (fs @ gs) = block_rounds D H fs @ block_rounds D H gs"
  "block_rounds D H (f # fs) =
     (case classify D H f of None \<Rightarrow> block_rounds D H fs | Some (r, _) \<Rightarrow> r # block_rounds D H fs)"
  by (simp_all add: block_rounds_def map_filter_def split: option.splits)

definition frames_ok :: "(bytes \<Rightarrow> bytes option) \<Rightarrow> (bytes \<Rightarrow> hash64) \<Rightarrow> core \<Rightarrow> bool" where
  "frames_ok D H c \<longleftrightarrow> (\<forall>(r, a) \<in> buffered c. classify D H (a_frame a) = Some (r, a_parent a, a_hash a))"

lemma frames_ok_mono: "frames_ok D H c \<Longrightarrow> buffered c' \<subseteq> buffered c \<Longrightarrow> frames_ok D H c'"
  by (auto simp: frames_ok_def)

definition fo_inv :: "(bytes \<Rightarrow> bytes option) \<Rightarrow> (bytes \<Rightarrow> hash64) \<Rightarrow> u32 \<Rightarrow> fo_sess \<Rightarrow> bool" where
  "fo_inv D H l s \<longleftrightarrow> core_ok (fs_core s) \<and> frames_ok D H (fs_core s) \<and>
     sorted_wrt (<) (l # block_rounds D H (fs_queued s)) \<and>
     c_last_forwarded (fs_core s) = last (l # block_rounds D H (fs_queued s))"

text \<open>What a handler must leave behind: the stream ascends, and the invariant holds if the session goes on.\<close>

definition fo_res :: "(bytes \<Rightarrow> bytes option) \<Rightarrow> (bytes \<Rightarrow> hash64) \<Rightarrow> u32 \<Rightarrow> string option \<times> fo_sess \<Rightarrow> bool" where
  "fo_res D H l x \<longleftrightarrow> sorted_wrt (<) (l # block_rounds D H (fs_queued (snd x))) \<and> (fst x = None \<longrightarrow> fo_inv D H l (snd x))"

lemma fo_resI: "fo_inv D H l s \<Longrightarrow> fo_res D H l (why, s)"
  by (simp add: fo_res_def fo_inv_def)

lemma fo_inv_cong:
  "fs_core s' = fs_core s \<Longrightarrow> fs_queued s' = fs_queued s \<Longrightarrow> fo_inv D H l s' = fo_inv D H l s"
  by (simp add: fo_inv_def)

lemma remove_up_last [simp]: "c_last_forwarded (snd (remove_up i c)) = c_last_forwarded c"
  by (simp add: remove_up_def)

lemma fo_inv_core:
  assumes "fo_inv D H l s" "core_ok c" "buffered c \<subseteq> buffered (fs_core s)"
    "c_last_forwarded c = c_last_forwarded (fs_core s)"
  shows "fo_inv D H l (s\<lparr>fs_core := c\<rparr>)"
  using assms frames_ok_mono[of D H "fs_core s" c] by (simp add: fo_inv_def)

lemma fo_inv_drop_upstream: "fo_inv D H l s \<Longrightarrow> fo_inv D H l (drop_upstream i t s)"
proof -
  assume inv: "fo_inv D H l s"
  then have "fo_inv D H l (s\<lparr>fs_core := snd (remove_up i (fs_core s))\<rparr>)"
    by (intro fo_inv_core core_ok_remove buffered_remove) (simp_all add: fo_inv_def)
  moreover have "fs_core (drop_upstream i t s) = snd (remove_up i (fs_core s))" "fs_queued (drop_upstream i t s) = fs_queued s"
    by (auto simp: drop_upstream_def Let_def split: prod.splits option.splits)
  ultimately show ?thesis
    using fo_inv_cong[of "drop_upstream i t s" "s\<lparr>fs_core := snd (remove_up i (fs_core s))\<rparr>"] by simp
qed

lemma fo_inv_drop_live [simp]: "fo_inv D H l (drop_live i s) = fo_inv D H l s"
  by (rule fo_inv_cong) (simp_all add: drop_live_def)

lemma fo_inv_mark_dead [simp]: "fo_inv D H l (mark_dead now why s) = fo_inv D H l s"
  by (rule fo_inv_cong) (simp_all add: mark_dead_def)

lemma fo_inv_drop_bad: "fo_inv D H l s \<Longrightarrow> fo_inv D H l (drop_bad t bad s)"
  by (induction t bad s rule: drop_bad.induct) (simp_all add: fo_inv_drop_upstream)

lemma drop_upstream_queued [simp]: "fs_queued (drop_upstream i t s) = fs_queued s"
  by (auto simp: drop_upstream_def Let_def split: prod.splits option.splits)

lemma drop_bad_queued [simp]: "fs_queued (drop_bad t bad s) = fs_queued s"
  by (induction t bad s rule: drop_bad.induct) (simp_all add: drop_live_def)

lemma drop_upstream_core [simp]: "fs_core (drop_upstream i t s) = snd (remove_up i (fs_core s))"
  by (auto simp: drop_upstream_def Let_def split: prod.splits option.splits)

lemma drop_live_fields [simp]:
  "fs_core (drop_live i s) = fs_core s" "fs_queued (drop_live i s) = fs_queued s"
  by (simp_all add: drop_live_def)

lemma drop_bad_ok: "core_ok (fs_core s) \<Longrightarrow> core_ok (fs_core (drop_bad t bad s))"
  by (induction t bad s rule: drop_bad.induct) (simp_all add: core_ok_remove)

lemma drop_bad_buffered: "buffered (fs_core (drop_bad t bad s)) \<subseteq> buffered (fs_core s)"
proof (induction t bad s rule: drop_bad.induct)
  case (2 t i r bad s)
  then show ?case using buffered_remove[of i "fs_core s"] by auto
qed simp

lemma drop_bad_last [simp]: "c_last_forwarded (fs_core (drop_bad t bad s)) = c_last_forwarded (fs_core s)"
  by (induction t bad s rule: drop_bad.induct) simp_all

lemma fo_res_queue_plain:
  "fo_inv D H l s \<Longrightarrow> classify D H f = None \<Longrightarrow> fo_res D H l (queue_node e f s)"
  by (auto simp: queue_node_def fo_res_def fo_inv_def)

text \<open>A block above the tip: the core has already moved to it, the queue follows.\<close>

lemma fo_res_queue_block:
  assumes "fo_inv D H l s" "classify D H f = Some (r, p, h)" "c_last_forwarded (fs_core s) < r"
    "core_ok (fs_core s')" "buffered (fs_core s') \<subseteq> buffered (fs_core s)" "c_last_forwarded (fs_core s') = r"
    "fs_queued s' = fs_queued s"
  shows "fo_res D H l (queue_node e f s')"
proof -
  have sorted: "sorted_wrt (<) (l # block_rounds D H (fs_queued s) @ [r])"
    using assms(1,3) sorted_snoc[of l "block_rounds D H (fs_queued s)" r] by (simp add: fo_inv_def)
  then show ?thesis
    using assms frames_ok_mono[of D H "fs_core s" "fs_core s'"]
    by (auto simp: queue_node_def fo_res_def fo_inv_def sorted_wrt_append)
qed

lemma classify_less: "classify D H f = Some (r, p, h) \<Longrightarrow> p < r"
  by (auto simp: classify_def split: if_splits option.splits dest: block_round_parent_less)

lemma on_active_block_fwd:
  assumes "core_ok c" "on_active_block r h t c = ((fwd, bad), c')" "r \<noteq> 0"
  shows "core_ok c'" "buffered c' \<subseteq> buffered c" "fwd \<longleftrightarrow> c_last_forwarded c < r"
    "c_last_forwarded c' = (if fwd then r else c_last_forwarded c)"
proof -
  show "core_ok c'" "buffered c' \<subseteq> buffered c"
    using core_ok_active[OF assms(1), of r h t] buffered_active[OF assms(1), of r h t] by (simp_all add: assms(2))
  show "fwd \<longleftrightarrow> c_last_forwarded c < r" "c_last_forwarded c' = (if fwd then r else c_last_forwarded c)"
    using assms(2,3) by (auto simp: on_active_block_eq Let_def not_le word_neq_0_conv split: if_splits)
qed

lemma fo_res_forward:
  assumes "fo_inv D H l s" "classify D H f = Some (r, p, h)"
  shows "fo_res D H l (forward_active_block e f r h at s)"
proof (cases "fe_floor e < r")
  case True
  obtain fwd bad c where ab: "on_active_block r h at (fs_core s) = ((fwd, bad), c)"
    by (cases "on_active_block r h at (fs_core s)") auto
  have ok: "core_ok (fs_core s)" using assms(1) by (simp add: fo_inv_def)
  have "r \<noteq> 0" using classify_less[OF assms(2)] by auto
  note step = on_active_block_fwd[OF ok ab this]
  let ?s = "drop_bad (fe_now e + BAD_PEER_COOLDOWN) bad (s\<lparr>fs_core := c\<rparr>)"
  have db: "core_ok (fs_core ?s)" "buffered (fs_core ?s) \<subseteq> buffered c" "c_last_forwarded (fs_core ?s) = c_last_forwarded c"
    using drop_bad_ok[of "s\<lparr>fs_core := c\<rparr>"] drop_bad_buffered[of "fe_now e + BAD_PEER_COOLDOWN" bad "s\<lparr>fs_core := c\<rparr>"] step(1)
    by simp_all
  show ?thesis
  proof (cases fwd)
    case fwd: True
    have "fo_res D H l (queue_node e f ?s)"
      using fwd step db by (intro fo_res_queue_block[OF assms]) auto
    with True fwd ab show ?thesis by (simp add: forward_active_block_def Let_def)
  next
    case False
    then have "fo_inv D H l ?s"
      using step by (intro fo_inv_drop_bad fo_inv_core assms(1)) auto
    with True False ab show ?thesis by (simp add: forward_active_block_def Let_def fo_resI)
  qed
qed (simp add: forward_active_block_def fo_resI assms(1))

lemma fo_inv_fields [simp]:
  "fo_inv D H l (s\<lparr>fs_progress := x0\<rparr>) = fo_inv D H l s"
  "fo_inv D H l (s\<lparr>fs_active_dead := x1\<rparr>) = fo_inv D H l s"
  "fo_inv D H l (s\<lparr>fs_cooldown := x2\<rparr>) = fo_inv D H l s"
  "fo_inv D H l (s\<lparr>fs_switches := x3\<rparr>) = fo_inv D H l s"
  "fo_inv D H l (s\<lparr>fs_lives := x4\<rparr>) = fo_inv D H l s"
  "fo_inv D H l (s\<lparr>fs_repins := x5\<rparr>) = fo_inv D H l s"
  "fo_inv D H l (s\<lparr>fs_last_rotate := x6\<rparr>) = fo_inv D H l s"
  "fo_inv D H l (s\<lparr>fs_rot := x7\<rparr>) = fo_inv D H l s"
  "fo_inv D H l (s\<lparr>fs_connecting := x8\<rparr>) = fo_inv D H l s"
  "fo_inv D H l (s\<lparr>fs_dialing := x9\<rparr>) = fo_inv D H l s"
  "fo_inv D H l (s\<lparr>fs_next_connect := x10\<rparr>) = fo_inv D H l s"
  "fo_inv D H l (s\<lparr>fs_blacklist_seen := x11\<rparr>) = fo_inv D H l s"
  by (simp_all add: fo_inv_def)

lemma fo_inv_standby:
  assumes "fo_inv D H l s" "classify D H f = Some (r, p, h)"
  shows "fo_inv D H l (s\<lparr>fs_core := snd (on_standby_block i r p h at f (fs_core s))\<rparr>)"
proof -
  have "frames_ok D H (snd (on_standby_block i r p h at f (fs_core s)))"
    using assms buffered_standby[of i r p h at f "fs_core s"] by (auto simp: fo_inv_def frames_ok_def)
  with assms show ?thesis
    using core_ok_standby[OF _ classify_less[OF assms(2)], of "fs_core s" i h at f] by (simp add: fo_inv_def)
qed

lemma fo_res_block:
  assumes "fo_inv D H l s" "classify D H f = Some (r, p, h)"
  shows "fo_res D H l (fo_block msg e i f at r p h s)"
proof (cases "bad_round e r")
  case None
  have "fo_res D H l (forward_active_block e f r h at (s\<lparr>fs_progress := pr\<rparr>))" for pr
    using assms by (intro fo_res_forward) simp_all
  then show ?thesis
    using assms(1) None fo_inv_standby[OF assms, of i at]
    by (auto simp: fo_block_def Let_def intro!: fo_resI fo_inv_drop_upstream split: sum.splits prod.splits standby_verdict.splits)
qed (use assms(1) in \<open>auto simp: fo_block_def Let_def intro!: fo_resI fo_inv_drop_upstream\<close>)

lemma fo_res_frame: "fo_inv D H l s \<Longrightarrow> fo_res D H l (fo_frame D H msg e i f at s)"
  by (auto simp: fo_frame_def intro!: fo_resI fo_res_block fo_res_queue_plain split: option.splits)

lemma fo_inv_connected: "fo_inv D H l s \<Longrightarrow> fo_inv D H l (fo_connected e a prio s)"
proof -
  assume inv: "fo_inv D H l s"
  let ?c = "add_standby (fs_next_id s) a (fs_core s)"
  let ?c' = "if tier_contains (fe_tier e) a then mark_preferred (fs_next_id s) ?c else ?c"
  have "core_ok ?c'"
    using inv by (simp add: fo_inv_def core_ok_add core_ok_mark)
  moreover have "c_last_forwarded ?c' = c_last_forwarded (fs_core s)"
    by (simp add: add_standby_def mark_preferred_def)
  moreover have "buffered ?c' \<subseteq> buffered (fs_core s)"
    using buffered_add[of "fs_next_id s" a "fs_core s"] buffered_mark[of "fs_next_id s" ?c] by auto
  ultimately have "fo_inv D H l (s\<lparr>fs_core := ?c'\<rparr>)" using inv by (intro fo_inv_core)
  then show ?thesis
    using fo_inv_cong[of "fo_connected e a prio s" "s\<lparr>fs_core := ?c'\<rparr>"] by (simp add: fo_connected_def Let_def)
qed

lemma fo_inv_tick_blacklist: "fo_inv D H l s \<Longrightarrow> fo_inv D H l (tick_blacklist e s)"
proof -
  have "fo_inv D H l s \<Longrightarrow> fo_inv D H l (fold (\<lambda>i. drop_live i \<circ> drop_upstream i None) is s)" for s "is"
    by (induction "is" arbitrary: s) (simp_all add: fo_inv_drop_upstream)
  then show "fo_inv D H l s \<Longrightarrow> fo_inv D H l (tick_blacklist e s)"
    by (simp add: tick_blacklist_def Let_def)
qed

lemma queue_all_eq:
  "queue_all e fs s =
     (if fs = [] then (True, s)
      else if fe_writer_open e then (True, s\<lparr>fs_queued := fs_queued s @ fs\<rparr>) else (False, s))"
  by (induction e fs s rule: queue_all.induct) (auto simp: queue_node_def)

lemma chain_rounds:
  assumes "frames_ok D H c" "set chain \<subseteq> buffered c"
  shows "block_rounds D H (map (a_frame \<circ> snd) chain) = map fst chain"
  using assms(2)
proof (induction chain)
  case (Cons x chain)
  then have "classify D H (a_frame (snd x)) = Some (fst x, a_parent (snd x), a_hash (snd x))"
    using assms(1) by (auto simp: frames_ok_def)
  with Cons show ?case by simp
qed simp

lemma fo_inv_switched:
  assumes "fo_inv D H l s" "switch_to i now (fs_core s) = (Some (frames, bad), c)"
  shows "fo_inv D H l (s\<lparr>fs_core := c, fs_queued := fs_queued s @ frames\<rparr>)"
proof -
  let ?ch = "switch_chain i (fs_core s)"
  have ok: "core_ok (fs_core s)" "frames_ok D H (fs_core s)" using assms(1) by (simp_all add: fo_inv_def)
  have frames: "block_rounds D H frames = map fst ?ch"
    using switch_to_frames[OF ok(1) assms(2)] chain_rounds[OF ok(2) switch_chain_buffered] by simp
  have "sorted_wrt (<) (c_last_forwarded (fs_core s) # map fst ?ch)"
    using ok(1) by (intro switch_chain_ascends) (simp add: core_ok_def)
  moreover have "x \<le> c_last_forwarded (fs_core s)" if "x \<in> set (l # block_rounds D H (fs_queued s))" for x
    using last_max[OF _ that] assms(1) by (simp add: fo_inv_def)
  ultimately have "sorted_wrt (<) (l # block_rounds D H (fs_queued s) @ map fst ?ch)"
    using assms(1) by (fastforce simp: fo_inv_def sorted_wrt_append)
  then show ?thesis
    using assms core_ok_switch_to[OF ok(1), of i now] buffered_switch[OF ok(1), of i now]
      frames_ok_mono[OF ok(2), of c] frames
    by (auto simp: fo_inv_def last_append)
qed

lemma fo_inv_after_switch: "fo_inv D H l s \<Longrightarrow> fo_inv D H l (after_switch e old old_ip i bad s)"
  by (simp add: after_switch_def Let_def fo_inv_drop_bad fo_inv_drop_upstream)

lemma fo_res_tick_switch: "fo_inv D H l s \<Longrightarrow> fo_res D H l (tick_switch e s)"
proof -
  assume inv: "fo_inv D H l s"
  show ?thesis
  proof (cases "pick_switch (fe_now e) (fs_active_dead s \<noteq> None) (fs_core s)")
    case (Some x)
    obtain i reason where x: "x = (i, reason)" by (cases x)
    obtain out c where sw: "switch_to i (fe_now e) (fs_core s) = (out, c)" by (cases "switch_to i (fe_now e) (fs_core s)")
    have ok: "core_ok (fs_core s)" using inv by (simp add: fo_inv_def)
    show ?thesis
    proof (cases out)
      case None
      have "core_wf (fs_core s)" using ok by (simp add: core_ok_def)
      then have "c = fs_core s"
        using sw None by (cases rule: switch_to_cases[where i = i and now = "fe_now e"]) (auto simp: Let_def case_prod_beta)
      with Some x sw None inv show ?thesis by (simp add: tick_switch_def fo_resI Let_def)
    next
      case out: (Some fb)
      obtain frames bad where fb: "fb = (frames, bad)" by (cases fb)
      let ?s = "s\<lparr>fs_core := c, fs_queued := fs_queued s @ frames\<rparr>"
      have inv': "fo_inv D H l ?s"
        using fo_inv_switched[OF inv] sw out fb by simp
      show ?thesis
      proof (cases "frames = [] \<or> fe_writer_open e")
        case True
        then have "queue_all e frames (s\<lparr>fs_core := c\<rparr>) = (True, ?s)"
          by (auto simp: queue_all_eq)
        then show ?thesis
          using Some x sw out fb by (simp add: tick_switch_def Let_def fo_resI fo_inv_after_switch inv')
      next
        case False
        then have "queue_all e frames (s\<lparr>fs_core := c\<rparr>) = (False, s\<lparr>fs_core := c\<rparr>)"
          by (auto simp: queue_all_eq)
        then show ?thesis
          using Some x sw out fb inv by (simp add: tick_switch_def Let_def fo_res_def fo_inv_def)
      qed
    qed
  qed (simp add: tick_switch_def fo_resI inv)
qed

lemma fo_inv_tick_stall: "fo_inv D H l s \<Longrightarrow> fo_inv D H l (tick_stall e s)"
  by (simp add: tick_stall_def)

lemma fo_inv_tick_rotate: "fo_inv D H l s \<Longrightarrow> fo_inv D H l (tick_rotate fo e s)"
  by (auto simp: tick_rotate_def Let_def fo_inv_drop_upstream split: option.splits)

lemma fo_inv_tick_fill: "fo_inv D H l s \<Longrightarrow> fo_inv D H l (tick_fill fo e s)"
  by (simp add: tick_fill_def Let_def)

lemma fo_res_tick: "fo_inv D H l s \<Longrightarrow> fo_res D H l (fo_tick fo e s)"
proof -
  assume inv: "fo_inv D H l s"
  let ?s = "tick_blacklist e (tick_stall e s)"
  have r: "fo_res D H l (tick_switch e ?s)"
    using inv by (intro fo_res_tick_switch fo_inv_tick_blacklist fo_inv_tick_stall)
  obtain why s1 where sw: "tick_switch e ?s = (why, s1)" by (cases "tick_switch e ?s")
  show ?thesis
  proof (cases "why = None \<and> tick_dead e s1 = None")
    case True
    then have "fo_inv D H l (tick_fill fo e (tick_rotate fo e s1))"
      using r sw by (intro fo_inv_tick_fill fo_inv_tick_rotate) (simp add: fo_res_def)
    with True show ?thesis by (simp add: fo_tick_def sw fo_resI)
  next
    case False
    with r show ?thesis by (auto simp: fo_tick_def sw fo_res_def split: option.splits)
  qed
qed

lemma fo_res_event: "fo_inv D H l s \<Longrightarrow> fo_res D H l (fo_event D H msg fo e ev s)"
  by (cases ev) (auto simp: fo_event_def fo_closed_def fo_node_bytes_def
      intro!: fo_resI fo_res_frame fo_res_tick fo_inv_connected fo_inv_drop_upstream)

lemma fo_res_loop: "fo_inv D H l s \<Longrightarrow> fo_res D H l (fo_loop D H msg fo evs s)"
proof (induction D H msg fo evs s rule: fo_loop.induct)
  case (2 D H msg fo e ev evs s)
  have "fo_res D H l (fo_event D H msg fo e ev s)" using "2.prems" by (rule fo_res_event)
  with 2(1) show ?case by (auto simp: fo_res_def split: prod.splits option.splits)
qed (simp add: fo_resI)

lemma fo_res_bind:
  assumes "fo_res D H l x" "\<And>s. fo_inv D H l s \<Longrightarrow> fo_res D H l (k s)"
  shows "fo_res D H l (case x of (Some why, s) \<Rightarrow> (Some why, s) | (None, s) \<Rightarrow> k s)"
  using assms by (cases x; cases "fst x") (auto simp: fo_res_def)

lemma fo_res_prefetched: "fo_inv D H l s \<Longrightarrow> fo_res D H l (fo_prefetched D H msg fs s)"
proof (induction fs arbitrary: s)
  case (Cons ef fs)
  obtain e f where ef: "ef = (e, f)" by (cases ef)
  have "fo_res D H l (fo_prefetched D H msg ((e, f) # fs) s)"
  proof (cases "classify D H f")
    case None
    with fo_res_bind[OF fo_res_queue_plain[OF Cons.prems None] Cons.IH] show ?thesis by simp
  next
    case (Some x)
    obtain r p h where x: "x = (r, p, h)" by (cases x)
    note cl = Some[unfolded x]
    have r0: "r \<noteq> 0" using classify_less[OF cl] by auto
    show ?thesis
    proof (cases "is_plausible_mainnet_round r (fe_tip e)")
      case True
      show ?thesis
      proof (cases "on_round r (fe_now e) (fs_progress s)")
        case (Inr pr)
        let ?s1 = "s\<lparr>fs_progress := pr\<rparr>"
        have inv1: "fo_inv D H l ?s1" using Cons.prems by simp
        obtain fwd bad c where ab: "on_active_block r h (fe_now e) (fs_core ?s1) = ((fwd, bad), c)"
          by (cases "on_active_block r h (fe_now e) (fs_core ?s1)") auto
        have ok: "core_ok (fs_core ?s1)" using inv1 by (simp add: fo_inv_def)
        note step = on_active_block_fwd[OF ok ab r0]
        have q: "fwd \<Longrightarrow> fo_res D H l (queue_node e f (?s1\<lparr>fs_core := c\<rparr>))"
          using step by (intro fo_res_queue_block[OF inv1 cl]) auto
        have skip: "\<not> fwd \<Longrightarrow> fo_inv D H l (?s1\<lparr>fs_core := c\<rparr>)"
          using step by (intro fo_inv_core inv1) auto
        show ?thesis
          using fo_res_bind[OF q Cons.IH] Cons.IH[OF skip] Cons.IH[OF inv1] True Inr ab cl
          by (simp add: Let_def)
      qed (use cl True Cons.prems in \<open>simp add: fo_resI\<close>)
    qed (use cl Cons.prems in \<open>simp add: fo_resI\<close>)
  qed
  then show ?case by (simp add: ef)
qed (simp add: fo_resI)

lemma fo_inv_start: "fo_inv D H (pc_initial_last_forwarded cfg) (fo_start fo cfg e)"
proof -
  have "core_ok (fs_core (fo_start fo cfg e))"
    by (simp add: fo_start_def Let_def core_ok_new core_ok_mark)
  moreover have "buffered (fs_core (fo_start fo cfg e)) = {}" "fs_queued (fo_start fo cfg e) = []"
    "c_last_forwarded (fs_core (fo_start fo cfg e)) = pc_initial_last_forwarded cfg"
    by (auto simp: fo_start_def Let_def buffered_def core_new_def mark_preferred_def hm_update_def upstream_new_def)
  ultimately show ?thesis by (simp add: fo_inv_def frames_ok_def)
qed

lemma failover_stream:
  assumes "serve_failover D H msg fo cfg act_r w e0 pre_env evs = (r, out, s)"
  shows "out = [] \<or> (\<exists>greet fs. out = greet # fs \<and>
     serve_greeting msg (pc_prefetched_greeting cfg) act_r w = Inr greet \<and>
     sorted_wrt (<) (pc_initial_last_forwarded cfg # block_rounds D H fs))"
proof (cases "serve_greeting msg (pc_prefetched_greeting cfg) act_r w")
  case (Inr greet)
  let ?fs = "map (\<lambda>(k, f). (pre_env k, f)) (enumerate 0 (pc_prefetched_frames cfg))"
  obtain why s1 where pre: "fo_prefetched D H msg ?fs (fo_start fo cfg e0) = (why, s1)"
    by (cases "fo_prefetched D H msg ?fs (fo_start fo cfg e0)")
  have res: "fo_res D H (pc_initial_last_forwarded cfg) (why, s1)"
    using fo_res_prefetched[OF fo_inv_start, of D H cfg msg ?fs fo e0] by (simp add: pre)
  show ?thesis
  proof (cases why)
    case None
    with res have "fo_res D H (pc_initial_last_forwarded cfg) (fo_loop D H msg fo evs s1)"
      by (intro fo_res_loop) (simp add: fo_res_def)
    with assms Inr pre None show ?thesis
      by (auto simp: serve_failover_def fo_res_def split: prod.splits)
  qed (use assms Inr pre res in \<open>auto simp: serve_failover_def fo_res_def\<close>)
qed (use assms in \<open>auto simp: serve_failover_def Let_def\<close>)

text \<open>C1. Whatever the upstreams send, in whatever order events arrive and however often the session switches,
  the node is given the peer's greeting and then frames whose block rounds ascend strictly from the
  round the session began with: no block twice, none out of order, across every switch.\<close>
theorem serve_failover_stream:
  assumes "serve_failover D H msg fo cfg act_r w e0 pre_env evs = (r, out, s)"
  shows "out = [] \<or> (\<exists>greet fs. out = greet # fs \<and>
     serve_greeting msg (pc_prefetched_greeting cfg) act_r w = Inr greet \<and>
     sorted_wrt (<) (pc_initial_last_forwarded cfg # block_rounds D H fs))"
  by (rule failover_stream[OF assms])

definition sample_env :: fo_env where
  "sample_env = \<lparr>fe_now = 1, fe_tip = 0, fe_floor = 0, fe_writer_open = True, fe_bl = blacklist_init, fe_pool = [],
     fe_tier = priority_new [] 0 0 Fallback\<rparr>"

lemma live_frame_classify:
  "\<exists>h. classify D H (live_frame 2) = Some (1500000002, 1500000001, h)"
  by (simp add: classify_def live_frame_shape)
    (simp add: live_frame_def block_round_parent_def declared_size_ok_def
      MAX_DECOMPRESSED_BLOCK_def u32_from_le_bytes_def lz4_first_n_def lz4_run.simps lz4_len_def
      find_block_round_parent_def scan_block_round.simps round_triple_at_def rd_def ROUND_SCAN_BYTES_def Let_def
      round_consts)

theorem serve_failover_stream_witness:
  "block_rounds (\<lambda>_. None) (\<lambda>_. 0) (tl (fst (snd (serve_failover (\<lambda>_. None) (\<lambda>_. 0) (\<lambda>_. [])
     (failover_config_from_env (\<lambda>_. None)) sample_config [] Wrote sample_env (\<lambda>_. sample_env)
     [(sample_env, FoNodeClosed ''node outbound ended'')])))) = [1500000002] \<and>
   sorted_wrt (<) (1500000001 # [1500000002 :: u32])"
proof -
  obtain h where cl: "classify (\<lambda>_. None) (\<lambda>_. 0) (live_frame 2) = Some (1500000002, 1500000001, h)"
    using live_frame_classify[of "\<lambda>_. None" "\<lambda>_. 0"] by blast
  let ?r = "serve_failover (\<lambda>_. None) (\<lambda>_. 0) (\<lambda>_. [])
     (failover_config_from_env (\<lambda>_. None)) sample_config [] Wrote sample_env (\<lambda>_. sample_env)
     [(sample_env, FoNodeClosed ''node outbound ended'')]"
  have "fst (snd ?r) = [[0, 0, 0, 1, 0, 1], live_frame 2]"
    by (simp add: serve_failover_def serve_greeting_def greeting_written_def sample_config_def sample_env_def cl
        is_plausible_mainnet_round_def round_consts fo_start_def on_round_def block_progress_new_def saturating_add_def
        MAX_ACTIVE_ROUND_JUMP_def on_active_block_eq Let_def core_new_def queue_node_def fo_event_def
        tier_contains_def tier_index_def priority_new_def)
  with serve_failover_stream[of "\<lambda>_. None" "\<lambda>_. 0" "\<lambda>_. []" "failover_config_from_env (\<lambda>_. None)" sample_config "[]" Wrote
      sample_env "\<lambda>_. sample_env" "[(sample_env, FoNodeClosed ''node outbound ended'')]" "fst ?r" "fst (snd ?r)" "snd (snd ?r)"]
  show ?thesis by (auto simp: cl sample_config_def)
qed

end
