(* ===== verification/Failover_Track.thy ===== *)
theory Failover_Track
  imports Failover_Stream Failover_More
begin

text \<open>
  Bookkeeping of the failover session: the core and the table of live connections always hold the same
  upstreams, the active is among them, no peer is held twice, and there are never more standbys than
  configured. Reachable states are an inductive relation over the events of the loop.
\<close>

section \<open>Reachable states\<close>

text \<open>A connection comes only from the dial task the session started, for one of the candidates it was given.\<close>

inductive fo_reach ::
  "(bytes \<Rightarrow> bytes option) \<Rightarrow> (bytes \<Rightarrow> hash64) \<Rightarrow> (io_error \<Rightarrow> string) \<Rightarrow> failover_config \<Rightarrow> push_config \<Rightarrow> fo_sess \<Rightarrow> bool"
  for D H msg fo cfg where
  start: "fo_prefetched D H msg fs (fo_start fo cfg e) = (None, s) \<Longrightarrow> fo_reach D H msg fo cfg s"
| step: "fo_reach D H msg fo cfg s \<Longrightarrow>
    (\<And>a prio. ev = FoConnected a prio \<Longrightarrow> fs_connecting s \<and> a \<in> set (fs_dialing s)) \<Longrightarrow>
    fo_event D H msg fo e ev s = (None, s') \<Longrightarrow> fo_reach D H msg fo cfg s'"

section \<open>The roster of a core\<close>

definition roster :: "core \<Rightarrow> (nat \<times> ip) list" where
  "roster c = map (\<lambda>(i, u). (i, u_ip u)) (c_ups c)"

named_theorems roster_simps

lemma roster_hm_update: "(\<And>u. u_ip (f u) = u_ip u) \<Longrightarrow> roster (c\<lparr>c_ups := hm_update i f (c_ups c)\<rparr>) = roster c"
  by (auto simp: roster_def hm_update_def)

lemma roster_keys: "fst ` set (roster c) = fst ` set (c_ups c)"
  by (force simp: roster_def)

lemma u_ip_compared [simp]: "u_ip (snd (compared b l u)) = u_ip u"
  by (simp add: compared_def push_lead_def Let_def)

lemma u_ip_trim [simp]: "u_ip (trim_ahead f u) = u_ip u"
  by (induction f u rule: trim_ahead.induct) (subst trim_ahead.simps, auto split: option.splits prod.splits)

lemma u_ip_shrink [simp]: "u_ip (shrink_ahead u) = u_ip u"
  by (induction u rule: shrink_ahead.induct) (subst shrink_ahead.simps, auto split: option.splits prod.splits)

lemma u_ip_insert [simp]: "u_ip (insert_ahead r a u) = u_ip u"
  by (simp add: insert_ahead_def Let_def)

lemma u_ip_take: "take_ahead r u = Some (a, u') \<Longrightarrow> u_ip u' = u_ip u"
  by (auto simp: take_ahead_def split: option.splits)

lemma u_ip_settle [simp]: "u_ip (snd (settle_one r h t f u)) = u_ip u"
  by (auto simp: settle_one_def Let_def case_prod_beta dest: u_ip_take split: option.splits)

lemma u_ip_take_chain: "u_ip (snd (take_chain cur u)) = u_ip u"
proof (induction cur u rule: take_chain.induct)
  case (1 cur u)
  then show ?case
    by (subst take_chain.simps)
      (auto simp: Let_def case_prod_beta dest: u_ip_take split: option.split list.split prod.split)
qed

lemma roster_advance [roster_simps]: "roster (advance r h t c) = roster c"
  by (auto simp: roster_def c_ups_advance)

lemma roster_active [roster_simps]: "roster (snd (on_active_block r h t c)) = roster c"
  by (auto simp: on_active_block_eq Let_def roster_advance roster_hm_update)

lemma c_active_active [roster_simps]: "c_active (snd (on_active_block r h t c)) = c_active c"
  by (simp add: on_active_block_eq Let_def)

lemma roster_put: "map_of (c_ups c) i = Some u \<Longrightarrow> u_ip w = u_ip u \<Longrightarrow> distinct (map fst (c_ups c)) \<Longrightarrow>
    roster (c\<lparr>c_ups := hm_update i (\<lambda>_. w) (c_ups c)\<rparr>) = roster c"
  by (auto simp: roster_def hm_update_def) (metis Some_eq_map_of_iff option.inject)

lemma roster_standby [roster_simps]:
  assumes "distinct (map fst (c_ups c))"
  shows "roster (snd (on_standby_block i r p h t f c)) = roster c"
    and "c_active (snd (on_standby_block i r p h t f c)) = c_active c"
  using assms by (auto simp: on_standby_block_def Let_def case_prod_beta roster_put split: option.splits)

lemma roster_remove [roster_simps]: "roster (snd (remove_up i c)) = filter (\<lambda>p. fst p \<noteq> i) (roster c)"
  by (simp add: roster_def remove_up_def AList.delete_eq filter_map comp_def split_def eq_commute)

lemma roster_mark [roster_simps]: "roster (mark_preferred i c) = roster c"
  by (simp add: mark_preferred_def roster_hm_update)

lemma update_fresh: "k \<notin> fst ` set m \<Longrightarrow> AList.update k v m = m @ [(k, v)]"
  by (induction m) auto

lemma roster_add [roster_simps]:
  "i \<notin> fst ` set (roster c) \<Longrightarrow> roster (add_standby i a c) = roster c @ [(i, a)]"
  by (simp add: roster_keys add_standby_def update_fresh) (simp add: roster_def upstream_new_def)

lemma c_active_fields [simp]:
  "c_active (snd (remove_up i c)) = c_active c" "c_active (add_standby i a c) = c_active c"
  "c_active (mark_preferred i c) = c_active c"
  by (simp_all add: remove_up_def add_standby_def mark_preferred_def)

lemma roster_replay: "roster (snd (replay_chain chain c)) = roster c"
proof (induction chain arbitrary: c)
  case (Cons p chain)
  obtain r a where "p = (r, a)" by (cases p)
  then show ?case
    using Cons by (simp add: replay_chain_Cons roster_advance del: replay_chain.simps(2))
qed simp

lemma roster_switch:
  assumes "core_ok c" "switch_to i now c = (Some out, c')"
  shows "roster c' = roster c" "c_active c' = i" "i \<in> fst ` set (roster c)"
proof -
  have d: "distinct (map fst (c_ups c))" using assms(1) by (simp add: core_ok_def core_wf_def)
  obtain u where u: "map_of (c_ups c) i = Some u"
    using assms(2) by (auto simp: switch_to_def split: option.splits)
  obtain chain u' where ch: "take_chain (c_last_forwarded c) u = (chain, u')" by (cases "take_chain (c_last_forwarded c) u")
  let ?c = "c\<lparr>c_ups := hm_update i (\<lambda>_. u') (c_ups c), c_active := i, c_last_switch := Some now\<rparr>"
  have r: "roster ?c = roster c"
    using roster_put[OF u _ d, of u'] u_ip_take_chain[of "c_last_forwarded c" u] ch by (simp add: roster_def)
  have c': "c' = (snd (replay_chain chain ?c))\<lparr>c_ups := map (\<lambda>(j, w). (j, w\<lparr>u_leads := []\<rparr>)) (c_ups (snd (replay_chain chain ?c)))\<rparr>"
    using assms(2) u ch by (auto simp: switch_to_def Let_def case_prod_beta split: if_splits list.splits)
  show "roster c' = roster c"
    using roster_replay[of chain ?c] r unfolding c' by (simp add: roster_def comp_def split_def)
  show "c_active c' = i" using replay_chain_fields[of chain ?c] by (simp add: c')
  show "i \<in> fst ` set (roster c)" using map_of_SomeD[OF u] by (force simp: roster_keys)
qed

lemma settle_bad: "fst ` set (fst (settle_standbys r h t c)) \<subseteq> - {c_active c}"
  by (auto simp: settle_standbys_def Let_def case_prod_beta fst_settle_list)

lemma active_bad:
  assumes "on_active_block r h t c = ((fwd, bad), c')"
  shows "c_active c \<notin> fst ` set bad"
  using assms settle_bad[of r h t "record_forwarded r h t
      (c\<lparr>c_ups := hm_update (c_active c) (\<lambda>u. u\<lparr>u_last_rx := Some t\<rparr>) (c_ups c)\<rparr>)"]
  by (auto simp: on_active_block_eq Let_def record_forwarded_def split: if_splits)

lemma replay_bad: "c_active c \<notin> fst ` set (snd (fst (replay_chain chain c)))"
proof (induction chain arbitrary: c)
  case (Cons p chain)
  obtain r a where p: "p = (r, a)" by (cases p)
  let ?c = "record_forwarded r (a_hash a) (a_at a) c"
  have act: "c_active (snd (settle_standbys r (a_hash a) (a_at a) ?c)) = c_active c" "c_active ?c = c_active c"
    by (simp_all add: settle_standbys_def record_forwarded_def Let_def case_prod_beta)
  show ?case
    using Cons[of "snd (settle_standbys r (a_hash a) (a_at a) ?c)"] settle_bad[of r "a_hash a" "a_at a" ?c] act
    by (auto simp: p Let_def case_prod_beta)
qed simp

lemma switch_bad:
  assumes "core_ok c" "switch_to i now c = (Some (frames, bad), c')"
  shows "i \<notin> fst ` set bad"
proof -
  have "core_wf c" using assms(1) by (simp add: core_ok_def)
  then show ?thesis
  proof (cases rule: switch_to_cases[where i = i and now = now])
    case (yes u u')
    let ?c = "c\<lparr>c_ups := hm_update i (\<lambda>_. u') (c_ups c), c_active := i, c_last_switch := Some now\<rparr>"
    have "fst (replay_chain (switch_chain i c) ?c) = (frames, bad)"
      using assms(2) unfolding yes(5) by (simp add: case_prod_beta Let_def)
    then show ?thesis using replay_bad[of ?c "switch_chain i c"] by simp
  qed (use assms(2) in simp)
qed

lemma pick_not_active:
  assumes "pick_switch now dead c = Some (i, reason)"
  shows "i \<noteq> c_active c"
  using assms picks_ok_fold[of c now dead]
  by (auto simp: pick_switch_def picks_ok_def can_take_over_def Let_def split: if_splits option.splits)

lemma slowest_not_active:
  assumes "slowest_standby ms ex c = Some (i, m)"
  shows "i \<noteq> c_active c"
  using min_by_key_Some[OF assms[unfolded slowest_standby_def]] by (auto simp: map_filter_def)

section \<open>The invariant\<close>

definition fo_track :: "failover_config \<Rightarrow> fo_sess \<Rightarrow> bool" where
  "fo_track fo s \<longleftrightarrow> core_ok (fs_core s) \<and> distinct (map snd (roster (fs_core s))) \<and>
     fst ` set (fs_lives s) = fst ` set (roster (fs_core s)) \<and>
     c_active (fs_core s) \<in> fst ` set (roster (fs_core s)) \<and>
     (\<forall>i \<in> fst ` set (roster (fs_core s)). i < fs_next_id s) \<and>
     length (roster (fs_core s)) + (if fs_connecting s then 1 else 0) \<le> fc_standbys fo + 1 \<and>
     (fs_connecting s \<longrightarrow> set (fs_dialing s) \<inter> snd ` set (roster (fs_core s)) = {})"

lemma fo_track_fields [simp]:
  "fo_track fo (s\<lparr>fs_progress := x1\<rparr>) = fo_track fo s" "fo_track fo (s\<lparr>fs_active_dead := x2\<rparr>) = fo_track fo s"
  "fo_track fo (s\<lparr>fs_cooldown := x3\<rparr>) = fo_track fo s" "fo_track fo (s\<lparr>fs_switches := x4\<rparr>) = fo_track fo s"
  "fo_track fo (s\<lparr>fs_repins := x5\<rparr>) = fo_track fo s" "fo_track fo (s\<lparr>fs_last_rotate := x6\<rparr>) = fo_track fo s"
  "fo_track fo (s\<lparr>fs_rot := x7\<rparr>) = fo_track fo s" "fo_track fo (s\<lparr>fs_next_connect := x8\<rparr>) = fo_track fo s"
  "fo_track fo (s\<lparr>fs_blacklist_seen := x9\<rparr>) = fo_track fo s" "fo_track fo (s\<lparr>fs_queued := x10\<rparr>) = fo_track fo s"
  by (simp_all add: fo_track_def)

lemma fo_track_mark_dead [simp]: "fo_track fo (mark_dead now why s) = fo_track fo s"
  by (simp add: mark_dead_def)

lemma fo_track_core:
  assumes "fo_track fo s" "core_ok c" "roster c = roster (fs_core s)" "c_active c \<in> fst ` set (roster (fs_core s))"
  shows "fo_track fo (s\<lparr>fs_core := c\<rparr>)"
  using assms by (simp add: fo_track_def)

lemma drop_upstream_parts [simp]:
  "fs_lives (drop_upstream i t s) = fs_lives s" "fs_next_id (drop_upstream i t s) = fs_next_id s"
  "fs_connecting (drop_upstream i t s) = fs_connecting s" "fs_dialing (drop_upstream i t s) = fs_dialing s"
  "fs_active_dead (drop_upstream i t s) = fs_active_dead s"
  by (auto simp: drop_upstream_def Let_def split: prod.splits option.splits)

lemma drop_live_parts [simp]:
  "fs_lives (drop_live i s) = AList.delete i (fs_lives s)" "fs_next_id (drop_live i s) = fs_next_id s"
  "fs_connecting (drop_live i s) = fs_connecting s" "fs_dialing (drop_live i s) = fs_dialing s"
  "fs_active_dead (drop_live i s) = fs_active_dead s"
  by (simp_all add: drop_live_def)

text \<open>Dropping an upstream other than the active from both tables.\<close>

definition dropped_from :: "nat \<Rightarrow> fo_sess \<Rightarrow> fo_sess \<Rightarrow> bool" where
  "dropped_from i s s' \<longleftrightarrow> fs_core s' = snd (remove_up i (fs_core s)) \<and> fs_lives s' = AList.delete i (fs_lives s) \<and>
     fs_next_id s' = fs_next_id s \<and> fs_connecting s' = fs_connecting s \<and> fs_dialing s' = fs_dialing s"

lemma dropped_from_drop:
  "dropped_from i s (drop_live i (drop_upstream i t s))" "dropped_from i s (drop_upstream i t (drop_live i s))"
  by (simp_all add: dropped_from_def)

lemma keys_filter: "fst ` set (filter (\<lambda>p. fst p \<noteq> i) xs) = fst ` set xs - {i}"
  by force

lemma fo_track_dropped:
  assumes "fo_track fo s" "i \<noteq> c_active (fs_core s)" "dropped_from i s s'"
  shows "fo_track fo s'"
proof -
  let ?R = "roster (fs_core s)"
  have t: "core_ok (fs_core s)" "distinct (map snd ?R)" "fst ` set (fs_lives s) = fst ` set ?R"
    "c_active (fs_core s) \<in> fst ` set ?R" "\<forall>j \<in> fst ` set ?R. j < fs_next_id s"
    "length ?R + (if fs_connecting s then 1 else 0) \<le> fc_standbys fo + 1"
    "fs_connecting s \<longrightarrow> set (fs_dialing s) \<inter> snd ` set ?R = {}"
    using assms(1) by (simp_all add: fo_track_def)
  have d: "fs_core s' = snd (remove_up i (fs_core s))" "fs_lives s' = filter (\<lambda>p. fst p \<noteq> i) (fs_lives s)"
    "fs_next_id s' = fs_next_id s" "fs_connecting s' = fs_connecting s" "fs_dialing s' = fs_dialing s"
    using assms(3) by (simp_all add: dropped_from_def AList.delete_eq split_def eq_commute)
  have len: "length (filter (\<lambda>p. fst p \<noteq> i) ?R) \<le> length ?R" by simp
  show ?thesis
    unfolding fo_track_def d roster_remove keys_filter
  proof (intro conjI ballI)
    show "distinct (map snd (filter (\<lambda>p. fst p \<noteq> i) ?R))" using t(2) by (rule distinct_map_filter)
    show "length (filter (\<lambda>p. fst p \<noteq> i) ?R) + (if fs_connecting s then 1 else 0) \<le> fc_standbys fo + 1"
      using t(6) len by linarith
    show "fs_connecting s \<longrightarrow> set (fs_dialing s) \<inter> snd ` set (filter (\<lambda>p. fst p \<noteq> i) ?R) = {}"
      using t(7) by auto
  qed (use t assms(2) in \<open>auto simp: core_ok_remove\<close>)
qed

lemma fo_track_drop_bad:
  "fo_track fo s \<Longrightarrow> c_active (fs_core s) \<notin> fst ` set bad \<Longrightarrow> fo_track fo (drop_bad t bad s)"
proof (induction t bad s rule: drop_bad.induct)
  case (2 t i r bad s)
  then have "fo_track fo (drop_live i (drop_upstream i (Some t) s))"
    by (intro fo_track_dropped[OF _ _ dropped_from_drop(1)]) auto
  with 2 show ?case by simp
qed simp

lemma fo_track_queue: "fo_track fo s \<Longrightarrow> queue_node e f s = (None, s') \<Longrightarrow> fo_track fo s'"
  by (auto simp: queue_node_def split: if_splits)

lemma fo_track_forward:
  assumes "fo_track fo s" "forward_active_block e f r h at s = (None, s')"
  shows "fo_track fo s'"
proof (cases "fe_floor e < r")
  case True
  obtain fwd bad c where ab: "on_active_block r h at (fs_core s) = ((fwd, bad), c)"
    by (cases "on_active_block r h at (fs_core s)") auto
  have "core_ok c" "roster c = roster (fs_core s)" "c_active c = c_active (fs_core s)"
    using assms(1) core_ok_active[of "fs_core s" r h at] roster_active[of r h at "fs_core s"] c_active_active[of r h at "fs_core s"]
    by (simp_all add: ab fo_track_def)
  then have "fo_track fo (drop_bad (fe_now e + BAD_PEER_COOLDOWN) bad (s\<lparr>fs_core := c\<rparr>))"
    using assms(1) active_bad[OF ab] by (intro fo_track_drop_bad fo_track_core) (auto simp: fo_track_def)
  with True ab assms(2) show ?thesis
    by (auto simp: forward_active_block_def Let_def split: if_splits intro: fo_track_queue)
qed (use assms in \<open>simp add: forward_active_block_def\<close>)

lemma distinct_ups: "fo_track fo s \<Longrightarrow> distinct (map fst (c_ups (fs_core s)))"
  by (simp add: fo_track_def core_ok_def core_wf_def)

lemma fo_track_frame:
  assumes "fo_track fo s" "fo_frame D H msg e i f at s = (None, s')"
  shows "fo_track fo s'"
proof (cases "map_of (fs_lives s) i = None \<or> classify D H f = None")
  case True
  with assms show ?thesis
    by (auto simp: fo_frame_def split: option.splits if_splits intro: fo_track_queue)
next
  case False
  then obtain r p h where cl: "classify D H f = Some (r, p, h)" by auto
  with False assms(2) have blk: "fo_block msg e i f at r p h s = (None, s')" by (auto simp: fo_frame_def)
  let ?c = "snd (on_standby_block i r p h at f (fs_core s))"
  have st: "fo_track fo (s\<lparr>fs_core := ?c\<rparr>)" "c_active ?c = c_active (fs_core s)"
    using assms(1) roster_standby[OF distinct_ups[OF assms(1)], of i r p h at f]
      core_ok_standby[of "fs_core s" p r i h at f] classify_less[OF cl]
    by (auto intro!: fo_track_core simp: fo_track_def)
  have drop: "i \<noteq> c_active (fs_core s) \<Longrightarrow> fo_track fo s'' \<Longrightarrow> c_active (fs_core s'') = c_active (fs_core s) \<Longrightarrow>
      fo_track fo (drop_live i (drop_upstream i t s''))" for t s''
    by (intro fo_track_dropped[OF _ _ dropped_from_drop(1)]) auto
  show ?thesis
  proof (cases "bad_round e r")
    case None
    then show ?thesis
      using blk st assms(1) drop[of "s\<lparr>fs_core := ?c\<rparr>"]
      by (auto simp: fo_block_def Let_def split: if_splits sum.splits prod.splits standby_verdict.splits
          dest!: fo_track_forward[rotated])
  next
    case (Some why)
    then show ?thesis using blk assms(1) drop[of s] by (auto simp: fo_block_def Let_def split: if_splits)
  qed
qed

lemma fo_track_closed: "fo_track fo s \<Longrightarrow> fo_track fo (fo_closed e i why s)"
  by (cases "i = c_active (fs_core s)")
    (auto simp: fo_closed_def intro: fo_track_dropped[OF _ _ dropped_from_drop(2)])

lemma fo_track_connected:
  assumes "fo_track fo s" "fs_connecting s" "a \<in> set (fs_dialing s)"
  shows "fo_track fo (fo_connected e a prio s)"
proof -
  let ?R = "roster (fs_core s)" and ?i = "fs_next_id s"
  let ?c = "add_standby ?i a (fs_core s)"
  let ?c' = "if tier_contains (fe_tier e) a then mark_preferred ?i ?c else ?c"
  have t: "core_ok (fs_core s)" "distinct (map snd ?R)" "fst ` set (fs_lives s) = fst ` set ?R"
    "c_active (fs_core s) \<in> fst ` set ?R" "\<forall>j \<in> fst ` set ?R. j < ?i"
    "length ?R + 1 \<le> fc_standbys fo + 1" "set (fs_dialing s) \<inter> snd ` set ?R = {}"
    using assms by (simp_all add: fo_track_def)
  have fresh: "?i \<notin> fst ` set ?R" using t(5) by blast
  have R: "roster ?c' = ?R @ [(?i, a)]" by (simp add: roster_mark roster_add[OF fresh])
  have "core_ok ?c'" using t(1) by (simp add: core_ok_add core_ok_mark)
  moreover have "fst ` set (AList.update ?i prio (fs_lives s)) = insert ?i (fst ` set (fs_lives s))"
    using fresh t(3) by (simp add: update_fresh)
  moreover have "a \<notin> snd ` set ?R" using t(7) assms(3) by blast
  moreover have "c_active ?c' = c_active (fs_core s)" by simp
  ultimately show ?thesis
    using t unfolding fo_track_def fo_connected_def Let_def by (auto simp: R)
qed

lemma fo_track_tick_blacklist: "fo_track fo s \<Longrightarrow> fo_track fo (tick_blacklist e s)"
proof -
  have fold: "fo_track fo s \<Longrightarrow> c_active (fs_core s) \<notin> set is \<Longrightarrow>
      fo_track fo (fold (\<lambda>i. drop_live i \<circ> drop_upstream i None) is s)" for s "is"
  proof (induction "is" arbitrary: s)
    case (Cons i "is")
    have "fo_track fo (drop_live i (drop_upstream i None s))"
      using Cons.prems by (intro fo_track_dropped[OF _ _ dropped_from_drop(1)]) auto
    with Cons show ?case by simp
  qed simp
  show "fo_track fo s \<Longrightarrow> fo_track fo (tick_blacklist e s)"
    by (auto simp: tick_blacklist_def Let_def mark_dead_def intro!: fold)
qed

lemma fo_track_after_switch:
  assumes "fo_track fo s" "old \<noteq> c_active (fs_core s)" "c_active (fs_core s) \<notin> fst ` set bad"
  shows "fo_track fo (after_switch e old old_ip i bad s)"
proof -
  have lives: "fo_track fo (x\<lparr>fs_lives := hm_update i (\<lambda>_. None) (fs_lives s)\<rparr>)"
    if "fo_track fo x" "fs_lives x = fs_lives s" for x
  proof -
    have "fst ` set (hm_update i (\<lambda>_. None) (fs_lives s)) = fst ` set (fs_lives s)"
      by (metis map_fst_hm_update set_map)
    with that show ?thesis by (simp add: fo_track_def)
  qed
  define s2 where "s2 = s\<lparr>fs_active_dead := None, fs_switches := fs_switches s + 1,
      fs_progress := block_progress_new (c_last_forwarded (fs_core s)) (fe_now e),
      fs_lives := hm_update i (\<lambda>_. None) (fs_lives s),
      fs_repins := fs_repins s @ [(case ip_of i (fs_core s) of Some a \<Rightarrow> a | None \<Rightarrow> ''?'',
        case map_of (fs_lives s) i of Some p \<Rightarrow> p | None \<Rightarrow> None)]\<rparr>"
  have s2: "fo_track fo s2" "fs_core s2 = fs_core s"
    using assms(1) by (simp_all add: s2_def lives)
  define s3 where "s3 = drop_live old (drop_upstream old None s2)"
  have s3: "fo_track fo s3" "c_active (fs_core s3) = c_active (fs_core s)"
    using fo_track_dropped[OF s2(1) _ dropped_from_drop(1), of old None] assms(2) s2(2) by (simp_all add: s3_def)
  then show ?thesis
    using assms(3) unfolding after_switch_def Let_def s2_def[symmetric] s3_def[symmetric]
    by (intro fo_track_drop_bad) simp_all
qed

lemma fo_track_tick_switch:
  assumes "fo_track fo s" "tick_switch e s = (None, s')"
  shows "fo_track fo s'"
proof (cases "pick_switch (fe_now e) (fs_active_dead s \<noteq> None) (fs_core s)")
  case (Some x)
  obtain i reason where x: "x = (i, reason)" by (cases x)
  have ok: "core_ok (fs_core s)" using assms(1) by (simp add: fo_track_def)
  have ne: "c_active (fs_core s) \<noteq> i" using pick_not_active[OF Some[unfolded x]] by simp
  obtain out c where sw: "switch_to i (fe_now e) (fs_core s) = (out, c)" by (cases "switch_to i (fe_now e) (fs_core s)")
  show ?thesis
  proof (cases out)
    case None
    have "core_wf (fs_core s)" using ok by (simp add: core_ok_def)
    then have "c = fs_core s"
      using sw None by (cases rule: switch_to_cases[where i = i and now = "fe_now e"]) (auto simp: Let_def case_prod_beta)
    with Some x sw None assms show ?thesis by (auto simp: tick_switch_def Let_def)
  next
    case out: (Some fb)
    obtain frames bad where fb: "fb = (frames, bad)" by (cases fb)
    note sw' = sw[unfolded out fb]
    have tr: "fo_track fo (s\<lparr>fs_core := c, fs_queued := q\<rparr>)" for q
      using fo_track_core[OF assms(1), of c] core_ok_switch_to(1)[OF ok, of i "fe_now e"] roster_switch[OF ok sw'] sw'
      by simp
    have "c_active c = i" "i \<notin> fst ` set bad" using roster_switch(2)[OF ok sw'] switch_bad[OF ok sw'] by simp_all
    then have "fo_track fo (after_switch e (c_active (fs_core s)) old_ip i bad (s\<lparr>fs_core := c, fs_queued := q\<rparr>))" for old_ip q
      using tr ne by (intro fo_track_after_switch) simp_all
    moreover have "queue_all e frames (s\<lparr>fs_core := c\<rparr>) = (True, s\<lparr>fs_core := c, fs_queued := fs_queued s @ frames\<rparr>)
        \<or> (\<exists>s1. queue_all e frames (s\<lparr>fs_core := c\<rparr>) = (False, s1))"
      by (auto simp: queue_all_eq)
    ultimately show ?thesis
      using Some x sw' assms(2) by (elim disjE exE) (simp_all add: tick_switch_def Let_def, metis)
  qed
qed (use assms in \<open>simp add: tick_switch_def\<close>)

lemma fo_track_tick_rotate: "fo_track fo s \<Longrightarrow> fo_track fo (tick_rotate fo e s)"
proof -
  assume t: "fo_track fo s"
  have "fo_track fo (drop_live i (drop_upstream i u (s\<lparr>fs_last_rotate := x\<rparr>)))"
    if "slowest_standby ms ex (fs_core s) = Some (i, m)" for i m u x ms ex
    using t slowest_not_active[OF that] by (intro fo_track_dropped[OF _ _ dropped_from_drop(1)]) simp_all
  with t show ?thesis by (auto simp: tick_rotate_def Let_def split: option.splits)
qed

lemma keep_first_sound:
  "a \<in> set (keep_first p seen as) \<Longrightarrow> p a \<and> a \<in> set as \<and> a \<notin> set seen"
  by (induction p seen as rule: keep_first.induct) (auto split: if_splits)

lemma keep_first_distinct: "distinct (keep_first p seen as)"
  by (induction p seen as rule: keep_first.induct) (auto dest: keep_first_sound)

lemma ip_of_roster: "ip_of i c = map_of (roster c) i"
  unfolding ip_of_def roster_def by (induction "c_ups c" arbitrary: c) (auto simp: map_of_map[unfolded comp_def, symmetric] map_of_map)

lemma in_use_ips:
  assumes "fo_track fo s"
  shows "set (List.map_filter (\<lambda>i. ip_of i (fs_core s)) (map fst (fs_lives s))) = snd ` set (roster (fs_core s))"
proof -
  let ?R = "roster (fs_core s)"
  have d: "distinct (map fst ?R)"
    using distinct_ups[OF assms] by (simp add: roster_def comp_def split_def)
  have mf: "set (List.map_filter g xs) = {a. \<exists>x \<in> set xs. g x = Some a}" for g and xs :: "nat list"
    by (induction xs) (auto simp: map_filter_simps split: option.splits)
  have "set (map fst (fs_lives s)) = fst ` set ?R" using assms by (simp add: fo_track_def)
  then have "set (List.map_filter (\<lambda>i. ip_of i (fs_core s)) (map fst (fs_lives s))) = {a. \<exists>i \<in> fst ` set ?R. map_of ?R i = Some a}"
    unfolding mf ip_of_roster by simp
  also have "\<dots> = snd ` set ?R"
  proof (intro equalityI subsetI)
    fix a assume "a \<in> {a. \<exists>i \<in> fst ` set ?R. map_of ?R i = Some a}"
    then obtain i where "map_of ?R i = Some a" by blast
    then have "(i, a) \<in> set ?R" by (rule map_of_SomeD)
    then show "a \<in> snd ` set ?R" by (rule rev_image_eqI) simp
  next
    fix a assume "a \<in> snd ` set ?R"
    then obtain i where i: "(i, a) \<in> set ?R" by auto
    have "map_of ?R i = Some a" using d i by (rule map_of_is_SomeI)
    moreover have "i \<in> fst ` set ?R" using i by (rule rev_image_eqI) simp
    ultimately show "a \<in> {a. \<exists>i \<in> fst ` set ?R. map_of ?R i = Some a}" by blast
  qed
  finally show ?thesis .
qed

lemma candidates_sound:
  assumes "fo_track fo s" "a \<in> set (standby_candidates e s)"
  shows "a \<notin> snd ` set (roster (fs_core s))" "map_of (fs_cooldown s) a = None"
  using assms(2) in_use_ips[OF assms(1)]
  by (auto simp: standby_candidates_def Let_def dest!: in_set_takeD keep_first_sound)

lemma fo_track_tick_fill: "fo_track fo s \<Longrightarrow> fo_track fo (tick_fill fo e s)"
proof -
  assume t: "fo_track fo s"
  let ?s1 = "s\<lparr>fs_cooldown := filter (\<lambda>(_, until). fe_now e < until) (fs_cooldown s)\<rparr>"
  have "set (standby_candidates e ?s1) \<inter> snd ` set (roster (fs_core s)) = {}"
    using candidates_sound(1)[of fo ?s1 _ e] t by auto
  moreover have "length (roster (fs_core s)) = length (c_ups (fs_core s))" by (simp add: roster_def)
  ultimately show ?thesis
    using t by (auto simp: tick_fill_def Let_def fo_track_def standby_count_def)
qed

lemma fo_track_idle: "fo_track fo s \<Longrightarrow> fo_track fo (s\<lparr>fs_connecting := False\<rparr>)"
  by (simp add: fo_track_def split: if_splits)

lemma fo_track_event:
  assumes "fo_track fo s" "fo_event D H msg fo e ev s = (None, s')"
    "\<And>a prio. ev = FoConnected a prio \<Longrightarrow> fs_connecting s \<and> a \<in> set (fs_dialing s)"
  shows "fo_track fo s'"
proof (cases ev)
  case FoTick
  let ?s = "tick_blacklist e (tick_stall e s)"
  obtain s1 where sw: "tick_switch e ?s = (None, s1)" and s': "s' = tick_fill fo e (tick_rotate fo e s1)"
    using assms(2) by (auto simp: FoTick fo_event_def fo_tick_def split: prod.splits option.splits)
  have "fo_track fo ?s"
    using assms(1) by (intro fo_track_tick_blacklist) (simp add: tick_stall_def)
  then show ?thesis
    unfolding s' by (intro fo_track_tick_fill fo_track_tick_rotate fo_track_tick_switch[OF _ sw])
next
  case (FoConnected a prio)
  with assms show ?thesis by (auto simp: fo_event_def intro: fo_track_connected)
next
  case FoConnectFailed
  then have "s' = s\<lparr>fs_connecting := False, fs_next_connect := fe_now e + STANDBY_RETRY\<rparr>"
    using assms(2) by (simp add: fo_event_def)
  then show ?thesis using fo_track_idle[OF assms(1)] by simp
qed (use assms in \<open>auto simp: fo_event_def fo_node_bytes_def intro: fo_track_frame fo_track_closed\<close>)

lemma fo_track_prefetched: "fo_track fo s \<Longrightarrow> fo_prefetched D H msg fs s = (None, s') \<Longrightarrow> fo_track fo s'"
proof (induction fs arbitrary: s)
  case (Cons ef fs)
  obtain e f where ef: "ef = (e, f)" by (cases ef)
  have act: "fo_track fo (s\<lparr>fs_progress := pr, fs_core := snd (on_active_block r h (fe_now e) (fs_core s))\<rparr>)" for pr r h
    using fo_track_core[of fo "s\<lparr>fs_progress := pr\<rparr>"] Cons.prems(1) core_ok_active[of "fs_core s" r h "fe_now e"]
    by (simp add: roster_active c_active_active fo_track_def)
  show ?case
    using Cons.prems Cons.IH act unfolding ef
    by (auto simp: Let_def queue_node_def split: option.splits prod.splits if_splits sum.splits) (metis fo_track_fields(1,10) snd_conv)+
qed simp

lemma fo_track_start: "fo_track fo (fo_start fo cfg e)"
proof -
  have "roster (fs_core (fo_start fo cfg e)) = [(0, pc_hosts cfg ! pc_active_idx cfg)]"
    by (simp add: fo_start_def Let_def roster_mark) (simp add: roster_def core_new_def upstream_new_def)
  moreover have "core_ok (fs_core (fo_start fo cfg e))" "c_active (fs_core (fo_start fo cfg e)) = 0"
    by (simp_all add: fo_start_def Let_def core_ok_new core_ok_mark) (simp add: core_new_def)
  ultimately show ?thesis by (simp add: fo_track_def) (simp add: fo_start_def Let_def)
qed

text \<open>C5. In every state a failover session reaches, the core and the table of live connections hold the
  same upstreams and the active is one of them; no two upstreams are the same peer; there are never more
  standbys than configured, counting the one being dialed; and the peers being dialed are not in use.\<close>
theorem failover_roster:
  assumes "fo_reach D H msg fo cfg s"
  shows "fst ` set (fs_lives s) = fst ` set (c_ups (fs_core s)) \<and> c_active (fs_core s) \<in> fst ` set (c_ups (fs_core s)) \<and>
    distinct (map (u_ip \<circ> snd) (c_ups (fs_core s))) \<and>
    standby_count (fs_core s) + (if fs_connecting s then 1 else 0) \<le> fc_standbys fo \<and>
    (fs_connecting s \<longrightarrow> set (fs_dialing s) \<inter> (u_ip \<circ> snd) ` set (c_ups (fs_core s)) = {})"
proof -
  have "fo_track fo s"
    using assms
  proof (induction rule: fo_reach.induct)
    case (start fs e s)
    then show ?case by (rule fo_track_prefetched[OF fo_track_start])
  next
    case (step s ev e s')
    show ?case by (rule fo_track_event[OF step.IH step.hyps(3)]) (rule step.hyps(2))
  qed
  moreover have "map snd (roster c) = map (u_ip \<circ> snd) (c_ups c)" "length (roster c) = length (c_ups c)"
      "snd ` set (roster c) = (u_ip \<circ> snd) ` set (c_ups c)" for c
    by (auto simp: roster_def comp_def split_def image_image)
  moreover from calculation(1) have "c_ups (fs_core s) \<noteq> []" by (auto simp: fo_track_def roster_def)
  ultimately show ?thesis
    by (simp add: fo_track_def roster_keys standby_count_def) (cases "c_ups (fs_core s)"; auto)
qed

definition sample_fo :: failover_config where
  "sample_fo = (failover_config_from_env (\<lambda>_. None))\<lparr>fc_standbys := 1\<rparr>"

definition sample_pool_env :: fo_env where
  "sample_pool_env = sample_env\<lparr>fe_pool := [''192.0.2.1'', ''192.0.2.9'']\<rparr>"

definition sample_dialing :: fo_sess where
  "sample_dialing = snd (fo_event (\<lambda>_. None) (\<lambda>_. 0) (\<lambda>_. []) sample_fo sample_pool_env FoTick (fo_start sample_fo sample_config sample_pool_env))"

definition sample_connected :: fo_sess where
  "sample_connected = snd (fo_event (\<lambda>_. None) (\<lambda>_. 0) (\<lambda>_. []) sample_fo sample_pool_env
     (FoConnected ''192.0.2.9'' None) sample_dialing)"

lemma sample_dialing_eq:
  "fo_event (\<lambda>_. None) (\<lambda>_. 0) (\<lambda>_. []) sample_fo sample_pool_env FoTick (fo_start sample_fo sample_config sample_pool_env) =
     (None, sample_dialing)" "fs_connecting sample_dialing" "fs_dialing sample_dialing = [''192.0.2.9'']"
  "standby_count (fs_core sample_connected) = 1" "\<not> fs_connecting sample_connected"
  by (simp_all add: sample_dialing_def sample_connected_def fo_event_def fo_tick_def tick_stall_def fo_start_def sample_fo_def
      sample_pool_env_def sample_env_def sample_config_def Let_def stalled_def block_progress_new_def ACTIVE_BLOCK_STALL_def
      from_secs_def tick_blacklist_def blacklist_init_def ip_banned_def ip_of_def core_new_def upstream_new_def
      bl_contains_def tick_switch_def pick_switch_def pick_one_def no_picks_def tick_dead_def tick_rotate_def
      standby_count_def tick_fill_def standby_candidates_def map_filter_simps candidates_at_def pool_allowed_def exclusive_def
      priority_new_def STANDBY_RACE_def tier_contains_def tier_index_def fo_connected_def add_standby_def
      failover_config_from_env_def env_num_def upt_conv_Cons)

theorem failover_roster_witness:
  "standby_count (fs_core sample_connected) = 1 \<and> fc_standbys sample_fo = 1 \<and>
   standby_count (fs_core sample_connected) + (if fs_connecting sample_connected then 1 else 0) \<le> fc_standbys sample_fo"
proof -
  let ?reach = "fo_reach (\<lambda>_. None) (\<lambda>_. 0) (\<lambda>_. []) sample_fo sample_config"
  have "?reach (fo_start sample_fo sample_config sample_pool_env)"
    by (rule fo_reach.start[of _ _ _ "[]" _ _ sample_pool_env]) simp
  then have "?reach sample_dialing"
    by (rule fo_reach.step[OF _ _ sample_dialing_eq(1)]) simp_all
  then have "?reach sample_connected"
    by (rule fo_reach.step[where ev = "FoConnected ''192.0.2.9'' None" and e = sample_pool_env])
      (simp_all add: sample_dialing_eq sample_connected_def fo_event_def)
  from failover_roster[OF this] sample_dialing_eq(4) show ?thesis by (simp add: sample_fo_def)
qed

end
