(* ===== verification/Peers_File.thy ===== *)
theory Peers_File
  imports Blacklist
begin

text \<open>
  The peer files, \<open>peerd/peers_file.rs\<close>: recognising IPv4 tokens in free text, the routability
  filter, reading and deduplicating the peers of a set of files, and the \<open>round_tip\<close> field. File
  contents are arguments.
\<close>

section \<open>Definitions\<close>

definition octet_token :: "string \<Rightarrow> bool" where
  "octet_token p \<longleftrightarrow> p \<noteq> [] \<and> length p \<le> 3 \<and>
     (case parse_uint U32_MAX p of Some n \<Rightarrow> n \<le> 255 | None \<Rightarrow> False)"

definition is_ipv4 :: "string \<Rightarrow> bool" where
  "is_ipv4 s \<longleftrightarrow> (let ps = split_on (CHR ''.'') s in list_all octet_token ps \<and> length ps = 4)"

definition is_routable :: "string \<Rightarrow> bool" where
  "is_routable s =
     (if starts_with s ''0.'' \<or> starts_with s ''127.'' \<or> starts_with s ''10.'' \<or>
         starts_with s ''192.168.'' \<or> starts_with s ''169.254.'' \<or> starts_with s ''255.''
      then False
      else (case strip_prefix s ''172.'' of
              Some rest \<Rightarrow>
                (case parse_uint U8_MAX (hd (split_on (CHR ''.'') rest)) of
                   Some oct \<Rightarrow> \<not> (16 \<le> oct \<and> oct \<le> 31)
                 | None \<Rightarrow> True)
            | None \<Rightarrow> True))"

definition addr_char :: "char \<Rightarrow> bool" where
  "addr_char c \<longleftrightarrow> is_digit c \<or> c = CHR ''.''"

function extract_ipv4 :: "string \<Rightarrow> string list" where
  "extract_ipv4 s =
     (case s of
        [] \<Rightarrow> []
      | c # cs \<Rightarrow>
          if is_digit c then
            (let tok = takeWhile addr_char s
             in (if is_ipv4 tok \<and> is_routable tok then [tok] else []) @ extract_ipv4 (dropWhile addr_char s))
          else extract_ipv4 cs)"
  by pat_completeness auto
termination
  by (relation "measure length")
    (auto simp: addr_char_def less_Suc_eq_le length_dropWhile_le)

declare extract_ipv4.simps [simp del]

fun dedup_first :: "string list \<Rightarrow> string list \<Rightarrow> string list" where
  "dedup_first seen [] = []"
| "dedup_first seen (x # xs) =
     (if x \<in> set seen then dedup_first seen xs else x # dedup_first (x # seen) xs)"

text \<open>The readable files under the given path, in the order the directory lists them.\<close>

definition read_node_peers :: "string list \<Rightarrow> string list" where
  "read_node_peers files = dedup_first [] (concat (map extract_ipv4 files))"

definition round_tip_key :: string where
  "round_tip_key = CHR 0x22 # ''round_tip'' @ CHR 0x22 # '':''"

definition extract_round_tip :: "string \<Rightarrow> u32 option" where
  "extract_round_tip contents =
     (case find_str round_tip_key contents of
        None \<Rightarrow> None
      | Some i \<Rightarrow>
          map_option word_of_nat
            (parse_uint U32_MAX (takeWhile is_digit (drop (i + length round_tip_key) contents))))"

section \<open>Tokens\<close>

lemma octet_token_show: "octet_token (show_octet w)"
proof -
  have "show_octet w = c # cs \<Longrightarrow> c \<noteq> CHR ''+''" for c cs
    using show_octet_digits[of w] by (auto simp: is_digit_def)
  moreover have "unat w \<le> 255" using unat_u8_lt[of w] by linarith
  ultimately show ?thesis
    using show_octet_ok[of w] show_octet_digits[of w]
    by (cases "show_octet w") (auto simp: octet_token_def parse_uint_def Let_def dec_val_show_octet[symmetric])
qed

lemma is_ipv4_show: "is_ipv4 (show_ipv4 i)"
  by (cases i) (simp only: is_ipv4_def split_show_ipv4, simp add: octet_token_show)

lemma addr_char_show: "list_all addr_char (show_ipv4 i)"
  using set_show_ipv4[of _ i] by (auto simp: list_all_iff addr_char_def)

lemma hd_show_digit: "is_digit (hd (show_ipv4 i))"
proof (cases i)
  case (Ipv4 a b c d)
  then show ?thesis
    using show_octet_ok[of a] show_octet_digits[of a] by (cases "show_octet a") auto
qed

lemma extract_sound: "t \<in> set (extract_ipv4 s) \<Longrightarrow> is_ipv4 t \<and> is_routable t \<and> sublist t s"
proof (induction s rule: extract_ipv4.induct)
  case (1 s)
  show ?case
  proof (cases s)
    case Nil
    with "1.prems" show ?thesis by (simp add: extract_ipv4.simps)
  next
    case (Cons c cs)
    show ?thesis
    proof (cases "is_digit c")
      case True
      have split: "s = takeWhile addr_char s @ dropWhile addr_char s" by simp
      then have "sublist u (dropWhile addr_char s) \<Longrightarrow> sublist u s" "sublist (takeWhile addr_char s) s" for u
        by (metis sublist_append_leftI sublist_order.order_trans, metis sublist_append_rightI)
      with True Cons "1.prems" "1.IH"(1)[OF Cons True refl] show ?thesis
        by (subst (asm) extract_ipv4.simps) (auto simp: Let_def split: if_splits)
    next
      case False
      with Cons "1.prems" "1.IH"(2)[OF Cons False] show ?thesis
        by (subst (asm) extract_ipv4.simps) (auto simp: sublist_Cons_right)
    qed
  qed
qed

lemma extract_append:
  "\<not> addr_char x \<Longrightarrow> extract_ipv4 (pre @ x # rest) = extract_ipv4 pre @ extract_ipv4 rest"
proof (induction pre rule: extract_ipv4.induct)
  case (1 pre)
  have x: "\<not> is_digit x" "extract_ipv4 (x # rest) = extract_ipv4 rest"
    using "1.prems" by (auto simp: addr_char_def extract_ipv4.simps[of "x # rest"])
  show ?case
  proof (cases pre)
    case Nil
    with x show ?thesis by (simp add: extract_ipv4.simps[of "[]"])
  next
    case (Cons c cs)
    show ?thesis
    proof (cases "is_digit c")
      case True
      have "takeWhile addr_char (pre @ x # rest) = takeWhile addr_char pre"
        "dropWhile addr_char (pre @ x # rest) = dropWhile addr_char pre @ x # rest"
        using "1.prems" by (induction pre) auto
      with True Cons "1.IH"(1)[OF Cons True refl "1.prems"] show ?thesis
        by (simp add: extract_ipv4.simps[of "c # cs"] extract_ipv4.simps[of "c # cs @ x # rest"] Let_def)
    next
      case False
      with Cons "1.IH"(2)[OF Cons False "1.prems"] show ?thesis
        by (simp add: extract_ipv4.simps[of "c # cs"] extract_ipv4.simps[of "c # cs @ x # rest"])
    qed
  qed
qed

lemma extract_head:
  assumes "is_routable (show_ipv4 i)" "post = [] \<or> \<not> addr_char (hd post)"
  shows "extract_ipv4 (show_ipv4 i @ post) = show_ipv4 i # extract_ipv4 post"
proof -
  obtain c cs where c: "show_ipv4 i = c # cs" "is_digit c"
    using hd_show_digit[of i] show_ipv4_nonempty[of i] by (cases "show_ipv4 i") auto
  have "takeWhile addr_char (show_ipv4 i @ post) = show_ipv4 i" "dropWhile addr_char (show_ipv4 i @ post) = post"
    using addr_char_show[of i] assms(2)
    by (auto simp: takeWhile_append dropWhile_append list_all_iff takeWhile_eq_Nil_iff) (cases post; auto)+
  with c assms(1) is_ipv4_show[of i] show ?thesis
    by (simp add: extract_ipv4.simps[of "c # cs @ post"] Let_def)
qed

section \<open>Properties\<close>

text \<open>C40. Peer extraction finds every routable address that stands on its own in a text, whatever
  surrounds it, and reports only routable dotted quads that occur in the text.\<close>
theorem extract_ipv4_correct:
  assumes "pre = [] \<or> \<not> addr_char (last pre)" "post = [] \<or> \<not> addr_char (hd post)" "is_routable (show_ipv4 i)"
  shows "show_ipv4 i \<in> set (extract_ipv4 (pre @ show_ipv4 i @ post)) \<and>
    (\<forall>t \<in> set (extract_ipv4 (pre @ show_ipv4 i @ post)).
       is_ipv4 t \<and> is_routable t \<and> sublist t (pre @ show_ipv4 i @ post))"
proof -
  have "show_ipv4 i \<in> set (extract_ipv4 (pre @ show_ipv4 i @ post))"
  proof (cases pre rule: rev_cases)
    case Nil
    with extract_head[OF assms(3,2)] show ?thesis by simp
  next
    case (snoc ys x)
    then have "\<not> addr_char x" using assms(1) by simp
    then show ?thesis
      using extract_append[of x ys "show_ipv4 i @ post"] extract_head[OF assms(3,2)] snoc by simp
  qed
  with extract_sound show ?thesis by blast
qed

theorem extract_ipv4_correct_witness:
  "show_ipv4 (Ipv4 8 8 4 4) \<in> set (extract_ipv4 (''peer='' @ show_ipv4 (Ipv4 8 8 4 4) @ '' 17.5''))"
proof -
  have s: "show_ipv4 (Ipv4 8 8 4 4) = ''8.8.4.4''" by (simp add: show_octet_def Let_def) code_simp
  have "is_routable (show_ipv4 (Ipv4 8 8 4 4))" unfolding s by code_simp
  moreover have "\<not> addr_char (CHR ''='')" "\<not> addr_char (CHR '' '')" by code_simp+
  ultimately show ?thesis
    using extract_ipv4_correct[of "''peer=''" "'' 17.5''" "Ipv4 8 8 4 4"] by simp
qed

lemma dedup_first_spec: "distinct (dedup_first seen xs) \<and> set (dedup_first seen xs) = set xs - set seen"
  by (induction seen xs rule: dedup_first.induct) auto

lemma find_str_here: "find_str p (p @ s) = Some 0"
proof (cases "p @ s")
  case (Cons c cs)
  have "starts_with (p @ s) p" by (simp add: starts_with_def)
  with Cons show ?thesis by simp
qed simp

lemma find_str_skip:
  "(\<forall>k < length pre. \<not> starts_with (drop k (pre @ p @ s)) p) \<Longrightarrow> find_str p (pre @ p @ s) = Some (length pre)"
proof (induction pre)
  case Nil
  then show ?case using find_str_here[of p s] by simp
next
  case (Cons c pre)
  have "\<not> starts_with (c # pre @ p @ s) p"
    using Cons.prems by (auto dest: spec[of _ 0])
  moreover have "find_str p (pre @ p @ s) = Some (length pre)"
    using Cons.prems by (intro Cons.IH) (auto dest: spec[of _ "Suc k" for k])
  ultimately show ?case by simp
qed

text \<open>The published network tip is read back: when the field \<open>round_tip\<close> first occurs in the file
  with the decimal digits of a round, the reader returns that round.\<close>
theorem extract_round_tip_roundtrip:
  assumes "\<forall>k < length pre. \<not> starts_with (drop k (pre @ round_tip_key @ show_nat (unat r) @ post)) round_tip_key"
    and "post = [] \<or> \<not> is_digit (hd post)"
  shows "extract_round_tip (pre @ round_tip_key @ show_nat (unat r) @ post) = Some r"
proof -
  have "takeWhile is_digit (show_nat (unat r) @ post) = show_nat (unat r)"
    using show_nat_digits[of "unat r"] assms(2)
    by (cases post) (auto simp: takeWhile_append list_all_iff)
  moreover have "unat r \<le> U32_MAX"
    using unat_u32_lt[of r] by simp
  ultimately show ?thesis
    using find_str_skip[OF assms(1)] by (simp add: extract_round_tip_def parse_show_nat)
qed

theorem extract_round_tip_roundtrip_witness:
  "extract_round_tip (''{'' @ round_tip_key @ show_nat (unat (1234567890 :: u32)) @ ''}'') = Some 1234567890"
  by (rule extract_round_tip_roundtrip) (simp_all add: starts_with_def round_tip_key_def is_digit_def)

section \<open>Routability\<close>

lemma starts_with_sep:
  "CHR ''.'' \<notin> set p \<Longrightarrow> CHR ''.'' \<notin> set q \<Longrightarrow>
     starts_with (p @ CHR ''.'' # s) (q @ CHR ''.'' # t) \<longleftrightarrow> p = q \<and> starts_with s t"
proof (induction p arbitrary: q)
  case Nil
  then show ?case by (cases q) (auto simp: starts_with_def)
next
  case (Cons c p)
  then show ?case by (cases q) (auto simp: starts_with_def)
qed

lemma show_octet_eq: "show_octet a = show_octet b \<longleftrightarrow> a = b"
  by (metis option.inject parse_show_octet)

lemma starts_with_octet:
  "starts_with (show_octet a @ CHR ''.'' # s) (show_octet b @ CHR ''.'' # t) \<longleftrightarrow> a = b \<and> starts_with s t"
  by (simp add: starts_with_sep sep_notin_octet show_octet_eq)

lemma octet_texts:
  "show_octet 0 = ''0''" "show_octet 127 = ''127''" "show_octet 10 = ''10''" "show_octet 192 = ''192''"
  "show_octet 168 = ''168''" "show_octet 169 = ''169''" "show_octet 254 = ''254''" "show_octet 255 = ''255''"
  "show_octet 172 = ''172''"
  by code_simp+

lemma parse_uint_octet: "parse_uint U8_MAX (show_octet w) = Some (unat w)"
proof -
  have "show_octet w = c # cs \<Longrightarrow> c \<noteq> CHR ''+''" for c cs
    using show_octet_digits[of w] by (auto simp: is_digit_def)
  moreover have "unat w \<le> 255" using unat_u8_lt[of w] by linarith
  ultimately show ?thesis
    using show_octet_ok[of w] show_octet_digits[of w] dec_val_show_octet[of w]
    by (cases "show_octet w") (auto simp: parse_uint_def Let_def)
qed

text \<open>The textual routability filter is the numeric one: an address is rejected exactly when it
  lies in 0/8, 10/8, 127/8, 255/8, 169.254/16, 192.168/16 or 172.16/12.\<close>
theorem is_routable_numeric:
  "is_routable (show_ipv4 (Ipv4 a b c d)) \<longleftrightarrow>
     a \<notin> {0, 10, 127, 255} \<and> \<not> (a = 169 \<and> b = 254) \<and> \<not> (a = 192 \<and> b = 168) \<and>
     \<not> (a = 172 \<and> 16 \<le> unat b \<and> unat b \<le> 31)"
proof -
  let ?r = "show_octet c @ CHR ''.'' # show_octet d"
  let ?s = "show_octet a @ CHR ''.'' # show_octet b @ CHR ''.'' # ?r"
  have s: "show_ipv4 (Ipv4 a b c d) = ?s" by simp
  have one: "starts_with ?s (show_octet k @ CHR ''.'' # []) \<longleftrightarrow> a = k" for k
    by (simp only: starts_with_octet) (simp add: starts_with_def)
  have two: "starts_with ?s (show_octet k @ CHR ''.'' # show_octet l @ CHR ''.'' # []) \<longleftrightarrow> a = k \<and> b = l" for k l
    by (simp only: starts_with_octet) (simp add: starts_with_def)
  have pre: "starts_with ?s ''0.'' \<longleftrightarrow> a = 0" "starts_with ?s ''127.'' \<longleftrightarrow> a = 127" "starts_with ?s ''10.'' \<longleftrightarrow> a = 10"
    "starts_with ?s ''255.'' \<longleftrightarrow> a = 255" "starts_with ?s ''172.'' \<longleftrightarrow> a = 172"
    "starts_with ?s ''192.168.'' \<longleftrightarrow> a = 192 \<and> b = 168" "starts_with ?s ''169.254.'' \<longleftrightarrow> a = 169 \<and> b = 254"
    using one[of 0] one[of 127] one[of 10] one[of 255] one[of 172] two[of 192 168] two[of 169 254]
    by (simp_all only: octet_texts append_Cons append_Nil)
  have rest: "hd (split_on (CHR ''.'') (show_octet b @ CHR ''.'' # ?r)) = show_octet b"
    by (simp add: split_on_append sep_notin_octet)
  have "a = 172 \<Longrightarrow> drop (length ''172.'') ?s = show_octet b @ CHR ''.'' # ?r"
    by (simp add: octet_texts)
  then show ?thesis
    unfolding s is_routable_def pre strip_prefix_def
    by (cases "a = 172") (auto simp: rest parse_uint_octet)
qed

text \<open>The peer file accepts octets with leading zeros, which the blacklist does not recognise as
  addresses: such a spelling of a listed address is dialed.\<close>
lemma zero_padded_address_not_refused:
  "extract_ipv4 ''192.00.2.7'' = [''192.00.2.7''] \<and>
   connect (snd (reload (Some ''192.0.2.7'') None blacklist_init)) ''192.00.2.7:4001'' = Dialed ''192.00.2.7:4001''"
proof -
  have h: "host_of ''192.00.2.7:4001'' = ''192.00.2.7''"
    by (simp add: host_of_def parse_uint_def is_digit_def dec_val_def digit_val_def)
  have "parse_ipv4 (host_of ''192.00.2.7:4001'') = None"
    unfolding h by (simp add: parse_ipv4_def parse_octet_def)
  then have "\<not> bl_contains st ''192.00.2.7:4001''" for st by (simp add: bl_contains_def)
  moreover have "extract_ipv4 ''192.00.2.7'' = [''192.00.2.7'']"
    by (simp add: extract_ipv4.simps addr_char_def is_digit_def is_ipv4_def octet_token_def parse_uint_def
        dec_val_def digit_val_def is_routable_def starts_with_def strip_prefix_def)
  ultimately show ?thesis by (simp add: connect_def)
qed

end
