(* ===== verification/Push_Guards.thy ===== *)
theory Push_Guards
  imports Push_Session_Props
begin

text \<open>
  The guards of the active stream: what every forwarded block has passed, how far a hostile stream can
  move the session, when the stall timer fires, and who is blamed for the end of a session.
\<close>

section \<open>Guards of a forwarded block\<close>

text \<open>
  What a block of round \<open>rnd\<close> handled by pass \<open>i\<close> has passed, with \<open>p\<close> and \<open>st\<close> the pump's state when the pass began. It keeps
  up with the freshest stream: at most the lag allowed behind it, unless the node is backed up or the lag is younger
  than the grace.
\<close>

definition keeps_up :: "u32 \<Rightarrow> pump_input \<Rightarrow> block_progress \<Rightarrow> push_sess \<Rightarrow> bool" where
  "keeps_up rnd i p st \<longleftrightarrow>
     (\<forall>k peer own fr. ps_feed st = Some (k, peer, own) \<longrightarrow>
        freshest_get (i_tip i) (i_at i) (offer (i_tip i) k peer rnd (i_at i) (i_others i (ps_freshest st))) = Some fr \<longrightarrow>
        i_backed_lag i \<or>
        unat fr \<le> unat (max (p_last_round p) rnd) + unat (f_lag_rounds (i_others i (ps_freshest st))) \<or>
        i_at i - (case p_lag_since p of Some t \<Rightarrow> t | None \<Rightarrow> i_at i) < f_grace (i_others i (ps_freshest st)))"

definition passed :: "u32 \<Rightarrow> pump_input \<Rightarrow> block_progress \<Rightarrow> push_sess \<Rightarrow> bool" where
  "passed rnd i p st \<longleftrightarrow>
     (p_last_round p = 0 \<or> i_backed i \<or> i_now i - p_at p \<le> ACTIVE_BLOCK_STALL) \<and>
     is_plausible_mainnet_round rnd (i_tip i) \<and>
     (p_last_round p = 0 \<or> unat rnd \<le> unat (p_last_round p) + 20000) \<and>
     keeps_up rnd i p st \<and>
     round_lag_from_tip rnd (i_tip i) ACTIVE_ROUND_MAX_LAG = None \<and>
     i_floor i < rnd \<and> g_last_forwarded (ps_gate st) < rnd"

lemma on_round_bound:
  assumes "on_round rnd now p = Inr p1"
  shows "rnd \<le> p_last_round p1" "p_last_round p \<le> p_last_round p1"
    "p_last_round p \<noteq> 0 \<Longrightarrow> unat (p_last_round p1) \<le> unat (p_last_round p) + 20000"
  using assms unat_saturating_add[of "p_last_round p" MAX_ACTIVE_ROUND_JUMP]
  by (auto simp: on_round_def word_le_nat_alt word_less_nat_alt MAX_ACTIVE_ROUND_JUMP_def split: if_splits)

lemma lagging_last_round: "p_last_round (snd (lagging f fr b now p)) = p_last_round p"
  by (simp add: lagging_def Let_def split: option.splits)

lemma on_round_Inr:
  assumes "on_round rnd now p = Inr p1"
  shows "p_last_round p1 = max (p_last_round p) rnd" "p_lag_since p1 = p_lag_since p"
    "p_last_round p = 0 \<or> unat rnd \<le> unat (p_last_round p) + 20000"
proof -
  show "p_last_round p1 = max (p_last_round p) rnd" "p_lag_since p1 = p_lag_since p"
    using assms by (auto simp: on_round_def split: if_splits)
  show "p_last_round p = 0 \<or> unat rnd \<le> unat (p_last_round p) + 20000"
    using on_round_bound(1,3)[OF assms] by (cases "p_last_round p = 0") (auto simp: word_le_nat_alt)
qed

lemma lagging_keeps:
  assumes "fst (lagging f (Some fr) backed now p) = None" "p_last_round p \<noteq> 0"
  shows "backed \<or> unat fr \<le> unat (p_last_round p) + unat (f_lag_rounds f) \<or>
    now - (case p_lag_since p of Some t \<Rightarrow> t | None \<Rightarrow> now) < f_grace f"
  using assms by (auto simp: lagging_def behind_of_def Let_def word_nat word_le_nat_alt split: if_splits option.splits)

lemma offer_limits [simp]:
  "f_lag_rounds (offer tip k peer rnd now f) = f_lag_rounds f" "f_grace (offer tip k peer rnd now f) = f_grace f"
  by (simp_all add: offer_def Let_def split: prod.splits)

lemma gate_block_sends:
  assumes "gate_ok (ps_gate st)"
  shows "\<exists>fs. ps_sent (snd (gate_block floor rnd f st)) = ps_sent st @ fs \<and>
    (fs = [] \<or> fs = [f] \<and> floor < rnd \<and> g_last_forwarded (ps_gate st) < rnd)"
proof -
  obtain g' where "should_forward rnd True (ps_gate st) = (g_last_forwarded (ps_gate st) < rnd, g')"
    by (rule should_forward_active[OF assms])
  then show ?thesis by (auto simp: gate_block_def Let_def case_prod_beta)
qed

lemma pump_frame_sends:
  assumes "pump_frame D (i_floor i) (i_tip i) (i_backed_lag i) (i_at i) f (p1, st\<lparr>ps_freshest := i_others i (ps_freshest st)\<rparr>) = (r, p', st')"
    and "gate_ok (ps_gate st)" "p1 = p \<or> p1 = hold (i_now i) p" "\<not> stalled (i_now i) p1" "p1 = p \<or> i_backed i"
  shows "\<exists>fs. ps_sent st' = ps_sent st @ fs \<and>
    (\<forall>rnd \<in> set (sent_rounds D fs). frame_round D f = Some rnd \<and> rnd \<le> p_last_round p' \<and> passed rnd i p st)"
proof (cases "frame_round D f")
  case None
  with assms have "ps_sent st' = ps_sent st @ (if ps_writer_open st then [f] else [])"
    by (auto simp: pump_frame_def frame_round_def case_prod_beta Let_def split: if_splits option.splits)
  with None show ?thesis by auto
next
  case (Some rnd)
  then have f: "f ! 4 = 1" "block_round D (drop 5 f) = Some rnd"
    by (auto simp: frame_round_def split: if_splits)
  have p: "p_last_round p1 = p_last_round p" "p_lag_since p1 = p_lag_since p" using assms(3) by (auto simp: hold_def)
  show ?thesis
  proof (cases "is_plausible_mainnet_round rnd (i_tip i) \<and> (\<exists>p2. on_round rnd (i_at i) p1 = Inr p2)")
    case False
    with assms(1) f have "ps_sent st' = ps_sent st"
      by (auto simp: pump_frame_def Let_def split: sum.splits if_splits)
    then show ?thesis by auto
  next
    case True
    then obtain p2 where p2: "is_plausible_mainnet_round rnd (i_tip i)" "on_round rnd (i_at i) p1 = Inr p2" by blast
    let ?st = "st\<lparr>ps_freshest := i_others i (ps_freshest st)\<rparr>"
    let ?st1 = "feed_offer (i_tip i) rnd (i_at i) (?st\<lparr>ps_active_round := max (ps_active_round ?st) rnd\<rparr>)"
    let ?lag = "case ps_feed ?st1 of None \<Rightarrow> (None, p2)
      | Some _ \<Rightarrow> lagging (ps_freshest ?st1) (freshest_get (i_tip i) (i_at i) (ps_freshest ?st1)) (i_backed_lag i) (i_at i) p2"
    have last: "p_last_round p' = p_last_round p2"
      using assms(1) f p2 lagging_last_round[of "ps_freshest ?st1" "freshest_get (i_tip i) (i_at i) (ps_freshest ?st1)" "i_backed_lag i" "i_at i" p2]
      by (auto simp: pump_frame_def Let_def split: option.splits prod.splits)
    have st': "st' = ?st1 \<or> fst ?lag = None \<and> round_lag_from_tip rnd (i_tip i) ACTIVE_ROUND_MAX_LAG = None \<and>
        st' = snd (gate_block (i_floor i) rnd f ?st1)"
      using assms(1) f p2 by (auto simp: pump_frame_def Let_def split: option.splits prod.splits)
    have "p_last_round p2 \<noteq> 0" using on_round_Inr(1)[OF p2(2)] plausible_nonzero[OF p2(1)] by (auto simp: max_def split: if_splits)
    then have "keeps_up rnd i p st" if "fst ?lag = None"
      using that on_round_Inr(1,2)[OF p2(2)] lagging_keeps[of "ps_freshest ?st1" _ "i_backed_lag i" "i_at i" p2]
      by (fastforce simp: keeps_up_def feed_offer_def p)
    moreover have "p_last_round p = 0 \<or> i_backed i \<or> i_now i - p_at p \<le> ACTIVE_BLOCK_STALL"
      using assms(4,5) by (auto simp: stalled_def not_less)
    ultimately show ?thesis
      using st' gate_block_sends[of ?st1 "i_floor i" rnd f] on_round_Inr[OF p2(2)] p2(1) last Some assms(2)
      by (auto simp: passed_def p)
  qed
qed

lemma pump_frame_progress:
  assumes "pump_frame D floor tip backed now f (p, st) = (r, p', st')"
  shows "p_last_round p \<le> p_last_round p'"
    "p_last_round p \<noteq> 0 \<Longrightarrow> unat (p_last_round p') \<le> unat (p_last_round p) + 20000"
proof -
  have "p_last_round p' = p_last_round p \<or> (\<exists>rnd p1. on_round rnd now p = Inr p1 \<and> p_last_round p' = p_last_round p1)"
  proof (cases "frame_round D f")
    case None
    with assms show ?thesis
      by (auto simp: pump_frame_def frame_round_def case_prod_beta Let_def split: if_splits option.splits)
  next
    case (Some rnd)
    then have f: "f ! 4 = 1" "block_round D (drop 5 f) = Some rnd" by (auto simp: frame_round_def split: if_splits)
    have lg: "p_last_round q' = p_last_round q" if "lagging fr fo b t q = (x, q')" for fr fo b t q x q'
      using lagging_last_round[of fr fo b t q] that by simp
    from assms f show ?thesis
      by (auto simp: pump_frame_def Let_def split: sum.splits if_splits option.splits prod.splits dest: lg)
  qed
  then show "p_last_round p \<le> p_last_round p'"
    "p_last_round p \<noteq> 0 \<Longrightarrow> unat (p_last_round p') \<le> unat (p_last_round p) + 20000"
    using on_round_bound by fastforce+
qed

text \<open>The pass of a run that handled a block of round \<open>rnd\<close>, with the state the passes before it left.\<close>

definition handled_by :: "(bytes \<Rightarrow> bytes option) \<Rightarrow> pump_input list \<Rightarrow> block_progress \<times> push_sess \<Rightarrow> u32 \<Rightarrow> bool" where
  "handled_by D is x rnd \<longleftrightarrow>
     (\<exists>k < length is. \<exists>p st f. pump_merge D (take k is) x = (None, p, st) \<and> read_frame_checked (i_read (is ! k)) = Inr f \<and>
        frame_round D f = Some rnd \<and> passed rnd (is ! k) p st)"

lemma pump_merge_passes:
  assumes "pump_merge D is (p, st) = (res, p', st')" "serving D l st"
  shows "\<exists>fs. ps_sent st' = ps_sent st @ fs \<and>
    (\<forall>rnd \<in> set (sent_rounds D fs). handled_by D is (p, st) rnd \<and>
       (p_last_round p \<noteq> 0 \<longrightarrow> unat rnd \<le> unat (p_last_round p) + 20000 * length is))"
  using assms
proof (induction "is" arbitrary: p st)
  case (Cons i "is")
  let ?p = "if i_backed i then hold (i_now i) p else p"
  let ?st = "st\<lparr>ps_freshest := i_others i (ps_freshest st)\<rparr>"
  have lp: "p_last_round ?p = p_last_round p" by (simp add: hold_def)
  show ?case
  proof (cases "stalled (i_now i) ?p \<or> (\<exists>e. read_frame_checked (i_read i) = Inl e)")
    case True
    with Cons.prems(1) show ?thesis by (auto simp: Let_def split: if_splits sum.splits)
  next
    case False
    then obtain f where f: "\<not> stalled (i_now i) ?p" "read_frame_checked (i_read i) = Inr f"
      by (cases "read_frame_checked (i_read i)") auto
    obtain r p1 st1 where step: "pump_frame D (i_floor i) (i_tip i) (i_backed_lag i) (i_at i) f (?p, ?st) = (r, p1, st1)"
      by (cases "pump_frame D (i_floor i) (i_tip i) (i_backed_lag i) (i_at i) f (?p, ?st)")
    note g = pump_frame_progress[OF step, unfolded lp]
    have "gate_ok (ps_gate st)" "?p = p \<or> ?p = hold (i_now i) p" "?p = p \<or> i_backed i"
      using Cons.prems(2) by (auto simp: serving_def stream_ok_def)
    from pump_frame_sends[OF step this(1,2) f(1) this(3)] obtain fs where fs: "ps_sent st1 = ps_sent st @ fs"
      "\<forall>rnd \<in> set (sent_rounds D fs). frame_round D f = Some rnd \<and> rnd \<le> p_last_round p1 \<and> passed rnd i p st"
      by blast
    have first: "handled_by D (i # is) (p, st) rnd \<and>
        (p_last_round p \<noteq> 0 \<longrightarrow> unat rnd \<le> unat (p_last_round p) + 20000 * length (i # is))" if "rnd \<in> set (sent_rounds D fs)" for rnd
      using fs(2) that g(2) f(2) unfolding handled_by_def by (fastforce simp: word_le_nat_alt)
    show ?thesis
    proof (cases r)
      case None
      with Cons.prems(1) f step have run: "pump_merge D is (p1, st1) = (res, p', st')" by (simp add: Let_def)
      have "serving D l st1" using serving_pump_frame[of D l ?st] Cons.prems(2) step by (metis serving_fields(2) snd_conv)
      from Cons.IH[OF run this] obtain gs where gs: "ps_sent st' = ps_sent st1 @ gs"
        "\<forall>rnd \<in> set (sent_rounds D gs). handled_by D is (p1, st1) rnd \<and>
          (p_last_round p1 \<noteq> 0 \<longrightarrow> unat rnd \<le> unat (p_last_round p1) + 20000 * length is)" by blast
      have "handled_by D (i # is) (p, st) rnd" if "handled_by D is (p1, st1) rnd" for rnd
        using that f step None unfolding handled_by_def by (force simp: Let_def intro: exI[of _ "Suc _"])
      moreover have "p_last_round p \<noteq> 0 \<Longrightarrow> p_last_round p1 \<noteq> 0" using g(1) by (auto simp: word_le_nat_alt unat_eq_0[symmetric])
      ultimately show ?thesis
        using gs fs(1) first g(2) by (intro exI[of _ "fs @ gs"]) fastforce
    next
      case (Some x)
      with Cons.prems(1) f step have "st' = st1" by (simp add: Let_def)
      with fs(1) first show ?thesis by blast
    qed
  qed
qed simp

text \<open>C16. Every block the pump of a session forwards has passed all of its guards in the pass that handled it: the stream had
  not stalled, the round is plausible for the network tip, at most 20,000 above the last one, keeps up with the freshest
  stream, does not lag the network tip, is above the node's floor and above every round forwarded before. The rounds
  forwarded therefore ascend strictly, and no stream moves a session that has a round by more than 20,000 per frame. A
  session's gate and the stream it has sent are in order from its start on, with its queue to the node open.\<close>
theorem pump_merge_guards:
  assumes "pump_merge D is (p, st) = (res, p', st')" "serving D l st"
  shows "\<exists>fs. ps_sent st' = ps_sent st @ fs \<and> sorted_wrt (<) (g_last_forwarded (ps_gate st) # sent_rounds D fs) \<and>
    (\<forall>rnd \<in> set (sent_rounds D fs). handled_by D is (p, st) rnd \<and>
       (p_last_round p \<noteq> 0 \<longrightarrow> unat rnd \<le> unat (p_last_round p) + 20000 * length is))"
proof -
  obtain fs where fs: "ps_sent st' = ps_sent st @ fs" "\<forall>rnd \<in> set (sent_rounds D fs). handled_by D is (p, st) rnd \<and>
       (p_last_round p \<noteq> 0 \<longrightarrow> unat rnd \<le> unat (p_last_round p) + 20000 * length is)"
    using pump_merge_passes[OF assms] by blast
  have "serving D l st'" using serving_pump_merge[of D l "(p, st)" "is"] assms by simp
  then have "sorted_wrt (<) (l # sent_rounds D (ps_sent st) @ sent_rounds D fs)"
    by (simp add: serving_def stream_ok_def fs(1))
  moreover have "g_last_forwarded (ps_gate st) \<in> set (l # sent_rounds D (ps_sent st))"
    using assms(2) last_in_set[of "l # sent_rounds D (ps_sent st)"] by (simp add: serving_def stream_ok_def)
  ultimately have "sorted_wrt (<) (g_last_forwarded (ps_gate st) # sent_rounds D fs)"
    by (auto simp: sorted_wrt_append)
  with fs show ?thesis by blast
qed

definition sample_pass :: pump_input where
  "sample_pass = \<lparr>i_now = 1, i_at = 2, i_backed = False, i_backed_lag = False, i_tip = 1500000010, i_floor = 1500000002,
     i_others = id, i_read = [Chunk (take 3 (live_frame 3)), Chunk (drop 3 (live_frame 3))]\<rparr>"

lemma sample_pass_read: "read_frame_checked (i_read sample_pass) = Inr (live_frame 3)"
  by (simp add: sample_pass_def read_frame_checked_def live_frame_def encode_frame_def u32_to_be_bytes_def
      u32_to_le_bytes_def read_exact.simps be_len_def u32_from_be_bytes_def u32_from_le_bytes_def MAX_LIVE_FRAME_def Let_def)

lemma sample_pass_fields:
  "i_now sample_pass = 1" "i_at sample_pass = 2" "i_backed sample_pass = False" "i_backed_lag sample_pass = False"
  "i_tip sample_pass = 1500000010" "i_floor sample_pass = 1500000002" "i_others sample_pass = id"
  by (simp_all add: sample_pass_def)

lemma sample_pass_sends:
  "ps_sent (snd (snd (pump_merge (\<lambda>_. None) [sample_pass] (block_progress_new 1500000001 0, push_sess_start sample_config))))
     = [live_frame 3]"
proof -
  let ?g = "with_last_forwarded 16384 1500000001" and ?r = "1500000003"
  obtain g1 where g1: "should_forward ?r True ?g = (True, g1)"
    by (rule should_forward_active[OF gate_ok_new, of ?r 16384 1500000001]) (simp add: with_last_forwarded_def)
  have b: "block_round (\<lambda>_. None) (drop 5 (live_frame 3)) = Some ?r"
    using live_frame_round(2)[of "\<lambda>_. None"] by (simp add: frame_round_def live_frame_shape)
  show ?thesis
    by (simp add: sample_pass_fields sample_pass_read stalled_def block_progress_new_def
        ACTIVE_BLOCK_STALL_def from_secs_def pump_frame_def live_frame_shape b is_plausible_mainnet_round_def round_consts
        saturating_add_def MAX_ACTIVE_ROUND_JUMP_def on_round_def feed_offer_def push_sess_start_def sample_config_def
        round_lag_from_tip_def gate_block_def send_node_def g1 Let_def)
qed

theorem pump_merge_guards_witness:
  "handled_by (\<lambda>_. None) [sample_pass] (block_progress_new 1500000001 0, push_sess_start sample_config) 1500000003"
proof -
  let ?st = "push_sess_start sample_config"
  let ?m = "pump_merge (\<lambda>_. None) [sample_pass] (block_progress_new 1500000001 0, ?st)"
  have sv: "serving (\<lambda>_. None) 1500000001 ?st"
    using serving_start[of "\<lambda>_. None" sample_config] by (simp add: sample_config_def)
  obtain fs where "ps_sent (snd (snd ?m)) = ps_sent ?st @ fs"
    "\<forall>rnd \<in> set (sent_rounds (\<lambda>_. None) fs). handled_by (\<lambda>_. None) [sample_pass] (block_progress_new 1500000001 0, ?st) rnd"
    using pump_merge_guards[OF _ sv, of "[sample_pass]" "block_progress_new 1500000001 0" "fst ?m" "fst (snd ?m)" "snd (snd ?m)"]
    by auto
  moreover have "ps_sent ?st = []" by (simp add: push_sess_start_def)
  ultimately have "\<forall>rnd \<in> set (sent_rounds (\<lambda>_. None) [live_frame 3]).
      handled_by (\<lambda>_. None) [sample_pass] (block_progress_new 1500000001 0, ?st) rnd"
    using sample_pass_sends by (metis append_Nil)
  then show ?thesis by (simp add: live_frame_round)
qed

section \<open>Blame\<close>

text \<open>Who an ending event speaks against: the upstream, or the node, the proxy or nobody.\<close>

definition blames_upstream :: "sess_ev \<Rightarrow> bool" where
  "blames_upstream ev =
     (case ev of
        PeerBlacklisted \<Rightarrow> True
      | StallTick _ _ _ \<Rightarrow> True
      | PumpPass _ \<Rightarrow> True
      | NodeOutbound (Chunk _) _ \<Rightarrow> True
      | _ \<Rightarrow> False)"

lemma starts_with_append: "starts_with p q \<Longrightarrow> starts_with (p @ x) q"
  by (metis starts_with_def append_assoc append_eq_conv_conj append_take_drop_id)

lemma fault_append: "\<not> push_exit_is_upstream_fault p \<Longrightarrow> \<not> push_exit_is_upstream_fault (p @ x)"
  unfolding push_exit_is_upstream_fault_def by (simp only: not_not) (elim disjE; simp add: starts_with_append)

lemma fault_upstream:
  "push_exit_is_upstream_fault (''active peer blacklisted'' @ x)"
  "push_exit_is_upstream_fault (''active peer stalled behind the freshest stream by '' @ x)"
  "push_exit_is_upstream_fault (''active stream ended'' @ x)"
  "push_exit_is_upstream_fault (''active stream error: '' @ x)"
  "push_exit_is_upstream_fault (''node outbound write failed: '' @ x)"
  "push_exit_is_upstream_fault (''node outbound write timeout'' @ x)"
  "push_exit_is_upstream_fault (''active greeting read failed: '' @ x)"
  "push_exit_is_upstream_fault (''active peer full'' @ x)"
  "push_exit_is_upstream_fault (''prefetched frame processing failed: '' @ x)"
  by (simp_all add: push_exit_is_upstream_fault_def starts_with_def RETURNING_TO_PRIORITY_def NODE_CATCHUP_STUCK_def)

lemma fault_other:
  "\<not> push_exit_is_upstream_fault (''active superseded by failover'' @ x)"
  "\<not> push_exit_is_upstream_fault (''node write failed: '' @ x)"
  "\<not> push_exit_is_upstream_fault (''node write timeout'' @ x)"
  "\<not> push_exit_is_upstream_fault (''node greeting write failed: '' @ x)"
  "\<not> push_exit_is_upstream_fault (''node outbound ended'' @ x)"
  "\<not> push_exit_is_upstream_fault (''node outbound task join error: '' @ x)"
  "\<not> push_exit_is_upstream_fault (''active task join error: '' @ x)"
  "\<not> push_exit_is_upstream_fault (''active lag logger ended'' @ x)"
  "\<not> push_exit_is_upstream_fault (''active lag logger task join error: '' @ x)"
  by (simp_all add: push_exit_is_upstream_fault_def starts_with_def)

lemmas fault_simps = fault_upstream [simplified] fault_other [simplified]

text \<open>The upstream is blamed for the end of a session exactly when the event that ended it is the
  upstream's doing: its stream failed, stalled or ended, it stopped taking the node's bytes, or it was
  blacklisted. The node leaving or not reading, a failover of the proxy, a return to a priority peer and
  a task that panicked blame nobody upstream.\<close>
theorem serve_event_blame:
  assumes "serve_event D msg ev s = (Some reason, s')"
    and "\<And>q. ev = EndWhen q \<Longrightarrow> starts_with q RETURNING_TO_PRIORITY \<or> starts_with q NODE_CATCHUP_STUCK"
  shows "push_exit_is_upstream_fault (reason @ '' stats=['' @ summary @ '']'') \<longleftrightarrow> blames_upstream ev"
proof (cases ev)
  case (EndWhen q)
  with assms have "\<not> push_exit_is_upstream_fault reason"
    by (auto simp: serve_event_def push_exit_is_upstream_fault_def)
  with EndWhen show ?thesis by (simp add: blames_upstream_def fault_append)
next
  case (StallTick fr b now)
  with assms(1) show ?thesis
    by (auto simp: serve_event_def blames_upstream_def case_prod_beta fault_simps split: option.splits)
next
  case (NodeWrite w)
  with assms(1) show ?thesis
    by (auto simp: serve_event_def blames_upstream_def Let_def fault_simps split: write_res.splits if_splits)
next
  case (NodeOutbound r w)
  with assms(1) show ?thesis
    by (auto simp: serve_event_def blames_upstream_def node_outbound_def fault_simps
        split: rd_ev.splits write_res.splits if_splits)
next
  case (PumpPass i)
  with assms(1) have "\<exists>x :: push_error + unit. reason = active_exit_reason msg (case x of Inl e \<Rightarrow> PumpErr e | Inr _ \<Rightarrow> PumpOk)"
    by (auto simp: serve_event_def simp del: pump_merge.simps split: prod.splits)
  then obtain x :: "push_error + unit" where "reason = active_exit_reason msg (case x of Inl e \<Rightarrow> PumpErr e | Inr _ \<Rightarrow> PumpOk)" ..
  with PumpPass show ?thesis
    by (cases x) (simp_all add: blames_upstream_def active_exit_reason_def fault_simps)
next
  case (LagLogEnded e)
  with assms(1) show ?thesis
    by (cases e) (auto simp: serve_event_def blames_upstream_def fault_simps)
qed (use assms(1) in \<open>auto simp: serve_event_def blames_upstream_def active_exit_reason_def fault_simps\<close>)

theorem serve_event_blame_witness:
  "push_exit_is_upstream_fault (''node outbound write timeout'' @ '' stats=['' @ [] @ '']'')"
proof -
  let ?s = "\<lparr>sv_progress = block_progress_new 0 0, sv_sess = push_sess_start sample_config, sv_written = [],
    sv_stall = stalled_behind_new STALL_LAG_ROUNDS STALL_LAG_GRACE STALL_LAG_WIDEN\<rparr>"
  have "serve_event (\<lambda>_. None) (\<lambda>_. []) (NodeOutbound (Chunk [1]) WriteTimeout) ?s = (Some ''node outbound write timeout'', ?s)"
    by (simp add: serve_event_def node_outbound_def)
  from serve_event_blame[OF this, of "[]"] show ?thesis
    by (simp add: blames_upstream_def)
qed

section \<open>The stall timer\<close>

type_synonym stall_tick = "u32 \<times> u32 option \<times> bool \<times> instant"

definition stall_tick_step :: "stall_tick \<Rightarrow> stalled_behind \<Rightarrow> stalled_behind" where
  "stall_tick_step = (\<lambda>(own, fr, backed, now) s. snd (stalled_check own fr backed now s))"

definition tick_behind :: "u32 \<Rightarrow> stall_tick \<Rightarrow> bool" where
  "tick_behind rounds = (\<lambda>(own, fr, backed, now). own \<noteq> 0 \<and> \<not> backed \<and> rounds \<le> behind_of fr own)"

lemma stall_params [simp]:
  "s_rounds (fold stall_tick_step ts s) = s_rounds s"
  "s_grace (fold stall_tick_step ts s) = s_grace s"
  "s_widen (fold stall_tick_step ts s) = s_widen s"
  by (induction ts arbitrary: s)
    (auto simp: stall_tick_step_def stalled_check_def Let_def case_prod_beta)

lemma stall_tick_since:
  "s_since (stall_tick_step (own, fr, backed, now) s) =
     (if tick_behind (s_rounds s) (own, fr, backed, now)
      then Some (case s_since s of Some x \<Rightarrow> x | None \<Rightarrow> (now, behind_of fr own)) else None)"
  by (auto simp: stall_tick_step_def stalled_check_def tick_behind_def Let_def case_prod_beta not_less split: option.splits)

lemma stalled_behind_new_fields [simp]:
  "s_rounds (stalled_behind_new rounds grace widen) = rounds"
  "s_grace (stalled_behind_new rounds grace widen) = grace"
  "s_widen (stalled_behind_new rounds grace widen) = widen"
  "s_since (stalled_behind_new rounds grace widen) = None"
  by (simp_all add: stalled_behind_new_def)

lemma stall_since_run:
  "s_since (fold stall_tick_step ts (stalled_behind_new rounds grace widen)) =
     (case takeWhile (tick_behind rounds) (rev ts) of
        [] \<Rightarrow> None
      | x # xs \<Rightarrow> (case last (x # xs) of (own, fr, _, t) \<Rightarrow> Some (t, behind_of fr own)))"
proof (induction ts rule: rev_induct)
  case (snoc t ts)
  obtain own fr backed now where t: "t = (own, fr, backed, now)" by (cases t)
  show ?case
    unfolding t by (simp add: stall_tick_since snoc split: list.splits) (auto split: prod.splits)
qed simp

text \<open>The stall check fires exactly when the stream has been at least the set number of rounds behind at
  every check of an unbroken run reaching back at least the grace period, none of them with the node
  holding the stream back, and has fallen the further number of rounds behind since the first of them.\<close>
theorem stalled_check_fires:
  "fst (stalled_check own fr backed now (fold stall_tick_step ts (stalled_behind_new rounds grace widen))) =
     (if \<not> tick_behind rounds (own, fr, backed, now) then None
      else (case last ((own, fr, backed, now) # takeWhile (tick_behind rounds) (rev ts)) of
          (own0, fr0, _, t0) \<Rightarrow>
            if grace \<le> now - t0 \<and> saturating_add (behind_of fr0 own0) widen \<le> behind_of fr own
            then Some (behind_of fr own) else None))"
  unfolding stalled_check_def stall_since_run stall_params stalled_behind_new_fields Let_def
  by (cases "takeWhile (tick_behind rounds) (rev ts)") (auto simp: tick_behind_def not_less split: prod.splits)

section \<open>Relays\<close>

text \<open>Bytes a relay event carries when it does not end the relay.\<close>

fun carried_to_node :: "relay_ev \<Rightarrow> nat" where
  "carried_to_node (FromPeer (Chunk bs) Wrote) = length bs"
| "carried_to_node _ = 0"

fun carried_to_peer :: "relay_ev \<Rightarrow> nat" where
  "carried_to_peer (FromNode (Chunk bs) Wrote) = length bs"
| "carried_to_peer _ = 0"

text \<open>The events that end a relay, and whether the upstream ended it.\<close>

fun relay_end :: "bool \<Rightarrow> relay_ev \<Rightarrow> bool option" where
  "relay_end idle RelayBlacklisted = Some True"
| "relay_end idle (FromNode (Chunk bs) w) = (if bs = [] \<or> w = Wrote then None else Some True)"
| "relay_end idle (FromNode Quiet w) = None"
| "relay_end idle (FromNode r w) = Some False"
| "relay_end idle (FromPeer (Chunk bs) w) = (if bs = [] \<or> w = Wrote then None else Some False)"
| "relay_end idle (FromPeer Quiet w) = (if idle then Some True else None)"
| "relay_end idle (FromPeer r w) = Some True"

fun from_node :: "relay_ev \<Rightarrow> bool" where
  "from_node (FromNode r w) = True"
| "from_node _ = False"

text \<open>A relay ends at its first ending event, blames the side that caused it, and reports every byte it
  wrote to the node. The bytes it wrote to the peer are reported only when the node's side ended it:
  otherwise the count is zero, whatever was carried.\<close>
theorem splice_reports:
  "splice_with_idle idle evs n c =
     (case dropWhile (\<lambda>e. relay_end idle e = None) evs of
        [] \<Rightarrow> None
      | e # _ \<Rightarrow>
          (let before = takeWhile (\<lambda>e. relay_end idle e = None) evs
           in Some \<lparr>to_node = n + sum_list (map carried_to_node before),
                    to_peer = (if from_node e then c + sum_list (map carried_to_peer before) else 0),
                    upstream_ended = the (relay_end idle e)\<rparr>))"
proof (induction idle evs n c rule: splice_with_idle.induct)
  case (3 idle r w evs n copied)
  then show ?case
    by (cases "dropWhile (\<lambda>e. relay_end idle e = None) evs"; cases r; cases w) (auto simp: copy_step_def Let_def simp del: dropWhile_eq_Nil_conv)
next
  case (4 idle r w evs n copied)
  then show ?case
    by (cases "dropWhile (\<lambda>e. relay_end idle e = None) evs"; cases r; cases w) (auto simp: push_step_def Let_def simp del: dropWhile_eq_Nil_conv)
qed simp_all

end
