(* ===== verification/Node_State.thy ===== *)
theory Node_State
  imports Blacklist "HOL-Library.AList" "HOL-Library.Product_Lexorder"
begin

text \<open>
  Per-node session state and its registry, \<open>gateway/node.rs\<close>: the active pin with its epochs, the catch-up
  run judged by the stuck watchdog, rate limits, and the eviction of idle nodes. A prefetched range is
  an opaque value here.
\<close>

section \<open>Node addresses\<close>

text \<open>Rust's \<open>IpAddr\<close>: every V4 address is below every V6 one, and octets compare from the left.\<close>

datatype ip_addr = V4 "32 word" | V6 "128 word"

fun ip_rank :: "ip_addr \<Rightarrow> nat \<times> nat" where
  "ip_rank (V4 a) = (0, unat a)"
| "ip_rank (V6 a) = (1, unat a)"

lemma ip_rank_inj: "ip_rank a = ip_rank b \<Longrightarrow> a = b"
  by (cases a; cases b) (auto simp: word_unat_eq_iff)

instantiation ip_addr :: linorder
begin

definition less_eq_ip_addr :: "ip_addr \<Rightarrow> ip_addr \<Rightarrow> bool" where
  "less_eq_ip_addr a b \<longleftrightarrow> ip_rank a \<le> ip_rank b"

definition less_ip_addr :: "ip_addr \<Rightarrow> ip_addr \<Rightarrow> bool" where
  "less_ip_addr a b \<longleftrightarrow> ip_rank a < ip_rank b"

instance
  by standard (auto simp: less_eq_ip_addr_def less_ip_addr_def less_le_not_le intro: ip_rank_inj order.trans)

end

section \<open>State\<close>

record active_peer =
  ap_ip :: ip
  ap_epoch :: nat

record client_block_run =
  r_since :: instant
  r_last :: instant
  r_samples :: "(instant \<times> u32 option \<times> u32) list"

record 'p node_state =
  n_ip :: ip_addr
  n_active :: "active_peer option"
  n_next_active_epoch :: nat
  n_last_cache_replay_secs :: nat
  n_live_floor :: u32
  n_last_seen_secs :: nat
  n_open_conns :: nat
  n_lazy_active :: bool
  n_rpc_peer :: "ip option"
  n_replay_in_flight :: bool
  n_last_repin_attempt :: "instant option"
  n_last_catchup_cut :: "instant option"
  n_last_client_blocks :: "client_block_run option"
  n_prefetch :: "'p option"

definition node_state_new :: "ip_addr \<Rightarrow> nat \<Rightarrow> 'p node_state" where
  "node_state_new a now =
     \<lparr>n_ip = a, n_active = None, n_next_active_epoch = 0, n_last_cache_replay_secs = 0, n_live_floor = 0,
      n_last_seen_secs = now, n_open_conns = 0, n_lazy_active = False, n_rpc_peer = None,
      n_replay_in_flight = False, n_last_repin_attempt = None, n_last_catchup_cut = None,
      n_last_client_blocks = None, n_prefetch = None\<rparr>"

section \<open>Pins\<close>

definition unpin_blacklisted :: "blacklist \<Rightarrow> active_peer option \<Rightarrow> active_peer option" where
  "unpin_blacklisted bl a =
     (case a of Some p \<Rightarrow> if bl_contains bl (ap_ip p) then None else a | None \<Rightarrow> None)"

definition pin_active :: "ip \<Rightarrow> 'p node_state \<Rightarrow> active_peer \<times> 'p node_state" where
  "pin_active a n =
     (let peer = \<lparr>ap_ip = a, ap_epoch = n_next_active_epoch n + 1\<rparr>
      in (peer, n\<lparr>n_next_active_epoch := n_next_active_epoch n + 1, n_prefetch := None,
                  n_active := Some peer, n_lazy_active := False, n_rpc_peer := None\<rparr>))"

text \<open>Its steps, one after the other: the epoch is taken from the counter, the prefetch is dropped, and only then the pin
  is stored under its lock. Other pins may come in between.\<close>

definition pin_epoch :: "ip \<Rightarrow> 'p node_state \<Rightarrow> active_peer" where
  "pin_epoch a n = \<lparr>ap_ip = a, ap_epoch = n_next_active_epoch n + 1\<rparr>"

definition pin_bump :: "'p node_state \<Rightarrow> 'p node_state" where
  "pin_bump n = n\<lparr>n_next_active_epoch := n_next_active_epoch n + 1\<rparr>"

definition pin_drop :: "'p node_state \<Rightarrow> 'p node_state" where
  "pin_drop n = n\<lparr>n_prefetch := None\<rparr>"

definition pin_store :: "active_peer \<Rightarrow> 'p node_state \<Rightarrow> 'p node_state" where
  "pin_store peer n = n\<lparr>n_active := Some peer, n_lazy_active := False, n_rpc_peer := None\<rparr>"

definition pin_generation :: "'p node_state \<Rightarrow> nat" where
  "pin_generation n = n_next_active_epoch n"

definition pin_lazy_active :: "blacklist \<Rightarrow> ip \<Rightarrow> 'p node_state \<Rightarrow> active_peer \<times> 'p node_state" where
  "pin_lazy_active bl a n =
     (let n1 = n\<lparr>n_active := unpin_blacklisted bl (n_active n)\<rparr>
      in case n_active n1 of
           Some peer \<Rightarrow> (peer, n1)
         | None \<Rightarrow>
             (let peer = \<lparr>ap_ip = a, ap_epoch = n_next_active_epoch n1 + 1\<rparr>
              in (peer, n1\<lparr>n_next_active_epoch := n_next_active_epoch n1 + 1, n_prefetch := None,
                           n_active := Some peer, n_lazy_active := True\<rparr>)))"

definition active_snapshot :: "blacklist \<Rightarrow> 'p node_state \<Rightarrow> active_peer option \<times> 'p node_state" where
  "active_snapshot bl n =
     (let n1 = n\<lparr>n_active := unpin_blacklisted bl (n_active n)\<rparr> in (n_active n1, n1))"

definition active_session_snapshot :: "blacklist \<Rightarrow> 'p node_state \<Rightarrow> active_peer option \<times> 'p node_state" where
  "active_session_snapshot bl n =
     (let n1 = n\<lparr>n_active := unpin_blacklisted bl (n_active n)\<rparr>
      in (if n_lazy_active n1 then None else n_active n1, n1))"

definition active_is_current :: "active_peer \<Rightarrow> 'p node_state \<Rightarrow> bool" where
  "active_is_current peer n \<longleftrightarrow> n_active n = Some peer"

definition clear_active_if_current :: "active_peer \<Rightarrow> 'p node_state \<Rightarrow> 'p node_state" where
  "clear_active_if_current peer n = (if n_active n = Some peer then n\<lparr>n_active := None\<rparr> else n)"

definition has_active_session :: "blacklist \<Rightarrow> 'p node_state \<Rightarrow> bool \<times> 'p node_state" where
  "has_active_session bl n =
     (let n1 = n\<lparr>n_active := unpin_blacklisted bl (n_active n)\<rparr>
      in (n_active n1 \<noteq> None \<and> \<not> n_lazy_active n1, n1))"

section \<open>Catch-up runs\<close>

definition CATCHUP_RUN_GAP :: duration where "CATCHUP_RUN_GAP = from_secs 60"

definition CATCHUP_PROGRESS_ROUNDS :: u32 where "CATCHUP_PROGRESS_ROUNDS = 150"

definition CATCHUP_CLOSING_ROUNDS :: u32 where "CATCHUP_CLOSING_ROUNDS = 50"

definition CATCHUP_LOOP_MAX_WIDTH :: u32 where "CATCHUP_LOOP_MAX_WIDTH = 64"

definition CATCHUP_SAMPLE_SPAN :: duration where "CATCHUP_SAMPLE_SPAN = from_secs (5 * 60)"

definition CATCHUP_MAX_SAMPLES :: nat where "CATCHUP_MAX_SAMPLES = 1024"

definition median_u32 :: "u32 list \<Rightarrow> u32" where
  "median_u32 v = (let s = sort v; i = length s div 2 in if i < length s then s ! i else 0)"

text \<open>Samples past the count cap leave from the front, and the run starts after the last of them.\<close>

fun cap_samples :: "nat \<Rightarrow> instant \<Rightarrow> (instant \<times> u32 option \<times> u32) list
    \<Rightarrow> instant \<times> (instant \<times> u32 option \<times> u32) list" where
  "cap_samples n since [] = (since, [])"
| "cap_samples n since ((t, b, w) # xs) =
     (if n < length ((t, b, w) # xs) then cap_samples n (max since t) xs else (since, (t, b, w) # xs))"

definition mark_client_blocks_response ::
  "instant \<Rightarrow> u32 option \<Rightarrow> u32 \<Rightarrow> 'p node_state \<Rightarrow> 'p node_state" where
  "mark_client_blocks_response now behind width n =
     n\<lparr>n_last_client_blocks := Some
        (let fresh = \<lparr>r_since = now, r_last = now, r_samples = [(now, behind, width)]\<rparr>
         in case n_last_client_blocks n of
              Some r \<Rightarrow>
                if now - r_last r < CATCHUP_RUN_GAP then
                  (let recent = dropWhile (\<lambda>(t, _, _). CATCHUP_SAMPLE_SPAN < now - t) (r_samples r @ [(now, behind, width)]);
                       (since, kept) = cap_samples CATCHUP_MAX_SAMPLES (r_since r) recent
                   in \<lparr>r_since = since, r_last = now, r_samples = kept\<rparr>)
                else fresh
            | None \<Rightarrow> fresh)\<rparr>"

definition run_within :: "instant \<Rightarrow> duration \<Rightarrow> 'p node_state \<Rightarrow> client_block_run option" where
  "run_within now quiet n =
     (case n_last_client_blocks n of
        Some r \<Rightarrow> if now - r_last r < quiet then Some r else None
      | None \<Rightarrow> None)"

fun all_known :: "u32 option list \<Rightarrow> u32 list option" where
  "all_known [] = Some []"
| "all_known (None # xs) = None"
| "all_known (Some x # xs) = map_option ((#) x) (all_known xs)"

definition catchup_still :: "u32 list \<Rightarrow> u32 list \<Rightarrow> bool" where
  "catchup_still d widths =
     (let lo = Min (set d); hi = Max (set d); third = max 1 (length d div 3);
          closing = CATCHUP_CLOSING_ROUNDS \<le> saturating_sub (median_u32 (take third d)) (median_u32 (drop (length d - third) d));
          small_ranges = median_u32 widths < CATCHUP_LOOP_MAX_WIDTH
      in hi - lo < CATCHUP_PROGRESS_ROUNDS \<and> \<not> closing \<and> small_ranges)"

definition client_blocks_stalled ::
  "instant \<Rightarrow> duration \<Rightarrow> duration \<Rightarrow> 'p node_state \<Rightarrow> (bool \<times> u32 option) option" where
  "client_blocks_stalled now quiet window n =
     (case run_within now quiet n of
        None \<Rightarrow> None
      | Some r \<Rightarrow>
          (let behind = (if r_samples r = [] then None else fst (snd (last (r_samples r))))
           in if now < window then Some (False, behind)
              else (let start = now - window;
                        inw = filter (\<lambda>(t, _, _). start < t) (r_samples r)
                    in if start < r_since r then Some (False, behind)
                       else (case all_known (map (\<lambda>(_, b, _). b) inw) of
                               None \<Rightarrow> Some (False, behind)
                             | Some d \<Rightarrow>
                                 if d = [] then Some (False, behind)
                                 else Some (catchup_still d (map (\<lambda>(_, _, w). w) inw), behind)))))"

definition client_blocks_run_since :: "instant \<Rightarrow> duration \<Rightarrow> 'p node_state \<Rightarrow> instant option" where
  "client_blocks_run_since now quiet n = map_option r_since (run_within now quiet n)"

section \<open>Rate limits\<close>

definition claim_every :: "instant \<Rightarrow> duration \<Rightarrow> instant option \<Rightarrow> bool \<times> instant option" where
  "claim_every now every last_at =
     (if (case last_at of Some t \<Rightarrow> now - t < every | None \<Rightarrow> False) then (False, last_at) else (True, Some now))"

definition forget_repin_attempt :: "'p node_state \<Rightarrow> 'p node_state" where
  "forget_repin_attempt n = n\<lparr>n_last_repin_attempt := None\<rparr>"

definition claim_repin_attempt :: "instant \<Rightarrow> duration \<Rightarrow> 'p node_state \<Rightarrow> bool \<times> 'p node_state" where
  "claim_repin_attempt now retry n =
     (let (ok, l) = claim_every now retry (n_last_repin_attempt n) in (ok, n\<lparr>n_last_repin_attempt := l\<rparr>))"

definition claim_catchup_cut :: "instant \<Rightarrow> duration \<Rightarrow> 'p node_state \<Rightarrow> bool \<times> 'p node_state" where
  "claim_catchup_cut now retry n =
     (let (ok, l) = claim_every now retry (n_last_catchup_cut n) in (ok, n\<lparr>n_last_catchup_cut := l\<rparr>))"

section \<open>Registry\<close>

definition NODE_STATE_CAP :: nat where "NODE_STATE_CAP = 256"

definition NODE_STATE_TTL_SECS :: nat where "NODE_STATE_TTL_SECS = 60 * 60"

definition node_conn_guard_drop :: "nat \<Rightarrow> 'p node_state \<Rightarrow> 'p node_state" where
  "node_conn_guard_drop now n = n\<lparr>n_last_seen_secs := now, n_open_conns := n_open_conns n - 1\<rparr>"

definition node_state_evict_keys ::
  "(ip_addr \<times> nat \<times> bool) list \<Rightarrow> nat \<Rightarrow> nat \<Rightarrow> nat \<Rightarrow> ip_addr list" where
  "node_state_evict_keys entries now cap ttl =
     (let evict = map fst (filter (\<lambda>(_, seen, held). \<not> held \<and> ttl < now - seen) entries);
          evictable = map (\<lambda>(a, seen, _). (seen, a)) (filter (\<lambda>(_, seen, held). \<not> held \<and> now - seen \<le> ttl) entries);
          kept = length entries - length evict
      in if cap < kept + 1 then
           evict @ map snd (take (min (kept + 1 - cap) (length evictable)) (sort evictable))
         else evict)"

type_synonym 'p node_registry = "(ip_addr \<times> 'p node_state) list"

definition node_entries :: "'p node_registry \<Rightarrow> (ip_addr \<times> nat \<times> bool) list" where
  "node_entries reg = map (\<lambda>(a, n). (a, n_last_seen_secs n, 0 < n_open_conns n)) reg"

definition get_or_insert :: "ip_addr \<Rightarrow> nat \<Rightarrow> 'p node_registry \<Rightarrow> 'p node_state \<times> 'p node_registry" where
  "get_or_insert a now reg =
     (case map_of reg a of
        Some n \<Rightarrow>
          (let n1 = n\<lparr>n_last_seen_secs := now, n_open_conns := n_open_conns n + 1\<rparr>
           in (n1, AList.update a n1 reg))
      | None \<Rightarrow>
          (let reg1 = fold AList.delete (node_state_evict_keys (node_entries reg) now NODE_STATE_CAP NODE_STATE_TTL_SECS) reg;
               n = (node_state_new a now)\<lparr>n_open_conns := 1\<rparr>
           in (n, AList.update a n reg1)))"

end
