(* ===== verification/Node_Props.thy ===== *)
theory Node_Props
  imports Node_State "HOL-Library.Multiset"
begin

text \<open>
  Properties of the node registry and of the active pin: how far the registry can grow and who is kept,
  that a session's guard never clears the pin of a later session, and the rate limit of claims.
\<close>

section \<open>Registry\<close>

definition held :: "'p node_registry \<Rightarrow> ip_addr set" where
  "held reg = {a. \<exists>n. map_of reg a = Some n \<and> 0 < n_open_conns n}"

lemma fold_delete: "fold AList.delete ks m = filter (\<lambda>p. fst p \<notin> set ks) m"
  by (induction ks arbitrary: m) (auto simp: AList.delete_eq split_def conj_commute eq_commute intro!: filter_cong)

definition expired :: "nat \<Rightarrow> nat \<Rightarrow> ip_addr \<times> nat \<times> bool \<Rightarrow> bool" where
  "expired now ttl = (\<lambda>(_, seen, hd). \<not> hd \<and> ttl < now - seen)"

definition idle :: "nat \<Rightarrow> nat \<Rightarrow> ip_addr \<times> nat \<times> bool \<Rightarrow> bool" where
  "idle now ttl = (\<lambda>(_, seen, hd). \<not> hd \<and> now - seen \<le> ttl)"

definition oldest :: "(ip_addr \<times> nat \<times> bool) list \<Rightarrow> nat \<Rightarrow> nat \<Rightarrow> ip_addr list" where
  "oldest es now ttl = map snd (sort (map (\<lambda>(a, seen, _). (seen, a)) (filter (idle now ttl) es)))"

lemma evict_eq:
  "node_state_evict_keys es now cap ttl =
     map fst (filter (expired now ttl) es) @
     take (length es - length (filter (expired now ttl) es) + 1 - cap) (oldest es now ttl)"
  unfolding node_state_evict_keys_def expired_def idle_def oldest_def Let_def
  by (simp add: take_map min_def)

lemma oldest_props:
  assumes "distinct (map fst es)"
  shows "distinct (oldest es now ttl)" "set (oldest es now ttl) = fst ` set (filter (idle now ttl) es)"
    "length (oldest es now ttl) = length (filter (idle now ttl) es)"
proof -
  have m: "map snd (map (\<lambda>(a, seen, _). (seen, a)) xs) = map fst (xs :: (ip_addr \<times> nat \<times> bool) list)" for xs
    by (induction xs) auto
  have "mset (oldest es now ttl) = mset (map fst (filter (idle now ttl) es))"
    unfolding oldest_def m[symmetric] mset_map mset_sort ..
  moreover have "distinct (map fst (filter (idle now ttl) es))"
    using assms by (rule distinct_map_filter)
  ultimately show "distinct (oldest es now ttl)" "set (oldest es now ttl) = fst ` set (filter (idle now ttl) es)"
    "length (oldest es now ttl) = length (filter (idle now ttl) es)"
    by (metis mset_eq_imp_distinct_iff, metis set_map set_mset_mset, metis length_map size_mset)
qed

lemma distinct_evict: "distinct (map fst es) \<Longrightarrow> distinct (node_state_evict_keys es now cap ttl)"
proof -
  assume d: "distinct (map fst es)"
  have "fst ` set (filter (expired now ttl) es) \<inter> fst ` set (filter (idle now ttl) es) = {}"
    using d by (auto simp: expired_def idle_def distinct_map inj_on_def) (metis fst_conv not_le prod.inject)
  moreover have "set (take k (oldest es now ttl)) \<subseteq> fst ` set (filter (idle now ttl) es)" for k
    using oldest_props(2)[OF d, of now ttl] set_take_subset[of k "oldest es now ttl"] by simp
  ultimately have "set (map fst (filter (expired now ttl) es)) \<inter> set (take k (oldest es now ttl)) = {}" for k
    unfolding set_map by blast
  then show ?thesis
    using oldest_props(1)[OF d, of now ttl] distinct_map_filter[OF d]
    unfolding evict_eq distinct_append by (blast intro: distinct_take)
qed

lemma evict_keys_unheld:
  assumes "distinct (map fst es)" "a \<in> set (node_state_evict_keys es now cap ttl)"
  shows "\<exists>seen. (a, seen, False) \<in> set es"
proof -
  have "a \<in> fst ` set (filter (expired now ttl) es) \<or> a \<in> fst ` set (filter (idle now ttl) es)"
    using assms(2) oldest_props(2)[OF assms(1), of now ttl] unfolding evict_eq by (metis Un_iff in_set_takeD set_append set_map)
  then show ?thesis by (auto simp: expired_def idle_def)
qed

text \<open>What eviction leaves: at most the cap less the new entry, or the held entries.\<close>

lemma evict_leaves:
  assumes "distinct (map fst es)"
  shows "length es + 1 \<le> max cap (length (filter (\<lambda>e. snd (snd e)) es) + 1) + length (node_state_evict_keys es now cap ttl)"
proof -
  have split3: "length xs = length (filter (expired now ttl) xs) + length (filter (idle now ttl) xs) + length (filter (\<lambda>e. snd (snd e)) xs)" for xs
    by (induction xs) (auto simp: expired_def idle_def)
  have "length (node_state_evict_keys es now cap ttl) = length (filter (expired now ttl) es)
      + min (length es - length (filter (expired now ttl) es) + 1 - cap) (length (filter (idle now ttl) es))"
    using oldest_props(3)[OF assms, of now ttl] by (simp add: evict_eq min_def)
  then show ?thesis using split3[of es] by linarith
qed

lemma map_of_filter_keys: "map_of (filter (\<lambda>p. fst p \<notin> S) m) b = (if b \<in> S then None else map_of m b)"
  by (induction m) auto

lemma length_update_fresh: "k \<notin> fst ` set m \<Longrightarrow> length (AList.update k v m) = length m + 1"
  by (induction m) auto

lemma node_entries_keys [simp]: "map fst (node_entries reg) = map fst reg"
  by (simp add: node_entries_def split_def comp_def)

lemma held_card:
  assumes "distinct (map fst reg)"
  shows "length (filter (\<lambda>e. snd (snd e)) (node_entries reg)) = card (held reg)"
proof -
  let ?h = "filter (\<lambda>p. 0 < n_open_conns (snd p)) reg"
  have "held reg = set (map fst ?h)"
    using assms by (force simp: held_def)
  moreover have "distinct (map fst ?h)" using assms by (rule distinct_map_filter)
  ultimately have "card (held reg) = length ?h" by (metis distinct_card length_map)
  then show ?thesis by (simp add: node_entries_def filter_map comp_def split_def)
qed

text \<open>C31. A connecting node gets its state with its connection counted. Nobody with an open connection is
  ever evicted, states of the others are kept as they were or dropped, and admitting a new node leaves
  at most 256 entries, or the nodes with open connections and the new one if those are more.\<close>
theorem get_or_insert_bounded:
  assumes "distinct (map fst reg)" "get_or_insert a now reg = (n, reg')"
  shows "distinct (map fst reg') \<and> map_of reg' a = Some n \<and> 0 < n_open_conns n \<and>
    (\<forall>b. b \<noteq> a \<longrightarrow> b \<in> held reg \<longrightarrow> map_of reg' b = map_of reg b) \<and>
    (\<forall>b. b \<noteq> a \<longrightarrow> map_of reg' b \<noteq> None \<longrightarrow> map_of reg' b = map_of reg b) \<and>
    (map_of reg a = None \<longrightarrow> length reg' \<le> max NODE_STATE_CAP (card (held reg) + 1))"
proof (cases "map_of reg a")
  case (Some m)
  with assms show ?thesis
    by (auto simp: get_or_insert_def Let_def distinct_update update_conv')
next
  case None
  let ?ks = "node_state_evict_keys (node_entries reg) now NODE_STATE_CAP NODE_STATE_TTL_SECS"
  let ?r = "filter (\<lambda>p. fst p \<notin> set ?ks) reg"
  have n: "n = (node_state_new a now)\<lparr>n_open_conns := 1\<rparr>" and r': "reg' = AList.update a n ?r"
    using assms(2) None by (auto simp: get_or_insert_def Let_def fold_delete)
  have d: "distinct (map fst (node_entries reg))" using assms(1) by simp
  have sub: "set ?ks \<subseteq> fst ` set reg - held reg"
  proof
    fix b assume "b \<in> set ?ks"
    then obtain seen where "(b, seen, False) \<in> set (node_entries reg)" using evict_keys_unheld[OF d] by blast
    then obtain m where m: "(b, m) \<in> set reg" "\<not> 0 < n_open_conns m" by (auto simp: node_entries_def)
    then have "map_of reg b = Some m" using assms(1) by simp
    with m show "b \<in> fst ` set reg - held reg" by (force simp: held_def)
  qed
  have fresh: "a \<notin> fst ` set ?r" using None by (force simp: map_of_eq_None_iff)
  have len: "length ?r + length ?ks = length reg"
  proof -
    have "length ?r = card (fst ` set ?r)"
      using distinct_card[OF distinct_map_filter[OF assms(1)]] by (metis length_map set_map)
    also have "fst ` set ?r = fst ` set reg - set ?ks" by force
    also have "card \<dots> = card (fst ` set reg) - card (set ?ks)"
      using sub by (intro card_Diff_subset) auto
    also have "\<dots> = length reg - length ?ks"
      using distinct_card[OF assms(1)] distinct_card[OF distinct_evict[OF d]] by simp
    finally show ?thesis
      using sub card_mono[of "fst ` set reg" "set ?ks"] distinct_card[OF assms(1)] distinct_card[OF distinct_evict[OF d]] by force
  qed
  have "length reg' \<le> max NODE_STATE_CAP (card (held reg) + 1)"
  proof -
    have "length reg' = length ?r + 1" unfolding r' using fresh by (rule length_update_fresh)
    then show ?thesis
      using evict_leaves[OF d, of NODE_STATE_CAP now NODE_STATE_TTL_SECS] len held_card[OF assms(1)] by (simp add: node_entries_def)
  qed
  moreover have "distinct (map fst reg')"
    unfolding r' by (intro distinct_update distinct_map_filter assms(1))
  ultimately show ?thesis
    using sub by (auto simp: r' update_conv' map_of_filter_keys n)
qed

theorem get_or_insert_bounded_witness:
  "map_of (snd (get_or_insert (V4 2) 1000000 [(V4 1, (node_state_new (V4 1) 0 :: unit node_state)\<lparr>n_open_conns := 1\<rparr>)])) (V4 1) \<noteq> None"
proof -
  let ?reg = "[(V4 1, (node_state_new (V4 1) 0 :: unit node_state)\<lparr>n_open_conns := 1\<rparr>)]"
  have "V4 1 \<in> held ?reg" by (simp add: held_def)
  then show ?thesis
    using get_or_insert_bounded[of ?reg "V4 2" 1000000 "fst (get_or_insert (V4 2) 1000000 ?reg)" "snd (get_or_insert (V4 2) 1000000 ?reg)"]
    by simp
qed

section \<open>Pins\<close>

text \<open>\<open>pin_active\<close> in its steps.\<close>

lemma pin_active_steps:
  "pin_active a n = (pin_epoch a n, pin_store (pin_epoch a n) (pin_drop (pin_bump n)))"
  by (simp add: pin_active_def pin_epoch_def pin_bump_def pin_drop_def pin_store_def Let_def)

text \<open>
  Every interleaving of sessions that pin a node, step by step, of lazy pins, of guards that are dropped and of looks at
  the pin: \<open>h\<close> lists the pins ever made, in the order in which they took their epochs, and \<open>bs\<close> the ones not stored yet.
\<close>

inductive pin_reach :: "'p node_state \<Rightarrow> active_peer list \<Rightarrow> active_peer list \<Rightarrow> bool" where
  pin_begin: "n_active n = None \<Longrightarrow> pin_reach n [] []"
| pin_take: "pin_reach n h bs \<Longrightarrow> pin_reach (pin_bump n) (h @ [pin_epoch a n]) (pin_epoch a n # bs)"
| pin_forget: "pin_reach n h bs \<Longrightarrow> pin_reach (pin_drop n) h bs"
| pin_set: "pin_reach n h (bs1 @ p # bs2) \<Longrightarrow> pin_reach (pin_store p n) h (bs1 @ bs2)"
| pin_lazy: "pin_reach n h bs \<Longrightarrow> pin_lazy_active bl a n = (p, n') \<Longrightarrow>
    pin_reach n' (if pin_generation n' = pin_generation n then h else h @ [p]) bs"
| pin_unpin: "pin_reach n h bs \<Longrightarrow> pin_reach (clear_active_if_current q n) h bs"
| pin_look: "pin_reach n h bs \<Longrightarrow> pin_reach (snd (active_snapshot bl n)) h bs"

lemma unpin_blacklisted_Some: "unpin_blacklisted bl a = Some q \<Longrightarrow> a = Some q"
  by (auto simp: unpin_blacklisted_def split: option.splits if_splits)

lemma pin_reach_inv:
  "pin_reach n h bs \<Longrightarrow> distinct (map ap_epoch h) \<and> (\<forall>p \<in> set h. ap_epoch p \<le> pin_generation n) \<and>
     set bs \<subseteq> set h \<and> (\<forall>q. n_active n = Some q \<longrightarrow> q \<in> set h)"
proof (induction rule: pin_reach.induct)
  case (pin_take n h bs a)
  then show ?case by (fastforce simp: pin_bump_def pin_epoch_def pin_generation_def)
next
  case (pin_lazy n h bs bl a p n')
  then show ?case
    by (fastforce simp: pin_lazy_active_def pin_generation_def Let_def split: option.splits dest: unpin_blacklisted_Some)
qed (auto simp: pin_drop_def pin_store_def pin_generation_def clear_active_if_current_def active_snapshot_def Let_def
    dest: unpin_blacklisted_Some)

text \<open>C32. However sessions pin a node beside each other, dropping a session's guard clears the node's pin exactly when it is
  the one that session made, and changes nothing when it is another session's, older or newer, even one to the same
  peer, or when there is none.\<close>
theorem pin_guard_spares_newer:
  assumes "pin_reach n h bs" "i < length h"
  shows "(n_active n = None \<longrightarrow> clear_active_if_current (h ! i) n = n) \<and>
    (\<forall>q. n_active n = Some q \<longrightarrow>
      (\<exists>j < length h. q = h ! j \<and> clear_active_if_current (h ! i) n = (if j = i then n\<lparr>n_active := None\<rparr> else n)))"
proof -
  note inv = pin_reach_inv[OF assms(1)]
  have "\<exists>j < length h. q = h ! j \<and> clear_active_if_current (h ! i) n = (if j = i then n\<lparr>n_active := None\<rparr> else n)"
    if q: "n_active n = Some q" for q
  proof -
    obtain j where j: "j < length h" "q = h ! j" using inv q by (metis in_set_conv_nth)
    have "h ! j = h ! i \<longleftrightarrow> j = i"
      using inv j(1) assms(2) nth_eq_iff_index_eq[of "map ap_epoch h" j i] by auto
    with j q show ?thesis by (auto simp: clear_active_if_current_def)
  qed
  then show ?thesis by (simp add: clear_active_if_current_def)
qed

text \<open>Two sessions pin the same peer; the first took its epoch earlier and stores its pin later. The second one's guard
  leaves the first one's pin, and the first one's clears it.\<close>

theorem pin_guard_spares_newer_witness:
  "\<exists>n h. pin_reach (n :: unit node_state) h [] \<and> n_active n = Some (h ! 0) \<and> length h = 2 \<and>
     clear_active_if_current (h ! 1) n = n \<and> n_active (clear_active_if_current (h ! 0) n) = None"
proof -
  let ?base = "node_state_new (V4 1) 0 :: unit node_state" and ?a = "''192.0.2.1''"
  let ?p = "pin_epoch ?a ?base" and ?q = "pin_epoch ?a (pin_bump ?base)"
  have "pin_reach ?base [] []" by (rule pin_begin) (simp add: node_state_new_def)
  from pin_take[OF pin_take[OF this]] have "pin_reach (pin_bump (pin_bump ?base)) [?p, ?q] ([] @ ?q # [?p])" by simp
  from pin_set[OF this] have "pin_reach (pin_store ?q (pin_bump (pin_bump ?base))) [?p, ?q] ([] @ ?p # [])" by simp
  from pin_set[OF this] have "pin_reach (pin_store ?p (pin_store ?q (pin_bump (pin_bump ?base)))) [?p, ?q] []" by simp
  moreover have "?p \<noteq> ?q" by (simp add: pin_epoch_def pin_bump_def)
  moreover have "n_active (pin_store ?p m) = Some ?p" for m :: "unit node_state" by (simp add: pin_store_def)
  ultimately obtain n :: "unit node_state" and p q where r: "pin_reach n [p, q] []" "n_active n = Some p" "p \<noteq> q" by blast
  have "clear_active_if_current ([p, q] ! 1) n = n" "clear_active_if_current ([p, q] ! 0) n = n\<lparr>n_active := None\<rparr>"
    using pin_guard_spares_newer[OF r(1), of 1] pin_guard_spares_newer[OF r(1), of 0] r(2,3)
    by (auto simp: less_2_cases_iff nth_Cons' split: if_splits)
  with r show ?thesis by (intro exI[of _ n] exI[of _ "[p, q]"]) simp
qed

section \<open>Rate limits\<close>

fun claims :: "duration \<Rightarrow> instant list \<Rightarrow> instant option \<Rightarrow> instant list" where
  "claims every [] l = []"
| "claims every (t # ts) l = (let (ok, l') = claim_every t every l in (if ok then [t] else []) @ claims every ts l')"

lemma claims_subset: "set (claims every ts k) \<subseteq> set ts"
proof (induction ts arbitrary: k)
  case (Cons t ts)
  then show ?case by (auto simp: Let_def split: prod.splits if_splits)
qed simp

text \<open>Granted claims are at least the period apart.\<close>

lemma claims_spaced:
  "sorted ts \<Longrightarrow> sorted_wrt (\<lambda>a b. a + every \<le> b) (claims every ts l) \<and>
     (\<forall>t \<in> set (claims every ts l). case l of Some u \<Rightarrow> every \<le> t - u | None \<Rightarrow> True)"
proof (induction every ts l rule: claims.induct)
  case (2 every t ts l)
  have later: "\<forall>b \<in> set ts. t \<le> b" using "2.prems" by simp
  have sub: "\<forall>b \<in> set (claims every ts k). t \<le> b" for k using later claims_subset by blast
  show ?case
  proof (cases "fst (claim_every t every l)")
    case True
    then have ce: "claim_every t every l = (True, Some t)" by (auto simp: claim_every_def split: if_splits)
    have "sorted ts" using "2.prems" by simp
    from 2(1)[OF ce[symmetric] refl this] have ih: "sorted_wrt (\<lambda>a b. a + every \<le> b) (claims every ts (Some t))"
      "\<forall>b \<in> set (claims every ts (Some t)). every \<le> b - t" by auto
    have "t + every \<le> b" if "b \<in> set (claims every ts (Some t))" for b
      using ih(2) sub that by fastforce
    moreover have "every \<le> b - u" if "l = Some u" "b \<in> insert t (set (claims every ts (Some t)))" for u b
    proof -
      have "every \<le> t - u" using ce that(1) by (simp add: claim_every_def split: if_splits)
      moreover have "t \<le> b" using that(2) sub by auto
      ultimately show ?thesis by simp
    qed
    ultimately show ?thesis using ce ih by (auto split: option.splits)
  next
    case False
    then have "claim_every t every l = (False, l)" by (auto simp: claim_every_def split: if_splits option.splits)
    with 2 show ?thesis by auto
  qed
qed (simp split: option.splits)

end
