(* ===== verification/Select.thy ===== *)
theory Select
  imports Node_State Priority Push_Session
begin

text \<open>
  Choosing an upstream, \<open>gateway/select.rs\<close>: candidate lists, the vetting of a live peer's first block, the
  staged race for a live peer, the bounded race for a bootstrap peer, the fallback race, and the two
  watchers that end a session. A race is a function of the events its join set yields, each with the time
  at which the loop looks at the clock.
\<close>

section \<open>Constants\<close>

definition BOOTSTRAP_PREFETCH_BYTES :: nat where "BOOTSTRAP_PREFETCH_BYTES = 64000000"

definition MAX_ABCI_STATE_FRAME :: nat where "MAX_ABCI_STATE_FRAME = 1500000000"

definition BOOTSTRAP_SELECT_DEADLINE_SECS :: nat where "BOOTSTRAP_SELECT_DEADLINE_SECS = 24"

definition BOOTSTRAP_SELECT_MAX_INFLIGHT :: nat where "BOOTSTRAP_SELECT_MAX_INFLIGHT = 4"

definition BOOTSTRAP_SELECT_MAX_PEERS :: nat where "BOOTSTRAP_SELECT_MAX_PEERS = 32"

definition BOOTSTRAP_PRIORITY_HEAD_START :: duration where "BOOTSTRAP_PRIORITY_HEAD_START = from_secs 8"

definition VET_KEEP_MAX_FRAMES :: nat where "VET_KEEP_MAX_FRAMES = 64"

definition VET_KEEP_MAX_BYTES :: nat where "VET_KEEP_MAX_BYTES = 8000000"

definition LIVE_SELECT_WAIT :: duration where "LIVE_SELECT_WAIT = from_millis 3500"

definition LIVE_SELECT_MAX_PARALLEL :: nat where "LIVE_SELECT_MAX_PARALLEL = 4"

definition VET_MAX_ROUNDS_ABOVE_TIP :: u32 where "VET_MAX_ROUNDS_ABOVE_TIP = 2 * MAX_ACTIVE_ROUND_JUMP"

definition NODE_LIVE_CONNECT_DEADLINE :: duration where "NODE_LIVE_CONNECT_DEADLINE = from_secs 5"

definition FALLBACK_WAIT :: duration where
  "FALLBACK_WAIT = NODE_LIVE_CONNECT_DEADLINE - LIVE_SELECT_WAIT - from_millis 200"

definition FALLBACK_MAX_PARALLEL :: nat where "FALLBACK_MAX_PARALLEL = 8"

definition STATE_SERVER_MEMORY :: nat where "STATE_SERVER_MEMORY = 8"

definition PRIORITY_CAP_REACHED :: string where "PRIORITY_CAP_REACHED = ''priority session cap reached''"

section \<open>Candidate lists\<close>

fun push_new :: "(ip \<Rightarrow> bool) \<Rightarrow> ip list \<Rightarrow> ip list \<Rightarrow> ip list" where
  "push_new skip out [] = out"
| "push_new skip out (a # as) =
     (if a \<notin> set out \<and> \<not> skip a then push_new skip (out @ [a]) as else push_new skip out as)"

definition rotated :: "nat \<Rightarrow> ip list \<Rightarrow> ip list" where
  "rotated start pool = map (\<lambda>k. pool ! ((start + k) mod length pool)) [0..<length pool]"

definition ordered_candidates :: "blacklist \<Rightarrow> ip list \<Rightarrow> ip list \<Rightarrow> nat \<Rightarrow> ip list" where
  "ordered_candidates bl head pool start =
     push_new (\<lambda>_. False) (push_new (bl_contains bl) [] head) (rotated start pool)"

definition bootstrap_source_list ::
  "blacklist \<Rightarrow> bootstrap_policy \<Rightarrow> ip list \<Rightarrow> ip list \<Rightarrow> ip list \<Rightarrow> nat \<Rightarrow> ip list" where
  "bootstrap_source_list bl policy prio remembered pool start =
     (case policy of
        Never \<Rightarrow> ordered_candidates bl remembered pool start
      | Prefer \<Rightarrow> ordered_candidates bl (prio @ remembered) pool start
      | Fallback \<Rightarrow>
          (let out = filter (\<lambda>a. a \<notin> set prio) (ordered_candidates bl remembered pool start)
           in take (BOOTSTRAP_SELECT_MAX_PEERS - length prio) out @ prio))"

definition tiered_peers :: "blacklist \<Rightarrow> instant \<Rightarrow> priority_tier \<Rightarrow> ip list \<Rightarrow> nat \<Rightarrow> ip list" where
  "tiered_peers bl now t pool start =
     (let prio = candidates_at bl now t
      in if exclusive t \<and> prio \<noteq> [] then prio else ordered_candidates bl prio pool start)"

definition forget_state_server :: "ip \<Rightarrow> ip list \<Rightarrow> ip list" where
  "forget_state_server a l = filter (\<lambda>x. x \<noteq> a) l"

definition remember_state_server :: "ip \<Rightarrow> ip list \<Rightarrow> ip list" where
  "remember_state_server a l = take STATE_SERVER_MEMORY (a # filter (\<lambda>x. x \<noteq> a) l)"

section \<open>Failure summaries\<close>

definition str_contains :: "string \<Rightarrow> string \<Rightarrow> bool" where
  "str_contains s p \<longleftrightarrow> find_str p s \<noteq> None"

definition peer_error_class :: "string \<Rightarrow> string" where
  "peer_error_class e =
     (if str_contains e ''peer full'' then ''peer_full''
      else if str_contains e ''lagged'' \<or> str_contains e ''behind the freshest'' then ''lagged''
      else if str_contains e ''not serving abci_state'' then ''small_frame''
      else if str_contains e ''no live block'' then ''no_block''
      else if str_contains e ''connect'' then ''connect_fail''
      else if str_contains e ''state prefetch'' then ''prefetch_fail''
      else if str_contains e ''failed to fill whole buffer'' \<or> str_contains e ''early eof'' then ''eof''
      else if str_contains e ''timeout'' \<or> str_contains e ''deadline has elapsed'' then ''timeout''
      else ''other'')"

fun count_class :: "string \<Rightarrow> (string \<times> nat) list \<Rightarrow> (string \<times> nat) list" where
  "count_class c [] = [(c, 1)]"
| "count_class c ((d, n) # xs) = (if d = c then (d, n + 1) # xs else (d, n) # count_class c xs)"

text \<open>The stable sort by descending count.\<close>

definition summarize_peer_errors :: "nat \<Rightarrow> string list \<Rightarrow> string" where
  "summarize_peer_errors tried errs =
     (let counts = fold (\<lambda>e. count_class (peer_error_class e)) errs [];
          sorted = rev (sort_key snd (rev counts))
      in ''tried='' @ show_nat tried @ concat (map (\<lambda>(c, n). '' '' @ c @ ''='' @ show_nat n) sorted))"

section \<open>Opening a connection\<close>

definition addr_4001 :: "ip \<Rightarrow> string" where
  "addr_4001 a = (if CHR '':'' \<in> set a then a else a @ '':4001'')"

datatype sel_error =
    Refused
  | SelIo io_error
  | SelPeerFull
  | NoLiveBlock
  | LiveLagged u32 u32
  | BehindFreshest u32 u32
  | CapReached

text \<open>What a dial meets: the outcome of the connection, of the greeting's write, and the peer's bytes.\<close>

record dial_out =
  d_conn :: "io_error option"
  d_write :: "io_error option"
  d_bytes :: "rd_ev list"

definition read_live_greeting_with_timeout :: "rd_ev list \<Rightarrow> (io_error + bytes) \<times> rd_ev list" where
  "read_live_greeting_with_timeout s = read_live_frame_with_timeout 1000 s"

definition connect_and_greet_4001 :: "blacklist \<Rightarrow> ip \<Rightarrow> dial_out \<Rightarrow> sel_error + bytes \<times> rd_ev list" where
  "connect_and_greet_4001 bl a d =
     (if connect bl (addr_4001 a) = PermissionDenied then Inl Refused
      else (case d_conn d of
          Some e \<Rightarrow> Inl (SelIo e)
        | None \<Rightarrow>
            (case d_write d of
               Some e \<Rightarrow> Inl (SelIo e)
             | None \<Rightarrow>
                 (case read_live_greeting_with_timeout (d_bytes d) of
                    (Inl e, _) \<Rightarrow> Inl (SelIo e)
                  | (Inr greeting, s) \<Rightarrow>
                      if response_is_peer_full greeting then Inl SelPeerFull else Inr (greeting, s)))))"

definition open_peer_relationship :: "blacklist \<Rightarrow> ip \<Rightarrow> dial_out \<Rightarrow> sel_error + rd_ev list" where
  "open_peer_relationship bl a d =
     (case connect_and_greet_4001 bl a d of Inl e \<Rightarrow> Inl e | Inr (_, s) \<Rightarrow> Inr s)"

definition first_round_far_above_tip :: "u32 \<Rightarrow> u32 \<Rightarrow> bool" where
  "first_round_far_above_tip round net_tip \<longleftrightarrow>
     net_tip \<noteq> 0 \<and> saturating_add net_tip VET_MAX_ROUNDS_ABOVE_TIP < round"

text \<open>One pass of the vetting loop: the deadline is over, or a frame was read with the guard's floor as it then was.\<close>

datatype vet_ev = VetDeadline | VetRead "io_error + bytes" u32

fun vet_live ::
  "(bytes \<Rightarrow> bytes option) \<Rightarrow> u32 \<Rightarrow> u32 \<Rightarrow> vet_ev list \<Rightarrow> bytes list \<Rightarrow> nat \<Rightarrow> (sel_error + bytes list \<times> u32) option" where
  "vet_live D min_round net_tip [] kept kept_bytes = None"
| "vet_live D min_round net_tip (VetDeadline # evs) kept kept_bytes = Some (Inl NoLiveBlock)"
| "vet_live D min_round net_tip (VetRead (Inl e) floor # evs) kept kept_bytes = Some (Inl (SelIo e))"
| "vet_live D min_round net_tip (VetRead (Inr frame) floor # evs) kept kept_bytes =
     (case (if 5 \<le> length frame \<and> frame ! 4 = 1 then block_round D (drop 5 frame) else None) of
        None \<Rightarrow>
          if length kept < VET_KEEP_MAX_FRAMES \<and> kept_bytes + length frame \<le> VET_KEEP_MAX_BYTES
          then vet_live D min_round net_tip evs (kept @ [frame]) (kept_bytes + length frame)
          else vet_live D min_round net_tip evs kept kept_bytes
      | Some round \<Rightarrow>
          if \<not> is_plausible_mainnet_round round net_tip \<or> round \<le> min_round \<or> first_round_far_above_tip round net_tip
          then vet_live D min_round net_tip evs kept kept_bytes
          else (case round_lag_from_tip round net_tip ACTIVE_ROUND_MAX_LAG of
                  Some lag \<Rightarrow> Some (Inl (LiveLagged round lag))
                | None \<Rightarrow>
                    if round < floor then Some (Inl (BehindFreshest round floor))
                    else Some (Inr (kept @ [frame], round))))"

record live_session =
  lp_ip :: ip
  lp_greeting :: bytes
  lp_frames :: "bytes list"
  lp_first_round :: u32
  lp_slot :: "nat option"

definition open_live_peer_session_with_greet ::
  "(bytes \<Rightarrow> bytes option) \<Rightarrow> blacklist \<Rightarrow> ip \<Rightarrow> u32 \<Rightarrow> u32 \<Rightarrow> dial_out \<Rightarrow> vet_ev list \<Rightarrow> (sel_error + live_session) option" where
  "open_live_peer_session_with_greet D bl a min_round net_tip d evs =
     (case connect_and_greet_4001 bl a d of
        Inl e \<Rightarrow> Some (Inl e)
      | Inr (greeting, _) \<Rightarrow>
          map_option (\<lambda>r. case r of
                 Inl e \<Rightarrow> Inl e
               | Inr (kept, round) \<Rightarrow> Inr \<lparr>lp_ip = a, lp_greeting = greeting, lp_frames = kept, lp_first_round = round, lp_slot = None\<rparr>)
            (vet_live D min_round net_tip evs [] 0))"

end
