(* ===== verification/Select_Race.thy ===== *)
theory Select_Race
  imports Select
begin

text \<open>
  The races of \<open>gateway/select.rs\<close> as functions of the events they take: \<open>select_live_peer\<close>,
  \<open>select_fast_bootstrap_peer\<close>, \<open>race_fallback_upstream\<close>, and the checks of \<open>wait_priority_return\<close> and
  \<open>wait_catchup_stuck\<close>. A priority dial holds a session slot for as long as it is in flight; the state keeps
  the slots in flight and the dials made.
\<close>

section \<open>Slots of dials in flight\<close>

definition sel_error_msg :: "(io_error \<Rightarrow> string) \<Rightarrow> sel_error \<Rightarrow> string" where
  "sel_error_msg msg e =
     (case e of
        Refused \<Rightarrow> ''blacklisted''
      | SelIo x \<Rightarrow> msg x
      | SelPeerFull \<Rightarrow> ''peer full''
      | NoLiveBlock \<Rightarrow> ''no live block before deadline''
      | LiveLagged r lag \<Rightarrow> ''live block lagged round='' @ show_nat (unat r) @ '' net_tip='' @ show_nat (unat (r + lag))
                              @ '' lag='' @ show_nat (unat lag) @ '' max_lag='' @ show_nat (unat ACTIVE_ROUND_MAX_LAG)
      | BehindFreshest r f \<Rightarrow> ''live block behind the freshest stream round='' @ show_nat (unat r)
                              @ '' floor='' @ show_nat (unat f)
      | CapReached \<Rightarrow> PRIORITY_CAP_REACHED)"

text \<open>\<open>live_attempt\<close>: a priority dial takes its slot first; a full peer fails without dialing.\<close>

definition live_attempt_slot :: "ip \<Rightarrow> bool \<Rightarrow> priority_tier \<Rightarrow> (sel_error + nat option) \<times> priority_tier" where
  "live_attempt_slot a is_priority t =
     (if is_priority then
        (case try_acquire a t of
           (None, t') \<Rightarrow> (Inl CapReached, t')
         | (Some g, t') \<Rightarrow> (Inr (Some g), t'))
      else (Inr None, t))"

type_synonym slots = "(ip \<times> nat) list"

definition free_slot :: "ip \<Rightarrow> slots \<times> priority_tier \<Rightarrow> slots \<times> priority_tier" where
  "free_slot a = (\<lambda>(ss, t). case map_of ss a of Some g \<Rightarrow> (AList.delete a ss, drop_session g t) | None \<Rightarrow> (ss, t))"

definition free_all :: "slots \<Rightarrow> priority_tier \<Rightarrow> priority_tier" where
  "free_all ss t = fold (\<lambda>(_, g). drop_session g) ss t"

text \<open>How a failed priority attempt is judged: hung, full, or failed.\<close>

definition judge_priority :: "ip \<Rightarrow> sel_error \<Rightarrow> instant \<Rightarrow> priority_tier \<Rightarrow> priority_tier" where
  "judge_priority a e now t =
     (if e = SelIo Elapsed then mark_hung_at a now t
      else if e = CapReached then t
      else mark_failed_at a now t)"

section \<open>The live race\<close>

record live_race =
  lr_tier :: priority_tier
  lr_slots :: slots
  lr_set :: nat
  lr_prio_in_flight :: nat
  lr_pool_in_flight :: nat
  lr_launched :: nat
  lr_fails :: "string list"
  lr_prio_pending :: "ip list"
  lr_dialed :: "(ip \<times> bool) list"

fun launch_prio :: "ip list \<Rightarrow> live_race \<Rightarrow> live_race" where
  "launch_prio [] r = r"
| "launch_prio (a # as) r =
     (case live_attempt_slot a True (lr_tier r) of
        (slot, t) \<Rightarrow>
          launch_prio as (r\<lparr>lr_tier := t,
             lr_slots := (case slot of Inr (Some g) \<Rightarrow> (a, g) # lr_slots r | _ \<Rightarrow> lr_slots r),
             lr_set := lr_set r + 1, lr_prio_in_flight := lr_prio_in_flight r + 1,
             lr_dialed := lr_dialed r @ [(a, True)]\<rparr>))"

function launch_pool :: "ip list \<Rightarrow> nat \<Rightarrow> instant \<Rightarrow> instant \<Rightarrow> live_race \<Rightarrow> live_race" where
  "launch_pool peers start deadline now r =
     (if lr_launched r < length peers \<and> lr_pool_in_flight r < LIVE_SELECT_MAX_PARALLEL \<and> now < deadline then
        launch_pool peers start deadline now
          (r\<lparr>lr_set := lr_set r + 1, lr_pool_in_flight := lr_pool_in_flight r + 1, lr_launched := lr_launched r + 1,
             lr_dialed := lr_dialed r @ [(peers ! ((start + lr_launched r) mod length peers), False)]\<rparr>)
      else r)"
  by pat_completeness auto
termination
  by (relation "measure (\<lambda>(peers, start, deadline, now, r). length peers - lr_launched r)") auto

declare launch_pool.simps [simp del]

datatype live_ev =
    LiveOk live_session bool
  | LiveErr ip bool sel_error
  | LivePanic ip bool string
  | LiveWake

text \<open>The end without a winner: priority peers still pending are as good as failed.\<close>

definition live_dry :: "instant \<Rightarrow> live_race \<Rightarrow> live_race" where
  "live_dry now r =
     r\<lparr>lr_tier := fold (\<lambda>a. mark_hung_at a now) (lr_prio_pending r) (free_all (lr_slots r) (lr_tier r)), lr_slots := []\<rparr>"

definition live_win :: "live_session \<Rightarrow> bool \<Rightarrow> live_race \<Rightarrow> live_session \<times> live_race" where
  "live_win s is_priority r =
     (let slot = (if is_priority then map_of (lr_slots r) (lp_ip s) else None);
          rest = (if slot = None then lr_slots r else AList.delete (lp_ip s) (lr_slots r))
      in (s\<lparr>lp_slot := slot\<rparr>, r\<lparr>lr_tier := free_all rest (lr_tier r), lr_slots := []\<rparr>))"

definition live_fail :: "(io_error \<Rightarrow> string) \<Rightarrow> instant \<Rightarrow> ip \<Rightarrow> bool \<Rightarrow> sel_error \<Rightarrow> live_race \<Rightarrow> live_race" where
  "live_fail msg now a is_priority e r =
     (let r1 = r\<lparr>lr_set := lr_set r - 1, lr_fails := lr_fails r @ [sel_error_msg msg e]\<rparr>
      in if is_priority then
           (case free_slot a (lr_slots r1, lr_tier r1) of
              (ss, t) \<Rightarrow> r1\<lparr>lr_slots := ss, lr_tier := judge_priority a e now t,
                           lr_prio_in_flight := lr_prio_in_flight r1 - 1,
                           lr_prio_pending := filter (\<lambda>p. p \<noteq> a) (lr_prio_pending r1)\<rparr>)
         else r1\<lparr>lr_pool_in_flight := lr_pool_in_flight r1 - 1\<rparr>)"

definition live_panic :: "ip \<Rightarrow> bool \<Rightarrow> string \<Rightarrow> live_race \<Rightarrow> live_race" where
  "live_panic a is_priority why r =
     (case (if is_priority then free_slot a (lr_slots r, lr_tier r) else (lr_slots r, lr_tier r)) of
        (ss, t) \<Rightarrow> r\<lparr>lr_slots := ss, lr_tier := t, lr_set := lr_set r - 1, lr_fails := lr_fails r @ [''join: '' @ why]\<rparr>)"

fun select_live_loop ::
  "(io_error \<Rightarrow> string) \<Rightarrow> ip list \<Rightarrow> nat \<Rightarrow> instant \<Rightarrow> instant \<Rightarrow> (instant \<times> live_ev) list \<Rightarrow> live_race
     \<Rightarrow> (live_session option \<times> live_race) option" where
  "select_live_loop msg peers start deadline pool_opens [] r = None"
| "select_live_loop msg peers start deadline pool_opens ((now, ev) # evs) r =
     (let pool_open = (pool_opens \<le> now \<or> lr_prio_in_flight r = 0);
          r1 = (if pool_open then launch_pool peers start deadline now r else r)
      in if lr_set r1 = 0 \<or> deadline \<le> now then Some (None, live_dry now r1)
         else (case ev of
             LiveOk s is_priority \<Rightarrow> (case live_win s is_priority r1 of (s', r2) \<Rightarrow> Some (Some s', r2))
           | LiveErr a is_priority e \<Rightarrow>
               select_live_loop msg peers start deadline pool_opens evs (live_fail msg now a is_priority e r1)
           | LivePanic a is_priority why \<Rightarrow>
               select_live_loop msg peers start deadline pool_opens evs (live_panic a is_priority why r1)
           | LiveWake \<Rightarrow>
               if pool_open then Some (None, live_dry now r1)
               else select_live_loop msg peers start deadline pool_opens evs r1))"

definition live_race_new :: "priority_tier \<Rightarrow> ip list \<Rightarrow> live_race" where
  "live_race_new t prio =
     launch_prio prio \<lparr>lr_tier = t, lr_slots = [], lr_set = 0, lr_prio_in_flight = 0, lr_pool_in_flight = 0,
       lr_launched = 0, lr_fails = [], lr_prio_pending = prio, lr_dialed = []\<rparr>"

text \<open>The whole race with its record of dials, and what the caller sees of it.\<close>

definition select_live_race ::
  "(io_error \<Rightarrow> string) \<Rightarrow> blacklist \<Rightarrow> priority_tier \<Rightarrow> ip list \<Rightarrow> nat \<Rightarrow> instant \<Rightarrow> (instant \<times> live_ev) list
     \<Rightarrow> (live_session option \<times> live_race) option" where
  "select_live_race msg bl t peers start started evs =
     (let prio = candidates_at bl started t;
          deadline = started + LIVE_SELECT_WAIT;
          pool_opens = (if prio = [] then started else if exclusive t then deadline else started + t_stage t)
      in if peers = [] \<and> prio = [] then Some (None, live_race_new t [])
         else select_live_loop msg peers start deadline pool_opens evs (live_race_new t prio))"

definition select_live_peer ::
  "(io_error \<Rightarrow> string) \<Rightarrow> blacklist \<Rightarrow> priority_tier \<Rightarrow> ip list \<Rightarrow> nat \<Rightarrow> instant \<Rightarrow> (instant \<times> live_ev) list
     \<Rightarrow> (live_session option \<times> priority_tier) option" where
  "select_live_peer msg bl t peers start started evs =
     map_option (\<lambda>(s, r). (s, lr_tier r)) (select_live_race msg bl t peers start started evs)"

lemma select_live_peer_unfold:
  "select_live_peer msg bl t peers start started evs =
     (let prio = candidates_at bl started t;
          deadline = started + LIVE_SELECT_WAIT;
          pool_opens = (if prio = [] then started else if exclusive t then deadline else started + t_stage t)
      in if peers = [] \<and> prio = [] then Some (None, t)
         else map_option (\<lambda>(s, r). (s, lr_tier r))
                (select_live_loop msg peers start deadline pool_opens evs (live_race_new t prio)))"
  by (simp add: select_live_peer_def select_live_race_def live_race_new_def Let_def)

section \<open>The bootstrap race\<close>

definition stage_err :: "(io_error \<Rightarrow> string) \<Rightarrow> string \<Rightarrow> io_error \<Rightarrow> string" where
  "stage_err msg what e = (if e = Elapsed then what @ '' timeout'' else what @ '': '' @ msg e)"

text \<open>\<open>detail\<close> is what the log shows of a declining peer's status frame.\<close>

definition try_fast_bootstrap_peer ::
  "(io_error \<Rightarrow> string) \<Rightarrow> blacklist \<Rightarrow> string \<Rightarrow> ip \<Rightarrow> dial_out \<Rightarrow> string + bytes \<times> bytes \<times> nat" where
  "try_fast_bootstrap_peer msg bl detail a d =
     (if connect bl (addr_4001 a) = PermissionDenied then Inl ''connect: blacklisted''
      else (case d_conn d of
          Some e \<Rightarrow> Inl (stage_err msg ''connect'' e)
        | None \<Rightarrow>
            (case d_write d of
               Some e \<Rightarrow> Inl (stage_err msg ''greet write'' e)
             | None \<Rightarrow>
                 (case read_exact 5 (d_bytes d) of
                    (Inl e, _) \<Rightarrow> Inl (stage_err msg ''greeting header'' e)
                  | (Inr hdr, s) \<Rightarrow>
                      (let len = be_len hdr 0
                       in if len \<le> 4000000 then Inl (''not serving abci_state ('' @ detail @ '')'')
                          else if MAX_ABCI_STATE_FRAME < len then Inl (''implausible abci_state len='' @ show_nat len)
                          else (case read_exact (min len BOOTSTRAP_PREFETCH_BYTES) s of
                                  (Inl e, _) \<Rightarrow> Inl (stage_err msg ''state prefetch'' e)
                                | (Inr head, _) \<Rightarrow> Inr (hdr, head, len)))))))"

record boot_race =
  br_tier :: priority_tier
  br_slots :: slots
  br_launched :: nat
  br_in_flight :: nat
  br_prio_in_flight :: nat
  br_fails :: "string list"
  br_dialed :: "(ip \<times> bool) list"

function boot_launch ::
  "ip list \<Rightarrow> nat \<Rightarrow> nat \<Rightarrow> instant \<Rightarrow> instant \<Rightarrow> boot_race \<Rightarrow> bool \<times> boot_race" where
  "boot_launch peers start limit pool_after now r =
     (if br_launched r < limit \<and> br_in_flight r < BOOTSTRAP_SELECT_MAX_INFLIGHT then
        (let a = peers ! ((start + br_launched r) mod length peers);
             is_priority = tier_contains (br_tier r) a
         in if \<not> is_priority \<and> 0 < br_prio_in_flight r \<and> exclusive (br_tier r) \<and> now < pool_after then (True, r)
            else (case live_attempt_slot a is_priority (br_tier r) of
                (Inl _, t) \<Rightarrow>
                  boot_launch peers start limit pool_after now
                    (r\<lparr>br_tier := t, br_launched := br_launched r + 1, br_fails := br_fails r @ [PRIORITY_CAP_REACHED]\<rparr>)
              | (Inr slot, t) \<Rightarrow>
                  boot_launch peers start limit pool_after now
                    (r\<lparr>br_tier := t, br_slots := (case slot of Some g \<Rightarrow> (a, g) # br_slots r | None \<Rightarrow> br_slots r),
                       br_launched := br_launched r + 1, br_in_flight := br_in_flight r + 1,
                       br_prio_in_flight := br_prio_in_flight r + (if is_priority then 1 else 0),
                       br_dialed := br_dialed r @ [(a, is_priority)]\<rparr>)))
      else (False, r))"
  by pat_completeness auto
termination
  by (relation "measure (\<lambda>(peers, start, limit, pool_after, now, r). limit - br_launched r)") auto

declare boot_launch.simps [simp del]

datatype 's boot_ev =
    BootOk ip bool 's
  | BootErr ip bool string
  | BootPanic ip bool string
  | BootWake instant

definition boot_free :: "ip \<Rightarrow> bool \<Rightarrow> boot_race \<Rightarrow> boot_race" where
  "boot_free a is_priority r =
     (if is_priority then (case free_slot a (br_slots r, br_tier r) of (ss, t) \<Rightarrow> r\<lparr>br_slots := ss, br_tier := t\<rparr>) else r)"

fun select_fast_loop ::
  "ip list \<Rightarrow> nat \<Rightarrow> nat \<Rightarrow> instant \<Rightarrow> instant \<Rightarrow> (instant \<times> 's boot_ev) list \<Rightarrow> boot_race
     \<Rightarrow> ((ip \<times> nat option \<times> 's) option \<times> boot_race) option" where
  "select_fast_loop peers start limit deadline pool_after [] r = None"
| "select_fast_loop peers start limit deadline pool_after ((now, ev) # evs) r =
     (case boot_launch peers start limit pool_after now r of
        (pool_held, r1) \<Rightarrow>
          (let dry = r1\<lparr>br_tier := free_all (br_slots r1) (br_tier r1), br_slots := []\<rparr>;
               left = r1\<lparr>br_in_flight := br_in_flight r1 - 1\<rparr>
           in if br_in_flight r1 = 0 \<or> deadline \<le> now then Some (None, dry)
              else (case ev of
                  BootOk a is_priority s \<Rightarrow>
                    (let slot = (if is_priority then map_of (br_slots r1) a else None);
                         rest = (if slot = None then br_slots r1 else AList.delete a (br_slots r1))
                     in Some (Some (a, slot, s), r1\<lparr>br_tier := free_all rest (br_tier r1), br_slots := []\<rparr>))
                | BootErr a is_priority e \<Rightarrow>
                    select_fast_loop peers start limit deadline pool_after evs
                      ((boot_free a is_priority left)\<lparr>br_prio_in_flight := br_prio_in_flight left - (if is_priority then 1 else 0),
                         br_fails := br_fails left @ [e]\<rparr>)
                | BootPanic a is_priority e \<Rightarrow>
                    select_fast_loop peers start limit deadline pool_after evs
                      ((boot_free a is_priority left)\<lparr>br_prio_in_flight := min (br_prio_in_flight left) (br_in_flight left),
                         br_fails := br_fails left @ [''join: '' @ e]\<rparr>)
                | BootWake at \<Rightarrow>
                    if pool_held \<and> at < deadline
                    then select_fast_loop peers start limit deadline pool_after evs r1 else Some (None, dry))))"

definition select_fast_bootstrap_peer ::
  "priority_tier \<Rightarrow> ip list \<Rightarrow> nat \<Rightarrow> instant \<Rightarrow> (instant \<times> 's boot_ev) list
     \<Rightarrow> ((ip \<times> nat option \<times> 's) option \<times> priority_tier) option" where
  "select_fast_bootstrap_peer t peers start started evs =
     (if peers = [] then Some (None, t)
      else map_option (\<lambda>(s, r). (s, br_tier r))
        (select_fast_loop peers start (min (length peers) BOOTSTRAP_SELECT_MAX_PEERS)
           (started + from_secs BOOTSTRAP_SELECT_DEADLINE_SECS) (started + BOOTSTRAP_PRIORITY_HEAD_START) evs
           \<lparr>br_tier = t, br_slots = [], br_launched = 0, br_in_flight = 0, br_prio_in_flight = 0, br_fails = [], br_dialed = []\<rparr>))"

section \<open>The fallback race\<close>

text \<open>Dials with their slots; a full priority peer is skipped.\<close>

fun fallback_dials :: "ip list \<Rightarrow> priority_tier \<Rightarrow> (ip \<times> nat option) list \<times> priority_tier" where
  "fallback_dials [] t = ([], t)"
| "fallback_dials (a # as) t =
     (case live_attempt_slot a (tier_contains t a) t of
        (Inl _, t1) \<Rightarrow> fallback_dials as t1
      | (Inr slot, t1) \<Rightarrow> (let (ds, t2) = fallback_dials as t1 in ((a, slot) # ds, t2)))"

definition drop_slots :: "(ip \<times> nat option) list \<Rightarrow> priority_tier \<Rightarrow> priority_tier" where
  "drop_slots ds t = fold (\<lambda>(_, s) t. case s of Some g \<Rightarrow> drop_session g t | None \<Rightarrow> t) ds t"

text \<open>Results in the order they come in; the list ends when the wait is over. Failed priority peers cool.\<close>

fun fallback_joined ::
  "(ip \<times> (sel_error + bytes)) list \<Rightarrow> instant \<Rightarrow> (ip \<times> nat option) list \<Rightarrow> priority_tier
     \<Rightarrow> (ip \<times> bytes \<times> nat option) option \<times> priority_tier" where
  "fallback_joined [] now ds t = (None, drop_slots ds t)"
| "fallback_joined ((a, res) # evs) now ds t =
     (let slot = (case map_of ds a of Some s \<Rightarrow> s | None \<Rightarrow> None)
      in case res of
           Inr greeting \<Rightarrow> (Some (a, greeting, slot), drop_slots (AList.delete a ds) t)
         | Inl e \<Rightarrow>
             (let t1 = (if tier_contains t a then mark_failed_at a now t else t)
              in fallback_joined evs now (AList.delete a ds) (drop_slots [(a, slot)] t1)))"

definition race_fallback_upstream ::
  "priority_tier \<Rightarrow> ip list \<Rightarrow> (ip \<times> (sel_error + bytes)) list \<Rightarrow> instant
     \<Rightarrow> (ip \<times> bytes \<times> nat option) option \<times> priority_tier" where
  "race_fallback_upstream t cands evs now =
     (case fallback_dials (take FALLBACK_MAX_PARALLEL cands) t of (ds, t1) \<Rightarrow> fallback_joined evs now ds t1)"

section \<open>Watchers of a session\<close>

record repin_timing =
  rt_min_session :: duration
  rt_catchup_quiet :: duration
  rt_catchup_max :: duration
  rt_check_every :: duration
  rt_retry :: duration

definition REPIN :: repin_timing where
  "REPIN = \<lparr>rt_min_session = from_secs 60, rt_catchup_quiet = CATCHUP_RUN_GAP, rt_catchup_max = from_secs (3 * 60),
     rt_check_every = from_secs 15, rt_retry = from_secs (5 * 60)\<rparr>"

text \<open>Probe every candidate in turn: the answer of the first that serves, else whether any probe ran. A probe
  holds the peer's slot only while it runs.\<close>

fun probe_all ::
  "(ip \<Rightarrow> sel_error option) \<Rightarrow> instant \<Rightarrow> ip list \<Rightarrow> priority_tier \<Rightarrow> bool \<Rightarrow> ip option \<times> bool \<times> priority_tier" where
  "probe_all ans now [] t probed = (None, probed, t)"
| "probe_all ans now (a # as) t probed =
     (case try_acquire a t of
        (None, t1) \<Rightarrow> probe_all ans now as t1 probed
      | (Some g, t1) \<Rightarrow>
          (case ans a of
             None \<Rightarrow> (Some a, probed, drop_session g t1)
           | Some e \<Rightarrow>
               (let t2 = drop_session g t1
                in probe_all ans now as
                     (if e = SelIo Elapsed then mark_hung_at a now t2 else mark_failed_at a now t2) True)))"

definition repin_check ::
  "blacklist \<Rightarrow> repin_timing \<Rightarrow> instant \<Rightarrow> (ip \<Rightarrow> sel_error option) \<Rightarrow> instant \<Rightarrow> 'p node_state \<times> priority_tier
     \<Rightarrow> string option \<times> 'p node_state \<times> priority_tier" where
  "repin_check bl timing watch_start ans now = (\<lambda>(n, t).
     let caught_up = (case client_blocks_run_since now (rt_catchup_quiet timing) n of
                        None \<Rightarrow> True
                      | Some since \<Rightarrow> rt_catchup_max timing \<le> now - max since watch_start);
         cands = (if caught_up then candidates_at bl now t else [])
     in if cands = [] then (None, n, t)
        else (case claim_repin_attempt now (rt_retry timing) n of
            (False, n1) \<Rightarrow> (None, n1, t)
          | (True, n1) \<Rightarrow>
              (case probe_all ans now cands t False of
                 (Some a, _, t1) \<Rightarrow> (Some (RETURNING_TO_PRIORITY @ '' ('' @ a @ '' is serving)''), n1, t1)
               | (None, probed, t1) \<Rightarrow> (None, if probed then n1 else forget_repin_attempt n1, t1))))"

definition catchup_check :: "repin_timing \<Rightarrow> instant \<Rightarrow> instant \<Rightarrow> 'p node_state \<Rightarrow> string option \<times> 'p node_state" where
  "catchup_check timing watch_start now n =
     (case client_blocks_stalled now (rt_catchup_quiet timing) (rt_catchup_max timing) n of
        Some (True, behind) \<Rightarrow>
          if rt_catchup_max timing \<le> now - watch_start then
            (case claim_catchup_cut now (rt_retry timing) n of
               (False, n1) \<Rightarrow> (None, n1)
             | (True, n1) \<Rightarrow>
                 (Some (NODE_CATCHUP_STUCK @ '' (no progress for '' @ show_nat (as_secs (rt_catchup_max timing)) @ ''s, ''
                        @ (case behind of None \<Rightarrow> ''?'' | Some b \<Rightarrow> show_nat (unat b)) @ '' rounds behind)''), n1))
          else (None, n)
      | _ \<Rightarrow> (None, n))"

end
