(* ===== verification/HS_Contracts.thy ===== *)
theory HS_Contracts
  imports HS_Prelude
begin

text \<open>
  Contracts shared by several components: a cooldown table (the priority tier, the pool's
  table of faulted peers, the pace references) and a pool of slots with a cap (priority sessions, the responder's
  connections). The clients' lemmas are proved once here.
\<close>

section \<open>Cooldown tables\<close>

locale cooldown_table =
  fixes cooling :: "'s \<Rightarrow> 'a \<Rightarrow> instant \<Rightarrow> bool"
    and mark :: "'a \<Rightarrow> instant \<Rightarrow> 's \<Rightarrow> 's"
    and span :: duration
    and known :: "'s \<Rightarrow> 'a \<Rightarrow> bool"
    and sane :: "'s \<Rightarrow> instant \<Rightarrow> bool"
  assumes cooling_mark: "sane s now \<Longrightarrow> now \<le> t \<Longrightarrow>
      cooling (mark a now s) b t \<longleftrightarrow> (a = b \<and> known s a \<and> t < now + span) \<or> cooling s b t"
    and known_mark: "known (mark a now s) b = known s b"
    and sane_mark: "sane s now \<Longrightarrow> sane (mark a now s) now"
    and sane_mono: "sane s now \<Longrightarrow> now \<le> now' \<Longrightarrow> sane s now'"
begin

lemma known_run: "known (fold (\<lambda>(a, now). mark a now) ms s) b = known s b"
  by (induction ms arbitrary: s) (simp_all add: known_mark case_prod_beta)

text \<open>A peer cools exactly while some mark of it has not expired.\<close>

lemma cooling_run:
  "sane s t0 \<Longrightarrow> sorted (t0 # map snd ms) \<Longrightarrow> \<forall>m \<in> set ms. snd m \<le> t \<Longrightarrow>
     cooling (fold (\<lambda>(a, now). mark a now) ms s) b t \<longleftrightarrow>
       cooling s b t \<or> (known s b \<and> (\<exists>m. (b, m) \<in> set ms \<and> t < m + span))"
proof (induction ms arbitrary: s t0)
  case (Cons x ms)
  obtain a now where x: "x = (a, now)" by (cases x)
  have sane: "sane s now"
    using Cons.prems x by (auto intro: sane_mono)
  have "cooling (fold (\<lambda>(a, now). mark a now) ms (mark a now s)) b t \<longleftrightarrow>
      cooling (mark a now s) b t \<or> (known s b \<and> (\<exists>m. (b, m) \<in> set ms \<and> t < m + span))"
    using Cons.IH[OF sane_mark[OF sane], of a] Cons.prems x by (simp add: known_mark)
  with Cons.prems x sane show ?case
    by (auto simp: cooling_mark)
qed simp

lemma cooling_ends:
  assumes "sane s t0" "sorted (t0 # map snd ms)" "\<forall>m \<in> set ms. snd m + span \<le> t" "\<not> cooling s b t"
  shows "\<not> cooling (fold (\<lambda>(a, now). mark a now) ms s) b t"
  using assms cooling_run[of s t0 ms t b] by fastforce

end

section \<open>Slot pools\<close>

datatype 'k slot_op = Take 'k | Give nat

fun slot_step :: "('k \<Rightarrow> 's \<Rightarrow> 'g option \<times> 's) \<Rightarrow> ('g \<Rightarrow> 's \<Rightarrow> 's) \<Rightarrow> 'k slot_op \<Rightarrow> 's \<times> 'g list \<Rightarrow> 's \<times> 'g list" where
  "slot_step tk rel (Take k) (s, held) =
     (case tk k s of (Some g, s') \<Rightarrow> (s', g # held) | (None, s') \<Rightarrow> (s', held))"
| "slot_step tk rel (Give n) (s, held) =
     (if n < length held then (rel (held ! n) s, take n held @ drop (Suc n) held) else (s, held))"

locale slot_pool =
  fixes tk :: "'k \<Rightarrow> 's \<Rightarrow> 'g option \<times> 's"
    and rel :: "'g \<Rightarrow> 's \<Rightarrow> 's"
    and used :: "'s \<Rightarrow> 'g \<Rightarrow> nat"
    and cap :: "'s \<Rightarrow> nat option"
    and inv :: "'s \<Rightarrow> bool"
  assumes take_some: "inv s \<Longrightarrow> tk k s = (Some g, s') \<Longrightarrow>
      inv s' \<and> cap s' = cap s \<and> used s' = (used s)(g := used s g + 1) \<and> (\<forall>n. cap s = Some n \<longrightarrow> used s g < n)"
    and take_none: "tk k s = (None, s') \<Longrightarrow> s' = s"
    and release: "inv s \<Longrightarrow> 0 < used s g \<Longrightarrow>
      inv (rel g s) \<and> cap (rel g s) = cap s \<and> used (rel g s) = (used s)(g := used s g - 1)"
begin

definition balanced :: "'s \<times> 'g list \<Rightarrow> bool" where
  "balanced = (\<lambda>(s, held). inv s \<and> (\<forall>g. used s g = count_list held g) \<and>
     (\<forall>n g. cap s = Some n \<longrightarrow> used s g \<le> n))"

lemma count_remove_nth:
  "n < length held \<Longrightarrow> count_list held g = count_list (take n held @ drop (Suc n) held) g + (if held ! n = g then 1 else 0)"
  by (subst id_take_nth_drop[of n held]) auto

lemma balanced_step: "balanced x \<Longrightarrow> balanced (slot_step tk rel op x)"
proof -
  assume b: "balanced x"
  obtain s held where x: "x = (s, held)" by (cases x)
  show ?thesis
  proof (cases op)
    case (Take k)
    show ?thesis
    proof (cases "tk k s")
      case (Pair r s')
      with b x Take take_some[of s k] take_none[of k s s'] show ?thesis
        by (cases r) (auto simp: balanced_def Suc_le_eq split: if_splits)
    qed
  next
    case (Give n)
    show ?thesis
    proof (cases "n < length held")
      case True
      have pos: "0 < used s (held ! n)"
        using b x True by (auto simp: balanced_def count_list_0_iff intro!: gr0I)
      with b x have r: "inv (rel (held ! n) s)" "cap (rel (held ! n) s) = cap s"
          "used (rel (held ! n) s) = (used s)(held ! n := used s (held ! n) - 1)"
        using release[of s "held ! n"] by (auto simp: balanced_def)
      have "used (rel (held ! n) s) g = count_list (take n held @ drop (Suc n) held) g" for g
        using b x r(3) count_remove_nth[OF True, of g] by (auto simp: balanced_def)
      moreover have "cap s = Some m \<Longrightarrow> used (rel (held ! n) s) g \<le> m" for m g
        using b x r(3) by (auto simp: balanced_def intro: le_trans[OF diff_le_self])
      ultimately show ?thesis
        using True Give x r(1,2) by (auto simp: balanced_def)
    next
      case False
      with b x Give show ?thesis by simp
    qed
  qed
qed

text \<open>Whatever the interleaving of takers and givers, the count is the number of guards alive and
  never exceeds the cap.\<close>

lemma balanced_run: "balanced x \<Longrightarrow> balanced (fold (slot_step tk rel) ops x)"
  by (induction ops arbitrary: x) (simp_all add: balanced_step)

end

end
