(* ===== verification/Priority_Props.thy ===== *)
theory Priority_Props
  imports Priority HS_Contracts
begin

text \<open>
  Properties of the priority tier: the candidates, the cooldowns and the session cap. The tier
  keeps the contracts of \<open>HS_Contracts\<close>.
\<close>

section \<open>Well-formed tiers\<close>

definition tier_ok :: "priority_tier \<Rightarrow> bool" where
  "tier_ok t \<longleftrightarrow> distinct (t_peers t) \<and> length (t_sessions t) = length (t_peers t) \<and>
     length (t_cooldown_until t) = length (t_peers t)"

lemma position_Some: "position a ps = Some i \<Longrightarrow> i < length ps \<and> ps ! i = a"
  by (induction ps arbitrary: i) (auto split: if_splits)

lemma position_None: "position a ps = None \<longleftrightarrow> a \<notin> set ps"
  by (induction ps) auto

lemma position_nth: "distinct ps \<Longrightarrow> i < length ps \<Longrightarrow> position (ps ! i) ps = Some i"
proof (induction ps arbitrary: i)
  case (Cons p ps)
  then show ?case by (cases i) auto
qed simp

lemma tier_index_Some: "tier_index t a = Some i \<Longrightarrow> i < length (t_peers t) \<and> t_peers t ! i = a"
  unfolding tier_index_def by (rule position_Some)

lemma tier_contains_iff: "tier_contains t a \<longleftrightarrow> a \<in> set (t_peers t)"
  using position_None[of a "t_peers t"] by (auto simp: tier_contains_def tier_index_def)

lemma distinct_from_items: "distinct out \<Longrightarrow> distinct (peers_from_items xs out)"
  by (induction xs out rule: peers_from_items.induct) (auto split: option.splits)

lemma tier_ok_from_env: "tier_ok (priority_from_env e)"
  by (simp add: tier_ok_def priority_from_env_def with_exclusive_def priority_new_def Let_def
      priority_peers_from_env_def priority_peers_from_raw_def distinct_from_items)

section \<open>Cooldowns\<close>

definition tier_cooling :: "priority_tier \<Rightarrow> ip \<Rightarrow> instant \<Rightarrow> bool" where
  "tier_cooling t a now =
     (case tier_index t a of
        None \<Rightarrow> False
      | Some i \<Rightarrow> (case t_cooldown_until t ! i of None \<Rightarrow> False | Some u \<Rightarrow> now < u))"

lemma t_peers_cool [simp]: "t_peers (cool_until a u t) = t_peers t" "t_sessions (cool_until a u t) = t_sessions t"
    "t_max_sessions (cool_until a u t) = t_max_sessions t" "length (t_cooldown_until (cool_until a u t)) = length (t_cooldown_until t)"
  by (simp_all add: cool_until_def split: option.split)

lemma tier_ok_cool: "tier_ok t \<Longrightarrow> tier_ok (cool_until a u t)"
  by (simp add: tier_ok_def)

lemma tier_cooling_cool:
  assumes "tier_ok t"
  shows "tier_cooling (cool_until a u t) b now \<longleftrightarrow> (a = b \<and> tier_contains t a \<and> now < u) \<or> tier_cooling t b now"
proof (cases "tier_index t a")
  case None
  then show ?thesis by (simp add: cool_until_def tier_contains_def)
next
  case (Some i)
  have i: "i < length (t_cooldown_until t)" "t_peers t ! i = a"
    using tier_index_Some[OF Some] assms by (simp_all add: tier_ok_def)
  show ?thesis
  proof (cases "tier_index t b")
    case None
    then show ?thesis
      using Some by (auto simp: tier_cooling_def tier_index_def cool_until_def)
  next
    case j: (Some j)
    have "j = i \<longleftrightarrow> a = b"
      by (metis Some j i(2) option.inject tier_index_Some)
    moreover have "tier_index (cool_until a u t) b = Some j"
      using j by (simp add: tier_index_def)
    moreover have "t_cooldown_until (cool_until a u t) = (t_cooldown_until t)[i :=
        Some (case t_cooldown_until t ! i of None \<Rightarrow> u | Some v \<Rightarrow> max v u)]"
      using Some by (simp add: cool_until_def)
    moreover have "tier_contains t a"
      using Some by (simp add: tier_contains_def)
    ultimately show ?thesis
      using j i(1) unfolding tier_cooling_def
      by (cases "j = i"; cases "t_cooldown_until t ! i") (simp_all add: less_max_iff_disj disj_commute)
  qed
qed

interpretation tc: cooldown_table tier_cooling mark_failed_at PRIORITY_COOLDOWN tier_contains "\<lambda>t now. tier_ok t"
proof (unfold_locales, goal_cases)
  case (1 s now t a b)
  then show ?case unfolding mark_failed_at_def by (intro tier_cooling_cool)
next
  case (2 a now s b)
  show ?case by (simp add: mark_failed_at_def tier_contains_iff)
next
  case (3 s now a)
  then show ?case by (simp add: mark_failed_at_def tier_ok_cool)
qed

section \<open>Session slots\<close>

definition tier_used :: "priority_tier \<Rightarrow> nat \<Rightarrow> nat" where
  "tier_used t i = (if i < length (t_sessions t) then t_sessions t ! i else 0)"

definition tier_cap :: "priority_tier \<Rightarrow> nat option" where
  "tier_cap t = (if t_max_sessions t = 0 then None else Some (t_max_sessions t))"

interpretation ts: slot_pool try_acquire drop_session tier_used tier_cap tier_ok
proof (unfold_locales, goal_cases)
  case (1 s k g s')
  then obtain i where i: "tier_index s k = Some i" "g = i" "t_max_sessions s = 0 \<or> t_sessions s ! i < t_max_sessions s"
      "s' = s\<lparr>t_sessions := (t_sessions s)[i := t_sessions s ! i + 1]\<rparr>"
    by (auto simp: try_acquire_def split: option.splits if_splits)
  with 1(1) tier_index_Some[OF i(1)] show ?case
    by (auto simp: tier_ok_def tier_cap_def tier_used_def fun_eq_iff nth_list_update split: if_splits)
next
  case (2 k s s')
  then show ?case by (auto simp: try_acquire_def split: option.splits if_splits)
next
  case (3 s g)
  then show ?case
    by (auto simp: drop_session_def tier_ok_def tier_cap_def tier_used_def fun_eq_iff nth_list_update split: if_splits)
qed

section \<open>Properties\<close>

text \<open>The priority candidates are exactly the tier's peers that are not cooling down, not
  blacklisted and below the session cap, each once, least loaded first.\<close>
theorem candidates_exact:
  assumes "tier_ok t"
  shows "distinct (candidates_at bl now t) \<and> sorted (map (tier_sessions t) (candidates_at bl now t)) \<and>
    (\<forall>a. a \<in> set (candidates_at bl now t) \<longleftrightarrow> tier_contains t a \<and> \<not> tier_cooling t a now \<and> \<not> bl_contains bl a \<and>
       (t_max_sessions t = 0 \<or> tier_sessions t a < t_max_sessions t))"
proof -
  let ?n = "length (t_peers t)"
  define keep where "keep i \<longleftrightarrow> \<not> ((case t_cooldown_until t ! i of Some u \<Rightarrow> now < u | None \<Rightarrow> False)
      \<or> bl_contains bl (t_peers t ! i)) \<and> \<not> (t_max_sessions t \<noteq> 0 \<and> t_max_sessions t \<le> t_sessions t ! i)" for i
  define out where "out = sort (map (\<lambda>i. (t_sessions t ! i, i)) (filter keep [0..<?n]))"
  have cand: "candidates_at bl now t = map (\<lambda>(_, i). t_peers t ! i) out"
    using assms unfolding candidates_at_def out_def tier_ok_def Let_def keep_def by simp
  have idx: "tier_index t (t_peers t ! i) = Some i" if "i < ?n" for i
    using that assms by (simp add: tier_index_def position_nth tier_ok_def)
  have mem: "(l, i) \<in> set out \<longleftrightarrow> i < ?n \<and> l = t_sessions t ! i \<and> keep i" for l i
    by (auto simp: out_def)
  have "distinct out"
    by (simp add: out_def distinct_map inj_on_def)
  then have "distinct (candidates_at bl now t)"
    unfolding cand distinct_map using assms mem
    by (auto simp: inj_on_def tier_ok_def nth_eq_iff_index_eq)
  moreover have "map (tier_sessions t) (candidates_at bl now t) = map fst out"
    unfolding cand using mem by (auto simp: tier_sessions_def idx)
  moreover have "sorted (map fst out)"
  proof -
    have "sorted out" by (simp add: out_def)
    then show ?thesis
      unfolding sorted_map by (rule sorted_wrt_mono_rel[rotated]) (auto simp: less_eq_prod_def)
  qed
  moreover have "a \<in> set (candidates_at bl now t) \<longleftrightarrow> (\<exists>i < ?n. a = t_peers t ! i \<and> keep i)" for a
    unfolding cand using mem by force
  moreover have "(\<exists>i < ?n. a = t_peers t ! i \<and> keep i) \<longleftrightarrow> tier_contains t a \<and> \<not> tier_cooling t a now \<and>
      \<not> bl_contains bl a \<and> (t_max_sessions t = 0 \<or> tier_sessions t a < t_max_sessions t)" for a
  proof -
    have "keep i \<longleftrightarrow> \<not> tier_cooling t (t_peers t ! i) now \<and> \<not> bl_contains bl (t_peers t ! i) \<and>
        (t_max_sessions t = 0 \<or> tier_sessions t (t_peers t ! i) < t_max_sessions t)" if "i < ?n" for i
      using idx[OF that] by (auto simp: keep_def tier_cooling_def tier_sessions_def split: option.splits)
    then show ?thesis
      unfolding tier_contains_iff in_set_conv_nth by auto
  qed
  ultimately show ?thesis by simp
qed

definition sample_tier :: priority_tier where
  "sample_tier = (priority_new [''192.0.2.1'', ''192.0.2.2''] 2 (from_millis 1500) Prefer)\<lparr>t_sessions := [1, 0]\<rparr>"

lemma sample_tier_ok: "tier_ok sample_tier"
  by (simp add: sample_tier_def priority_new_def tier_ok_def)

theorem candidates_exact_witness:
  "tier_ok sample_tier \<and> candidates_at blacklist_init 5 sample_tier = [''192.0.2.2'', ''192.0.2.1''] \<and>
   sorted (map (tier_sessions sample_tier) (candidates_at blacklist_init 5 sample_tier))"
  using candidates_exact[OF sample_tier_ok, of blacklist_init 5] sample_tier_ok
  by (simp add: sample_tier_def candidates_at_def priority_new_def bl_contains_def blacklist_init_def upt_rec)

text \<open>A priority peer is skipped exactly while one of its failures is younger than thirty seconds,
  whatever other failures are recorded, and a silent peer's shorter cooldown never cuts a longer one.\<close>
theorem priority_cooldown_exact:
  assumes "t = priority_new peers mx stage boot" "distinct peers" "sorted (map snd ms)" "\<forall>m \<in> set ms. snd m \<le> now"
  shows "(tier_cooling (fold (\<lambda>(a, at). mark_failed_at a at) ms t) b now \<longleftrightarrow>
      b \<in> set peers \<and> (\<exists>at. (b, at) \<in> set ms \<and> now < at + from_secs 30)) \<and>
    (tier_cooling (fold (\<lambda>(a, at). mark_failed_at a at) ms t) b now \<longrightarrow>
      tier_cooling (mark_hung_at c late (fold (\<lambda>(a, at). mark_failed_at a at) ms t)) b now)"
proof -
  have ok: "tier_ok t"
    using assms(1,2) by (simp add: tier_ok_def priority_new_def)
  have fresh: "\<not> tier_cooling t b now"
    using assms(1) by (auto simp: tier_cooling_def priority_new_def tier_index_def dest!: position_Some split: option.split)
  have "tier_cooling (fold (\<lambda>(a, at). mark_failed_at a at) ms t) b now \<longleftrightarrow>
      tier_contains t b \<and> (\<exists>m. (b, m) \<in> set ms \<and> now < m + PRIORITY_COOLDOWN)"
    using tc.cooling_run[OF ok, of 0 ms now b] assms(3,4) fresh by simp
  moreover have "tier_contains t b \<longleftrightarrow> b \<in> set peers"
    using assms(1) by (simp add: tier_contains_iff priority_new_def)
  moreover have "tier_ok (fold (\<lambda>(a, at). mark_failed_at a at) ms t)"
    using ok by (induction ms arbitrary: t) (auto simp: mark_failed_at_def tier_ok_cool)
  ultimately show ?thesis
    by (simp add: PRIORITY_COOLDOWN_def mark_hung_at_def mark_failed_at_def tier_cooling_cool)
qed

theorem priority_cooldown_exact_witness:
  "tier_cooling (mark_failed_at ''192.0.2.1'' 7 (priority_new [''192.0.2.1''] 0 0 Never)) ''192.0.2.1'' 9 \<and>
   \<not> tier_cooling (mark_failed_at ''192.0.2.1'' 7 (priority_new [''192.0.2.1''] 0 0 Never)) ''192.0.2.1'' (from_secs 40)"
  using priority_cooldown_exact[OF refl, of "[''192.0.2.1'']" "[(''192.0.2.1'', 7)]" 9 0 0 Never "''192.0.2.1''"]
    priority_cooldown_exact[OF refl, of "[''192.0.2.1'']" "[(''192.0.2.1'', 7)]" "from_secs 40" 0 0 Never "''192.0.2.1''"]
  by (simp add: from_secs_def)

text \<open>C39. However nodes take and drop priority sessions concurrently, the count kept for a peer is the
  number of its live guards and never exceeds the configured cap.\<close>
theorem priority_sessions_capped:
  assumes "distinct peers" "(t, held) = fold (slot_step try_acquire drop_session) ops (priority_new peers mx stage boot, [])"
    and "i < length peers"
  shows "t_sessions t ! i = count_list held i \<and> (mx \<noteq> 0 \<longrightarrow> t_sessions t ! i \<le> mx)"
proof -
  let ?t = "priority_new peers mx stage boot"
  have "ts.balanced (?t, [])"
    using assms(1) by (simp add: ts.balanced_def tier_ok_def priority_new_def tier_used_def)
  then have b: "ts.balanced (t, held)"
    using ts.balanced_run assms(2) by metis
  have "t_max_sessions t = mx \<and> t_peers t = peers"
  proof -
    have "t_max_sessions (fst (fold (slot_step try_acquire drop_session) ops x)) = t_max_sessions (fst x) \<and>
        t_peers (fst (fold (slot_step try_acquire drop_session) ops x)) = t_peers (fst x)" for x :: "priority_tier \<times> nat list"
    proof (induction ops arbitrary: x)
      case (Cons op ops)
      have "t_max_sessions (fst (slot_step try_acquire drop_session op x)) = t_max_sessions (fst x) \<and>
          t_peers (fst (slot_step try_acquire drop_session op x)) = t_peers (fst x)"
        by (cases x; cases op) (auto simp: try_acquire_def drop_session_def split: option.split if_splits)
      with Cons.IH show ?case by simp
    qed simp
    from this[of "(?t, [])"] assms(2)[symmetric] show ?thesis by (simp add: priority_new_def)
  qed
  moreover from b have "tier_ok t" "tier_used t i = count_list held i"
    "tier_cap t = Some n \<Longrightarrow> tier_used t i \<le> n" for n
    by (auto simp: ts.balanced_def)
  ultimately show ?thesis
    using assms(3) by (simp add: tier_used_def tier_cap_def tier_ok_def)
qed

theorem priority_sessions_capped_witness:
  "\<exists>t held. (t, held) = fold (slot_step try_acquire drop_session) [Take ''p'', Take ''p'', Take ''p'', Give 0]
       (priority_new [''p''] 2 0 Never, []) \<and> t_sessions t ! 0 = count_list held 0 \<and> held = [0]"
proof -
  let ?r = "fold (slot_step try_acquire drop_session) [Take ''p'', Take ''p'', Take ''p'', Give 0] (priority_new [''p''] 2 0 Never, [])"
  have "snd ?r = [0]"
    by (simp add: try_acquire_def drop_session_def priority_new_def tier_index_def)
  then have r: "(fst ?r, [0]) = ?r" by (metis prod.collapse)
  show ?thesis
    using priority_sessions_capped[OF _ r, of 0] r by auto
qed

end
