(* ===== verification/Slot_Ledger.thy ===== *)
theory Slot_Ledger
  imports Priority_Props "HOL-Library.Multiset"
begin

text \<open>
  The priority slots a task holds while it races several dials. The ledger lists them under the task's own
  keys (the peer of a live dial, the number of a client-block attempt).
\<close>

text \<open>Tier \<open>t\<close> is \<open>t0\<close> with the slots \<open>ss\<close> taken on top.\<close>

definition holds :: "priority_tier \<Rightarrow> ('k \<times> nat) list \<Rightarrow> priority_tier \<Rightarrow> bool" where
  "holds t0 ss t \<longleftrightarrow> t_peers t = t_peers t0 \<and> t_exclusive t = t_exclusive t0 \<and>
     length (t_sessions t) = length (t_peers t0) \<and>
     length (t_cooldown_until t) = length (t_peers t0) \<and> distinct (map fst ss) \<and>
     (\<forall>p \<in> set ss. snd p < length (t_peers t0)) \<and>
     (\<forall>i < length (t_peers t0). t_sessions t ! i = t_sessions t0 ! i + count_list (map snd ss) i)"

lemma holds_start: "tier_ok t \<Longrightarrow> holds t [] t"
  by (simp add: holds_def tier_ok_def)

lemma holds_settled: "tier_ok t0 \<Longrightarrow> holds t0 [] t \<Longrightarrow> t_sessions t = t_sessions t0"
  by (auto simp: holds_def tier_ok_def intro: nth_equalityI)

lemma holds_acquire:
  assumes "holds t0 ss t" "k \<notin> fst ` set ss" "try_acquire a t = (Some g, t')"
  shows "holds t0 ((k, g) # ss) t'"
proof -
  obtain i where "tier_index t a = Some i" "g = i" "t' = t\<lparr>t_sessions := (t_sessions t)[i := t_sessions t ! i + 1]\<rparr>"
    using assms(3) by (auto simp: try_acquire_def split: option.splits if_splits)
  moreover from this have "i < length (t_peers t0)"
    using tier_index_Some[of t a i] assms(1) by (simp add: holds_def)
  ultimately show ?thesis
    using assms(1,2) by (auto simp: holds_def nth_list_update)
qed

lemma try_acquire_None: "try_acquire a t = (None, t') \<Longrightarrow> t' = t"
  by (auto simp: try_acquire_def split: option.splits if_splits)

lemma holds_drop: "holds t0 ((k, g) # ss) t \<Longrightarrow> holds t0 ss (drop_session g t)"
  by (auto simp: holds_def drop_session_def nth_list_update)

lemma delete_fresh: "a \<notin> fst ` set ss \<Longrightarrow> AList.delete a ss = ss"
  by (induction ss) (auto simp: AList.delete_eq)

lemma count_delete:
  "distinct (map fst ss) \<Longrightarrow> map_of ss a = Some g \<Longrightarrow>
     count_list (map snd ss) i = count_list (map snd (AList.delete a ss)) i + (if i = g then 1 else 0)"
proof (induction ss)
  case (Cons p ss)
  show ?case
  proof (cases "fst p = a")
    case True
    then have "AList.delete a ss = ss"
      using Cons.prems(1) by (auto intro: delete_fresh)
    with True Cons.prems(2) show ?thesis by (auto simp: AList.delete_eq split: prod.splits)
  next
    case False
    with Cons show ?thesis by (auto simp: AList.delete_eq split: prod.splits)
  qed
qed simp

lemma holds_front:
  assumes "holds t0 ss t" "map_of ss a = Some g"
  shows "holds t0 ((a, g) # AList.delete a ss) t"
  using assms count_delete[of ss a g] map_of_SomeD[OF assms(2)]
  by (auto simp: holds_def AList.delete_eq distinct_map_filter)

lemma holds_drop_all: "holds t0 (ss @ keep) t \<Longrightarrow> holds t0 keep (fold (\<lambda>(_, g). drop_session g) ss t)"
proof (induction ss arbitrary: t)
  case (Cons p ss)
  then have "holds t0 (ss @ keep) (drop_session (snd p) t)"
    by (cases p) (auto dest: holds_drop)
  from Cons.IH[OF this] show ?case by (simp add: split_def)
qed simp

lemma holds_rotate: "holds t0 ((k, g) # ss) t \<Longrightarrow> holds t0 (ss @ [(k, g)]) t"
  by (auto simp: holds_def)

lemma holds_cool [simp]: "holds t0 ss (cool_until a u t) = holds t0 ss t"
  by (simp add: holds_def cool_until_def split: option.splits)

lemma holds_marks [simp]:
  "holds t0 ss (mark_failed_at a now t) = holds t0 ss t" "holds t0 ss (mark_hung_at a now t) = holds t0 ss t"
  by (simp_all add: mark_failed_at_def mark_hung_at_def)

lemma holds_fold_marks [simp]:
  "holds t0 ss (fold (\<lambda>a. mark_hung_at a now) as t) = holds t0 ss t"
  "holds t0 ss (fold (\<lambda>a. mark_failed_at a now) as t) = holds t0 ss t"
  by (induction as arbitrary: t) simp_all

text \<open>The same account with the holders forgotten: a multiset of slots. Accounts compose.\<close>

definition owes :: "priority_tier \<Rightarrow> nat multiset \<Rightarrow> priority_tier \<Rightarrow> bool" where
  "owes t0 M t \<longleftrightarrow> tier_ok t \<and> t_peers t = t_peers t0 \<and> (\<forall>i \<in># M. i < length (t_peers t0)) \<and>
     (\<forall>i < length (t_peers t0). t_sessions t ! i = t_sessions t0 ! i + count M i)"

lemma owes_start: "tier_ok t \<Longrightarrow> owes t {#} t"
  by (simp add: owes_def)

lemma owes_trans: "owes t0 M t \<Longrightarrow> owes t N t' \<Longrightarrow> owes t0 (M + N) t'"
  by (auto simp: owes_def)

lemma owes_settled: "tier_ok t0 \<Longrightarrow> owes t0 {#} t \<Longrightarrow> t_sessions t = t_sessions t0"
  by (auto simp: owes_def tier_ok_def intro: nth_equalityI)

lemma count_list_mset: "count (mset xs) x = count_list xs x"
  by (induction xs) auto

lemma holds_owes: "tier_ok t0 \<Longrightarrow> holds t0 ss t \<Longrightarrow> owes t0 (mset (map snd ss)) t"
  unfolding owes_def holds_def tier_ok_def by (auto simp: count_list_mset simp flip: mset_map)

lemma owes_take:
  assumes "owes t0 M t" "tier_index t a = Some i"
  shows "owes t0 (add_mset i M) (t\<lparr>t_sessions := (t_sessions t)[i := t_sessions t ! i + 1]\<rparr>)"
  using assms tier_index_Some[OF assms(2)] by (auto simp: owes_def tier_ok_def nth_list_update)

text \<open>The slot of a guard, as a multiset.\<close>

definition one :: "nat option \<Rightarrow> nat multiset" where
  "one slot = (case slot of Some i \<Rightarrow> {#i#} | None \<Rightarrow> {#})"

lemma one_simps [simp]: "one None = {#}" "one (Some i) = {#i#}"
  by (simp_all add: one_def)

lemma owes_acquire:
  assumes "owes t0 M t" "acquire a t = (s, t')"
  shows "owes t0 (M + one s) t'"
proof (cases "tier_index t a")
  case (Some i)
  then have "s = Some i" "t' = t\<lparr>t_sessions := (t_sessions t)[i := t_sessions t ! i + 1]\<rparr>"
    using assms(2) by (simp_all add: acquire_def)
  with owes_take[OF assms(1) Some] show ?thesis by simp
qed (use assms in \<open>simp add: acquire_def\<close>)

lemma owes_try_acquire:
  assumes "owes t0 M t" "try_acquire a t = (s, t')"
  shows "owes t0 (M + one s) t'"
proof (cases "s")
  case (Some i)
  then have "acquire a t = (s, t')"
    using assms(2) by (auto simp: acquire_def try_acquire_def split: option.splits if_splits)
  with assms(1) show ?thesis by (rule owes_acquire)
qed (use assms try_acquire_None in auto)

lemma owes_drop: "owes t0 (add_mset i M) t \<Longrightarrow> owes t0 M (drop_session i t)"
  by (auto simp: owes_def drop_session_def tier_ok_def nth_list_update)

lemma owes_cool [simp]: "owes t0 M (cool_until a u t) = owes t0 M t"
  by (simp add: owes_def cool_until_def tier_ok_def split: option.splits)

lemma owes_marks [simp]:
  "owes t0 M (mark_failed_at a now t) = owes t0 M t" "owes t0 M (mark_hung_at a now t) = owes t0 M t"
  by (simp_all add: mark_failed_at_def mark_hung_at_def)

end
