(* ===== verification/Select_Props.thy ===== *)
theory Select_Props
  imports Select_Race Slot_Ledger
begin

text \<open>
  Properties of the selection: no race leaks a priority slot, an exclusive tier keeps the pool out until
  its peers have failed, the first block of a selected peer was vetted, and where a bootstrap may come from.
\<close>

section \<open>Slots\<close>

lemma holds_free_slot: "holds t0 ss t \<Longrightarrow> free_slot a (ss, t) = (ss', t') \<Longrightarrow> holds t0 ss' t'"
  by (auto simp: free_slot_def split: option.splits dest: holds_front[THEN holds_drop])

lemma holds_free_all: "holds t0 (ss @ keep) t \<Longrightarrow> holds t0 keep (free_all ss t)"
  unfolding free_all_def by (rule holds_drop_all)

lemma holds_judge [simp]: "holds t0 ss (judge_priority a e now t) = holds t0 ss t"
  by (simp add: judge_priority_def)

section \<open>The live race keeps the slots\<close>

lemma launch_pool_fields [simp]:
  "lr_tier (launch_pool peers start deadline now r) = lr_tier r"
  "lr_slots (launch_pool peers start deadline now r) = lr_slots r"
  "lr_prio_in_flight (launch_pool peers start deadline now r) = lr_prio_in_flight r"
  by (induction peers start deadline now r rule: launch_pool.induct; subst launch_pool.simps; simp)+

lemma launch_prio_holds:
  "holds t0 (lr_slots r) (lr_tier r) \<Longrightarrow> distinct as \<Longrightarrow> set as \<inter> fst ` set (lr_slots r) = {} \<Longrightarrow>
     holds t0 (lr_slots (launch_prio as r)) (lr_tier (launch_prio as r))"
proof (induction as r rule: launch_prio.induct)
  case (2 a as r)
  obtain x t where x: "try_acquire a (lr_tier r) = (x, t)" by (cases "try_acquire a (lr_tier r)")
  show ?case
  proof (cases x)
    case None
    then have "t = lr_tier r" using x try_acquire_None by blast
    with 2 x None show ?thesis by (simp add: live_attempt_slot_def)
  next
    case (Some g)
    then have "holds t0 ((a, g) # lr_slots r) t"
      using holds_acquire[of t0 "lr_slots r" "lr_tier r" a a g t] 2 x by auto
    with 2 x Some show ?thesis by (auto simp: live_attempt_slot_def)
  qed
qed simp

lemma select_live_loop_holds:
  "select_live_loop msg peers start deadline pool_opens evs r = Some (w, r') \<Longrightarrow> holds t0 (lr_slots r) (lr_tier r) \<Longrightarrow>
     holds t0 (case w of Some s \<Rightarrow> (case lp_slot s of Some g \<Rightarrow> [(lp_ip s, g)] | None \<Rightarrow> []) | None \<Rightarrow> []) (lr_tier r')"
proof (induction msg peers start deadline pool_opens evs r rule: select_live_loop.induct)
  case (2 msg peers start deadline pool_opens now ev evs r)
  let ?open = "pool_opens \<le> now \<or> lr_prio_in_flight r = 0"
  let ?r1 = "if ?open then launch_pool peers start deadline now r else r"
  have h1: "holds t0 (lr_slots ?r1) (lr_tier ?r1)" using "2.prems"(2) by simp
  have dry: "holds t0 ([] :: slots) (lr_tier (live_dry now ?r1))"
    using holds_free_all[of t0 "lr_slots ?r1" "[]"] h1 by (simp add: live_dry_def)
  show ?case
  proof (cases "lr_set ?r1 = 0 \<or> deadline \<le> now")
    case True
    with "2.prems"(1) dry show ?thesis by (auto simp: Let_def simp del: launch_pool_fields)
  next
    case False
    show ?thesis
    proof (cases ev)
      case (LiveOk s isp)
      have win: "holds t0 (case lp_slot (fst (live_win s isp ?r1)) of Some g \<Rightarrow> [(lp_ip s, g)] | None \<Rightarrow> [])
          (lr_tier (snd (live_win s isp ?r1)))"
      proof (cases "if isp then map_of (lr_slots ?r1) (lp_ip s) else None")
        case None
        then show ?thesis using holds_free_all[of t0 "lr_slots ?r1" "[]"] h1 by (auto simp: live_win_def Let_def)
      next
        case (Some g)
        then have "holds t0 (AList.delete (lp_ip s) (lr_slots ?r1) @ [(lp_ip s, g)]) (lr_tier ?r1)"
          using holds_rotate holds_front[OF h1, of "lp_ip s" g] by (auto split: if_splits)
        with Some show ?thesis by (auto simp: live_win_def Let_def split: if_splits intro: holds_free_all)
      qed
      have "lp_ip (fst (live_win s isp ?r1)) = lp_ip s" by (simp add: live_win_def Let_def)
      with LiveOk False "2.prems"(1) win show ?thesis
        by (auto simp: Let_def split: prod.splits option.splits simp del: launch_pool_fields)
    next
      case (LiveErr a isp e)
      have "holds t0 (lr_slots (live_fail msg now a isp e ?r1)) (lr_tier (live_fail msg now a isp e ?r1))"
        using h1 by (auto simp: live_fail_def Let_def split: prod.splits dest: holds_free_slot)
      with 2(1)[OF refl refl False LiveErr] LiveErr False "2.prems"(1) show ?thesis
        by (auto simp: Let_def simp del: launch_pool_fields)
    next
      case (LivePanic a isp why)
      have "holds t0 (lr_slots (live_panic a isp why ?r1)) (lr_tier (live_panic a isp why ?r1))"
        using h1 by (auto simp: live_panic_def split: prod.splits if_splits dest: holds_free_slot)
      with 2(2)[OF refl refl False LivePanic] LivePanic False "2.prems"(1) show ?thesis
        by (auto simp: Let_def simp del: launch_pool_fields)
    next
      case LiveWake
      show ?thesis
      proof (cases ?open)
        case True
        with LiveWake False "2.prems"(1) dry show ?thesis by (auto simp: Let_def simp del: launch_pool_fields)
      next
        case no: False
        with 2(3)[OF refl refl False LiveWake] LiveWake False "2.prems" show ?thesis by (auto simp: Let_def)
      qed
    qed
  qed
qed simp

lemma distinct_candidates:
  assumes "tier_ok t"
  shows "distinct (candidates_at bl now t)"
proof -
  have gen: "distinct (map (\<lambda>(_, i). t_peers t ! i) (sort (map (\<lambda>i. (t_sessions t ! i, i)) is)))"
    if "set is \<subseteq> {0..<length (t_peers t)}" "distinct is" for "is"
  proof -
    have "inj_on (\<lambda>(_, i). t_peers t ! i) (set (map (\<lambda>i. (t_sessions t ! i, i)) is))"
    proof -
      have "x = y" if "x \<in> set is" "y \<in> set is" "t_peers t ! x = t_peers t ! y" for x y
        using that \<open>set is \<subseteq> {0..<length (t_peers t)}\<close> assms nth_eq_iff_index_eq[of "t_peers t" x y]
        by (auto simp: tier_ok_def subset_iff)
      then show ?thesis by (auto simp: inj_on_def)
    qed
    moreover have "distinct (map (\<lambda>i. (t_sessions t ! i, i)) is)"
      using that(2) by (auto simp: distinct_map inj_on_def)
    ultimately show ?thesis by (simp add: distinct_map)
  qed
  show ?thesis
    unfolding candidates_at_def Let_def by (rule gen) (use assms in \<open>auto simp: tier_ok_def\<close>)
qed

text \<open>Whatever the dials of a live selection do and in whatever order they end, no priority slot leaks:
  when the selection is over, the session counts are those from before, plus one for the winner if it is
  a priority peer.\<close>
theorem select_live_peer_slots:
  assumes "tier_ok t" "select_live_peer msg bl t peers start started evs = Some (w, t')" "i < length (t_peers t)"
  shows "t_sessions t' ! i = t_sessions t ! i +
     (case w of Some s \<Rightarrow> if lp_slot s = Some i then 1 else 0 | None \<Rightarrow> 0)"
proof (cases "peers = [] \<and> candidates_at bl started t = []")
  case True
  with assms(2) show ?thesis by (auto simp: select_live_peer_unfold)
next
  case False
  let ?prio = "candidates_at bl started t"
  obtain r' po where loop: "select_live_loop msg peers start (started + LIVE_SELECT_WAIT) po evs (live_race_new t ?prio) = Some (w, r')"
      and t': "t' = lr_tier r'"
    using assms(2) False by (auto simp: select_live_peer_unfold Let_def split: if_splits)
  have "holds t (lr_slots (live_race_new t ?prio)) (lr_tier (live_race_new t ?prio))"
    unfolding live_race_new_def
    using holds_start[OF assms(1)] distinct_candidates[OF assms(1)] by (intro launch_prio_holds) simp_all
  from select_live_loop_holds[OF loop this] assms(3) show ?thesis
    by (auto simp: t' holds_def split: option.splits)
qed

theorem select_live_peer_slots_witness:
  "\<exists>s t'. select_live_peer (\<lambda>_. []) blacklist_init sample_tier [''192.0.2.7''] 0 0
      [(1, LiveErr ''192.0.2.2'' True SelPeerFull),
       (2, LiveOk \<lparr>lp_ip = ''192.0.2.1'', lp_greeting = [], lp_frames = [], lp_first_round = 9, lp_slot = None\<rparr> True)] = Some (Some s, t') \<and>
     t_sessions t' = [2, 0]"
proof -
  let ?s = "\<lparr>lp_ip = ''192.0.2.1'', lp_greeting = [], lp_frames = [], lp_first_round = 9, lp_slot = Some 0\<rparr>"
  let ?e = "[(1, LiveErr ''192.0.2.2'' True SelPeerFull),
       (2, LiveOk \<lparr>lp_ip = ''192.0.2.1'', lp_greeting = [], lp_frames = [], lp_first_round = 9, lp_slot = None\<rparr> True)]"
  have "candidates_at blacklist_init 0 sample_tier = [''192.0.2.2'', ''192.0.2.1'']"
    by (simp add: sample_tier_def candidates_at_def priority_new_def bl_contains_def blacklist_init_def upt_rec)
  then obtain t' where run: "select_live_peer (\<lambda>_. []) blacklist_init sample_tier [''192.0.2.7''] 0 0 ?e = Some (Some ?s, t')"
      "length (t_sessions t') = 2"
    by (simp add: select_live_peer_unfold live_race_new_def live_attempt_slot_def try_acquire_def tier_index_def sample_tier_def
        priority_new_def LIVE_SELECT_WAIT_def from_millis_def exclusive_def live_fail_def free_slot_def drop_session_def
        judge_priority_def mark_failed_at_def cool_until_def live_win_def free_all_def AList.delete_eq Let_def)
  have "t_sessions t' ! 0 = 2" "t_sessions t' ! 1 = 0"
    using select_live_peer_slots[OF sample_tier_ok run(1), of 0] select_live_peer_slots[OF sample_tier_ok run(1), of 1]
    by (simp_all add: sample_tier_def priority_new_def)
  then have "t_sessions t' = [2, 0]" using run(2) by (auto intro!: nth_equalityI simp: less_2_cases_iff)
  with run(1) show ?thesis by blast
qed

section \<open>An exclusive tier\<close>

fun prio_failed :: "instant \<times> live_ev \<Rightarrow> bool" where
  "prio_failed (_, LiveErr _ True _) = True"
| "prio_failed _ = False"

lemma launch_pool_closed: "deadline \<le> now \<Longrightarrow> launch_pool peers start deadline now r = r"
  by (subst launch_pool.simps) simp

lemma live_win_dialed [simp]: "lr_dialed (snd (live_win s isp r)) = lr_dialed r"
  by (simp add: live_win_def Let_def)

lemma live_dry_dialed [simp]: "lr_dialed (live_dry now r) = lr_dialed r"
  by (simp add: live_dry_def)

lemma live_fail_fields [simp]:
  "lr_dialed (live_fail msg now a isp e r) = lr_dialed r"
  "lr_prio_in_flight (live_fail msg now a isp e r) = lr_prio_in_flight r - (if isp then 1 else 0)"
  by (simp_all add: live_fail_def Let_def split: prod.splits)

lemma live_panic_fields [simp]:
  "lr_dialed (live_panic a isp why r) = lr_dialed r"
  "lr_prio_in_flight (live_panic a isp why r) = lr_prio_in_flight r"
  by (simp_all add: live_panic_def split: prod.splits)

text \<open>While priority attempts are out and the pool is not open, a step leaves the pool alone.\<close>

lemma closed_step:
  "lr_prio_in_flight r \<noteq> 0 \<Longrightarrow> \<not> (opens \<le> now \<and> now < deadline) \<Longrightarrow>
   select_live_loop msg peers start deadline opens ((now, ev) # evs) r =
     (if lr_set r = 0 \<or> deadline \<le> now then Some (None, live_dry now r)
      else (case ev of
          LiveOk s isp \<Rightarrow> (case live_win s isp r of (s', r2) \<Rightarrow> Some (Some s', r2))
        | LiveErr a isp e \<Rightarrow> select_live_loop msg peers start deadline opens evs (live_fail msg now a isp e r)
        | LivePanic a isp why \<Rightarrow> select_live_loop msg peers start deadline opens evs (live_panic a isp why r)
        | LiveWake \<Rightarrow> select_live_loop msg peers start deadline opens evs r))"
  by (cases "deadline \<le> now") (simp_all add: Let_def launch_pool_closed)

lemma pool_waits:
  "select_live_loop msg peers start deadline opens evs r = Some (w, r') \<Longrightarrow>
     False \<notin> snd ` set (lr_dialed r) \<Longrightarrow> False \<in> snd ` set (lr_dialed r') \<Longrightarrow>
     lr_prio_in_flight r \<le> length (filter prio_failed evs) \<or> (\<exists>x \<in> set evs. opens \<le> fst x \<and> fst x < deadline)"
proof (induction evs arbitrary: r)
  case (Cons p evs)
  obtain now ev where p: "p = (now, ev)" by (cases p)
  show ?case
  proof (cases "lr_prio_in_flight r = 0 \<or> opens \<le> now \<and> now < deadline")
    case True
    then show ?thesis by (auto simp: p)
  next
    case False
    then have c: "lr_prio_in_flight r \<noteq> 0" "\<not> (opens \<le> now \<and> now < deadline)" by auto
    note step = Cons.prems(1)[unfolded p closed_step[OF c]]
    have go: "\<not> (lr_set r = 0 \<or> deadline \<le> now)"
      using step Cons.prems(2,3) by (auto split: if_splits)
    show ?thesis
    proof (cases ev)
      case (LiveOk s isp)
      have "lr_dialed r' = lr_dialed r"
        using LiveOk go step live_win_dialed[of s isp r] by (cases "live_win s isp r") simp
      with Cons.prems(2,3) show ?thesis by (simp only:)
    next
      case (LiveErr a isp e)
      with Cons.IH[of "live_fail msg now a isp e r"] Cons.prems(2,3) go step
      have "lr_prio_in_flight r - (if isp then 1 else 0) \<le> length (filter prio_failed evs) \<or>
          (\<exists>x \<in> set evs. opens \<le> fst x \<and> fst x < deadline)" by simp
      then show ?thesis by (cases isp) (auto simp: LiveErr p)
    next
      case (LivePanic a isp why)
      with Cons.IH[of "live_panic a isp why r"] Cons.prems(2,3) go step show ?thesis by (auto simp: p)
    next
      case LiveWake
      with Cons.IH[of r] Cons.prems(2,3) go step show ?thesis by (auto simp: p)
    qed
  qed
qed simp

lemma launch_prio_counts:
  "lr_prio_in_flight (launch_prio as r) = lr_prio_in_flight r + length as"
  "False \<notin> snd ` set (lr_dialed r) \<Longrightarrow> False \<notin> snd ` set (lr_dialed (launch_prio as r))"
  by (induction as r rule: launch_prio.induct) (auto split: prod.splits)

text \<open>C17. The pool comes after the priority peers. When a live selection has dialed a pool peer, as many priority attempts
  have failed as there were usable priority peers at its start, or the tier is not exclusive and its head start is over.
  With an exclusive tier a slow priority peer is therefore never outraced by the pool.\<close>
theorem exclusive_pool_last:
  assumes "select_live_race msg bl t peers start started evs = Some (w, r')" and "(a, False) \<in> set (lr_dialed r')"
  shows "length (candidates_at bl started t) \<le> length (filter prio_failed evs) \<or>
    (\<not> exclusive t \<and> (\<exists>x \<in> set evs. started + t_stage t \<le> fst x))"
proof (cases "candidates_at bl started t")
  case (Cons c cs)
  let ?prio = "candidates_at bl started t"
  let ?opens = "if exclusive t then started + LIVE_SELECT_WAIT else started + t_stage t"
  have loop: "select_live_loop msg peers start (started + LIVE_SELECT_WAIT) ?opens evs (live_race_new t ?prio) = Some (w, r')"
    using assms(1) Cons by (auto simp: select_live_race_def Let_def)
  have "False \<in> snd ` set (lr_dialed r')" using assms(2) by force
  from pool_waits[OF loop _ this] launch_prio_counts show ?thesis
    by (auto simp: live_race_new_def split: if_splits)
qed simp

lemma launch_pool_stop:
  "\<not> (lr_launched r < length peers \<and> lr_pool_in_flight r < LIVE_SELECT_MAX_PARALLEL \<and> now < deadline) \<Longrightarrow>
     launch_pool peers start deadline now r = r"
  by (subst launch_pool.simps, rule if_not_P)

lemma launch_pool_next:
  "lr_launched r < length peers \<and> lr_pool_in_flight r < LIVE_SELECT_MAX_PARALLEL \<and> now < deadline \<Longrightarrow>
     launch_pool peers start deadline now r = launch_pool peers start deadline now
       (r\<lparr>lr_set := lr_set r + 1, lr_pool_in_flight := lr_pool_in_flight r + 1, lr_launched := lr_launched r + 1,
          lr_dialed := lr_dialed r @ [(peers ! ((start + lr_launched r) mod length peers), False)]\<rparr>)"
  by (subst launch_pool.simps, rule if_P)

theorem exclusive_pool_last_witness:
  "\<exists>r'. select_live_race (\<lambda>_. []) blacklist_init (with_exclusive True sample_tier) [''192.0.2.7''] 0 0
      [(1, LiveErr ''192.0.2.2'' True SelPeerFull), (2, LiveErr ''192.0.2.1'' True SelPeerFull), (3, LiveWake)] = Some (None, r') \<and>
    (''192.0.2.7'', False) \<in> set (lr_dialed r') \<and> exclusive (with_exclusive True sample_tier) \<and>
    length (candidates_at blacklist_init 0 (with_exclusive True sample_tier)) \<le> (2 :: nat)"
proof -
  let ?t = "with_exclusive True sample_tier"
  let ?e = "[(1, LiveErr ''192.0.2.2'' True SelPeerFull), (2, LiveErr ''192.0.2.1'' True SelPeerFull), (3, LiveWake)]"
  have c: "candidates_at blacklist_init 0 ?t = [''192.0.2.2'', ''192.0.2.1'']"
    by (simp add: sample_tier_def with_exclusive_def candidates_at_def priority_new_def bl_contains_def blacklist_init_def upt_rec)
  have x: "exclusive ?t" by (simp add: exclusive_def with_exclusive_def sample_tier_def priority_new_def)
  obtain r' where r': "select_live_race (\<lambda>_. []) blacklist_init ?t [''192.0.2.7''] 0 0 ?e = Some (None, r')"
      "(''192.0.2.7'', False) \<in> set (lr_dialed r')"
    using c by (simp add: select_live_race_def exclusive_def live_race_new_def live_attempt_slot_def try_acquire_def tier_index_def sample_tier_def
        with_exclusive_def priority_new_def LIVE_SELECT_WAIT_def from_millis_def live_fail_def free_slot_def drop_session_def
        launch_pool_stop launch_pool_next LIVE_SELECT_MAX_PARALLEL_def judge_priority_def mark_failed_at_def cool_until_def AList.delete_eq Let_def)
  from exclusive_pool_last[OF this] r' x show ?thesis by auto
qed

end
