(* ===== verification/Client_Blocks.thy ===== *)
theory Client_Blocks
  imports Node_State Select
begin

text \<open>
  The client-block RPC of a node on port 4002, \<open>gateway/client_blocks.rs\<close>: reading a peer's answer, the
  range queries of a catching-up node and the prefetch of its next range. The race for an answer is in
  \<open>Client_Race\<close>.
\<close>

section \<open>Constants\<close>

definition STRUCTURED_PEER_ONLY :: bytes where "STRUCTURED_PEER_ONLY = [0, 1, 0]"

definition ACTIVE_4002_PIN_WAIT :: duration where "ACTIVE_4002_PIN_WAIT = from_millis 1500"

definition ACTIVE_4002_GRACE :: duration where "ACTIVE_4002_GRACE = from_millis 2000"

definition PRIORITY_4002_ROUND :: duration where "PRIORITY_4002_ROUND = from_secs 6"

definition PREFETCH_MAX_AGE :: duration where "PREFETCH_MAX_AGE = from_secs 20"

definition PREFETCH_SLOTS :: nat where "PREFETCH_SLOTS = 4"

definition PREFETCH_TIP_MARGIN :: u32 where "PREFETCH_TIP_MARGIN = 300"

definition PREFETCH_MAX_WIDTH :: u32 where "PREFETCH_MAX_WIDTH = 1000"

definition CLIENT_BLOCK_FETCH_DEADLINE :: duration where "CLIENT_BLOCK_FETCH_DEADLINE = from_secs 15"

definition MAX_CLIENT_BLOCK_RESPONSE :: nat where "MAX_CLIENT_BLOCK_RESPONSE = 64000000"

section \<open>Answers\<close>

definition response_is_peer_only :: "bytes \<Rightarrow> bool" where
  "response_is_peer_only payload \<longleftrightarrow>
     payload = STRUCTURED_PEER_ONLY \<or> has_window (map of_char ''Peer-only request'') payload"

definition response_has_no_client_blocks :: "bytes \<Rightarrow> bool" where
  "response_has_no_client_blocks payload \<longleftrightarrow> has_window (map of_char ''no client blocks to serve'') payload"

definition response_has_client_block_round_too_large :: "bytes \<Rightarrow> bool" where
  "response_has_client_block_round_too_large payload \<longleftrightarrow>
     has_window (map of_char ''client block round too large'') payload"

definition response_is_structured_round_too_large :: "bytes \<Rightarrow> bool" where
  "response_is_structured_round_too_large payload \<longleftrightarrow>
     length payload = 13 \<and> take 4 payload = [0, 1, 6, 0xfc] \<and> payload ! 8 = 0xfc"

definition response_has_client_block_round_too_small :: "bytes \<Rightarrow> bool" where
  "response_has_client_block_round_too_small payload \<longleftrightarrow>
     has_window (map of_char ''client block round too small'') payload"

text \<open>The deduplicated tail of the candidates: the pool rotated from \<open>start\<close>, up to \<open>limit\<close> in all.\<close>

fun fill_candidates :: "nat \<Rightarrow> ip list \<Rightarrow> ip list \<Rightarrow> ip list" where
  "fill_candidates limit [] out = out"
| "fill_candidates limit (a # as) out =
     (if limit \<le> length out then out
      else if a \<in> set out then fill_candidates limit as out
      else fill_candidates limit as (out @ [a]))"

definition client_block_peer_candidates :: "ip list \<Rightarrow> ip list \<Rightarrow> nat \<Rightarrow> nat \<Rightarrow> ip list \<times> nat" where
  "client_block_peer_candidates head peers rr limit =
     (if limit = 0 then ([], rr)
      else if peers = [] then (take limit head, rr)
      else (fill_candidates limit (rotated rr peers) (take limit head), rr + max limit 1))"

datatype upstream_response = Frames bytes | PeerOnly | RangeTooSmall bytes | TerminalError bytes

datatype budget_out = BudgetGot | BudgetElapsed | BudgetClosed

datatype cb_error = CbPrewarm sel_error | CbRefused | CbIo io_error | CbOversized | CbBudgetExhausted | CbBudgetClosed

text \<open>What one request to a peer meets: its live relationship if one is opened, the connection, the write of
  the request, the wait for the byte budget and the bytes of the answer.\<close>

record cb_dial =
  cd_live :: dial_out
  cd_conn :: "io_error option"
  cd_write :: "io_error option"
  cd_budget :: budget_out
  cd_bytes :: "rd_ev list"

definition classify_response :: "bytes \<Rightarrow> upstream_response" where
  "classify_response frame =
     (let rp = drop 5 frame
      in if response_is_peer_only rp then PeerOnly
         else if response_has_no_client_blocks rp \<or> response_has_client_block_round_too_large rp
                 \<or> response_is_structured_round_too_large rp then TerminalError frame
         else if response_has_client_block_round_too_small rp then RangeTooSmall frame
         else Frames frame)"

definition read_client_blocks :: "cb_dial \<Rightarrow> cb_error + upstream_response" where
  "read_client_blocks d =
     (case read_exact 5 (cd_bytes d) of
        (Inl e, _) \<Rightarrow> Inl (CbIo e)
      | (Inr rh, s) \<Rightarrow>
          (let rl = be_len rh 0
           in if MAX_CLIENT_BLOCK_RESPONSE < rl then Inl CbOversized
              else (case cd_budget d of
                  BudgetElapsed \<Rightarrow> Inl CbBudgetExhausted
                | BudgetClosed \<Rightarrow> Inl CbBudgetClosed
                | BudgetGot \<Rightarrow>
                    (case read_exact rl s of
                       (Inl e, _) \<Rightarrow> Inl (CbIo e)
                     | (Inr rp, _) \<Rightarrow> Inr (classify_response (rh @ rp))))))"

definition fetch_client_blocks_from_peer ::
  "blacklist \<Rightarrow> ip \<Rightarrow> bool \<Rightarrow> cb_dial \<Rightarrow> cb_error + upstream_response" where
  "fetch_client_blocks_from_peer bl a prewarm_live d =
     (case (if prewarm_live then open_peer_relationship bl a (cd_live d) else Inr []) of
        Inl e \<Rightarrow> Inl (CbPrewarm e)
      | Inr _ \<Rightarrow>
          if connect bl (a @ '':4002'') = PermissionDenied then Inl CbRefused
          else (case cd_conn d of
              Some e \<Rightarrow> Inl (CbIo e)
            | None \<Rightarrow>
                (case cd_write d of
                   Some e \<Rightarrow> Inl (CbIo e)
                 | None \<Rightarrow> read_client_blocks d)))"

section \<open>Range queries\<close>

definition client_block_range :: "bytes \<Rightarrow> (u32 \<times> u32) option" where
  "client_block_range req =
     (if length req = 16 \<and> take 5 req = [0, 0, 0, 11, 0] \<and> req ! 5 = 0 \<and> req ! 6 = 0xfc \<and> req ! 11 = 0xfc
      then Some (u32_from_le_bytes (req ! 7) (req ! 8) (req ! 9) (req ! 10),
                 u32_from_le_bytes (req ! 12) (req ! 13) (req ! 14) (req ! 15))
      else None)"

definition client_block_range_request :: "u32 \<Rightarrow> u32 \<Rightarrow> bytes" where
  "client_block_range_request start end =
     [0, 0, 0, 11, 0, 0, 0xfc] @ u32_to_le_bytes start @ [0xfc] @ u32_to_le_bytes end"

definition next_prefetch_range :: "u32 \<Rightarrow> u32 \<Rightarrow> u32 \<Rightarrow> (u32 \<times> u32) option" where
  "next_prefetch_range start end freshest =
     Option.bind (checked_sub end start) (\<lambda>d.
     Option.bind (checked_add d 1) (\<lambda>width.
       if PREFETCH_MAX_WIDTH < width then None
       else Option.bind (checked_add end 1) (\<lambda>next_start.
            Option.bind (checked_add end width) (\<lambda>next_end.
            Option.bind (checked_sub freshest next_end) (\<lambda>gap.
              if PREFETCH_TIP_MARGIN \<le> gap then Some (next_start, next_end) else None)))))"

section \<open>Prefetching the next range\<close>

text \<open>The running fetch is left out: it is aborted exactly when its record is dropped, and gives its slot back when it
  ends or is aborted, which is a step of its own (\<open>prefetch_end\<close>).\<close>

record prefetch =
  pf_id :: nat
  pf_start :: u32
  pf_end :: u32
  pf_generation :: nat
  pf_at :: instant

type_synonym gw_node = "prefetch node_state"

definition serves :: "u32 \<Rightarrow> u32 \<Rightarrow> nat \<Rightarrow> instant \<Rightarrow> prefetch \<Rightarrow> bool" where
  "serves start end generation now p \<longleftrightarrow>
     pf_start p = start \<and> pf_end p = end \<and> pf_generation p = generation \<and> now - pf_at p \<le> PREFETCH_MAX_AGE"

definition take_prefetch :: "u32 \<Rightarrow> u32 \<Rightarrow> instant \<Rightarrow> gw_node \<Rightarrow> prefetch option \<times> gw_node" where
  "take_prefetch start end now n =
     (case n_prefetch n of
        None \<Rightarrow> (None, n)
      | Some p \<Rightarrow>
          (if serves start end (pin_generation n) now p then Some p else None, n\<lparr>n_prefetch := None\<rparr>))"

definition expire_prefetch :: "nat \<Rightarrow> gw_node \<Rightarrow> gw_node" where
  "expire_prefetch i n =
     (case n_prefetch n of
        Some p \<Rightarrow> if pf_id p = i then n\<lparr>n_prefetch := None\<rparr> else n
      | None \<Rightarrow> n)"

text \<open>
  \<open>start_prefetch\<close> reads the generation first and installs the record later, under the slot's lock; pins may
  come in between. The gateway-wide part is the number of free slots and the next identifier.
\<close>

definition prefetch_begin :: "nat \<times> nat \<Rightarrow> u32 \<times> u32 \<Rightarrow> instant \<Rightarrow> gw_node \<Rightarrow> prefetch option \<times> nat \<times> nat" where
  "prefetch_begin = (\<lambda>(free, next_id) (start, end) now n.
     if free = 0 then (None, free, next_id)
     else (Some \<lparr>pf_id = next_id, pf_start = start, pf_end = end, pf_generation = pin_generation n, pf_at = now\<rparr>,
           free - 1, next_id + 1))"

definition prefetch_end :: "nat \<times> nat \<Rightarrow> nat \<times> nat" where
  "prefetch_end = (\<lambda>(free, next_id). (free + 1, next_id))"

definition prefetch_install :: "prefetch \<Rightarrow> gw_node \<Rightarrow> gw_node" where
  "prefetch_install p n = (if pin_generation n \<noteq> pf_generation p then n else n\<lparr>n_prefetch := Some p\<rparr>)"

definition start_prefetch :: "u32 \<times> u32 \<Rightarrow> instant \<Rightarrow> (nat \<times> nat) \<times> gw_node \<Rightarrow> (nat \<times> nat) \<times> gw_node" where
  "start_prefetch wanted now = (\<lambda>(g, n).
     case prefetch_begin g wanted now n of
       (None, g') \<Rightarrow> (g', n)
     | (Some p, g') \<Rightarrow> (g', prefetch_install p n))"

text \<open>A look of the wait at the pin and the clock, and what the fetch had done by the end of the interval.\<close>

datatype prefetch_poll =
    StillFetching nat instant
  | Fetched nat instant "(string + bytes) option"

text \<open>The wait for a prefetched batch: the pin is checked before every interval and once more at the end.
  \<open>end_gen\<close> is the generation at that last look.\<close>

fun await_prefetch :: "prefetch \<Rightarrow> instant \<Rightarrow> nat \<Rightarrow> prefetch_poll list \<Rightarrow> bytes option option" where
  "await_prefetch p deadline end_gen [] = None"
| "await_prefetch p deadline end_gen (StillFetching gen now # ps) =
     (if gen \<noteq> pf_generation p \<or> deadline \<le> now then Some None else await_prefetch p deadline end_gen ps)"
| "await_prefetch p deadline end_gen (Fetched gen now r # ps) =
     Some (if gen \<noteq> pf_generation p \<or> deadline \<le> now then None
           else (case r of
               Some (Inr frame) \<Rightarrow>
                 if 4 < length frame \<and> frame ! 4 = 1 \<and> end_gen = pf_generation p then Some frame else None
             | _ \<Rightarrow> None))"

end
