(* ===== verification/Client_Race.thy ===== *)
theory Client_Race
  imports Client_Blocks Select_Race
begin

text \<open>
  \<open>fetch_client_blocks_raced\<close> and \<open>serve_client_blocks\<close> of \<open>gateway/client_blocks.rs\<close>, as functions of the
  events they take. Every event carries its time, the blacklist then in force, and what other tasks
  did to the node's state, the priority tier and the rotation counter since the previous one.
\<close>

section \<open>State\<close>

text \<open>\<open>cb_heard\<close> is a history of the accepted answers, in order; the code does not keep it and nothing reads it.\<close>

record cb_attempt =
  at_tag :: "active_peer option"
  at_ip :: ip
  at_prewarm :: bool
  at_slot :: "nat option"

record cb_race =
  cb_node :: gw_node
  cb_tier :: priority_tier
  cb_rr :: nat
  cb_attempts :: "(nat \<times> cb_attempt) list"
  cb_next :: nat
  cb_failures :: "string list"
  cb_terminal :: "bytes option"
  cb_too_small :: "bytes option"
  cb_deferred :: "active_peer option"
  cb_pool_hedged :: bool
  cb_pending :: "ip list"
  cb_heard :: "upstream_response list"

type_synonym cb_others = "gw_node \<times> priority_tier \<times> nat \<Rightarrow> gw_node \<times> priority_tier \<times> nat"

record cb_env =
  ce_now :: instant
  ce_bl :: blacklist
  ce_others :: cb_others

definition meanwhile :: "cb_env \<Rightarrow> cb_race \<Rightarrow> cb_race" where
  "meanwhile e r =
     (case ce_others e (cb_node r, cb_tier r, cb_rr r) of
        (n, t, rr) \<Rightarrow> r\<lparr>cb_node := n, cb_tier := t, cb_rr := rr\<rparr>)"

section \<open>The pinned active\<close>

definition active_answers_first :: "blacklist \<Rightarrow> instant \<Rightarrow> priority_tier \<Rightarrow> ip \<Rightarrow> bool" where
  "active_answers_first bl now t a \<longleftrightarrow> tier_contains t a \<or> pool_allowed bl now t"

text \<open>One look every 250 ms until a session is pinned or the deadline has passed.\<close>

fun wait_active_session ::
  "instant \<Rightarrow> (instant \<times> blacklist \<times> (gw_node \<Rightarrow> gw_node)) list \<Rightarrow> gw_node \<Rightarrow> (active_peer option \<times> gw_node) option" where
  "wait_active_session deadline [] n = None"
| "wait_active_session deadline ((now, bl, others) # ps) n =
     (case active_session_snapshot bl (others n) of
        (Some peer, n') \<Rightarrow> Some (Some peer, n')
      | (None, n') \<Rightarrow> if deadline \<le> now then Some (None, n') else wait_active_session deadline ps n')"

section \<open>Attempts\<close>

definition prewarm_slot :: "ip \<Rightarrow> priority_tier \<Rightarrow> nat option option \<times> priority_tier" where
  "prewarm_slot a t =
     (if tier_contains t a then
        (case try_acquire a t of (None, t') \<Rightarrow> (None, t') | (Some g, t') \<Rightarrow> (Some (Some g), t'))
      else (Some None, t))"

definition spawn_attempt :: "active_peer option \<Rightarrow> ip \<Rightarrow> bool \<Rightarrow> nat option \<Rightarrow> cb_race \<Rightarrow> cb_race" where
  "spawn_attempt tag a prewarm slot r =
     r\<lparr>cb_attempts := cb_attempts r @ [(cb_next r, \<lparr>at_tag = tag, at_ip = a, at_prewarm = prewarm, at_slot = slot\<rparr>)],
       cb_next := cb_next r + 1\<rparr>"

definition release :: "cb_attempt \<Rightarrow> priority_tier \<Rightarrow> priority_tier" where
  "release at t = (case at_slot at of Some g \<Rightarrow> drop_session g t | None \<Rightarrow> t)"

definition end_attempt :: "nat \<Rightarrow> cb_race \<Rightarrow> cb_attempt option \<times> cb_race" where
  "end_attempt i r =
     (case map_of (cb_attempts r) i of
        None \<Rightarrow> (None, r)
      | Some at \<Rightarrow> (Some at, r\<lparr>cb_attempts := AList.delete i (cb_attempts r), cb_tier := release at (cb_tier r)\<rparr>))"

definition abort_attempts :: "cb_race \<Rightarrow> cb_race" where
  "abort_attempts r = r\<lparr>cb_attempts := [], cb_tier := fold (\<lambda>(_, at). release at) (cb_attempts r) (cb_tier r)\<rparr>"

definition cb_error_msg :: "(io_error \<Rightarrow> string) \<Rightarrow> cb_error \<Rightarrow> string" where
  "cb_error_msg msg e =
     (case e of
        CbPrewarm x \<Rightarrow> sel_error_msg msg x
      | CbRefused \<Rightarrow> ''blacklisted''
      | CbIo x \<Rightarrow> msg x
      | CbOversized \<Rightarrow> ''oversized client-block response''
      | CbBudgetExhausted \<Rightarrow> ''client-block response byte budget exhausted''
      | CbBudgetClosed \<Rightarrow> ''client-block response budget closed'')"

definition note_failure :: "string \<Rightarrow> cb_race \<Rightarrow> cb_race" where
  "note_failure why r = r\<lparr>cb_failures := cb_failures r @ [why]\<rparr>"

definition note_accepted ::
  "(io_error \<Rightarrow> string) \<Rightarrow> active_peer option \<Rightarrow> ip \<Rightarrow> cb_error + upstream_response \<Rightarrow> cb_race \<Rightarrow> bytes option \<times> cb_race" where
  "note_accepted msg tag a result r0 =
     (let r = r0\<lparr>cb_heard := cb_heard r0 @ (case result of Inr x \<Rightarrow> [x] | Inl _ \<Rightarrow> [])\<rparr>
      in case result of
        Inr (Frames frame) \<Rightarrow> (Some frame, r)
      | Inr (TerminalError frame) \<Rightarrow>
          (None, note_failure (a @ '': terminal'')
             (if cb_terminal r = None then r\<lparr>cb_terminal := Some frame\<rparr> else r))
      | Inr PeerOnly \<Rightarrow>
          (None, case tag of
             Some peer \<Rightarrow> note_failure (ap_ip peer @ '': peer-only (active unpinned)'')
                            (r\<lparr>cb_node := clear_active_if_current peer (cb_node r)\<rparr>)
           | None \<Rightarrow> note_failure (a @ '': peer-only'') r)
      | Inr (RangeTooSmall frame) \<Rightarrow>
          (None, note_failure (a @ '': range-too-small'')
             (if cb_too_small r = None then r\<lparr>cb_too_small := Some frame\<rparr> else r))
      | Inl e \<Rightarrow> (None, note_failure (a @ '': '' @ cb_error_msg msg e) r))"

definition note_client_block_result ::
  "(io_error \<Rightarrow> string) \<Rightarrow> active_peer option \<Rightarrow> ip \<Rightarrow> cb_error + upstream_response \<Rightarrow> cb_race \<Rightarrow> bytes option \<times> cb_race" where
  "note_client_block_result msg tag a result r =
     (case tag of
        Some peer \<Rightarrow>
          if \<not> active_is_current peer (cb_node r)
          then (None, note_failure (ap_ip peer @ '': stale active epoch '' @ show_nat (ap_epoch peer)) r)
          else note_accepted msg tag a result r
      | None \<Rightarrow> note_accepted msg tag a result r)"

section \<open>Rounds\<close>

text \<open>What the fetch decided once at its start: when it began, its last-resort pool, whom it asked first, and
  the pool active whose own attempt waits for the pool.\<close>

record cb_plan =
  pl_started :: instant
  pl_peers :: "ip list"
  pl_first_ip :: "ip option"
  pl_deferred_pin :: "active_peer option"

definition skips :: "cb_plan \<Rightarrow> ip \<Rightarrow> bool" where
  "skips pl a \<longleftrightarrow> pl_first_ip pl = Some a \<or> map_option ap_ip (pl_deferred_pin pl) = Some a"

fun spawn_round :: "cb_plan \<Rightarrow> ip list \<Rightarrow> cb_race \<Rightarrow> cb_race" where
  "spawn_round pl [] r = r"
| "spawn_round pl (a # as) r =
     (if skips pl a then spawn_round pl as r
      else (case prewarm_slot a (cb_tier r) of
          (None, t) \<Rightarrow> spawn_round pl as (r\<lparr>cb_tier := t\<rparr>)
        | (Some slot, t) \<Rightarrow>
            spawn_round pl as (spawn_attempt None a True slot
              (r\<lparr>cb_tier := t, cb_pending := (if cb_pool_hedged r then cb_pending r else cb_pending r @ [a])\<rparr>))))"

definition spawn_deferred :: "cb_race \<Rightarrow> cb_race" where
  "spawn_deferred r =
     (if cb_pool_hedged r then
        (case cb_deferred r of
           Some peer \<Rightarrow> spawn_attempt (Some peer) (ap_ip peer) False None (r\<lparr>cb_deferred := None\<rparr>)
         | None \<Rightarrow> r)
      else r)"

definition open_round :: "cb_plan \<Rightarrow> ip list \<Rightarrow> cb_race \<Rightarrow> cb_race" where
  "open_round pl round r = spawn_round pl round ((spawn_deferred r)\<lparr>cb_pending := []\<rparr>)"

definition last_resort :: "cb_race \<Rightarrow> string + bytes" where
  "last_resort r =
     (case cb_terminal r of
        Some frame \<Rightarrow> Inr frame
      | None \<Rightarrow>
          (case cb_too_small r of
             Some frame \<Rightarrow> Inr frame
           | None \<Rightarrow> Inl (join_with ''; '' (cb_failures r))))"

definition no_more_rounds :: "cb_plan \<Rightarrow> cb_race \<Rightarrow> bool" where
  "no_more_rounds pl r \<longleftrightarrow> cb_pool_hedged r \<or> cb_terminal r \<noteq> None \<or> cb_too_small r \<noteq> None
     \<or> (pl_peers pl = [] \<and> cb_deferred r = None)"

definition pool_round :: "cb_plan \<Rightarrow> cb_race \<Rightarrow> cb_race" where
  "pool_round pl r =
     (case client_block_peer_candidates [] (pl_peers pl) (cb_rr r) 8 of
        (round, rr) \<Rightarrow> open_round pl round (r\<lparr>cb_pool_hedged := True, cb_rr := rr\<rparr>))"

text \<open>The end of a round: the last answer, or the pool is hedged in.\<close>

definition round_end :: "cb_plan \<Rightarrow> cb_race \<Rightarrow> (string + bytes) option \<times> cb_race" where
  "round_end pl r =
     (if no_more_rounds pl r then (Some (last_resort r), abort_attempts r)
      else (let r1 = pool_round pl r
            in if cb_attempts r1 = [] then (Some (last_resort r1), r1) else (None, r1)))"

definition after_join :: "cb_plan \<Rightarrow> cb_race \<Rightarrow> (string + bytes) option \<times> cb_race" where
  "after_join pl r = (if cb_attempts r = [] then round_end pl r else (None, r))"

definition remember_winner :: "cb_plan \<Rightarrow> blacklist \<Rightarrow> active_peer option \<Rightarrow> ip \<Rightarrow> cb_race \<Rightarrow> cb_race" where
  "remember_winner pl bl tag a r =
     (if tag \<noteq> None then r
      else (case pl_deferred_pin pl of
          Some pin \<Rightarrow>
            if tier_contains (cb_tier r) a \<and> active_is_current pin (cb_node r)
            then r\<lparr>cb_node := (cb_node r)\<lparr>n_rpc_peer := Some a\<rparr>\<rparr> else r
        | None \<Rightarrow>
            (case active_session_snapshot bl (cb_node r) of
               (None, n) \<Rightarrow> r\<lparr>cb_node := n\<lparr>n_rpc_peer := Some a\<rparr>\<rparr>
             | (Some _, n) \<Rightarrow> r\<lparr>cb_node := n\<rparr>)))"

datatype cb_ev =
    CbJoined nat "cb_error + upstream_response"
  | CbPanic nat
  | CbRoundTimeout
  | CbDeadline string

definition cb_joined ::
  "(io_error \<Rightarrow> string) \<Rightarrow> cb_plan \<Rightarrow> cb_env \<Rightarrow> nat \<Rightarrow> cb_error + upstream_response \<Rightarrow> cb_race
     \<Rightarrow> (string + bytes) option \<times> cb_race" where
  "cb_joined msg pl e i result r =
     (case end_attempt i r of
        (None, r1) \<Rightarrow> (None, r1)
      | (Some at, r1) \<Rightarrow>
          (case note_client_block_result msg (at_tag at) (at_ip at) result
                  (r1\<lparr>cb_pending := filter (\<lambda>p. p \<noteq> at_ip at) (cb_pending r1)\<rparr>) of
             (Some frame, r2) \<Rightarrow>
               (Some (Inr frame), remember_winner pl (ce_bl e) (at_tag at) (at_ip at) (abort_attempts r2))
           | (None, r2) \<Rightarrow> after_join pl r2))"

definition cb_round_timeout :: "cb_plan \<Rightarrow> cb_env \<Rightarrow> cb_race \<Rightarrow> (string + bytes) option \<times> cb_race" where
  "cb_round_timeout pl e r =
     (if cb_pool_hedged r \<or> ce_now e < pl_started pl + PRIORITY_4002_ROUND then (None, r)
      else round_end pl (r\<lparr>cb_tier := fold (\<lambda>a. mark_failed_at a (ce_now e)) (cb_pending r) (cb_tier r)\<rparr>))"

text \<open>\<open>CbDeadline\<close> is the caller's deadline: the fetch is dropped, with its attempts.\<close>

definition cb_step ::
  "(io_error \<Rightarrow> string) \<Rightarrow> cb_plan \<Rightarrow> cb_env \<Rightarrow> cb_ev \<Rightarrow> cb_race \<Rightarrow> (string + bytes) option \<times> cb_race" where
  "cb_step msg pl e ev r0 =
     (let r = meanwhile e r0
      in case ev of
           CbJoined i result \<Rightarrow> cb_joined msg pl e i result r
         | CbPanic i \<Rightarrow> after_join pl (snd (end_attempt i r))
         | CbRoundTimeout \<Rightarrow> cb_round_timeout pl e r
         | CbDeadline why \<Rightarrow> (Some (Inl why), abort_attempts r))"

fun cb_loop ::
  "(io_error \<Rightarrow> string) \<Rightarrow> cb_plan \<Rightarrow> (cb_env \<times> cb_ev) list \<Rightarrow> cb_race \<Rightarrow> (string + bytes) option \<times> cb_race" where
  "cb_loop msg pl [] r = (None, r)"
| "cb_loop msg pl ((e, ev) # evs) r =
     (case cb_step msg pl e ev r of
        (Some res, r') \<Rightarrow> (Some res, r')
      | (None, r') \<Rightarrow> cb_loop msg pl evs r')"

section \<open>The whole fetch\<close>

definition cb_remembered :: "blacklist \<Rightarrow> instant \<Rightarrow> priority_tier \<Rightarrow> gw_node \<Rightarrow> ip option" where
  "cb_remembered bl now t n =
     (case n_rpc_peer n of
        Some a \<Rightarrow> if \<not> bl_contains bl a \<and> (tier_contains t a \<or> pool_allowed bl now t) then Some a else None
      | None \<Rightarrow> None)"

text \<open>Whom the fetch asks alone: the pinned active over its session, else the remembered peer behind a live
  relationship of its own (not at all when its slots are taken).\<close>

definition cb_first :: "active_peer option \<Rightarrow> ip option \<Rightarrow> cb_race \<Rightarrow> ip option \<times> cb_race" where
  "cb_first active remembered r =
     (case (active, remembered) of
        (Some peer, _) \<Rightarrow> (Some (ap_ip peer), spawn_attempt (Some peer) (ap_ip peer) False None r)
      | (None, Some a) \<Rightarrow>
          (case prewarm_slot a (cb_tier r) of
             (None, t) \<Rightarrow> (None, r\<lparr>cb_tier := t\<rparr>)
           | (Some slot, t) \<Rightarrow> (Some a, spawn_attempt None a True slot (r\<lparr>cb_tier := t\<rparr>)))
      | (None, None) \<Rightarrow> (None, r))"

datatype first_ev = FirstJoined "cb_error + upstream_response" | FirstPanic | FirstGrace | FirstDeadline string

definition cb_first_done ::
  "(io_error \<Rightarrow> string) \<Rightarrow> cb_env \<Rightarrow> first_ev \<Rightarrow> cb_race \<Rightarrow> (string + bytes) option \<times> cb_race" where
  "cb_first_done msg e ev r0 =
     (let r = meanwhile e r0
      in case ev of
           FirstJoined result \<Rightarrow>
             (case end_attempt 0 r of
                (None, r1) \<Rightarrow> (None, r1)
              | (Some at, r1) \<Rightarrow>
                  (case note_client_block_result msg (at_tag at) (at_ip at) result r1 of
                     (Some frame, r2) \<Rightarrow> (Some (Inr frame), r2)
                   | (None, r2) \<Rightarrow> (None, r2)))
         | FirstPanic \<Rightarrow> (None, snd (end_attempt 0 r))
         | FirstGrace \<Rightarrow> (None, r)
         | FirstDeadline why \<Rightarrow> (Some (Inl why), abort_attempts r))"

definition cb_hedge :: "cb_plan \<Rightarrow> cb_env \<Rightarrow> cb_race \<Rightarrow> (string + bytes) option \<times> cb_race" where
  "cb_hedge pl e r =
     (let prio = candidates_at (ce_bl e) (ce_now e) (cb_tier r);
          pool_waits = exclusive (cb_tier r) \<and> prio \<noteq> [];
          (round, rr) = (if pool_waits then client_block_peer_candidates prio [] (cb_rr r) (length prio)
                         else client_block_peer_candidates prio (pl_peers pl) (cb_rr r) 8)
      in after_join pl (open_round pl round (r\<lparr>cb_pool_hedged := \<not> pool_waits, cb_rr := rr\<rparr>)))"

definition cb_race_new :: "gw_node \<Rightarrow> priority_tier \<Rightarrow> nat \<Rightarrow> active_peer option \<Rightarrow> cb_race" where
  "cb_race_new n t rr deferred =
     \<lparr>cb_node = n, cb_tier = t, cb_rr = rr, cb_attempts = [], cb_next = 0, cb_failures = [], cb_terminal = None,
      cb_too_small = None, cb_deferred = deferred, cb_pool_hedged = False, cb_pending = [], cb_heard = []\<rparr>"

text \<open>\<open>pinned\<close> is what the look at the pin (or the wait for one) gave, at \<open>e1\<close>.\<close>

definition fetch_from_pin ::
  "(io_error \<Rightarrow> string) \<Rightarrow> ip list \<Rightarrow> instant \<Rightarrow> cb_env \<Rightarrow> ip option \<Rightarrow> active_peer option \<Rightarrow> gw_node \<times> priority_tier \<times> nat
     \<Rightarrow> cb_env \<times> first_ev \<Rightarrow> (cb_env \<times> cb_ev) list \<Rightarrow> (string + bytes) option \<times> cb_race" where
  "fetch_from_pin msg peers started e1 remembered pinned = (\<lambda>(n, t, rr) (fe, fev) evs.
     let deferred = (case pinned of
                       Some peer \<Rightarrow> if active_answers_first (ce_bl e1) (ce_now e1) t (ap_ip peer) then None else Some peer
                     | None \<Rightarrow> None);
         active = (if deferred = None then pinned else None);
         (first_ip, r1) = cb_first active remembered (cb_race_new n t rr deferred);
         pl = \<lparr>pl_started = started, pl_peers = peers, pl_first_ip = first_ip, pl_deferred_pin = deferred\<rparr>
     in case (if first_ip = None then (None, meanwhile fe r1) else cb_first_done msg fe fev r1) of
          (Some res, r2) \<Rightarrow> (Some res, r2)
        | (None, r2) \<Rightarrow>
            (case cb_hedge pl fe r2 of
               (Some res, r3) \<Rightarrow> (Some res, r3)
             | (None, r3) \<Rightarrow> cb_loop msg pl evs r3))"

definition fetch_client_blocks_raced ::
  "(io_error \<Rightarrow> string) \<Rightarrow> ip list \<Rightarrow> cb_env \<Rightarrow> (instant \<times> blacklist \<times> (gw_node \<Rightarrow> gw_node)) list \<Rightarrow> cb_env
     \<Rightarrow> cb_env \<times> first_ev \<Rightarrow> (cb_env \<times> cb_ev) list \<Rightarrow> gw_node \<times> priority_tier \<times> nat
     \<Rightarrow> (string + bytes) option \<times> cb_race" where
  "fetch_client_blocks_raced msg peers e0 polls e1 first evs = (\<lambda>(n, t, rr).
     let remembered = cb_remembered (ce_bl e0) (ce_now e0) t n
     in case (if remembered \<noteq> None then Some (active_session_snapshot (ce_bl e0) n)
              else wait_active_session (ce_now e0 + ACTIVE_4002_PIN_WAIT) polls n) of
          None \<Rightarrow> (None, cb_race_new n t rr None)
        | Some (pinned, n1) \<Rightarrow>
            fetch_from_pin msg peers (ce_now e0) e1 remembered pinned (n1, t, rr) first evs)"

section \<open>Serving a request\<close>

definition read_request :: "rd_ev list \<Rightarrow> bytes option" where
  "read_request s =
     (case read_exact 5 s of
        (Inl _, _) \<Rightarrow> None
      | (Inr hdr, s1) \<Rightarrow>
          if 65536 < be_len hdr 0 then None
          else (case read_exact (be_len hdr 0) s1 of (Inl _, _) \<Rightarrow> None | (Inr payload, _) \<Rightarrow> Some (hdr @ payload)))"

text \<open>After a batch that answers a range query: the catch-up sample, and the next range fetched ahead.\<close>

definition after_answer ::
  "u32 option \<Rightarrow> instant \<Rightarrow> (u32 \<times> u32) option \<Rightarrow> bytes \<Rightarrow> (nat \<times> nat) \<times> gw_node \<Rightarrow> (nat \<times> nat) \<times> gw_node" where
  "after_answer tip now wanted frame = (\<lambda>(g, n).
     case wanted of
       Some (start, end) \<Rightarrow>
         if 4 < length frame \<and> frame ! 4 = 1 then
           (let n1 = mark_client_blocks_response now (map_option (\<lambda>t. saturating_sub t start) tip)
                       (saturating_add (saturating_sub end start) 1) n
            in case Option.bind tip (next_prefetch_range start end) of
                 Some next \<Rightarrow> start_prefetch next now (g, n1)
               | None \<Rightarrow> (g, n1))
         else (g, n)
     | None \<Rightarrow> (g, n))"

text \<open>The inputs of one fetch, and of the wait for a prefetch that may precede it.\<close>

record fetch_run =
  fr_start :: cb_env
  fr_polls :: "(instant \<times> blacklist \<times> (gw_node \<Rightarrow> gw_node)) list"
  fr_pinned :: cb_env
  fr_first :: "cb_env \<times> first_ev"
  fr_events :: "(cb_env \<times> cb_ev) list"

record prefetch_wait =
  pw_now :: instant
  pw_polls :: "prefetch_poll list"
  pw_others :: "gw_node \<Rightarrow> gw_node"

definition take_ready_prefetch ::
  "(u32 \<times> u32) option \<Rightarrow> prefetch_wait \<Rightarrow> gw_node \<Rightarrow> (bytes option \<times> gw_node) option" where
  "take_ready_prefetch wanted w n =
     (case (case wanted of Some (start, end) \<Rightarrow> take_prefetch start end (pw_now w) n | None \<Rightarrow> (None, n)) of
        (None, n1) \<Rightarrow> Some (None, n1)
      | (Some p, n1) \<Rightarrow>
          (let n2 = pw_others w n1
           in map_option (\<lambda>f. (f, n2))
                (await_prefetch p (pw_now w + CLIENT_BLOCK_FETCH_DEADLINE) (pin_generation n2) (pw_polls w))))"

text \<open>
  The request is answered with one frame, or with nothing and the connection closed. The outer \<open>None\<close> is
  a request still being served; \<open>slot\<close> tells whether a fetch slot came free in time.
\<close>

definition serve_client_blocks ::
  "(io_error \<Rightarrow> string) \<Rightarrow> ip list \<Rightarrow> rd_ev list \<Rightarrow> prefetch_wait \<Rightarrow> bool \<Rightarrow> fetch_run \<Rightarrow> u32 option \<Rightarrow> instant
     \<Rightarrow> (nat \<times> nat) \<times> gw_node \<times> priority_tier \<times> nat
     \<Rightarrow> (bytes option \<times> (nat \<times> nat) \<times> gw_node \<times> priority_tier \<times> nat) option" where
  "serve_client_blocks msg peers reads w slot run tip now = (\<lambda>(g, n, t, rr).
     case read_request reads of
       None \<Rightarrow> Some (None, g, n, t, rr)
     | Some req \<Rightarrow>
         (let wanted = client_block_range req
          in case take_ready_prefetch wanted w n of
               None \<Rightarrow> None
             | Some (Some frame, n1) \<Rightarrow>
                 (case after_answer tip now wanted frame (g, n1) of (g', n2) \<Rightarrow> Some (Some frame, g', n2, t, rr))
             | Some (None, n1) \<Rightarrow>
                 if \<not> slot then Some (None, g, n1, t, rr)
                 else (case fetch_client_blocks_raced msg peers (fr_start run) (fr_polls run) (fr_pinned run)
                              (fr_first run) (fr_events run) (n1, t, rr) of
                     (None, _) \<Rightarrow> None
                   | (Some (Inl _), r) \<Rightarrow> Some (None, g, cb_node r, cb_tier r, cb_rr r)
                   | (Some (Inr frame), r) \<Rightarrow>
                       (case after_answer tip now wanted frame (g, cb_node r) of
                          (g', n2) \<Rightarrow> Some (Some frame, g', n2, cb_tier r, cb_rr r)))))"

end
