(* ===== verification/Client_Props.thy ===== *)
theory Client_Props
  imports Client_Race Slot_Ledger
begin

text \<open>
  Properties of the client-block RPC: a prefetch never outlives the pin it was fetched under, the prefetched
  range is the one the node asks for next, and the race returns the best answer heard and every slot it took.
\<close>

section \<open>Prefetches and pins\<close>

text \<open>
  Every interleaving of pins, prefetches, takes and expiries on one node: \<open>bs\<close> are the prefetches begun and
  not yet installed, \<open>k\<close> the pins that have moved the generation and not yet dropped the prefetch.
\<close>

inductive pf_reach :: "gw_node \<Rightarrow> prefetch list \<Rightarrow> nat \<Rightarrow> bool" where
  pf_start: "n_prefetch n = None \<Longrightarrow> pf_reach n [] 0"
| pf_begin: "pf_reach n bs k \<Longrightarrow> prefetch_begin g wanted now n = (Some p, g') \<Longrightarrow> pf_reach n (p # bs) k"
| pf_install: "pf_reach n (bs1 @ p # bs2) k \<Longrightarrow> pf_reach (prefetch_install p n) (bs1 @ bs2) k"
| pf_bump: "pf_reach n bs k \<Longrightarrow> pf_reach (pin_bump n) bs (Suc k)"
| pf_drop: "pf_reach n bs (Suc k) \<Longrightarrow> pf_reach (pin_drop n) bs k"
| pf_take: "pf_reach n bs k \<Longrightarrow> pf_reach (snd (take_prefetch start end now n)) bs k"
| pf_expire: "pf_reach n bs k \<Longrightarrow> pf_reach (expire_prefetch i n) bs k"

lemma pf_reach_inv:
  "pf_reach n bs k \<Longrightarrow>
     (\<forall>b \<in> set bs. pf_generation b \<le> pin_generation n) \<and>
     (\<forall>p. n_prefetch n = Some p \<longrightarrow> pf_generation p \<le> pin_generation n \<and> (pf_generation p < pin_generation n \<longrightarrow> 0 < k))"
  by (induction rule: pf_reach.induct)
    (auto simp: prefetch_begin_def prefetch_install_def pin_bump_def pin_drop_def take_prefetch_def
      expire_prefetch_def pin_generation_def split: option.splits if_splits prod.splits)

text \<open>However pins and prefetches interleave, when no pin is halfway through, the prefetch a node has waiting was begun
  under its current pin: a new pin either is seen by the prefetch being installed, or drops it.\<close>

lemma waiting_under_pin:
  assumes "pf_reach n bs 0" "n_prefetch n = Some p"
  shows "pf_generation p = pin_generation n"
  using pf_reach_inv[OF assms(1)] assms(2) by auto

lemma await_served:
  "await_prefetch p deadline end_gen polls = Some (Some frame) \<Longrightarrow>
     \<exists>waits at rest. polls = waits @ Fetched (pf_generation p) at (Some (Inr frame)) # rest \<and> at < deadline \<and>
       (\<forall>x \<in> set waits. \<exists>u < deadline. x = StillFetching (pf_generation p) u) \<and>
       end_gen = pf_generation p \<and> 4 < length frame \<and> frame ! 4 = 1"
proof (induction p deadline end_gen polls rule: await_prefetch.induct)
  case (2 p deadline end_gen gen now ps)
  then have g: "gen = pf_generation p" "now < deadline" "await_prefetch p deadline end_gen ps = Some (Some frame)"
    by (auto split: if_splits)
  with 2 obtain waits at rest where "ps = waits @ Fetched (pf_generation p) at (Some (Inr frame)) # rest" "at < deadline"
    "\<forall>x \<in> set waits. \<exists>u < deadline. x = StillFetching (pf_generation p) u"
    "end_gen = pf_generation p" "4 < length frame" "frame ! 4 = 1" by auto
  with g show ?case by (intro exI[of _ "StillFetching gen now # waits"] exI[of _ at] exI[of _ rest]) auto
next
  case (3 p deadline end_gen gen now r ps)
  then show ?case
    by (intro exI[of _ "[]"] exI[of _ now] exI[of _ ps]) (auto split: if_splits option.splits sum.splits)
qed simp

text \<open>What a request was answered with: the batch prefetch \<open>p\<close> fetched, while the node's pin was looked at before every
  wait and at the end.\<close>

definition served_ahead :: "prefetch \<Rightarrow> u32 \<Rightarrow> u32 \<Rightarrow> prefetch_wait \<Rightarrow> gw_node \<Rightarrow> bytes \<Rightarrow> bool" where
  "served_ahead p start end w n frame \<longleftrightarrow>
     pf_start p = start \<and> pf_end p = end \<and> pw_now w - pf_at p \<le> from_secs 20 \<and> pf_generation p = pin_generation n \<and>
     pf_generation p = pin_generation (pw_others w (n\<lparr>n_prefetch := None\<rparr>)) \<and> 4 < length frame \<and> frame ! 4 = 1 \<and>
     (\<exists>waits at rest. pw_polls w = waits @ Fetched (pf_generation p) at (Some (Inr frame)) # rest \<and>
       (\<forall>x \<in> set waits. \<exists>u. x = StillFetching (pf_generation p) u))"

lemma take_ready_served:
  assumes "take_ready_prefetch wanted w n = Some (Some frame, n1)"
  shows "\<exists>start end p. wanted = Some (start, end) \<and> n_prefetch n = Some p \<and> served_ahead p start end w n frame"
proof -
  obtain start "end" p where w: "wanted = Some (start, end)" "n_prefetch n = Some p" "serves start end (pin_generation n) (pw_now w) p"
    and a: "await_prefetch p (pw_now w + CLIENT_BLOCK_FETCH_DEADLINE) (pin_generation (pw_others w (n\<lparr>n_prefetch := None\<rparr>)))
      (pw_polls w) = Some (Some frame)"
    using assms by (auto simp: take_ready_prefetch_def take_prefetch_def Let_def split: option.splits prod.splits if_splits)
  from await_served[OF a] w show ?thesis
    by (intro exI[of _ start] exI[of _ "end"] exI[of _ p]) (fastforce simp: served_ahead_def serves_def PREFETCH_MAX_AGE_def)
qed

text \<open>C20. A batch fetched ahead is served only under the pin it was fetched under. Whatever a client-block request is
  answered with was either fetched for that request, or it is what the node's waiting prefetch fetched, for exactly the
  range asked, begun at most 20 seconds before under the pin the node has when it asks, at every look during the wait and
  when the answer is there. And however pins and prefetches interleave, once no pin is halfway through, the prefetch a
  node has waiting was begun under its current pin.\<close>
theorem prefetch_never_outlives_pin:
  assumes "pf_reach n bs k"
    and "serve_client_blocks msg peers reads w slot run tip now (g, n, t, rr) = Some (Some frame, x)"
  shows "((\<exists>req start end p. read_request reads = Some req \<and> client_block_range req = Some (start, end) \<and>
        n_prefetch n = Some p \<and> served_ahead p start end w n frame) \<or>
      (\<exists>n1. slot \<and> fst (fetch_client_blocks_raced msg peers (fr_start run) (fr_polls run) (fr_pinned run) (fr_first run)
        (fr_events run) (n1, t, rr)) = Some (Inr frame))) \<and>
    (k = 0 \<longrightarrow> (\<forall>p. n_prefetch n = Some p \<longrightarrow> pf_generation p = pin_generation n))"
proof -
  obtain req where req: "read_request reads = Some req"
    using assms(2) by (auto simp: serve_client_blocks_def split: option.splits)
  show ?thesis
  proof (cases "take_ready_prefetch (client_block_range req) w n")
    case None
    with assms(2) req show ?thesis by (simp add: serve_client_blocks_def)
  next
    case (Some y)
    obtain f n1 where y: "y = (f, n1)" by fastforce
    show ?thesis
    proof (cases f)
      case None
      with Some y assms(2) req
      have "slot \<and> fst (fetch_client_blocks_raced msg peers (fr_start run) (fr_polls run) (fr_pinned run) (fr_first run)
          (fr_events run) (n1, t, rr)) = Some (Inr frame)"
        by (auto simp: serve_client_blocks_def split: if_splits prod.splits option.splits sum.splits)
      then show ?thesis using waiting_under_pin[of n bs] assms(1) by blast
    next
      case f: (Some frame')
      with Some y assms(2) req have "frame' = frame" by (auto simp: serve_client_blocks_def split: prod.splits)
      with f Some y req take_ready_served[of "client_block_range req" w n frame n1] show ?thesis
        using waiting_under_pin[of n bs] assms(1) by blast
    qed
  qed
qed

definition sample_prefetch :: prefetch where
  "sample_prefetch = \<lparr>pf_id = 0, pf_start = 101, pf_end = 200, pf_generation = 1, pf_at = 5\<rparr>"

definition sample_waiting :: gw_node where
  "sample_waiting = prefetch_install sample_prefetch (pin_drop (pin_bump (node_state_new (V4 1) 0)))"

definition sample_wait :: prefetch_wait where
  "sample_wait = \<lparr>pw_now = 6, pw_polls = [StillFetching 1 6, Fetched 1 7 (Some (Inr [0, 0, 0, 0, 1]))], pw_others = id\<rparr>"

lemma sample_waiting_reach: "pf_reach sample_waiting [] 0"
proof -
  let ?n = "pin_drop (pin_bump (node_state_new (V4 1) 0)) :: gw_node"
  have "pf_reach ?n [] 0"
    by (intro pf_drop pf_bump pf_start) (simp add: node_state_new_def)
  then have "pf_reach ?n [sample_prefetch] 0"
    by (rule pf_begin[where g = "(4, 0)" and wanted = "(101, 200)" and now = 5 and g' = "(3, 1)"])
      (simp add: prefetch_begin_def pin_generation_def pin_bump_def pin_drop_def node_state_new_def sample_prefetch_def)
  then show ?thesis
    using pf_install[of ?n "[]" sample_prefetch "[]" 0] by (simp add: sample_waiting_def)
qed

lemma client_block_range_roundtrip [simp]: "client_block_range (client_block_range_request a b) = Some (a, b)"
  by (simp add: client_block_range_def client_block_range_request_def u32_to_le_bytes_def)

lemma read_exact_chunk_first:
  "b \<noteq> [] \<Longrightarrow> read_exact (length b) (Chunk b # s) = (Inr b, s)"
  by (simp add: read_exact.simps[of "length b"] read_exact.simps[of 0])

lemma read_request_chunks:
  "length h = 5 \<Longrightarrow> be_len h 0 = length p \<Longrightarrow> p \<noteq> [] \<Longrightarrow> length p \<le> 65536 \<Longrightarrow>
     read_request [Chunk h, Chunk p] = Some (h @ p)"
  using read_exact_chunk_first[of h "[Chunk p]"] read_exact_chunk_first[of p "[]"]
  by (cases h) (auto simp: read_request_def)

theorem prefetch_never_outlives_pin_witness:
  "served_ahead sample_prefetch 101 200 sample_wait sample_waiting [0, 0, 0, 0, 1]"
proof -
  let ?req = "client_block_range_request 101 200"
  let ?t = "priority_new [] 0 0 Fallback"
  have fields: "n_prefetch sample_waiting = Some sample_prefetch" "pin_generation sample_waiting = 1"
    by (simp_all add: sample_waiting_def sample_prefetch_def prefetch_install_def pin_generation_def pin_bump_def pin_drop_def
        node_state_new_def)
  let ?reads = "[Chunk (take 5 ?req), Chunk (drop 5 ?req)]"
  have req: "read_request ?reads = Some ?req"
    using read_request_chunks[of "take 5 ?req" "drop 5 ?req"]
    by (simp add: client_block_range_request_def be_len_def u32_from_be_bytes_def u32_from_le_bytes_def)
  have range: "client_block_range ?req = Some (101, 200)" by (rule client_block_range_roundtrip)
  have "serve_client_blocks (\<lambda>_. []) [] ?reads sample_wait False undefined None 8 ((4, 0), sample_waiting, ?t, 0) =
      Some (Some [0, 0, 0, 0, 1], snd (the (serve_client_blocks (\<lambda>_. []) [] ?reads sample_wait False undefined None 8
        ((4, 0), sample_waiting, ?t, 0))))"
    by (simp add: serve_client_blocks_def req range take_ready_prefetch_def take_prefetch_def serves_def fields sample_wait_def
        sample_prefetch_def PREFETCH_MAX_AGE_def CLIENT_BLOCK_FETCH_DEADLINE_def from_secs_def pin_generation_def Let_def
        fields(2)[unfolded pin_generation_def] split: prod.split)
  from prefetch_never_outlives_pin[OF sample_waiting_reach this] show ?thesis by (auto simp: req range fields)
qed

text \<open>At most four prefetches run at once: the slots are taken when one begins and come back when its fetch ends.\<close>

definition prefetch_take :: "(u32 \<times> u32) \<times> instant \<times> gw_node \<Rightarrow> nat \<times> nat \<Rightarrow> unit option \<times> nat \<times> nat" where
  "prefetch_take = (\<lambda>(wanted, now, n) g. case prefetch_begin g wanted now n of (p, g') \<Rightarrow> (map_option (\<lambda>_. ()) p, g'))"

interpretation pp: slot_pool prefetch_take "\<lambda>_. prefetch_end" "\<lambda>g _. PREFETCH_SLOTS - fst g" "\<lambda>_. Some PREFETCH_SLOTS"
  "\<lambda>g. fst g \<le> PREFETCH_SLOTS"
  by unfold_locales
    (auto simp: prefetch_take_def prefetch_begin_def prefetch_end_def fun_eq_iff split: if_splits prod.splits)

section \<open>Ranges\<close>

lemma next_prefetch_range_Some:
  "next_prefetch_range s e f = Some (a, b) \<longleftrightarrow>
     s \<le> e \<and> unat e - unat s < 1000 \<and> unat a = unat e + 1 \<and> unat b = unat e + (unat e - unat s + 1) \<and>
     unat b + 300 \<le> unat f"
proof -
  have "next_prefetch_range s e f = Some (a, b) \<longleftrightarrow>
      (\<exists>d w g. checked_sub e s = Some d \<and> checked_add d 1 = Some w \<and> w \<le> PREFETCH_MAX_WIDTH \<and>
        checked_add e 1 = Some a \<and> checked_add e w = Some b \<and> checked_sub f b = Some g \<and> PREFETCH_TIP_MARGIN \<le> g)"
    by (auto simp: next_prefetch_range_def bind_eq_Some_conv not_less split: if_splits) blast+
  also have "\<dots> \<longleftrightarrow> s \<le> e \<and> unat e - unat s < 1000 \<and> unat a = unat e + 1 \<and> unat b = unat e + (unat e - unat s + 1) \<and>
     unat b + 300 \<le> unat f" (is "?l \<longleftrightarrow> ?r")
  proof
    assume ?l
    then show ?r
      by (auto simp: checked_add_Some_iff checked_sub_Some_iff word_nat PREFETCH_MAX_WIDTH_def PREFETCH_TIP_MARGIN_def)
  next
    assume r: ?r
    have w: "unat (e - s + 1) = unat e - unat s + 1"
      using r by (simp add: unat_add_lem[THEN iffD1] unat_sub word_le_nat_alt)
    show ?l
      by (rule exI[of _ "e - s"], rule exI[of _ "e - s + 1"], rule exI[of _ "f - b"])
        (use r w in \<open>auto simp: checked_add_Some_iff checked_sub_Some_iff word_nat unat_sub
          PREFETCH_MAX_WIDTH_def PREFETCH_TIP_MARGIN_def\<close>)
  qed
  finally show ?thesis .
qed

text \<open>What is fetched ahead of a node is its own next request: after an answered range the prefetch asks, in
  the node's own encoding, for the range of the same width that directly follows, at most 1000 rounds
  wide and ending at least 300 rounds below the freshest round, and no counter wraps on the way.\<close>
theorem prefetch_is_next_request:
  assumes "after_answer tip now (client_block_range req) frame ((free, i), n) = (g', n')"
    and "n_prefetch n = None" "n_prefetch n' = Some p"
  shows "\<exists>start end freshest. client_block_range req = Some (start, end) \<and> tip = Some freshest \<and>
     client_block_range (client_block_range_request (pf_start p) (pf_end p)) = Some (pf_start p, pf_end p) \<and>
     unat (pf_start p) = unat end + 1 \<and> unat (pf_end p) - unat (pf_start p) = unat end - unat start \<and>
     unat end - unat start < 1000 \<and> unat (pf_end p) + 300 \<le> unat freshest \<and> fst g' + 1 = free"
proof -
  have m: "n_prefetch (mark_client_blocks_response now x y n) = None" for x y
    using assms(2) by (simp add: mark_client_blocks_response_def)
  obtain start "end" freshest a b where
    "client_block_range req = Some (start, end)" "tip = Some freshest" "next_prefetch_range start end freshest = Some (a, b)"
    "pf_start p = a" "pf_end p = b" "fst g' + 1 = free"
    using assms m
    by (auto simp: after_answer_def start_prefetch_def prefetch_begin_def prefetch_install_def Let_def bind_eq_Some_conv
        split: option.splits if_splits)
  then show ?thesis by (auto simp: next_prefetch_range_Some)
qed

theorem prefetch_is_next_request_witness:
  "\<exists>g' n' p. after_answer (Some 2000) 5 (client_block_range (client_block_range_request 1001 1100)) [0, 0, 0, 0, 1]
       ((4, 0), node_state_new (V4 1) 0) = (g', n') \<and> n_prefetch n' = Some p \<and> unat (pf_start p) = 1101 \<and> fst g' = 3"
proof -
  let ?n = "node_state_new (V4 1) 0 :: gw_node"
  have nr: "next_prefetch_range 1001 1100 2000 = Some (1101, 1200)"
    by (simp add: next_prefetch_range_Some word_le_nat_alt)
  obtain g' n' p where r: "after_answer (Some 2000) 5 (client_block_range (client_block_range_request 1001 1100)) [0, 0, 0, 0, 1]
      ((4, 0), ?n) = (g', n')" "n_prefetch n' = Some p"
    by (simp add: after_answer_def nr start_prefetch_def prefetch_begin_def prefetch_install_def pin_generation_def
        mark_client_blocks_response_def node_state_new_def)
  from prefetch_is_next_request[OF r(1) _ r(2)] r show ?thesis
    by (auto simp: node_state_new_def)
qed

section \<open>The best answer heard\<close>

fun terminal_frame :: "upstream_response \<Rightarrow> bytes option" where
  "terminal_frame (TerminalError f) = Some f"
| "terminal_frame _ = None"

fun small_frame :: "upstream_response \<Rightarrow> bytes option" where
  "small_frame (RangeTooSmall f) = Some f"
| "small_frame _ = None"

fun batch_frame :: "upstream_response \<Rightarrow> bytes option" where
  "batch_frame (Frames f) = Some f"
| "batch_frame _ = None"

fun first_some :: "('a \<Rightarrow> 'b option) \<Rightarrow> 'a list \<Rightarrow> 'b option" where
  "first_some f [] = None"
| "first_some f (x # xs) = (case f x of Some y \<Rightarrow> Some y | None \<Rightarrow> first_some f xs)"

lemma first_some_append: "first_some f (xs @ ys) = (case first_some f xs of Some y \<Rightarrow> Some y | None \<Rightarrow> first_some f ys)"
  by (induction xs) (auto split: option.splits)

text \<open>The reference: the first batch; failing that the first range error that is final; failing that the first
  peer's word that the range is too old; failing that, all failures.\<close>

definition best_answer :: "upstream_response list \<Rightarrow> string list \<Rightarrow> string + bytes" where
  "best_answer heard failures =
     (case first_some batch_frame heard of
        Some f \<Rightarrow> Inr f
      | None \<Rightarrow>
          (case first_some terminal_frame heard of
             Some f \<Rightarrow> Inr f
           | None \<Rightarrow>
               (case first_some small_frame heard of Some f \<Rightarrow> Inr f | None \<Rightarrow> Inl (join_with ''; '' failures))))"

definition noted :: "cb_race \<Rightarrow> bool" where
  "noted r \<longleftrightarrow> first_some batch_frame (cb_heard r) = None \<and>
     cb_terminal r = first_some terminal_frame (cb_heard r) \<and> cb_too_small r = first_some small_frame (cb_heard r)"

lemma noted_new: "noted (cb_race_new n t rr d)"
  by (simp add: noted_def cb_race_new_def)

text \<open>Everything but an answer leaves the notes alone.\<close>

lemma noted_cong:
  "cb_heard r' = cb_heard r \<Longrightarrow> cb_terminal r' = cb_terminal r \<Longrightarrow> cb_too_small r' = cb_too_small r \<Longrightarrow> noted r' = noted r"
  by (simp add: noted_def)

lemma noted_parts [simp]:
  "noted (meanwhile e r) = noted r" "noted (snd (end_attempt i r)) = noted r" "noted (abort_attempts r) = noted r"
  "noted (note_failure why r) = noted r" "noted (spawn_attempt tag a pw slot r) = noted r"
  "noted (r\<lparr>cb_node := n\<rparr>) = noted r" "noted (r\<lparr>cb_tier := t\<rparr>) = noted r" "noted (r\<lparr>cb_rr := rr\<rparr>) = noted r"
  "noted (r\<lparr>cb_pending := ps\<rparr>) = noted r" "noted (r\<lparr>cb_pool_hedged := b\<rparr>) = noted r" "noted (r\<lparr>cb_deferred := d\<rparr>) = noted r"
  by (rule noted_cong; simp add: meanwhile_def end_attempt_def abort_attempts_def note_failure_def spawn_attempt_def
      split: prod.splits option.splits)+

lemma noted_spawn [simp]:
  "noted (spawn_round pl as r) = noted r" "noted (spawn_deferred r) = noted r" "noted (open_round pl as r) = noted r"
proof -
  show s: "noted (spawn_round pl as r) = noted r" for as r
    by (induction pl as r rule: spawn_round.induct) (auto split: prod.splits option.splits)
  show d: "noted (spawn_deferred r) = noted r"
    by (auto simp: spawn_deferred_def split: option.splits)
  show "noted (open_round pl as r) = noted r"
    by (simp add: open_round_def s d)
qed

lemma noted_pool_round [simp]: "noted (pool_round pl r) = noted r"
  by (auto simp: pool_round_def split: prod.splits)

lemma last_resort_best: "noted r \<Longrightarrow> last_resort r = best_answer (cb_heard r) (cb_failures r)"
  by (simp add: last_resort_def best_answer_def noted_def split: option.splits)

lemma note_result_cases:
  assumes "note_client_block_result msg tag a result r = (w, r')" "noted r"
  shows "case w of
     Some f \<Rightarrow> Inr f = best_answer (cb_heard r') (cb_failures r')
   | None \<Rightarrow> noted r'"
  using assms
  by (auto simp: note_client_block_result_def note_accepted_def note_failure_def noted_def best_answer_def Let_def
      first_some_append split: option.splits if_splits sum.splits upstream_response.splits)

definition answered :: "(string + bytes) option \<times> cb_race \<Rightarrow> bool" where
  "answered = (\<lambda>(res, r). case res of Some x \<Rightarrow> x = best_answer (cb_heard r) (cb_failures r) | None \<Rightarrow> noted r)"

lemma answered_simps [simp]:
  "answered (None, r) = noted r" "answered (Some x, r) \<longleftrightarrow> x = best_answer (cb_heard r) (cb_failures r)"
  by (simp_all add: answered_def)

lemma heard_kept [simp]:
  "cb_heard (abort_attempts r) = cb_heard r" "cb_failures (abort_attempts r) = cb_failures r"
  "cb_heard (remember_winner pl bl tag a r) = cb_heard r" "cb_failures (remember_winner pl bl tag a r) = cb_failures r"
  by (auto simp: abort_attempts_def remember_winner_def split: option.splits prod.splits)

lemma answered_round_end: "noted r \<Longrightarrow> answered (round_end pl r)"
  using last_resort_best[of r] last_resort_best[of "pool_round pl r"] by (simp add: round_end_def Let_def)

lemma answered_after_join: "noted r \<Longrightarrow> answered (after_join pl r)"
  by (simp add: after_join_def answered_round_end)

lemma end_attempt_noted: "end_attempt i r = (x, r') \<Longrightarrow> noted r \<Longrightarrow> noted r'"
  using noted_parts(2)[of i r] by simp

lemma answered_joined: "noted r \<Longrightarrow> answered (cb_joined msg pl e i result r)"
proof (cases "end_attempt i r")
  case (Pair x r1)
  assume n: "noted r"
  then have n1: "noted r1" by (rule end_attempt_noted[OF Pair])
  show ?thesis
  proof (cases x)
    case None
    with Pair n1 show ?thesis by (simp add: cb_joined_def)
  next
    case (Some at)
    let ?r1 = "r1\<lparr>cb_pending := filter (\<lambda>p. p \<noteq> at_ip at) (cb_pending r1)\<rparr>"
    obtain w r2 where w: "note_client_block_result msg (at_tag at) (at_ip at) result ?r1 = (w, r2)"
      by (cases "note_client_block_result msg (at_tag at) (at_ip at) result ?r1")
    from note_result_cases[OF w] n1 Some Pair w show ?thesis
      by (cases w) (simp_all add: cb_joined_def answered_after_join)
  qed
qed

lemma answered_step: "noted r \<Longrightarrow> \<forall>why. ev \<noteq> CbDeadline why \<Longrightarrow> answered (cb_step msg pl e ev r)"
  by (cases ev) (simp_all add: cb_step_def Let_def answered_joined answered_after_join cb_round_timeout_def answered_round_end)

lemma answered_loop:
  "noted r \<Longrightarrow> \<forall>(e, ev) \<in> set evs. \<forall>why. ev \<noteq> CbDeadline why \<Longrightarrow> answered (cb_loop msg pl evs r)"
proof (induction msg pl evs r rule: cb_loop.induct)
  case (2 msg pl e ev evs r)
  have "answered (cb_step msg pl e ev r)" using 2 by (auto intro: answered_step)
  with 2 show ?case by (cases "cb_step msg pl e ev r"; cases "fst (cb_step msg pl e ev r)") auto
qed simp

lemma answered_first: "noted r \<Longrightarrow> \<forall>why. ev \<noteq> FirstDeadline why \<Longrightarrow> answered (cb_first_done msg e ev r)"
proof (cases ev)
  case (FirstJoined result)
  assume n: "noted r"
  obtain x r1 where x: "end_attempt 0 (meanwhile e r) = (x, r1)" by (cases "end_attempt 0 (meanwhile e r)")
  have n1: "noted r1" using end_attempt_noted[OF x] n by simp
  show ?thesis
  proof (cases x)
    case (Some at)
    obtain w r2 where w: "note_client_block_result msg (at_tag at) (at_ip at) result r1 = (w, r2)"
      by (cases "note_client_block_result msg (at_tag at) (at_ip at) result r1")
    from note_result_cases[OF w n1] Some x w FirstJoined show ?thesis
      by (cases w) (simp_all add: cb_first_done_def)
  qed (use x n1 FirstJoined in \<open>simp add: cb_first_done_def\<close>)
qed (simp_all add: cb_first_done_def)

lemma noted_first: "noted r \<Longrightarrow> cb_first active remembered r = (i, r') \<Longrightarrow> noted r'"
  by (auto simp: cb_first_def split: option.splits prod.splits)

lemma answered_hedge: "noted r \<Longrightarrow> answered (cb_hedge pl e r)"
  by (auto simp: cb_hedge_def Let_def split: prod.splits intro!: answered_after_join)

lemma answered_from_pin:
  assumes "\<forall>why. fev \<noteq> FirstDeadline why" "\<forall>(e, ev) \<in> set evs. \<forall>why. ev \<noteq> CbDeadline why"
  shows "answered (fetch_from_pin msg peers started e1 remembered pinned (n, t, rr) (fe, fev) evs)"
proof -
  define deferred where "deferred = (case pinned of
      Some peer \<Rightarrow> if active_answers_first (ce_bl e1) (ce_now e1) t (ap_ip peer) then None else Some peer | None \<Rightarrow> None)"
  obtain fi r1 where f: "cb_first (if deferred = None then pinned else None) remembered (cb_race_new n t rr deferred) = (fi, r1)"
    by fastforce
  define pl where "pl = \<lparr>pl_started = started, pl_peers = peers, pl_first_ip = fi, pl_deferred_pin = deferred\<rparr>"
  obtain x r2 where x: "(if fi = None then (None, meanwhile fe r1) else cb_first_done msg fe fev r1) = (x, r2)"
    by fastforce
  have "noted r1" by (rule noted_first[OF noted_new f])
  then have a2: "answered (x, r2)"
    using answered_first[OF _ assms(1), of r1 msg fe] by (simp flip: x)
  obtain y r3 where y: "cb_hedge pl fe r2 = (y, r3)" by fastforce
  have a3: "x = None \<Longrightarrow> answered (y, r3)"
    using answered_hedge[of r2 pl fe] a2 y by simp
  have "fetch_from_pin msg peers started e1 remembered pinned (n, t, rr) (fe, fev) evs =
      (case x of Some res \<Rightarrow> (Some res, r2)
       | None \<Rightarrow> (case y of Some res \<Rightarrow> (Some res, r3) | None \<Rightarrow> cb_loop msg pl evs r3))"
    using f x y by (simp add: fetch_from_pin_def Let_def deferred_def pl_def split: option.splits)
  with a2 a3 answered_loop[OF _ assms(2), of r3 msg pl] show ?thesis
    by (simp split: option.splits)
qed

text \<open>C18. The answer a node gets is the best one the fetch accepted: the first batch if any peer sent one, else
  the first final range error, else the first word that the range is too old; only when no peer gave any
  of these does the fetch fail, listing every failure. A caller's deadline is the only other ending.\<close>
theorem raced_best_answer:
  assumes "fetch_client_blocks_raced msg peers e0 polls e1 (fe, fev) evs (n, t, rr) = (Some res, r)"
    and "\<forall>why. fev \<noteq> FirstDeadline why" "\<forall>(e, ev) \<in> set evs. \<forall>why. ev \<noteq> CbDeadline why"
  shows "res = best_answer (cb_heard r) (cb_failures r)"
proof -
  obtain pinned n1 where "fetch_from_pin msg peers (ce_now e0) e1
      (cb_remembered (ce_bl e0) (ce_now e0) t n) pinned (n1, t, rr) (fe, fev) evs = (Some res, r)"
    using assms(1) by (auto simp: fetch_client_blocks_raced_def Let_def split: option.splits if_splits prod.splits)
  with answered_from_pin[OF assms(2,3)] show ?thesis
    by (metis answered_simps(2))
qed

definition calm_env :: "instant \<Rightarrow> cb_env" where
  "calm_env now = \<lparr>ce_now = now, ce_bl = blacklist_init, ce_others = id\<rparr>"

definition pinned_node :: gw_node where
  "pinned_node = snd (pin_active ''192.0.2.1'' (node_state_new (V4 1) 0))"

text \<open>The pinned active refuses the request; a pool peer answers it.\<close>

lemma sample_fetch:
  "\<exists>r. fetch_client_blocks_raced msg [''192.0.2.7''] (calm_env 0) [(0, blacklist_init, id)] (calm_env 0)
     (calm_env 1, FirstJoined (Inr PeerOnly)) [(calm_env 2, CbJoined 1 (Inr (Frames [0, 0, 0, 0, 1])))]
     (pinned_node, priority_new [] 0 0 Fallback, 0) = (Some (Inr [0, 0, 0, 0, 1]), r) \<and>
     cb_heard r = [PeerOnly, Frames [0, 0, 0, 0, 1]]"
  by (simp add: fetch_client_blocks_raced_def cb_remembered_def pinned_node_def pin_active_def node_state_new_def
      active_session_snapshot_def unpin_blacklisted_def calm_env_def bl_contains_def blacklist_init_def Let_def
      fetch_from_pin_def active_answers_first_def pool_allowed_def exclusive_def priority_new_def candidates_at_def
      cb_first_def cb_race_new_def spawn_attempt_def cb_first_done_def meanwhile_def end_attempt_def release_def
      note_client_block_result_def note_accepted_def active_is_current_def clear_active_if_current_def note_failure_def
      cb_hedge_def client_block_peer_candidates_def rotated_def open_round_def spawn_deferred_def skips_def prewarm_slot_def
      tier_contains_def tier_index_def after_join_def cb_step_def cb_joined_def abort_attempts_def remember_winner_def)

theorem raced_best_answer_witness:
  "\<exists>r. fetch_client_blocks_raced (\<lambda>_. []) [''192.0.2.7''] (calm_env 0) [(0, blacklist_init, id)] (calm_env 0)
     (calm_env 1, FirstJoined (Inr PeerOnly)) [(calm_env 2, CbJoined 1 (Inr (Frames [0, 0, 0, 0, 1])))]
     (pinned_node, priority_new [] 0 0 Fallback, 0) = (Some (Inr [0, 0, 0, 0, 1]), r) \<and>
     Inr [0, 0, 0, 0, 1] = best_answer (cb_heard r) (cb_failures r)"
proof -
  from sample_fetch[of "\<lambda>_. []"] obtain r where r:
    "fetch_client_blocks_raced (\<lambda>_. []) [''192.0.2.7''] (calm_env 0) [(0, blacklist_init, id)] (calm_env 0)
     (calm_env 1, FirstJoined (Inr PeerOnly)) [(calm_env 2, CbJoined 1 (Inr (Frames [0, 0, 0, 0, 1])))]
     (pinned_node, priority_new [] 0 0 Fallback, 0) = (Some (Inr [0, 0, 0, 0, 1]), r)" by blast
  from raced_best_answer[OF r] r show ?thesis by auto
qed

section \<open>Slots of the attempts\<close>

definition slot_of :: "nat \<times> cb_attempt \<Rightarrow> (nat \<times> nat) option" where
  "slot_of = (\<lambda>(i, at). map_option (Pair i) (at_slot at))"

definition ledger :: "cb_race \<Rightarrow> (nat \<times> nat) list" where
  "ledger r = List.map_filter slot_of (cb_attempts r)"

definition slots_ok :: "priority_tier \<Rightarrow> cb_race \<Rightarrow> bool" where
  "slots_ok t0 r \<longleftrightarrow> holds t0 (ledger r) (cb_tier r) \<and> distinct (map fst (cb_attempts r)) \<and>
     (\<forall>p \<in> set (cb_attempts r). fst p < cb_next r)"

lemma map_filter_simps2 [simp]:
  "List.map_filter f [] = []"
  "List.map_filter f (x # xs) = (case f x of None \<Rightarrow> List.map_filter f xs | Some y \<Rightarrow> y # List.map_filter f xs)"
  "List.map_filter f (xs @ ys) = List.map_filter f xs @ List.map_filter f ys"
  by (simp_all add: List.map_filter_def split: option.splits)

lemma slot_of_fst: "slot_of p = Some q \<Longrightarrow> fst q = fst p"
  by (auto simp: slot_of_def split: prod.splits)

lemma ledger_keys: "fst ` set (List.map_filter slot_of ps) \<subseteq> fst ` set ps"
  by (induction ps) (auto split: option.splits dest: slot_of_fst)

lemma ledger_delete: "List.map_filter slot_of (AList.delete i ps) = AList.delete i (List.map_filter slot_of ps)"
  by (induction ps) (auto simp: AList.delete_eq split: option.splits prod.splits dest: slot_of_fst)

lemma ledger_lookup:
  "distinct (map fst ps) \<Longrightarrow> map_of ps i = Some at \<Longrightarrow> map_of (List.map_filter slot_of ps) i = at_slot at"
proof (induction ps)
  case (Cons p ps)
  have "i \<notin> fst ` set ps \<Longrightarrow> map_of (List.map_filter slot_of ps) i = None"
    using ledger_keys[of ps] by (auto simp: map_of_eq_None_iff)
  with Cons show ?case
    by (cases p) (auto simp: slot_of_def image_iff split: if_splits option.splits)
qed simp

lemma release_all: "fold (\<lambda>(_, at). release at) ps t = fold (\<lambda>(_, g). drop_session g) (List.map_filter slot_of ps) t"
  by (induction ps arbitrary: t) (auto simp: release_def slot_of_def split: option.splits)

lemma slots_abort: "slots_ok t0 r \<Longrightarrow> slots_ok t0 (abort_attempts r)"
  using holds_drop_all[of t0 "ledger r" "[]" "cb_tier r"]
  by (simp add: slots_ok_def abort_attempts_def ledger_def release_all)

lemma slots_abort_settled: "slots_ok t0 r \<Longrightarrow> holds t0 ([] :: (nat \<times> nat) list) (cb_tier (abort_attempts r))"
  using slots_abort[of t0 r] by (simp add: slots_ok_def abort_attempts_def ledger_def)

lemma slots_end: "slots_ok t0 r \<Longrightarrow> end_attempt i r = (x, r') \<Longrightarrow> slots_ok t0 r'"
proof -
  assume ok: "slots_ok t0 r" and e: "end_attempt i r = (x, r')"
  show ?thesis
  proof (cases "map_of (cb_attempts r) i")
    case (Some at)
    have l: "map_of (ledger r) i = at_slot at"
      using ledger_lookup[OF _ Some] ok by (simp add: ledger_def slots_ok_def)
    have "holds t0 (AList.delete i (ledger r)) (release at (cb_tier r))"
    proof (cases "at_slot at")
      case None
      with l have "AList.delete i (ledger r) = ledger r"
        by (auto simp: map_of_eq_None_iff intro: delete_fresh)
      with ok None show ?thesis by (simp add: slots_ok_def release_def)
    next
      case (Some g)
      with l holds_drop[OF holds_front] ok show ?thesis by (auto simp: slots_ok_def release_def)
    qed
    moreover have "set (AList.delete i (cb_attempts r)) \<subseteq> set (cb_attempts r)"
      by (auto simp: AList.delete_eq)
    moreover have "r' = r\<lparr>cb_attempts := AList.delete i (cb_attempts r), cb_tier := release at (cb_tier r)\<rparr>"
      using e Some by (auto simp: end_attempt_def)
    ultimately show ?thesis
      using ok by (auto simp: slots_ok_def ledger_def ledger_delete distinct_delete subset_iff)
  qed (use ok e in \<open>auto simp: end_attempt_def\<close>)
qed

lemma slots_spawn_free: "slots_ok t0 r \<Longrightarrow> slots_ok t0 (spawn_attempt tag a pw None r)"
  by (auto simp: slots_ok_def spawn_attempt_def ledger_def slot_of_def)

lemma slots_spawn_held:
  assumes "slots_ok t0 r" "try_acquire a (cb_tier r) = (Some g, t)"
  shows "slots_ok t0 (spawn_attempt tag b pw (Some g) (r\<lparr>cb_tier := t, cb_pending := ps\<rparr>))"
proof -
  have "cb_next r \<notin> fst ` set (ledger r)"
    using assms(1) ledger_keys[of "cb_attempts r"] unfolding slots_ok_def ledger_def by fastforce
  from holds_rotate[OF holds_acquire[OF _ this assms(2)]] assms(1) show ?thesis
    by (auto simp: slots_ok_def spawn_attempt_def ledger_def slot_of_def)
qed

lemma slots_frame [simp]:
  "slots_ok t0 (r\<lparr>cb_node := n\<rparr>) = slots_ok t0 r" "slots_ok t0 (r\<lparr>cb_rr := rr\<rparr>) = slots_ok t0 r"
  "slots_ok t0 (r\<lparr>cb_pending := ps\<rparr>) = slots_ok t0 r" "slots_ok t0 (r\<lparr>cb_pool_hedged := b\<rparr>) = slots_ok t0 r"
  "slots_ok t0 (r\<lparr>cb_deferred := d\<rparr>) = slots_ok t0 r" "slots_ok t0 (note_failure why r) = slots_ok t0 r"
  "slots_ok t0 (r\<lparr>cb_terminal := f\<rparr>) = slots_ok t0 r" "slots_ok t0 (r\<lparr>cb_too_small := f\<rparr>) = slots_ok t0 r"
  "slots_ok t0 (r\<lparr>cb_heard := h\<rparr>) = slots_ok t0 r"
  "slots_ok t0 (r\<lparr>cb_tier := fold (\<lambda>a. mark_failed_at a now) as (cb_tier r)\<rparr>) = slots_ok t0 r"
  by (simp_all add: slots_ok_def ledger_def note_failure_def)

lemma slots_spawn_round: "slots_ok t0 r \<Longrightarrow> slots_ok t0 (spawn_round pl as r)"
proof (induction pl as r rule: spawn_round.induct)
  case (2 pl a as r)
  obtain x t where x: "prewarm_slot a (cb_tier r) = (x, t)" by fastforce
  let ?ps = "if cb_pool_hedged r then cb_pending r else cb_pending r @ [a]"
  have "x = None \<longrightarrow> t = cb_tier r"
    using x by (auto simp: prewarm_slot_def split: if_splits prod.splits option.splits dest: try_acquire_None)
  moreover have "slots_ok t0 (spawn_attempt None a True slot (r\<lparr>cb_tier := t, cb_pending := ?ps\<rparr>))" if "x = Some slot" for slot
    using x that "2.prems" slots_spawn_held[of t0 r a _ t None a True ?ps]
      slots_spawn_free[of t0 "r\<lparr>cb_pending := ?ps\<rparr>" None a True]
    by (auto simp: prewarm_slot_def split: if_splits prod.splits option.splits)
  ultimately show ?case
    using 2 x by (cases x) auto
qed simp

lemma slots_open: "slots_ok t0 r \<Longrightarrow> slots_ok t0 (open_round pl as r)"
  by (auto simp: open_round_def spawn_deferred_def split: option.splits intro!: slots_spawn_round slots_spawn_free)

lemma slots_pool_round: "slots_ok t0 r \<Longrightarrow> slots_ok t0 (pool_round pl r)"
  by (auto simp: pool_round_def split: prod.splits intro!: slots_open)

text \<open>The outcome of a step: the slots are in order, and all back once there is an answer.\<close>

definition slots_back :: "priority_tier \<Rightarrow> (string + bytes) option \<times> cb_race \<Rightarrow> bool" where
  "slots_back t0 = (\<lambda>(res, r). slots_ok t0 r \<and> (res \<noteq> None \<longrightarrow> holds t0 ([] :: (nat \<times> nat) list) (cb_tier r)))"

lemma slots_back_simps [simp]:
  "slots_back t0 (None, r) = slots_ok t0 r"
  "slots_back t0 (Some x, r) \<longleftrightarrow> slots_ok t0 r \<and> holds t0 ([] :: (nat \<times> nat) list) (cb_tier r)"
  by (simp_all add: slots_back_def)

lemma slots_round_end: "slots_ok t0 r \<Longrightarrow> slots_back t0 (round_end pl r)"
  using slots_pool_round[of t0 r pl] slots_abort[of t0 r] slots_abort_settled[of t0 r]
  by (auto simp: round_end_def slots_back_def Let_def slots_ok_def ledger_def)

lemma slots_after_join: "slots_ok t0 r \<Longrightarrow> slots_back t0 (after_join pl r)"
  using slots_round_end[of t0 r pl] by (simp add: after_join_def slots_back_def)

lemma slots_note: "note_client_block_result msg tag a result r = (w, r') \<Longrightarrow> slots_ok t0 r \<Longrightarrow> slots_ok t0 r'"
  by (auto simp: note_client_block_result_def note_accepted_def Let_def
      split: option.splits if_splits sum.splits upstream_response.splits)

lemma slots_remember:
  "slots_ok t0 (remember_winner pl bl tag a r) = slots_ok t0 r" "cb_tier (remember_winner pl bl tag a r) = cb_tier r"
  by (auto simp: remember_winner_def split: option.splits prod.splits)

lemma slots_joined:
  assumes "slots_ok t0 r"
  shows "slots_back t0 (cb_joined msg pl e i result r)"
proof -
  obtain x r1 where x: "end_attempt i r = (x, r1)" by fastforce
  have r1: "slots_ok t0 r1" by (rule slots_end[OF assms x])
  show ?thesis
  proof (cases x)
    case (Some at)
    let ?r1 = "r1\<lparr>cb_pending := filter (\<lambda>p. p \<noteq> at_ip at) (cb_pending r1)\<rparr>"
    obtain w r2 where w: "note_client_block_result msg (at_tag at) (at_ip at) result ?r1 = (w, r2)" by fastforce
    have "slots_ok t0 r2" using slots_note[OF w] r1 by simp
    then show ?thesis
      using slots_after_join[of t0 r2 pl] slots_abort[of t0 r2] slots_abort_settled[of t0 r2] w x Some
      by (cases w) (simp_all add: cb_joined_def slots_back_def slots_remember)
  qed (use x r1 in \<open>simp add: cb_joined_def slots_back_def\<close>)
qed

text \<open>Other tasks take and give back slots of their own: they take the tier from \<open>t0\<close> to \<open>t1\<close>, whatever the fetch holds on
  top.\<close>

definition others_move :: "cb_env \<Rightarrow> priority_tier \<Rightarrow> priority_tier \<Rightarrow> bool" where
  "others_move e t0 t1 \<longleftrightarrow>
     (\<forall>n t rr. \<forall>ss :: (nat \<times> nat) list. holds t0 ss t \<longrightarrow> holds t1 ss (fst (snd (ce_others e (n, t, rr)))))"

fun moves_along :: "cb_env list \<Rightarrow> priority_tier \<Rightarrow> priority_tier list \<Rightarrow> bool" where
  "moves_along [] t ts \<longleftrightarrow> ts = []"
| "moves_along (e # es) t [] \<longleftrightarrow> False"
| "moves_along (e # es) t (t1 # ts) \<longleftrightarrow> others_move e t t1 \<and> tier_ok t1 \<and> moves_along es t1 ts"

lemma slots_meanwhile: "others_move e t0 t1 \<Longrightarrow> slots_ok t0 r \<Longrightarrow> slots_ok t1 (meanwhile e r)"
proof -
  assume m: "others_move e t0 t1" and ok: "slots_ok t0 r"
  obtain n t rr where o: "ce_others e (cb_node r, cb_tier r, cb_rr r) = (n, t, rr)"
    by (cases "ce_others e (cb_node r, cb_tier r, cb_rr r)") auto
  have "holds t1 (ledger r) t"
    using m[unfolded others_move_def, rule_format, of "ledger r" "cb_tier r" "cb_node r" "cb_rr r"] ok
    by (simp add: o slots_ok_def)
  with ok show ?thesis by (simp add: meanwhile_def o slots_ok_def ledger_def)
qed

lemma slots_step:
  assumes "others_move e t0 t1" "slots_ok t0 r"
  shows "slots_back t1 (cb_step msg pl e ev r)"
proof -
  have m: "slots_ok t1 (meanwhile e r)" using assms by (rule slots_meanwhile)
  show ?thesis
  proof (cases ev)
    case (CbPanic i)
    have "slots_ok t1 (snd (end_attempt i (meanwhile e r)))"
      using slots_end[OF m] by (cases "end_attempt i (meanwhile e r)") auto
    with CbPanic show ?thesis by (simp add: cb_step_def slots_after_join)
  qed (use m slots_abort[OF m] slots_abort_settled[OF m] in
    \<open>simp_all add: cb_step_def slots_joined cb_round_timeout_def Let_def slots_round_end\<close>)
qed

text \<open>The loop ends with the \<open>k\<close>-th event, if it ends, and then holds nothing beyond what the others hold by then.\<close>

lemma slots_loop:
  "slots_ok t0 r \<Longrightarrow> moves_along (map fst evs) t0 ts \<Longrightarrow>
     \<exists>k \<le> length evs. cb_loop msg pl (take k evs) r = cb_loop msg pl evs r \<and> (\<forall>j < k. fst (cb_loop msg pl (take j evs) r) = None) \<and>
       slots_back ((t0 # ts) ! k) (cb_loop msg pl evs r)"
proof (induction msg pl evs r arbitrary: t0 ts rule: cb_loop.induct)
  case (2 msg pl e ev evs r)
  obtain t1 ts' where ts: "ts = t1 # ts'" "others_move e t0 t1" "moves_along (map fst evs) t1 ts'"
    using "2.prems"(2) by (cases ts) auto
  obtain x r1 where x: "cb_step msg pl e ev r = (x, r1)" by fastforce
  have b: "slots_back t1 (x, r1)" using slots_step[OF ts(2) "2.prems"(1), of msg pl ev] by (simp add: x)
  show ?case
  proof (cases x)
    case None
    with b have "slots_ok t1 r1" by simp
    from "2.IH"[OF x[symmetric] None this ts(3)] obtain k where k: "k \<le> length evs" "cb_loop msg pl (take k evs) r1 = cb_loop msg pl evs r1"
      "\<forall>j < k. fst (cb_loop msg pl (take j evs) r1) = None" "slots_back ((t1 # ts') ! k) (cb_loop msg pl evs r1)"
      by blast
    have "fst (cb_loop msg pl (take j ((e, ev) # evs)) r) = None" if "j < Suc k" for j
      using that k(3) x None by (cases j) simp_all
    with k x None ts(1) show ?thesis by (intro exI[of _ "Suc k"]) simp
  next
    case (Some res)
    with b x ts(1) show ?thesis by (intro exI[of _ 1]) simp
  qed
qed simp

lemma slots_first:
  assumes "slots_ok t0 r" "cb_first active remembered r = (fi, r')"
  shows "slots_ok t0 r'"
proof (cases active)
  case None
  show ?thesis
  proof (cases remembered)
    case (Some a)
    obtain x t where x: "prewarm_slot a (cb_tier r) = (x, t)" by fastforce
    show ?thesis
      using assms None Some x slots_spawn_held[of t0 r a _ t None a True "cb_pending r"] slots_spawn_free[of t0 r None a True]
      by (auto simp: cb_first_def prewarm_slot_def split: if_splits prod.splits option.splits dest: try_acquire_None)
  qed (use assms None in \<open>simp add: cb_first_def\<close>)
qed (use assms in \<open>auto simp: cb_first_def intro: slots_spawn_free\<close>)

text \<open>Before the hedging the only attempt is the first one.\<close>

lemma slots_first_done:
  assumes "others_move e t0 t1" "slots_ok t0 r" "\<forall>p \<in> set (cb_attempts r). fst p = 0"
  shows "slots_back t1 (cb_first_done msg e ev r)"
proof -
  have m: "slots_ok t1 (meanwhile e r)" using assms(1,2) by (rule slots_meanwhile)
  obtain x r1 where x: "end_attempt 0 (meanwhile e r) = (x, r1)" by fastforce
  have r1: "slots_ok t1 r1" by (rule slots_end[OF m x])
  have att: "cb_attempts (meanwhile e r) = cb_attempts r" by (simp add: meanwhile_def split: prod.splits)
  show ?thesis
  proof (cases ev)
    case (FirstJoined result)
    show ?thesis
    proof (cases x)
      case (Some at)
      obtain w r2 where w: "note_client_block_result msg (at_tag at) (at_ip at) result r1 = (w, r2)" by fastforce
      have r2: "slots_ok t1 r2" by (rule slots_note[OF w r1])
      have "cb_attempts r2 = cb_attempts r1"
        using w by (auto simp: note_client_block_result_def note_accepted_def note_failure_def Let_def
            split: option.splits if_splits sum.splits upstream_response.splits)
      moreover have "cb_attempts r1 = []"
        using x Some assms(3) by (auto simp: end_attempt_def att AList.delete_eq filter_empty_conv split: option.splits) force
      ultimately have "holds t1 ([] :: (nat \<times> nat) list) (cb_tier r2)"
        using r2 by (simp add: slots_ok_def ledger_def)
      with r2 w x Some FirstJoined show ?thesis by (cases w) (simp_all add: cb_first_done_def)
    qed (use x r1 FirstJoined in \<open>simp add: cb_first_done_def\<close>)
  qed (use m x r1 slots_abort[OF m] slots_abort_settled[OF m] in \<open>simp_all add: cb_first_done_def\<close>)
qed

lemma slots_hedge: "slots_ok t0 r \<Longrightarrow> slots_back t0 (cb_hedge pl e r)"
  by (auto simp: cb_hedge_def Let_def split: prod.splits intro!: slots_after_join slots_open)

lemma slots_from_pin:
  assumes "tier_ok t" "others_move fe t t1" "moves_along (map fst evs) t1 ts"
  shows "\<exists>k \<le> length evs.
    fetch_from_pin msg peers started e1 remembered pinned (n, t, rr) (fe, fev) (take k evs) =
      fetch_from_pin msg peers started e1 remembered pinned (n, t, rr) (fe, fev) evs \<and>
    (\<forall>j < k. fst (fetch_from_pin msg peers started e1 remembered pinned (n, t, rr) (fe, fev) (take j evs)) = None) \<and>
    slots_back ((t1 # ts) ! k) (fetch_from_pin msg peers started e1 remembered pinned (n, t, rr) (fe, fev) evs)"
proof -
  define deferred where "deferred = (case pinned of
      Some peer \<Rightarrow> if active_answers_first (ce_bl e1) (ce_now e1) t (ap_ip peer) then None else Some peer | None \<Rightarrow> None)"
  let ?r0 = "cb_race_new n t rr deferred"
  obtain fi r1 where f: "cb_first (if deferred = None then pinned else None) remembered ?r0 = (fi, r1)" by fastforce
  define pl where "pl = \<lparr>pl_started = started, pl_peers = peers, pl_first_ip = fi, pl_deferred_pin = deferred\<rparr>"
  obtain x r2 where x: "(if fi = None then (None, meanwhile fe r1) else cb_first_done msg fe fev r1) = (x, r2)" by fastforce
  have "slots_ok t ?r0"
    using holds_start[OF assms(1)] by (simp add: slots_ok_def cb_race_new_def ledger_def)
  then have r1: "slots_ok t r1" by (rule slots_first[OF _ f])
  have "\<forall>p \<in> set (cb_attempts r1). fst p = 0"
    using f by (auto simp: cb_first_def cb_race_new_def spawn_attempt_def split: option.splits prod.splits)
  then have a2: "slots_back t1 (x, r2)"
    using slots_first_done[OF assms(2) r1, of msg fev] slots_meanwhile[OF assms(2) r1] by (simp flip: x)
  obtain y r3 where y: "cb_hedge pl fe r2 = (y, r3)" by fastforce
  have a3: "x = None \<Longrightarrow> slots_back t1 (y, r3)"
    using slots_hedge[of t1 r2 pl fe] a2 y by simp
  have eq: "fetch_from_pin msg peers started e1 remembered pinned (n, t, rr) (fe, fev) es =
      (case x of Some res \<Rightarrow> (Some res, r2)
       | None \<Rightarrow> (case y of Some res \<Rightarrow> (Some res, r3) | None \<Rightarrow> cb_loop msg pl es r3))" for es
    using f x y by (simp add: fetch_from_pin_def Let_def deferred_def pl_def split: option.splits)
  show ?thesis
  proof (cases "x = None \<and> y = None")
    case True
    with a3 have "slots_ok t1 r3" by simp
    from slots_loop[OF this assms(3), of msg pl] True show ?thesis by (simp add: eq)
  next
    case False
    with a2 a3 show ?thesis by (intro exI[of _ 0]) (auto simp: eq split: option.splits)
  qed
qed

text \<open>C19. A client-block fetch gives back every priority slot it took, whoever answers, whichever attempts are still
  running when it ends and whether it ends by an answer, by failing or at its caller's deadline. Other tasks may take and
  give back slots of their own all the while: \<open>ts\<close> is the tier as they alone would have it after each event. When the
  fetch ends, with the \<open>k\<close>-th event, the sessions counted are exactly theirs.\<close>
theorem raced_slots_back:
  assumes "fetch_client_blocks_raced msg peers e0 polls e1 (fe, fev) evs (n, t, rr) = (Some res, r)"
    and "tier_ok t" "moves_along (fe # map fst evs) t ts"
  shows "\<exists>k \<le> length evs. t_sessions (cb_tier r) = t_sessions (ts ! k) \<and>
    fetch_client_blocks_raced msg peers e0 polls e1 (fe, fev) (take k evs) (n, t, rr) = (Some res, r) \<and>
    (\<forall>j < k. fst (fetch_client_blocks_raced msg peers e0 polls e1 (fe, fev) (take j evs) (n, t, rr)) = None)"
proof -
  obtain t1 ts' where ts: "ts = t1 # ts'" "others_move fe t t1" "moves_along (map fst evs) t1 ts'"
    using assms(3) by (cases ts) auto
  have ok: "moves_along es u us \<Longrightarrow> v \<in> set us \<Longrightarrow> tier_ok v" for es u us v
    by (induction es u us rule: moves_along.induct) auto
  have len: "moves_along es u us \<Longrightarrow> length us = length es" for es u us
    by (induction es u us rule: moves_along.induct) auto
  obtain pinned n1 where eq: "\<And>es. fetch_client_blocks_raced msg peers e0 polls e1 (fe, fev) es (n, t, rr) =
      fetch_from_pin msg peers (ce_now e0) e1 (cb_remembered (ce_bl e0) (ce_now e0) t n) pinned (n1, t, rr) (fe, fev) es"
    using assms(1) by (auto simp: fetch_client_blocks_raced_def Let_def split: option.splits if_splits prod.splits)
  from slots_from_pin[OF assms(2) ts(2,3)] obtain k where k: "k \<le> length evs"
    "fetch_client_blocks_raced msg peers e0 polls e1 (fe, fev) (take k evs) (n, t, rr) = (Some res, r)"
    "\<forall>j < k. fst (fetch_client_blocks_raced msg peers e0 polls e1 (fe, fev) (take j evs) (n, t, rr)) = None"
    "slots_back (ts ! k) (Some res, r)"
    using assms(1) ts(1) unfolding eq by metis
  have "tier_ok (ts ! k)" using ok[OF assms(3)] len[OF assms(3)] k(1) by simp
  with k holds_settled[of "ts ! k" "cb_tier r"] show ?thesis by auto
qed

text \<open>The pinned active refuses the request; a pool peer answers it while a priority peer's attempt still holds a slot and
  another task takes one of its own.\<close>

definition busy_env :: "instant \<Rightarrow> cb_env" where
  "busy_env now = \<lparr>ce_now = now, ce_bl = blacklist_init,
     ce_others = (\<lambda>(n, t, rr). (n, t\<lparr>t_sessions := map Suc (t_sessions t)\<rparr>, rr))\<rparr>"

definition lone_tier :: priority_tier where
  "lone_tier = priority_new [''192.0.2.2''] 3 0 Fallback"

definition shared_fetch :: "(cb_env \<times> cb_ev) list \<Rightarrow> (string + bytes) option \<times> cb_race" where
  "shared_fetch evs =
     fetch_client_blocks_raced (\<lambda>_. []) [''192.0.2.7''] (calm_env 0) [(0, blacklist_init, id)] (calm_env 0)
       (calm_env 1, FirstJoined (Inr PeerOnly)) evs (pinned_node, lone_tier, 0)"

lemma shared_fetch_runs:
  "fst (shared_fetch []) = None" "t_sessions (cb_tier (snd (shared_fetch []))) = [1]"
  "\<exists>r. shared_fetch [(busy_env 2, CbJoined 2 (Inr (Frames [0, 0, 0, 0, 1])))] = (Some (Inr [0, 0, 0, 0, 1]), r)"
  by (simp_all add: shared_fetch_def fetch_client_blocks_raced_def cb_remembered_def pinned_node_def pin_active_def node_state_new_def
      active_session_snapshot_def unpin_blacklisted_def calm_env_def bl_contains_def blacklist_init_def Let_def lone_tier_def
      fetch_from_pin_def active_answers_first_def pool_allowed_def exclusive_def priority_new_def candidates_at_def
      cb_first_def cb_race_new_def spawn_attempt_def cb_first_done_def meanwhile_def end_attempt_def release_def
      note_client_block_result_def note_accepted_def active_is_current_def clear_active_if_current_def note_failure_def
      cb_hedge_def client_block_peer_candidates_def rotated_def open_round_def spawn_deferred_def skips_def prewarm_slot_def
      tier_contains_def tier_index_def try_acquire_def after_join_def cb_step_def cb_joined_def abort_attempts_def
      remember_winner_def busy_env_def)

theorem raced_slots_back_witness:
  "\<exists>r. shared_fetch [(busy_env 2, CbJoined 2 (Inr (Frames [0, 0, 0, 0, 1])))] = (Some (Inr [0, 0, 0, 0, 1]), r) \<and>
     t_sessions (cb_tier (snd (shared_fetch []))) = [1] \<and> t_sessions (cb_tier r) = [1]"
proof -
  let ?e = "[(busy_env 2, CbJoined 2 (Inr (Frames [0, 0, 0, 0, 1])))]"
  let ?t = "lone_tier\<lparr>t_sessions := [1]\<rparr>"
  obtain r where r: "shared_fetch ?e = (Some (Inr [0, 0, 0, 0, 1]), r)" using shared_fetch_runs(3) by blast
  have ok: "tier_ok lone_tier" by (simp add: lone_tier_def priority_new_def tier_ok_def)
  have "moves_along (calm_env 1 # map fst ?e) lone_tier [lone_tier, ?t]"
    by (simp add: others_move_def calm_env_def busy_env_def lone_tier_def priority_new_def tier_ok_def holds_def)
  from raced_slots_back[OF r[unfolded shared_fetch_def] ok this] obtain k where "k \<le> 1"
      "t_sessions (cb_tier r) = t_sessions ([lone_tier, ?t] ! k)" "shared_fetch (take k ?e) = (Some (Inr [0, 0, 0, 0, 1]), r)"
    unfolding shared_fetch_def by auto
  with shared_fetch_runs(1,2) r show ?thesis by (cases k) auto
qed

end
