(* ===== verification/Cache.thy ===== *)
theory Cache
  imports Peers_File Node_State Select
begin

text \<open>
  The bootstrap cache, \<open>gateway/cache.rs\<close>: the tap on a relayed bootstrap, the background capture and its
  race, what may be installed, persisted, loaded and replayed. A bootstrap is an opaque run of frames.
  Rates are compared exactly, where the code divides floating-point numbers.
\<close>

section \<open>Constants\<close>

definition CACHE_REPLAY_COOLDOWN_SECS :: nat where "CACHE_REPLAY_COOLDOWN_SECS = 30"

definition MAX_BOOTSTRAP_CACHE_AGE_SECS :: nat where "MAX_BOOTSTRAP_CACHE_AGE_SECS = 8 * 60"

definition CACHE_REFRESH_RETRY_SECS :: nat where "CACHE_REFRESH_RETRY_SECS = 30"

definition CACHE_REFRESH_FORCE_BEFORE_EXPIRY_SECS :: nat where "CACHE_REFRESH_FORCE_BEFORE_EXPIRY_SECS = 90"

definition MIN_BOOTSTRAP_RATE_BYTES_PER_SEC :: nat where "MIN_BOOTSTRAP_RATE_BYTES_PER_SEC = 5000000"

definition MIN_LIVE_PEERS_FOR_CACHE_REFRESH :: nat where "MIN_LIVE_PEERS_FOR_CACHE_REFRESH = 4"

definition MAX_BOOTSTRAP_CAPTURE_BYTES :: nat where "MAX_BOOTSTRAP_CAPTURE_BYTES = 9000000000"

definition FRESH_BOOTSTRAP_REFRESH_MAX_SECS :: nat where "FRESH_BOOTSTRAP_REFRESH_MAX_SECS = 5 * 60"

definition COLD_BOOTSTRAP_REFRESH_MAX_SECS :: nat where "COLD_BOOTSTRAP_REFRESH_MAX_SECS = 15 * 60"

definition MAX_TAP_CAPTURE :: duration where "MAX_TAP_CAPTURE = from_secs (30 * 60)"

text \<open>\<open>n\<close> bytes in \<open>el\<close> nanoseconds are fewer than \<open>per_sec\<close> bytes per second.\<close>

definition slower_than :: "nat \<Rightarrow> duration \<Rightarrow> nat \<Rightarrow> bool" where
  "slower_than n el per_sec \<longleftrightarrow> n * 1000000000 < per_sec * el"

section \<open>The cache\<close>

definition bootstrap_capture_peers :: "blacklist \<Rightarrow> string list \<Rightarrow> ip list \<Rightarrow> bool \<Rightarrow> ip list" where
  "bootstrap_capture_peers bl candidate_files live_peers include_candidates =
     (if \<not> include_candidates then live_peers
      else fold (\<lambda>a out. if a \<in> set out then out else out @ [a])
             (bl_filtered bl (read_node_peers candidate_files)) live_peers)"

text \<open>What a capture writes into: the blob in memory, when it was cached, and the blobs handed to the
  writer of the disk file (none without a disk path).\<close>

record cache_sink =
  ck_blob :: "bytes option"
  ck_cached_at :: nat
  ck_disk :: bool
  ck_jobs :: "bytes list"

definition has_live_tail :: "(bytes \<Rightarrow> bytes option) \<Rightarrow> bytes \<Rightarrow> bool" where
  "has_live_tail D blob \<longleftrightarrow> max_block_round_in_frames D blob \<noteq> None"

definition install_bootstrap_cache :: "(bytes \<Rightarrow> bytes option) \<Rightarrow> nat \<Rightarrow> bytes \<Rightarrow> cache_sink \<Rightarrow> cache_sink" where
  "install_bootstrap_cache D now blob ck =
     (if \<not> has_live_tail D blob then ck
      else ck\<lparr>ck_blob := Some blob, ck_cached_at := now,
             ck_jobs := (if ck_disk ck then ck_jobs ck @ [blob] else ck_jobs ck)\<rparr>)"

definition is_bootstrap_cache_fresh :: "nat \<Rightarrow> nat \<Rightarrow> bool" where
  "is_bootstrap_cache_fresh now cached_at \<longleftrightarrow>
     cached_at \<noteq> 0 \<and> now - cached_at \<le> MAX_BOOTSTRAP_CACHE_AGE_SECS"

definition should_delay_cache_refresh_for_live_pool :: "nat \<Rightarrow> nat \<Rightarrow> nat \<Rightarrow> bool" where
  "should_delay_cache_refresh_for_live_pool now cached_at live_count =
     (if MIN_LIVE_PEERS_FOR_CACHE_REFRESH \<le> live_count then False
      else CACHE_REFRESH_FORCE_BEFORE_EXPIRY_SECS < MAX_BOOTSTRAP_CACHE_AGE_SECS - (now - cached_at))"

definition fresh_cache_retry_delay_secs :: "nat \<Rightarrow> nat \<Rightarrow> nat" where
  "fresh_cache_retry_delay_secs now cached_at =
     (let seconds_left = MAX_BOOTSTRAP_CACHE_AGE_SECS - (now - cached_at)
      in if seconds_left \<le> CACHE_REFRESH_FORCE_BEFORE_EXPIRY_SECS then 1
         else max 1 (min CACHE_REFRESH_RETRY_SECS (seconds_left - CACHE_REFRESH_FORCE_BEFORE_EXPIRY_SECS)))"

definition bootstrap_capture_deadline_secs :: "bool \<Rightarrow> nat" where
  "bootstrap_capture_deadline_secs have_fresh_cache =
     (if have_fresh_cache then FRESH_BOOTSTRAP_REFRESH_MAX_SECS else COLD_BOOTSTRAP_REFRESH_MAX_SECS)"

section \<open>On disk\<close>

text \<open>What the file system says of the cache file: its modification time in seconds (0 when unknown) and
  what reading it gives.\<close>

datatype disk_file = Missing | StatFailed | DiskFile nat nat "bytes option"

datatype load_error = LoadIo | TooOld | TooSmall | IncompleteFrame | IncompleteBootstrap | NoLiveTail

definition load_bootstrap_cache ::
  "(bytes \<Rightarrow> bytes option) \<Rightarrow> nat \<Rightarrow> disk_file \<Rightarrow> load_error + (bytes \<times> nat) option" where
  "load_bootstrap_cache D now f =
     (case f of
        Missing \<Rightarrow> Inr None
      | StatFailed \<Rightarrow> Inl LoadIo
      | DiskFile cached_at len contents \<Rightarrow>
          if \<not> is_bootstrap_cache_fresh now cached_at then Inl TooOld
          else if len < MIN_COMPLETE_BOOTSTRAP_BYTES then Inl TooSmall
          else (case contents of
              None \<Rightarrow> Inl LoadIo
            | Some blob \<Rightarrow>
                (case complete_frame_count blob of
                   None \<Rightarrow> Inl IncompleteFrame
                 | Some frames \<Rightarrow>
                     if \<not> complete_bootstrap_at_frame_boundary (length blob) frames then Inl IncompleteBootstrap
                     else if \<not> has_live_tail D blob then Inl NoLiveTail
                     else Inr (Some (blob, cached_at)))))"

text \<open>A directory: file names with modification time and contents. \<open>stem\<close> is the cache file's name without
  its extension.\<close>

type_synonym dir = "(string \<times> nat \<times> bytes) list"

definition tmp_name :: "string \<Rightarrow> nat \<Rightarrow> string" where
  "tmp_name stem seq = stem @ ''.tmp'' @ show_nat seq"

definition is_orphan_tmp :: "string \<Rightarrow> string \<Rightarrow> bool" where
  "is_orphan_tmp stem name \<longleftrightarrow>
     starts_with name (stem @ ''.tmp'') \<and> list_all is_digit (drop (length (stem @ ''.tmp'')) name)"

text \<open>\<open>undeletable\<close> are the files whose removal fails.\<close>

definition remove_orphan_cache_tmps :: "string \<Rightarrow> (string \<Rightarrow> bool) \<Rightarrow> dir \<Rightarrow> dir" where
  "remove_orphan_cache_tmps stem undeletable d =
     filter (\<lambda>(name, _). \<not> is_orphan_tmp stem name \<or> undeletable name) d"

text \<open>What the file system does to one writer: creating the directory, creating the temporary file, the bytes
  written before an error, and the rename.\<close>

record persist_run =
  pr_mkdir :: bool
  pr_create :: bool
  pr_write_failed :: "nat option"
  pr_rename :: bool
  pr_now :: nat

definition persist_bootstrap_cache ::
  "string \<Rightarrow> string \<Rightarrow> persist_run \<Rightarrow> bytes \<Rightarrow> nat \<times> dir \<Rightarrow> bool \<times> nat \<times> dir" where
  "persist_bootstrap_cache stem name p blob = (\<lambda>(seq, d).
     if \<not> pr_mkdir p then (False, seq, d)
     else (let tmp = tmp_name stem seq; seq' = seq + 1
           in if \<not> pr_create p then (False, seq', d)
              else (case pr_write_failed p of
                  Some k \<Rightarrow> (False, seq', AList.delete tmp (AList.update tmp (pr_now p, take k blob) d))
                | None \<Rightarrow>
                    (let d1 = AList.update tmp (pr_now p, blob) d
                     in if \<not> pr_rename p then (False, seq', d1)
                        else (True, seq', AList.update name (pr_now p, blob) (AList.delete tmp d1))))))"

section \<open>Replays\<close>

definition cache_replay_allowed :: "nat \<Rightarrow> nat \<Rightarrow> bool" where
  "cache_replay_allowed now last_replay \<longleftrightarrow> last_replay = 0 \<or> CACHE_REPLAY_COOLDOWN_SECS \<le> now - last_replay"

definition should_replay_cache :: "nat \<Rightarrow> nat \<Rightarrow> bool \<Rightarrow> nat \<Rightarrow> bool" where
  "should_replay_cache now last_replay active cached_at \<longleftrightarrow>
     \<not> active \<and> is_bootstrap_cache_fresh now cached_at \<and> cache_replay_allowed now last_replay"

definition cache_replay_blob :: "blacklist \<Rightarrow> nat \<Rightarrow> cache_sink \<Rightarrow> 'p node_state \<Rightarrow> bytes option \<times> 'p node_state" where
  "cache_replay_blob bl now ck n =
     (case has_active_session bl n of
        (active, n1) \<Rightarrow>
          (case ck_blob ck of
             None \<Rightarrow> (None, n1)
           | Some blob \<Rightarrow>
               if should_replay_cache now (n_last_cache_replay_secs n) active (ck_cached_at ck)
                  \<and> \<not> n_replay_in_flight n1
               then (Some blob, n1\<lparr>n_replay_in_flight := True\<rparr>)
               else (None, n1)))"

definition replay_in_flight_drop :: "'p node_state \<Rightarrow> 'p node_state" where
  "replay_in_flight_drop n = n\<lparr>n_replay_in_flight := False\<rparr>"

text \<open>The compare-and-swap loop: \<open>seen\<close> are the floors the successive swaps find.\<close>

fun raise_round_floor :: "u32 \<Rightarrow> u32 \<Rightarrow> u32 list \<Rightarrow> (bool \<times> u32) option" where
  "raise_round_floor round cur seen =
     (if round \<le> cur then Some (False, cur)
      else (case seen of
          [] \<Rightarrow> None
        | s # rest \<Rightarrow> if s = cur then Some (True, round) else raise_round_floor round s rest))"

definition live_greeting_for :: "bytes \<Rightarrow> bytes" where
  "live_greeting_for greet = greet[5 := 0]"

definition bounded_cache_floor :: "u32 \<Rightarrow> u32 \<Rightarrow> u32" where
  "bounded_cache_floor cache_floor net_tip =
     (if net_tip \<noteq> 0 \<and> saturating_add net_tip ACTIVE_ROUND_MAX_LAG < cache_floor then 0 else cache_floor)"

end
