(* ===== verification/Cache_Capture.thy ===== *)
theory Cache_Capture
  imports Cache Push_Session
begin

text \<open>
  Capturing a bootstrap, \<open>gateway/cache.rs\<close>: the write-through tap of \<open>splice_bootstrap_capture\<close>, the
  background \<open>fetch_bootstrap\<close> and the race \<open>capture_bootstrap_raced\<close>, pass by pass over what their
  reads, writes and clock looks give.
\<close>

section \<open>The tap\<close>

text \<open>\<open>tp_sent\<close> is what the node was given so far; the code only counts it.\<close>

record tap =
  tp_blob :: bytes
  tp_frames :: nat
  tp_capture :: bool
  tp_permit :: bool
  tp_first :: "(bytes \<times> bytes) option"
  tp_win :: instant
  tp_win_bytes :: nat
  tp_slow :: nat
  tp_deadline :: instant
  tp_sent :: bytes
  tp_upstream_ended :: bool
  tp_sink :: cache_sink

definition tap_new :: "bytes \<Rightarrow> bytes \<Rightarrow> instant \<Rightarrow> cache_sink \<Rightarrow> tap" where
  "tap_new first_hdr first_payload_prefix now ck =
     \<lparr>tp_blob = [], tp_frames = 0, tp_capture = True, tp_permit = True, tp_first = Some (first_hdr, first_payload_prefix),
      tp_win = now, tp_win_bytes = 0, tp_slow = 0, tp_deadline = now + MAX_TAP_CAPTURE, tp_sent = [],
      tp_upstream_ended = False, tp_sink = ck\<rparr>"

text \<open>One pass: the clock and the wall clock at its start, what the header read meets, whether the two writes
  before the payload go through, then per read the clock, the bytes and the write, and the clock after.\<close>

record tap_in =
  ti_now :: instant
  ti_unix :: nat
  ti_hdr :: "rd_ev list"
  ti_hdr_written :: bool
  ti_prefix_written :: bool
  ti_chunks :: "(instant \<times> (io_error + bytes) \<times> bool) list"
  ti_after :: instant

datatype tap_out = TapNext | TapEnd | TapPending

definition drop_slow_capture :: "instant \<Rightarrow> tap \<Rightarrow> tap" where
  "drop_slow_capture now s =
     (if tp_capture s \<and> tp_deadline s \<le> now then s\<lparr>tp_blob := [], tp_capture := False, tp_permit := False\<rparr> else s)"

definition upstream_gone :: "tap \<Rightarrow> tap" where
  "upstream_gone s = s\<lparr>tp_upstream_ended := True\<rparr>"

definition tap_install :: "(bytes \<Rightarrow> bytes option) \<Rightarrow> nat \<Rightarrow> tap \<Rightarrow> tap" where
  "tap_install D now s = s\<lparr>tp_sink := install_bootstrap_cache D now (tp_blob s) (tp_sink s), tp_blob := []\<rparr>"

definition relay_bytes :: "bytes \<Rightarrow> tap \<Rightarrow> tap" where
  "relay_bytes bs s = s\<lparr>tp_sent := tp_sent s @ bs, tp_blob := (if tp_capture s then tp_blob s @ bs else tp_blob s)\<rparr>"

definition TAP_BUFFER :: nat where "TAP_BUFFER = 1048576"

text \<open>The header of the next frame, if the relay goes on.\<close>

definition tap_header :: "(bytes \<Rightarrow> bytes option) \<Rightarrow> tap_in \<Rightarrow> tap \<Rightarrow> (bytes \<times> bytes) option \<times> tap" where
  "tap_header D i s =
     (case tp_first s of
        Some (hdr, front) \<Rightarrow> (Some (hdr, front), s\<lparr>tp_first := None\<rparr>)
      | None \<Rightarrow>
          if tp_capture s \<and> complete_bootstrap_at_frame_boundary (length (tp_blob s)) (tp_frames s) then
            (case read_header_or_timeout [] (ti_hdr i) of
               (Inr Complete, hdr, _) \<Rightarrow> (Some (hdr, []), s)
             | (Inr (TimedOut off), hdr, rest) \<Rightarrow>
                 (let s1 = (tap_install D (ti_unix i) s)\<lparr>tp_capture := False\<rparr>
                  in case finish_header_after_partial hdr rest of
                       (Inr hdr', _) \<Rightarrow> (Some (hdr', []), s1)
                     | (Inl _, _) \<Rightarrow> (None, upstream_gone s1))
             | (Inl _, _, _) \<Rightarrow> (None, upstream_gone (tap_install D (ti_unix i) s)))
          else
            (case read_exact 5 (ti_hdr i) of
               (Inr hdr, _) \<Rightarrow> (Some (hdr, []), s)
             | (Inl _, _) \<Rightarrow>
                 (None, upstream_gone
                    (if tp_capture s \<and> complete_bootstrap_at_frame_boundary (length (tp_blob s)) (tp_frames s)
                     then tap_install D (ti_unix i) s else s))))"

fun tap_payload :: "nat \<Rightarrow> (instant \<times> (io_error + bytes) \<times> bool) list \<Rightarrow> tap \<Rightarrow> tap_out \<times> tap" where
  "tap_payload remaining cs s =
     (if remaining = 0 then (TapNext, s)
      else (case cs of
          [] \<Rightarrow> (TapPending, s)
        | (now, res, written) # rest \<Rightarrow>
            (let s1 = drop_slow_capture now s
             in case res of
                  Inl _ \<Rightarrow> (TapEnd, upstream_gone s1)
                | Inr got \<Rightarrow>
                    (let bs = take (min remaining TAP_BUFFER) got
                     in if bs = [] then (TapEnd, upstream_gone s1)
                        else if \<not> written then (TapEnd, s1)
                        else tap_payload (remaining - length bs) rest (relay_bytes bs s1)))))"

text \<open>The rate window after a frame: eight slow windows in a row end a capture that is complete.\<close>

definition tap_window :: "(bytes \<Rightarrow> bytes option) \<Rightarrow> tap_in \<Rightarrow> nat \<Rightarrow> tap \<Rightarrow> tap" where
  "tap_window D i len s0 =
     (let s = s0\<lparr>tp_win_bytes := tp_win_bytes s0 + (5 + len)\<rparr>; el = ti_after i - tp_win s
      in if from_millis 1500 \<le> el then
           (let s1 = (if 1500000000 < length (tp_blob s) \<and> slower_than (tp_win_bytes s) el 400000 then
                        (let s' = s\<lparr>tp_slow := tp_slow s + 1\<rparr>
                         in if 8 \<le> tp_slow s' \<and> complete_bootstrap_at_frame_boundary (length (tp_blob s')) (tp_frames s')
                            then (tap_install D (ti_unix i) s')\<lparr>tp_capture := False\<rparr> else s')
                      else s\<lparr>tp_slow := 0\<rparr>)
            in s1\<lparr>tp_win := ti_after i, tp_win_bytes := 0\<rparr>)
         else s)"

definition tap_after_frame :: "(bytes \<Rightarrow> bytes option) \<Rightarrow> tap_in \<Rightarrow> nat \<Rightarrow> tap \<Rightarrow> tap" where
  "tap_after_frame D i len s0 =
     (let s = s0\<lparr>tp_frames := tp_frames s0 + 1\<rparr>
      in if \<not> tp_capture s then s
         else if MAX_BOOTSTRAP_CAPTURE_BYTES < length (tp_blob s) then s\<lparr>tp_blob := [], tp_capture := False\<rparr>
         else tap_window D i len s)"

text \<open>The part of a frame known with its header: the header itself and any prefetched start of the payload.\<close>

definition tap_frame :: "(bytes \<Rightarrow> bytes option) \<Rightarrow> tap_in \<Rightarrow> bytes \<Rightarrow> bytes \<Rightarrow> tap \<Rightarrow> tap_out \<times> tap" where
  "tap_frame D i hdr front s0 =
     (let len = be_len hdr 0
      in if MAX_ABCI_STATE_FRAME < len then (TapEnd, upstream_gone s0)
         else (let s1 = (if tp_capture s0 \<and> MAX_BOOTSTRAP_CAPTURE_BYTES < length (tp_blob s0) + 5 + len
                         then s0\<lparr>tp_blob := [], tp_capture := False\<rparr> else s0)
               in if \<not> ti_hdr_written i then (TapEnd, s1)
                  else (let s2 = relay_bytes hdr s1
                        in if front \<noteq> [] \<and> len < length front then (TapEnd, upstream_gone s2)
                           else if front \<noteq> [] \<and> \<not> ti_prefix_written i then (TapEnd, s2)
                           else (case tap_payload (len - length front) (ti_chunks i) (relay_bytes front s2) of
                                   (TapNext, s3) \<Rightarrow> (TapNext, tap_after_frame D i len s3)
                                 | (r, s3) \<Rightarrow> (r, s3)))))"

definition tap_pass :: "(bytes \<Rightarrow> bytes option) \<Rightarrow> tap_in \<Rightarrow> tap \<Rightarrow> tap_out \<times> tap" where
  "tap_pass D i s0 =
     (let s1 = drop_slow_capture (ti_now i) s0;
          s2 = (if tp_capture s1 then s1 else s1\<lparr>tp_permit := False\<rparr>)
      in case tap_header D i s2 of
           (None, s3) \<Rightarrow> (TapEnd, s3)
         | (Some (hdr, front), s3) \<Rightarrow> tap_frame D i hdr front s3)"

fun tap_loop :: "(bytes \<Rightarrow> bytes option) \<Rightarrow> tap_in list \<Rightarrow> tap \<Rightarrow> tap_out \<times> tap" where
  "tap_loop D [] s = (TapPending, s)"
| "tap_loop D (i # is) s =
     (case tap_pass D i s of
        (TapNext, s') \<Rightarrow> tap_loop D is s'
      | r \<Rightarrow> r)"

text \<open>What ends the relay: the copy task, the node's side (with the bytes it sent up and whose doing it was),
  or the blacklist. The permit goes with the task.\<close>

datatype tap_end = TapTask | TapNodeSide nat bool | TapBlacklisted

definition splice_bootstrap_capture ::
  "(bytes \<Rightarrow> bytes option) \<Rightarrow> bytes \<Rightarrow> bytes \<Rightarrow> instant \<Rightarrow> tap_in list \<Rightarrow> tap_end \<Rightarrow> cache_sink \<Rightarrow> (relayed \<times> cache_sink) option" where
  "splice_bootstrap_capture D first_hdr front now is ending ck =
     (case tap_loop D is (tap_new first_hdr front now ck) of
        (r, s) \<Rightarrow>
          (case ending of
             TapTask \<Rightarrow>
               if r = TapEnd then Some (\<lparr>to_node = length (tp_sent s), to_peer = 0, upstream_ended = tp_upstream_ended s\<rparr>, tp_sink s)
               else None
           | TapNodeSide n up \<Rightarrow>
               Some (\<lparr>to_node = length (tp_sent s), to_peer = n, upstream_ended = tp_upstream_ended s \<or> up\<rparr>, tp_sink s)
           | TapBlacklisted \<Rightarrow>
               Some (\<lparr>to_node = length (tp_sent s), to_peer = 0, upstream_ended = True\<rparr>, tp_sink s)))"

section \<open>The background capture\<close>

datatype capture_error =
    CapDial
  | CapHeader io_error
  | NotServing
  | FrameTooLarge nat
  | CaptureTooLarge
  | TooSlow
  | LargeFrameFailed
  | SmallFrameFailed
  | BulkEndedEarly

record capture =
  cp_blob :: bytes
  cp_frames :: nat
  cp_first :: bool
  cp_t0 :: instant
  cp_win :: instant
  cp_win_bytes :: nat
  cp_slow :: nat

text \<open>One pass: the header read, the payload (per read of a large frame its outcome and the clock after it),
  when that read began, and the clock after the frame.\<close>

record capture_in =
  ci_hdr :: "rd_ev list"
  ci_payload :: "rd_ev list"
  ci_started :: instant
  ci_chunks :: "((io_error + bytes) \<times> instant) list"
  ci_after :: instant

fun read_large :: "nat \<Rightarrow> instant \<Rightarrow> ((io_error + bytes) \<times> instant) list \<Rightarrow> bytes \<Rightarrow> (capture_error + bytes) option" where
  "read_large len started cs got =
     (if len \<le> length got then Some (Inr got)
      else (case cs of
          [] \<Rightarrow> None
        | (res, now) # rest \<Rightarrow>
            (let more = (case res of Inr bs \<Rightarrow> take (len - length got) bs | Inl _ \<Rightarrow> []);
                 el = now - started
             in if more = [] then
                  Some (Inl LargeFrameFailed)
                else if from_secs 4 < el \<and> slower_than (length (got @ more)) el MIN_BOOTSTRAP_RATE_BYTES_PER_SEC then
                  Some (Inl TooSlow)
                else read_large len started rest (got @ more))))"

definition capture_payload :: "capture_in \<Rightarrow> nat \<Rightarrow> (capture_error + bytes) option" where
  "capture_payload i len =
     (if 50000000 < len then read_large len (ci_started i) (ci_chunks i) []
      else (case read_exact len (ci_payload i) of
              (Inr p, _) \<Rightarrow> Some (Inr p)
            | (Inl _, _) \<Rightarrow> Some (Inl SmallFrameFailed)))"

definition capture_window :: "capture_in \<Rightarrow> capture \<Rightarrow> (capture_error + bytes) option \<times> capture" where
  "capture_window i s =
     (let el = ci_after i - cp_win s
      in if from_millis 1500 \<le> el then
           (let slow = (if 1500000000 < length (cp_blob s) \<and> slower_than (cp_win_bytes s) el 400000 then cp_slow s + 1 else 0)
            in if 8 \<le> slow then
                 (Some (if complete_bootstrap_at_frame_boundary (length (cp_blob s)) (cp_frames s)
                        then Inr (cp_blob s) else Inl BulkEndedEarly), s)
               else (None, s\<lparr>cp_slow := slow, cp_win := ci_after i, cp_win_bytes := 0\<rparr>))
         else (None, s))"

definition capture_append :: "capture_in \<Rightarrow> bytes \<Rightarrow> bytes \<Rightarrow> capture \<Rightarrow> (capture_error + bytes) option \<times> capture" where
  "capture_append i hdr p s0 =
     (let s = s0\<lparr>cp_blob := cp_blob s0 @ hdr @ p, cp_frames := cp_frames s0 + 1, cp_first := False,
                 cp_win_bytes := cp_win_bytes s0 + (5 + length p)\<rparr>;
          n = length (cp_blob s)
      in if MAX_BOOTSTRAP_CAPTURE_BYTES < n then (Some (Inl CaptureTooLarge), s)
         else if 900000000 \<le> n \<and> n < 970000000
                 \<and> slower_than n (ci_after i - cp_t0 s) MIN_BOOTSTRAP_RATE_BYTES_PER_SEC
         then (Some (Inl TooSlow), s)
         else capture_window i s)"

definition capture_pass :: "capture_in \<Rightarrow> capture \<Rightarrow> (capture_error + bytes) option \<times> capture" where
  "capture_pass i s =
     (case read_exact 5 (ci_hdr i) of
        (Inl e, _) \<Rightarrow>
          (Some (if complete_bootstrap_at_frame_boundary (length (cp_blob s)) (cp_frames s)
                 then Inr (cp_blob s) else Inl (CapHeader e)), s)
      | (Inr hdr, _) \<Rightarrow>
          (let len = be_len hdr 0
           in if cp_first s \<and> len \<le> 4000000 then (Some (Inl NotServing), s)
              else if MAX_ABCI_STATE_FRAME < len then (Some (Inl (FrameTooLarge len)), s)
              else if MAX_BOOTSTRAP_CAPTURE_BYTES < length (cp_blob s) + 5 + len then (Some (Inl CaptureTooLarge), s)
              else (case capture_payload i len of
                  None \<Rightarrow> (None, s)
                | Some (Inl e) \<Rightarrow> (Some (Inl e), s)
                | Some (Inr p) \<Rightarrow> capture_append i hdr p s)))"

fun capture_loop :: "capture_in list \<Rightarrow> capture \<Rightarrow> (capture_error + bytes) option" where
  "capture_loop [] s = None"
| "capture_loop (i # is) s =
     (case capture_pass i s of
        (Some r, _) \<Rightarrow> Some r
      | (None, s') \<Rightarrow> capture_loop is s')"

definition capture_new :: "instant \<Rightarrow> capture" where
  "capture_new now = \<lparr>cp_blob = [], cp_frames = 0, cp_first = True, cp_t0 = now, cp_win = now, cp_win_bytes = 0, cp_slow = 0\<rparr>"

text \<open>\<open>dialed\<close> tells whether the connection and the greeting's write succeeded.\<close>

definition fetch_bootstrap :: "blacklist \<Rightarrow> string \<Rightarrow> bool \<Rightarrow> instant \<Rightarrow> capture_in list \<Rightarrow> (capture_error + bytes) option" where
  "fetch_bootstrap bl upstream dialed now is =
     (if connect bl upstream = PermissionDenied \<or> \<not> dialed then Some (Inl CapDial)
      else capture_loop is (capture_new now))"

section \<open>The race of captures\<close>

record cap_race =
  rc_set :: "ip list"
  rc_idx :: nat

datatype cap_ev = CapDone ip "capture_error + bytes" | CapPanic ip | CapHedge

definition spawn_next :: "ip list \<Rightarrow> cap_race \<Rightarrow> cap_race" where
  "spawn_next peers r = r\<lparr>rc_set := rc_set r @ [peers ! rc_idx r], rc_idx := rc_idx r + 1\<rparr>"

definition replace_attempt :: "ip list \<Rightarrow> ip \<Rightarrow> cap_race \<Rightarrow> cap_race" where
  "replace_attempt peers a r =
     (let r1 = r\<lparr>rc_set := remove1 a (rc_set r)\<rparr>
      in if rc_idx r1 < length peers then spawn_next peers r1 else r1)"

text \<open>An event that cannot happen in the state (an attempt not in flight, a hedge that is not armed) is skipped.\<close>

fun capture_race_loop :: "ip list \<Rightarrow> nat \<Rightarrow> cap_ev list \<Rightarrow> cap_race \<Rightarrow> (bytes \<times> ip) option option \<times> cap_race" where
  "capture_race_loop peers max_inflight evs r =
     (if rc_set r = [] \<and> length peers \<le> rc_idx r then (Some None, r)
      else (case evs of
          [] \<Rightarrow> (None, r)
        | ev # rest \<Rightarrow>
            (case ev of
               CapDone a (Inr blob) \<Rightarrow>
                 if a \<in> set (rc_set r) then (Some (Some (blob, a)), r) else capture_race_loop peers max_inflight rest r
             | CapDone a (Inl _) \<Rightarrow>
                 capture_race_loop peers max_inflight rest (if a \<in> set (rc_set r) then replace_attempt peers a r else r)
             | CapPanic a \<Rightarrow>
                 capture_race_loop peers max_inflight rest (if a \<in> set (rc_set r) then replace_attempt peers a r else r)
             | CapHedge \<Rightarrow>
                 capture_race_loop peers max_inflight rest
                   (if length (rc_set r) < max_inflight \<and> rc_idx r < length peers then spawn_next peers r else r))))"

definition capture_bootstrap_raced ::
  "ip list \<Rightarrow> nat \<Rightarrow> cap_ev list \<Rightarrow> (bytes \<times> ip) option option \<times> cap_race" where
  "capture_bootstrap_raced peers max_inflight evs =
     (if peers = [] then (Some None, \<lparr>rc_set = [], rc_idx = 0\<rparr>)
      else capture_race_loop peers max_inflight evs (spawn_next peers \<lparr>rc_set = [], rc_idx = 0\<rparr>))"

end
