(* ===== verification/Gateway_Session.thy ===== *)
theory Gateway_Session
  imports Client_Blocks Select_Race Cache_Capture Failover_Session
begin

text \<open>
  The 4001 sessions of the gateway (gateway/session.rs): the cooldown of faulted pool peers, a push session with the
  node's RPC pinned to its upstream, the fallback, the replay of the cached bootstrap, the transparent bootstrap and the
  two handlers. A session is the composition of the selection races, the push or failover session and the relays; what
  the network and the other tasks of the gateway do meanwhile is an argument, step by step.
\<close>

section \<open>Cooldown of pool peers\<close>

definition SESSION_FAULT_COOLDOWN :: duration where "SESSION_FAULT_COOLDOWN = from_secs 30"

type_synonym peer_cooldown = "(ip \<times> instant) list"

definition cooldown_mark :: "ip \<Rightarrow> instant \<Rightarrow> peer_cooldown \<Rightarrow> peer_cooldown" where
  "cooldown_mark a now m = AList.update a (now + SESSION_FAULT_COOLDOWN) (filter (\<lambda>(_, until). now < until) m)"

definition cooldown_usable :: "ip list \<Rightarrow> instant \<Rightarrow> peer_cooldown \<Rightarrow> ip list \<times> peer_cooldown" where
  "cooldown_usable peers now m =
     (let m1 = filter (\<lambda>(_, until). now < until) m
      in if m1 = [] then (peers, m1)
         else (let out = filter (\<lambda>a. case map_of m1 a of None \<Rightarrow> True | Some until \<Rightarrow> until \<le> now) peers
               in (if out = [] then peers else out, m1)))"

section \<open>The gateway's shared state\<close>

text \<open>What the handlers share, seen from one node: the node's own state, the priority tier, the cooldowns, the state
  servers, the round-robin counter, the cache, the free permits of the capture tap and the network tip.\<close>

record gw =
  gw_node :: gw_node
  gw_tier :: priority_tier
  gw_cooldown :: peer_cooldown
  gw_servers :: "ip list"
  gw_rr :: nat
  gw_sink :: cache_sink
  gw_taps :: nat
  gw_tip :: u32

definition cool_down :: "instant \<Rightarrow> ip \<Rightarrow> gw \<Rightarrow> gw" where
  "cool_down now a g =
     (if tier_contains (gw_tier g) a then g\<lparr>gw_tier := mark_failed_at a now (gw_tier g)\<rparr>
      else g\<lparr>gw_cooldown := cooldown_mark a now (gw_cooldown g)\<rparr>)"

definition cool_down_on_fault :: "instant \<Rightarrow> ip \<Rightarrow> string \<Rightarrow> gw \<Rightarrow> gw" where
  "cool_down_on_fault now a reason g = (if push_exit_is_upstream_fault reason then cool_down now a g else g)"

definition gw_pin :: "ip \<Rightarrow> gw \<Rightarrow> active_peer \<times> gw" where
  "gw_pin a g = (case pin_active a (gw_node g) of (peer, n) \<Rightarrow> (peer, g\<lparr>gw_node := n\<rparr>))"

definition gw_unpin :: "active_peer \<Rightarrow> gw \<Rightarrow> gw" where
  "gw_unpin peer g = g\<lparr>gw_node := clear_active_if_current peer (gw_node g)\<rparr>"

definition drop_slot :: "nat option \<Rightarrow> gw \<Rightarrow> gw" where
  "drop_slot slot g = (case slot of None \<Rightarrow> g | Some i \<Rightarrow> g\<lparr>gw_tier := drop_session i (gw_tier g)\<rparr>)"

section \<open>Running a session\<close>

text \<open>A session is a function of the events it has seen. Before it ends, each outside event either becomes an event
  of the session or only changes the shared state; \<open>react\<close> is what a step of the session does to that state.\<close>

fun run_session ::
  "('e list \<Rightarrow> string option \<times> 'o) \<Rightarrow> ('v \<Rightarrow> 'o \<Rightarrow> 's \<Rightarrow> 'e option \<times> 's) \<Rightarrow> ('o \<Rightarrow> 'o \<Rightarrow> 's \<Rightarrow> 's)
     \<Rightarrow> 'e list \<Rightarrow> 'v list \<Rightarrow> 's \<Rightarrow> (string option \<times> 'o) \<times> 's" where
  "run_session sess watch react es [] s = (sess es, s)"
| "run_session sess watch react es (v # vs) s =
     (if fst (sess es) \<noteq> None then (sess es, s)
      else (case watch v (snd (sess es)) s of
          (None, s1) \<Rightarrow> run_session sess watch react es vs s1
        | (Some e, s1) \<Rightarrow>
            run_session sess watch react (es @ [e]) vs (react (snd (sess es)) (snd (sess (es @ [e]))) s1)))"

text \<open>The two watchers that may end a push session: the return to a priority peer, armed for a session on a pool peer
  of a gateway with a priority tier, and the stuck catch-up; neither with hot standbys.\<close>

definition end_when :: "nat \<Rightarrow> priority_tier \<Rightarrow> ip \<Rightarrow> bool \<times> bool" where
  "end_when standbys t a = (standbys = 0 \<and> t_peers t \<noteq> [] \<and> \<not> tier_contains t a, standbys = 0)"

datatype gw_ev =
    SessEv sess_ev
  | RepinCheck blacklist instant "ip \<Rightarrow> sel_error option"
  | StuckCheck instant
  | Meanwhile "gw \<Rightarrow> gw"

text \<open>A session ends by \<open>EndWhen\<close> only through its watchers.\<close>

definition push_watch :: "bool \<times> bool \<Rightarrow> instant \<Rightarrow> gw_ev \<Rightarrow> 'o \<Rightarrow> gw \<Rightarrow> sess_ev option \<times> gw" where
  "push_watch armed t0 ev st g =
     (case ev of
        SessEv (EndWhen _) \<Rightarrow> (None, g)
      | SessEv e \<Rightarrow> (Some e, g)
      | RepinCheck bl now ans \<Rightarrow>
          if fst armed then
            (case repin_check bl REPIN t0 ans now (gw_node g, gw_tier g) of
               (reason, n, t) \<Rightarrow> (map_option EndWhen reason, g\<lparr>gw_node := n, gw_tier := t\<rparr>))
          else (None, g)
      | StuckCheck now \<Rightarrow>
          if snd armed then
            (case catchup_check REPIN t0 now (gw_node g) of (reason, n) \<Rightarrow> (map_option EndWhen reason, g\<lparr>gw_node := n\<rparr>))
          else (None, g)
      | Meanwhile f \<Rightarrow> (None, f g))"

section \<open>Hot standbys\<close>

text \<open>The pin of a failover session: the peer the node's RPC goes to and its priority slot.\<close>

type_synonym fo_pin = "active_peer \<times> nat option"

definition on_switch :: "ip \<Rightarrow> nat option \<Rightarrow> gw \<times> fo_pin \<Rightarrow> gw \<times> fo_pin" where
  "on_switch a slot = (\<lambda>(g, _, old).
     case gw_pin a g of
       (peer, g1) \<Rightarrow>
         (case (case slot of Some i \<Rightarrow> (Some i, gw_tier g1) | None \<Rightarrow> try_acquire a (gw_tier g1)) of
            (s, t) \<Rightarrow> (drop_slot old (g1\<lparr>gw_tier := t\<rparr>), peer, s)))"

text \<open>Slots the session owns, slots it handed over with a switch, and slots that went away with a dropped
  upstream.\<close>

definition live_slots :: "fo_sess \<Rightarrow> nat list" where
  "live_slots s = List.map_filter snd (fs_lives s)"

definition handed :: "fo_sess \<Rightarrow> fo_sess \<Rightarrow> (ip \<times> nat option) list" where
  "handed s s' = drop (length (fs_repins s)) (fs_repins s')"

definition lost_slots :: "nat list \<Rightarrow> fo_sess \<Rightarrow> fo_sess \<Rightarrow> nat list" where
  "lost_slots got s s' = fold remove1 (live_slots s' @ List.map_filter snd (handed s s')) (got @ live_slots s)"

datatype fo_gw_ev =
    FoSess fo_env fo_ev
  | FoDialed fo_env "ip list \<Rightarrow> ip option"
  | FoMeanwhile "gw \<Rightarrow> gw"

definition env_at :: "fo_env \<Rightarrow> gw \<Rightarrow> fo_env" where
  "env_at e g = e\<lparr>fe_tier := gw_tier g, fe_tip := gw_tip g, fe_floor := n_live_floor (gw_node g)\<rparr>"

text \<open>A dial runs only after the session asked for one, over the candidates it named.\<close>

definition fo_watch ::
  "fo_gw_ev \<Rightarrow> bytes list \<times> fo_sess \<Rightarrow> (gw \<times> fo_pin) \<times> nat list \<Rightarrow> (fo_env \<times> fo_ev) option \<times> (gw \<times> fo_pin) \<times> nat list" where
  "fo_watch ev = (\<lambda>(_, s) ((g, pin), got).
     case ev of
       FoSess e x \<Rightarrow>
         (case x of FoConnected _ _ \<Rightarrow> (None, (g, pin), got) | FoConnectFailed \<Rightarrow> (None, (g, pin), got)
          | _ \<Rightarrow> (Some (env_at e g, x), (g, pin), got))
     | FoDialed e first \<Rightarrow>
         if fs_connecting s then
           (case connect_standby first (fs_dialing s) (gw_tier g) of
              (None, t) \<Rightarrow> (Some (env_at e g, FoConnectFailed), (g\<lparr>gw_tier := t\<rparr>, pin), got)
            | (Some (a, prio), t) \<Rightarrow>
                (Some (env_at e g, FoConnected a prio), (g\<lparr>gw_tier := t\<rparr>, pin), case prio of None \<Rightarrow> got | Some i \<Rightarrow> i # got))
         else (None, (g, pin), got)
     | FoMeanwhile f \<Rightarrow> (None, (f g, pin), got))"

definition fo_react :: "bytes list \<times> fo_sess \<Rightarrow> bytes list \<times> fo_sess \<Rightarrow> (gw \<times> fo_pin) \<times> nat list \<Rightarrow> (gw \<times> fo_pin) \<times> nat list" where
  "fo_react = (\<lambda>(_, s) (_, s') ((g, pin), got).
     case fold (\<lambda>(a, slot). on_switch a slot) (handed s s') (g, pin) of
       (g1, pin1) \<Rightarrow> ((fold (\<lambda>i. drop_slot (Some i)) (lost_slots got s s') g1, pin1), []))"

section \<open>A push session with its pin\<close>

text \<open>What the session meets: the greeting read and written, the conditions of the prefetched frames, its events, the
  environments of a failover session, and when it ends.\<close>

record session_run =
  sr_act_r :: "rd_ev list"
  sr_write :: write_res
  sr_conds :: "nat \<Rightarrow> u32 \<times> u32 \<times> instant"
  sr_start :: instant
  sr_evs :: "gw_ev list"
  sr_env :: fo_env
  sr_pre_env :: "nat \<Rightarrow> fo_env"
  sr_fo_evs :: "fo_gw_ev list"
  sr_end :: instant

definition run_push ::
  "(bytes \<Rightarrow> bytes option) \<Rightarrow> (io_error \<Rightarrow> string) \<Rightarrow> push_config \<Rightarrow> session_run \<Rightarrow> ip \<Rightarrow> gw
     \<Rightarrow> (string option \<times> bytes list) \<times> gw" where
  "run_push D msg cfg run a g =
     run_session (serve_push D msg cfg (sr_act_r run) (sr_write run) (sr_conds run) (sr_start run))
       (push_watch (end_when 0 (gw_tier g) a) (sr_start run)) (\<lambda>_ _ g. g) [] (sr_evs run) g"

definition run_failover ::
  "(bytes \<Rightarrow> bytes option) \<Rightarrow> (bytes \<Rightarrow> hash64) \<Rightarrow> (io_error \<Rightarrow> string) \<Rightarrow> failover_config \<Rightarrow> push_config \<Rightarrow> session_run
     \<Rightarrow> gw \<times> fo_pin \<Rightarrow> (string option \<times> bytes list \<times> fo_sess) \<times> (gw \<times> fo_pin) \<times> nat list" where
  "run_failover D H msg fo cfg run st =
     run_session
       (serve_failover D H msg fo (cfg\<lparr>pc_freshest := None\<rparr>) (sr_act_r run) (sr_write run) (env_at (sr_env run) (fst st)) (sr_pre_env run))
       fo_watch fo_react [] (sr_fo_evs run) (st, [])"

text \<open>The whole session: whether it ended, what the node was given, and the shared state. The pin guard, the priority
  slot and the slots of the standbys go when it ends.\<close>

definition serve_push_repinned ::
  "(bytes \<Rightarrow> bytes option) \<Rightarrow> (bytes \<Rightarrow> hash64) \<Rightarrow> (io_error \<Rightarrow> string) \<Rightarrow> failover_config \<Rightarrow> push_config \<Rightarrow> nat option \<Rightarrow> session_run
     \<Rightarrow> gw \<Rightarrow> bool \<times> bytes list \<times> gw" where
  "serve_push_repinned D H msg fo cfg prio_session run g =
     (let a = pc_hosts cfg ! pc_active_idx cfg
      in case gw_pin a g of
           (peer, g1) \<Rightarrow>
             (case (case prio_session of Some i \<Rightarrow> (Some i, gw_tier g1) | None \<Rightarrow> acquire a (gw_tier g1)) of
                (slot, t) \<Rightarrow>
                  if 0 < fc_standbys fo then
                    (case run_failover D H msg fo cfg run (g1\<lparr>gw_tier := t\<rparr>, peer, slot) of
                       ((None, out, s), (g2, _), _) \<Rightarrow> (False, out, g2)
                     | ((Some reason, out, s), (g2, last_peer, last_slot), _) \<Rightarrow>
                         (True, out,
                          gw_unpin peer (drop_slot last_slot
                            (cool_down_on_fault (sr_end run) (ap_ip last_peer) reason
                              (gw_unpin last_peer (fold (\<lambda>i. drop_slot (Some i)) (live_slots s) g2))))))
                  else
                    (case run_push D msg cfg run a (g1\<lparr>gw_tier := t\<rparr>) of
                       ((None, out), g2) \<Rightarrow> (False, out, g2)
                     | ((Some reason, out), g2) \<Rightarrow>
                         (True, out, gw_unpin peer (drop_slot slot (cool_down_on_fault (sr_end run) a reason g2))))))"

section \<open>Serving a live peer\<close>

text \<open>The configuration every path hands to the session: one host, its greeting and vetted frames, the round the node
  already has, and the shared freshest-round table.\<close>

definition push_config_for :: "ip \<Rightarrow> bytes \<Rightarrow> bytes list \<Rightarrow> u32 \<Rightarrow> freshest_round \<Rightarrow> push_config" where
  "push_config_for a greeting frames from_round fr =
     \<lparr>pc_hosts = [a], pc_active_idx = 0, pc_prefetched_greeting = Some greeting, pc_prefetched_frames = frames,
      pc_initial_last_forwarded = from_round, pc_freshest = Some fr\<rparr>"

text \<open>What a live connection meets besides: the settings, the blacklist and the selection races with their times.\<close>

record live_run =
  lv_fo :: failover_config
  lv_bl :: blacklist
  lv_freshest :: freshest_round
  lv_started :: instant
  lv_select :: "(instant \<times> live_ev) list"
  lv_now :: instant
  lv_fallback :: "(ip \<times> (sel_error + bytes)) list"
  lv_joined :: instant
  lv_session :: session_run
  lv_greet_write :: write_res
  lv_relay :: "relay_ev list"
  lv_end :: instant

definition serve_push_4001_fallback ::
  "(bytes \<Rightarrow> bytes option) \<Rightarrow> (bytes \<Rightarrow> hash64) \<Rightarrow> (io_error \<Rightarrow> string) \<Rightarrow> live_run \<Rightarrow> ip list \<Rightarrow> nat \<Rightarrow> u32 \<Rightarrow> gw
     \<Rightarrow> bool \<times> bytes list \<times> gw" where
  "serve_push_4001_fallback D H msg run peers start from_round g =
     (case race_fallback_upstream (gw_tier g) (tiered_peers (lv_bl run) (lv_now run) (gw_tier g) peers start)
             (lv_fallback run) (lv_joined run) of
        (None, t) \<Rightarrow> (True, [], g\<lparr>gw_tier := t\<rparr>)
      | (Some (a, greeting, slot), t) \<Rightarrow>
          serve_push_repinned D H msg (lv_fo run) (push_config_for a greeting [] from_round (lv_freshest run)) slot
            (lv_session run) (g\<lparr>gw_tier := t\<rparr>))"

text \<open>Select a vetted live peer and serve it; the fallback when none is found. This is the tail of a cache replay
  and the whole of a live connection in push mode.\<close>

definition serve_live ::
  "(bytes \<Rightarrow> bytes option) \<Rightarrow> (bytes \<Rightarrow> hash64) \<Rightarrow> (io_error \<Rightarrow> string) \<Rightarrow> live_run \<Rightarrow> ip list \<Rightarrow> nat \<Rightarrow> u32 \<Rightarrow> gw
     \<Rightarrow> bool \<times> bytes list \<times> gw" where
  "serve_live D H msg run peers start from_round g =
     (case select_live_peer msg (lv_bl run) (gw_tier g) peers start (lv_started run) (lv_select run) of
        None \<Rightarrow> (False, [], g)
      | Some (None, t) \<Rightarrow> serve_push_4001_fallback D H msg run peers start from_round (g\<lparr>gw_tier := t\<rparr>)
      | Some (Some live, t) \<Rightarrow>
          serve_push_repinned D H msg (lv_fo run)
            (push_config_for (lp_ip live) (lp_greeting live) (lp_frames live) from_round (lv_freshest run)) (lp_slot live)
            (lv_session run) (g\<lparr>gw_tier := t\<rparr>))"

section \<open>The cache replay\<close>

text \<open>The blob goes out in chunks; \<open>Some n\<close> is a write that fails after the first \<open>n\<close> bytes.\<close>

definition replay_write :: "bytes \<Rightarrow> nat option \<Rightarrow> bytes \<times> bool" where
  "replay_write blob failed =
     (case failed of
        None \<Rightarrow> (blob, True)
      | Some n \<Rightarrow> if n < length blob then (take n blob, False) else (blob, True))"

definition replay_floor :: "(bytes \<Rightarrow> bytes option) \<Rightarrow> bytes \<Rightarrow> u32 \<Rightarrow> u32" where
  "replay_floor D blob tip =
     bounded_cache_floor (case max_block_round_in_frames D blob of Some r \<Rightarrow> r | None \<Rightarrow> 0) tip"

definition set_replay_floor :: "u32 \<Rightarrow> gw_node \<Rightarrow> gw_node" where
  "set_replay_floor floor n =
     (if floor = 0 then n
      else (case raise_round_floor floor (n_live_floor n) [n_live_floor n] of
              Some (_, l) \<Rightarrow> n\<lparr>n_live_floor := l\<rparr> | None \<Rightarrow> n))"

text \<open>What the task spawned by the replay does once the floor's time is over.\<close>

definition expire_floor :: "u32 \<Rightarrow> gw_node \<Rightarrow> gw_node" where
  "expire_floor floor n = (if n_live_floor n = floor then n\<lparr>n_live_floor := 0\<rparr> else n)"

record replay_run =
  rp_now :: nat
  rp_failed :: "nat option"
  rp_done :: nat
  rp_others :: "gw \<Rightarrow> gw"
  rp_live :: live_run

definition replay_cache_then_live ::
  "(bytes \<Rightarrow> bytes option) \<Rightarrow> (bytes \<Rightarrow> hash64) \<Rightarrow> (io_error \<Rightarrow> string) \<Rightarrow> replay_run \<Rightarrow> ip list \<Rightarrow> bytes \<Rightarrow> gw
     \<Rightarrow> bool \<times> bytes list \<times> gw" where
  "replay_cache_then_live D H msg run peers blob g =
     (let g1 = rp_others run (g\<lparr>gw_node := (gw_node g)\<lparr>n_last_cache_replay_secs := rp_now run\<rparr>\<rparr>);
          g2 = g1\<lparr>gw_node := replay_in_flight_drop (gw_node g1)\<rparr>
      in case replay_write blob (rp_failed run) of
           (sent, False) \<Rightarrow> (True, [sent], g2)
         | (sent, True) \<Rightarrow>
             (let floor = replay_floor D blob (gw_tip g2);
                  g3 = g2\<lparr>gw_node := set_replay_floor floor ((gw_node g2)\<lparr>n_last_cache_replay_secs := rp_done run\<rparr>),
                          gw_rr := gw_rr g2 + 1\<rparr>
              in case serve_live D H msg (rp_live run) peers (gw_rr g2) floor g3 of
                   (fin, out, g4) \<Rightarrow> (fin, sent # out, g4)))"

section \<open>The transparent bootstrap\<close>

text \<open>The race's events, the two first writes, and either the tapped relay or the plain one.\<close>

record boot_run =
  bt_bl :: blacklist
  bt_started :: instant
  bt_select :: "(instant \<times> (bytes \<times> bytes) boot_ev) list"
  bt_now :: instant
  bt_others :: "gw \<Rightarrow> gw"
  bt_tap :: "tap_in list"
  bt_tap_end :: tap_end
  bt_hdr_write :: write_res
  bt_payload_write :: write_res
  bt_relay :: "relay_ev list"

text \<open>The relay of a bootstrap: with the single tap permit the stream is captured on its way, without it the header and
  the prefetched bytes are written and the rest is spliced. \<open>None\<close> is a relay that still runs, \<open>Some None\<close> a node that
  would not take the first bytes.\<close>

definition boot_relay ::
  "(bytes \<Rightarrow> bytes option) \<Rightarrow> boot_run \<Rightarrow> bool \<Rightarrow> bytes \<Rightarrow> bytes \<Rightarrow> cache_sink \<Rightarrow> (relayed option \<times> cache_sink) option" where
  "boot_relay D run tapped hdr payload ck =
     (if tapped then
        map_option (\<lambda>(r, ck'). (Some r, ck')) (splice_bootstrap_capture D hdr payload (bt_now run) (bt_tap run) (bt_tap_end run) ck)
      else if bt_hdr_write run \<noteq> Wrote \<or> bt_payload_write run \<noteq> Wrote then Some (None, ck)
      else map_option (\<lambda>r. (Some (r\<lparr>to_node := to_node r + (length hdr + length payload)\<rparr>), ck))
             (splice_with_idle True (bt_relay run) 0 0))"

text \<open>After the relay: the permit is free again, and a server whose side ended it before a whole bootstrap was through
  is forgotten.\<close>

definition boot_done :: "ip \<Rightarrow> bool \<Rightarrow> relayed option \<Rightarrow> cache_sink \<Rightarrow> gw \<Rightarrow> gw" where
  "boot_done a tapped relayed ck g =
     g\<lparr>gw_sink := ck, gw_taps := (if tapped then gw_taps g + 1 else gw_taps g),
       gw_servers := (case relayed of
           Some r \<Rightarrow> if upstream_ended r \<and> to_node r < MIN_COMPLETE_BOOTSTRAP_BYTES
                     then forget_state_server a (gw_servers g) else gw_servers g
         | None \<Rightarrow> gw_servers g)\<rparr>"

definition bootstrap_via ::
  "(bytes \<Rightarrow> bytes option) \<Rightarrow> bool \<Rightarrow> boot_run \<Rightarrow> ip \<Rightarrow> nat option \<Rightarrow> bytes \<Rightarrow> bytes \<Rightarrow> gw \<Rightarrow> bool \<times> gw" where
  "bootstrap_via D cache_coldstart run a slot hdr payload g =
     (case gw_pin a (g\<lparr>gw_servers := (if tier_contains (gw_tier g) a then gw_servers g else remember_state_server a (gw_servers g))\<rparr>) of
        (peer, g1) \<Rightarrow>
          (let tapped = (cache_coldstart \<and> 0 < gw_taps g1);
               g2 = bt_others run (if tapped then g1\<lparr>gw_taps := gw_taps g1 - 1\<rparr> else g1)
           in case boot_relay D run tapped hdr payload (gw_sink g2) of
                None \<Rightarrow> (False, g2)
              | Some (relayed, ck) \<Rightarrow> (True, gw_unpin peer (drop_slot slot (boot_done a tapped relayed ck g2)))))"

definition transparent_bootstrap ::
  "(bytes \<Rightarrow> bytes option) \<Rightarrow> bool \<Rightarrow> boot_run \<Rightarrow> ip list \<Rightarrow> gw \<Rightarrow> bool \<times> gw" where
  "transparent_bootstrap D cache_coldstart run peers g =
     (let g1 = g\<lparr>gw_node := (gw_node g)\<lparr>n_live_floor := 0\<rparr>, gw_rr := gw_rr g + BOOTSTRAP_SELECT_MAX_PEERS\<rparr>;
          candidates = bootstrap_source_list (bt_bl run) (t_bootstrap (gw_tier g))
                         (candidates_at (bt_bl run) (bt_started run) (gw_tier g)) (gw_servers g) peers (gw_rr g)
      in case select_fast_bootstrap_peer (gw_tier g1) candidates 0 (bt_started run) (bt_select run) of
           None \<Rightarrow> (False, g1)
         | Some (None, t) \<Rightarrow> (True, g1\<lparr>gw_tier := t\<rparr>)
         | Some (Some (a, slot, hdr, payload), t) \<Rightarrow> bootstrap_via D cache_coldstart run a slot hdr payload (g1\<lparr>gw_tier := t\<rparr>))"

section \<open>The handlers\<close>

definition handle_4001_bootstrap ::
  "(bytes \<Rightarrow> bytes option) \<Rightarrow> (bytes \<Rightarrow> hash64) \<Rightarrow> (io_error \<Rightarrow> string) \<Rightarrow> bool \<Rightarrow> nat \<Rightarrow> replay_run \<Rightarrow> boot_run \<Rightarrow> ip list \<Rightarrow> gw
     \<Rightarrow> bool \<times> bytes list \<times> gw" where
  "handle_4001_bootstrap D H msg cache_coldstart now rrun brun peers g =
     (if cache_coldstart then
        (case cache_replay_blob (bt_bl brun) now (gw_sink g) (gw_node g) of
           (Some blob, n) \<Rightarrow> replay_cache_then_live D H msg rrun peers blob (g\<lparr>gw_node := n\<rparr>)
         | (None, n) \<Rightarrow>
             (case transparent_bootstrap D cache_coldstart brun peers (g\<lparr>gw_node := n\<rparr>) of (fin, g1) \<Rightarrow> (fin, [], g1)))
      else (case transparent_bootstrap D cache_coldstart brun peers g of (fin, g1) \<Rightarrow> (fin, [], g1)))"

text \<open>A plain connection: the first peer to answer the greeting is spliced to the node, and cools down when it was its
  side that ended the relay.\<close>

definition splice_live :: "live_run \<Rightarrow> ip list \<Rightarrow> nat \<Rightarrow> gw \<Rightarrow> bool \<times> bytes list \<times> gw" where
  "splice_live run peers start g =
     (case race_fallback_upstream (gw_tier g) (tiered_peers (lv_bl run) (lv_now run) (gw_tier g) peers start)
             (lv_fallback run) (lv_joined run) of
        (None, t) \<Rightarrow> (True, [], g\<lparr>gw_tier := t\<rparr>)
      | (Some (a, greeting, slot), t) \<Rightarrow>
          (case gw_pin a (g\<lparr>gw_tier := t\<rparr>) of
             (peer, g1) \<Rightarrow>
               if lv_greet_write run \<noteq> Wrote then (True, [], gw_unpin peer (drop_slot slot g1))
               else (case splice_with_idle True (lv_relay run) 0 0 of
                   None \<Rightarrow> (False, [greeting], g1)
                 | Some r \<Rightarrow>
                     (True, [greeting],
                      gw_unpin peer (drop_slot slot (if upstream_ended r then cool_down (lv_end run) a g1 else g1))))))"

definition handle_4001_live ::
  "(bytes \<Rightarrow> bytes option) \<Rightarrow> (bytes \<Rightarrow> hash64) \<Rightarrow> (io_error \<Rightarrow> string) \<Rightarrow> bool \<Rightarrow> live_run \<Rightarrow> ip list \<Rightarrow> gw
     \<Rightarrow> bool \<times> bytes list \<times> gw" where
  "handle_4001_live D H msg push run peers g =
     (let g1 = g\<lparr>gw_rr := gw_rr g + 1\<rparr>
      in if push then serve_live D H msg run peers (gw_rr g) 0 g1 else splice_live run peers (gw_rr g) g1)"

end
