(* ===== verification/Gateway_Slots.thy ===== *)
theory Gateway_Slots
  imports Gateway_Session Select_Props
begin

text \<open>
  The account of priority slots across the gateway: each race, dial, watcher and session step changes the counts of the
  tier by exactly the slots it hands on, so that the slots of a session are all back when it has ended.
\<close>

section \<open>Guards in lists\<close>

definition slots_of :: "('k \<times> nat option) list \<Rightarrow> nat multiset" where
  "slots_of ds = mset (List.map_filter snd ds)"

lemma slots_of_simps [simp]:
  "slots_of [] = {#}" "slots_of ((k, s) # ds) = one s + slots_of ds" "slots_of (xs @ ys) = slots_of xs + slots_of ys"
  by (auto simp: slots_of_def map_filter_def split: option.split)

lemma slots_of_delete_le: "slots_of (AList.delete k ds) \<subseteq># slots_of ds"
  by (induction ds) (auto simp: AList.delete_eq intro: subset_mset.order_trans[OF _ mset_subset_eq_add_right])

lemma slots_of_delete:
  "distinct (map fst ds) \<Longrightarrow> map_of ds k = Some s \<Longrightarrow> slots_of ds = one s + slots_of (AList.delete k ds)"
proof (induction ds)
  case (Cons d ds)
  obtain j v where d: "d = (j, v)" by (cases d)
  show ?case
  proof (cases "j = k")
    case True
    then have "AList.delete k ds = ds" using Cons.prems d by (intro delete_fresh) auto
    then show ?thesis using True Cons.prems d by (simp add: AList.delete_eq)
  qed (use Cons d in \<open>auto simp: AList.delete_eq\<close>)
qed simp

lemma slots_of_remove1: "(k, s) \<in> set ds \<Longrightarrow> slots_of ds = one s + slots_of (remove1 (k, s) ds)"
  by (induction ds) auto

lemma slots_of_update_le: "slots_of (AList.update k s ds) \<subseteq># one s + slots_of ds"
  by (induction ds) (auto simp: add.left_commute)

lemma slots_of_hm_le: "slots_of (hm_update k (\<lambda>_. None) ds) \<subseteq># slots_of ds"
  by (induction ds) (auto simp: hm_update_def intro: subset_mset.order_trans[OF _ mset_subset_eq_add_right])

lemma slots_of_none_le:
  "slots_of (hm_update k (\<lambda>_. None) ds) + one (case map_of ds k of Some s \<Rightarrow> s | None \<Rightarrow> None) \<subseteq># slots_of ds"
proof (induction ds)
  case (Cons d ds)
  obtain j v where d: "d = (j, v)" by (cases d)
  show ?case
  proof (cases "j = k")
    case True
    then show ?thesis using slots_of_hm_le[of k ds] d by (simp add: hm_update_def add.commute)
  next
    case False
    then show ?thesis using Cons d by (simp add: hm_update_def add.assoc)
  qed
qed (simp add: hm_update_def)

lemma owes_drop_all: "owes t0 (mset xs + M) t \<Longrightarrow> owes t0 M (fold drop_session xs t)"
  by (induction xs arbitrary: t) (auto dest: owes_drop)

lemma owes_drop_list:
  "owes t0 (slots_of ds + M) t \<Longrightarrow> owes t0 M (fold (\<lambda>(_, s) t. case s of Some g \<Rightarrow> drop_session g t | None \<Rightarrow> t) ds t)"
proof (induction ds arbitrary: t)
  case (Cons d ds)
  then show ?case using owes_drop[of t0 _ "slots_of ds + M" t] by (cases d; cases "snd d") auto
qed simp

lemma owes_release:
  "owes t0 (slots_of ds + M) t \<Longrightarrow> owes t0 M (release_slots ds t)"
  "owes t0 (slots_of ds + M) t \<Longrightarrow> owes t0 M (drop_slots ds t)"
  by (simp_all add: release_slots_def drop_slots_def owes_drop_list)

section \<open>Watchers and dials\<close>

lemma owes_probe_all: "owes t0 M t \<Longrightarrow> probe_all ans now as t p = (r, p', t') \<Longrightarrow> owes t0 M t'"
proof (induction as arbitrary: t p)
  case (Cons a as)
  obtain s t1 where q: "try_acquire a t = (s, t1)" by (cases "try_acquire a t")
  show ?case
  proof (cases s)
    case (Some g)
    then have "owes t0 (add_mset g M) t1" using owes_try_acquire[OF Cons.prems(1) q] by simp
    then have "owes t0 M (drop_session g t1)" by (rule owes_drop)
    then show ?thesis using Cons.prems(2) q Some
        Cons.IH[of "mark_hung_at a now (drop_session g t1)" True] Cons.IH[of "mark_failed_at a now (drop_session g t1)" True]
      by (auto simp: Let_def split: option.splits if_splits)
  next
    case None
    then have "t1 = t" using q try_acquire_None by blast
    then show ?thesis using Cons None q by simp
  qed
qed simp

lemma owes_repin_check:
  "owes t0 M t \<Longrightarrow> repin_check bl timing w ans now (n, t) = (r, n', t') \<Longrightarrow> owes t0 M t'"
  by (auto simp: repin_check_def Let_def split: if_splits prod.splits option.splits bool.splits dest: owes_probe_all)

lemma owes_take_slots: "owes t0 M t \<Longrightarrow> take_slots t as = (ds, t') \<Longrightarrow> owes t0 (slots_of ds + M) t'"
proof (induction as arbitrary: t M ds t')
  case (Cons a as)
  obtain p t1 where q: "standby_slot t a = (p, t1)" by (cases "standby_slot t a")
  obtain rest t2 where r: "take_slots t1 as = (rest, t2)" by (cases "take_slots t1 as")
  have "owes t0 (M + (case p of Some s \<Rightarrow> one s | None \<Rightarrow> {#})) t1"
    using Cons.prems(1) q owes_try_acquire[OF Cons.prems(1), of a]
    by (auto simp: standby_slot_def try_acquire_None split: if_splits prod.splits option.splits dest: try_acquire_None)
  from Cons.IH[OF this r] show ?case
    using Cons.prems(2) q r by (auto split: option.splits simp: ac_simps)
qed simp

lemma owes_connect_standby:
  "owes t0 M t \<Longrightarrow> connect_standby first as t = (w, t') \<Longrightarrow>
     owes t0 (M + (case w of Some (_, s) \<Rightarrow> one s | None \<Rightarrow> {#})) t'"
proof (induction first as t rule: connect_standby.induct)
  case (2 first a as t)
  let ?batch = "take STANDBY_RACE (a # as)" and ?rest = "drop STANDBY_RACE (a # as)"
  obtain ds t1 where d: "take_slots t ?batch = (ds, t1)" by (cases "take_slots t ?batch")
  have o: "owes t0 (slots_of ds + M) t1" by (rule owes_take_slots[OF "2.prems"(1) d])
  show ?case
  proof (cases "Option.bind (first (map fst ds)) (map_of ds)")
    case None
    then have "connect_standby first ?rest (release_slots ds t1) = (w, t')"
      using "2.prems"(2) d by (auto split: option.splits bind_splits)
    then show ?thesis using 2(1,2) d None owes_release(1)[OF o] by (auto simp del: connect_standby.simps split: bind_splits)
  next
    case (Some prio)
    then obtain x where x: "first (map fst ds) = Some x" "map_of ds x = Some prio" by (auto split: bind_splits)
    have "slots_of ds = one prio + slots_of (remove1 (x, prio) ds)" by (rule slots_of_remove1) (rule map_of_SomeD[OF x(2)])
    then have "owes t0 (one prio + M) (release_slots (remove1 (x, prio) ds) t1)"
      using o by (intro owes_release(1)) (simp add: ac_simps)
    then show ?thesis using "2.prems"(2) d x by (auto simp: ac_simps)
  qed
qed simp

section \<open>The races\<close>

lemma owes_attempt:
  "owes t0 M t \<Longrightarrow> live_attempt_slot a p t = (r, t') \<Longrightarrow> owes t0 (M + (case r of Inr s \<Rightarrow> one s | Inl _ \<Rightarrow> {#})) t'"
  using owes_try_acquire[of t0 M t a]
  by (auto simp: live_attempt_slot_def split: if_splits prod.splits option.splits dest: try_acquire_None)

lemma owes_fallback_dials:
  "owes t0 M t \<Longrightarrow> fallback_dials as t = (ds, t') \<Longrightarrow> owes t0 (slots_of ds + M) t' \<and> set (map fst ds) \<subseteq> set as \<and> (distinct as \<longrightarrow> distinct (map fst ds))"
proof (induction as arbitrary: t M ds t')
  case (Cons a as)
  obtain r t1 where q: "live_attempt_slot a (tier_contains t a) t = (r, t1)" by (cases "live_attempt_slot a (tier_contains t a) t")
  obtain rest t2 where f: "fallback_dials as t1 = (rest, t2)" by (cases "fallback_dials as t1")
  show ?case using Cons.IH[OF owes_attempt[OF Cons.prems(1) q] f] Cons.prems(2) q f
    by (cases r) (fastforce simp: ac_simps)+
qed simp

lemma owes_fallback_joined:
  "owes t0 (slots_of ds + M) t \<Longrightarrow> distinct (map fst ds) \<Longrightarrow> fallback_joined evs now ds t = (w, t') \<Longrightarrow>
     owes t0 (M + (case w of Some (_, _, s) \<Rightarrow> one s | None \<Rightarrow> {#})) t'"
proof (induction evs now ds t rule: fallback_joined.induct)
  case (1 now ds t)
  then show ?case by (auto intro: owes_release)
next
  case (2 a res evs now ds t)
  let ?slot = "case map_of ds a of Some s \<Rightarrow> s | None \<Rightarrow> None"
  have sl: "slots_of ds = one ?slot + slots_of (AList.delete a ds)"
  proof (cases "map_of ds a")
    case None
    then have "AList.delete a ds = ds" by (intro delete_fresh) (simp add: map_of_eq_None_iff)
    then show ?thesis using None by simp
  qed (use slots_of_delete[OF "2.prems"(2), of a] in simp)
  show ?case
  proof (cases res)
    case (Inr greeting)
    have "owes t0 (one ?slot + M) (drop_slots (AList.delete a ds) t)"
      using "2.prems"(1) sl by (intro owes_release(2)) (simp add: ac_simps)
    then show ?thesis using "2.prems"(3) Inr by (auto simp: ac_simps)
  next
    case (Inl e)
    let ?t1 = "if tier_contains t a then mark_failed_at a now t else t"
    have "owes t0 (slots_of (AList.delete a ds) + M) (drop_slots [(a, ?slot)] ?t1)"
      using "2.prems"(1) sl by (intro owes_release(2)) (simp add: ac_simps)
    then show ?thesis using "2.IH"[OF refl Inl refl] "2.prems" Inl by (simp add: distinct_map_filter AList.delete_eq Let_def)
  qed
qed

lemma push_new_distinct: "distinct out \<Longrightarrow> distinct (push_new skip out as)"
  by (induction skip out as rule: push_new.induct) auto

lemma ordered_candidates_distinct: "distinct (ordered_candidates bl prio pool start)"
  by (simp add: ordered_candidates_def push_new_distinct)

lemma tiered_peers_distinct: "tier_ok t \<Longrightarrow> distinct (tiered_peers bl now t pool start)"
  by (simp add: tiered_peers_def Let_def distinct_candidates ordered_candidates_distinct)

lemma owes_fallback:
  assumes "owes t0 M t" and "distinct cands" and "race_fallback_upstream t cands evs now = (w, t')"
  shows "owes t0 (M + (case w of Some (_, _, s) \<Rightarrow> one s | None \<Rightarrow> {#})) t'"
proof -
  obtain ds t1 where d: "fallback_dials (take FALLBACK_MAX_PARALLEL cands) t = (ds, t1)"
    by (cases "fallback_dials (take FALLBACK_MAX_PARALLEL cands) t")
  show ?thesis using owes_fallback_dials[OF assms(1) d] assms(2,3) d owes_fallback_joined[of t0 ds M t1]
    by (simp add: race_fallback_upstream_def)
qed

lemma owes_select_live:
  assumes "tier_ok t" and "select_live_peer msg bl t peers start started evs = Some (w, t')"
  shows "owes t (case w of Some s \<Rightarrow> one (lp_slot s) | None \<Rightarrow> {#}) t'"
proof (cases "peers = [] \<and> candidates_at bl started t = []")
  case True
  with assms show ?thesis by (auto simp: select_live_peer_unfold owes_start)
next
  case False
  let ?prio = "candidates_at bl started t"
  obtain r' po where loop: "select_live_loop msg peers start (started + LIVE_SELECT_WAIT) po evs (live_race_new t ?prio) = Some (w, r')"
      and t': "t' = lr_tier r'"
    using assms(2) False by (auto simp: select_live_peer_unfold Let_def split: if_splits)
  have "holds t (lr_slots (live_race_new t ?prio)) (lr_tier (live_race_new t ?prio))"
    unfolding live_race_new_def
    using holds_start[OF assms(1)] distinct_candidates[OF assms(1)] by (intro launch_prio_holds) simp_all
  from holds_owes[OF assms(1) select_live_loop_holds[OF loop this]] show ?thesis
    by (auto simp: t' split: option.splits)
qed

text \<open>The bootstrap race goes round the candidates at most once, so no address is dialed twice.\<close>

definition seen_in :: "ip list \<Rightarrow> nat \<Rightarrow> nat \<Rightarrow> ip set" where
  "seen_in peers start k = (\<lambda>j. peers ! ((start + j) mod length peers)) ` {..<k}"

lemma seen_in_fresh:
  assumes "distinct peers" "k < length peers"
  shows "peers ! ((start + k) mod length peers) \<notin> seen_in peers start k"
proof
  assume "peers ! ((start + k) mod length peers) \<in> seen_in peers start k"
  then obtain j where j: "j < k" "peers ! ((start + k) mod length peers) = peers ! ((start + j) mod length peers)"
    by (auto simp: seen_in_def)
  have "k = j" by (rule nth_rotate_inj[OF assms(1,2) _ j(2)]) (use j(1) assms(2) in simp)
  with j(1) show False by simp
qed

definition boot_ok :: "priority_tier \<Rightarrow> ip list \<Rightarrow> nat \<Rightarrow> boot_race \<Rightarrow> bool" where
  "boot_ok t0 peers start r \<longleftrightarrow> holds t0 (br_slots r) (br_tier r) \<and> fst ` set (br_slots r) \<subseteq> seen_in peers start (br_launched r)"

lemma seen_in_mono: "seen_in peers start k \<subseteq> seen_in peers start (Suc k)"
  by (auto simp: seen_in_def)

lemma boot_launch_ok:
  "boot_ok t0 peers start r \<Longrightarrow> distinct peers \<Longrightarrow> limit \<le> length peers \<Longrightarrow>
   boot_ok t0 peers start (snd (boot_launch peers start limit pool_after now r))"
proof (induction peers start limit pool_after now r rule: boot_launch.induct)
  case (1 peers start limit pool_after now r)
  show ?case
  proof (cases "br_launched r < limit \<and> br_in_flight r < BOOTSTRAP_SELECT_MAX_INFLIGHT")
    case True
    let ?a = "peers ! ((start + br_launched r) mod length peers)"
    let ?p = "tier_contains (br_tier r) ?a"
    have fresh: "?a \<notin> fst ` set (br_slots r)"
      using seen_in_fresh[of peers "br_launched r" start] 1(3-) True by (auto simp: boot_ok_def)
    have mem: "?a \<in> seen_in peers start (Suc (br_launched r))" by (auto simp: seen_in_def)
    obtain x t where q: "live_attempt_slot ?a ?p (br_tier r) = (x, t)" by (cases "live_attempt_slot ?a ?p (br_tier r)")
    have "case x of Inl _ \<Rightarrow> t = br_tier r | Inr None \<Rightarrow> t = br_tier r | Inr (Some g) \<Rightarrow> holds t0 ((?a, g) # br_slots r) t"
      using q 1(3) holds_acquire[OF _ fresh, of t0 "br_tier r" ?a]
      by (auto simp: live_attempt_slot_def boot_ok_def split: if_splits prod.splits option.splits dest: try_acquire_None)
    then have nxt: "boot_ok t0 peers start (r\<lparr>br_tier := t, br_slots := (case x of Inr (Some g) \<Rightarrow> (?a, g) # br_slots r | _ \<Rightarrow> br_slots r),
        br_launched := Suc (br_launched r), br_in_flight := f, br_prio_in_flight := pf, br_fails := fs, br_dialed := ds\<rparr>)" for f pf fs ds
      using 1(3) mem seen_in_mono[of peers start "br_launched r"] unfolding boot_ok_def by (fastforce split: sum.splits option.splits)
    show ?thesis
    proof (cases x)
      case (Inl e)
      show ?thesis using 1(1)[OF True refl refl _ q[symmetric] Inl] 1(3-) True q Inl nxt[where f = "br_in_flight r" and pf = "br_prio_in_flight r" and ds = "br_dialed r"]
        by (subst boot_launch.simps) (simp add: Let_def)
    next
      case (Inr sl)
      show ?thesis using 1(2)[OF True refl refl _ q[symmetric] Inr] 1(3-) True q Inr nxt[where fs = "br_fails r"]
        by (subst boot_launch.simps) (auto simp: Let_def split: option.splits)
    qed
  qed (use 1 in \<open>subst boot_launch.simps; auto\<close>)
qed

lemma boot_free_ok: "boot_ok t0 peers start r \<Longrightarrow> boot_ok t0 peers start (boot_free a p r)"
  using holds_free_slot[of t0 "br_slots r" "br_tier r" a]
  by (auto simp: boot_ok_def boot_free_def free_slot_def AList.delete_eq split: option.splits)

lemma boot_ok_fields [simp]:
  "boot_ok t0 peers start (r\<lparr>br_prio_in_flight := x, br_fails := y\<rparr>) = boot_ok t0 peers start r"
  "boot_ok t0 peers start (r\<lparr>br_in_flight := z\<rparr>) = boot_ok t0 peers start r"
  by (simp_all add: boot_ok_def)

definition boot_keeps :: "(ip \<times> nat option \<times> 's) option \<Rightarrow> slots" where
  "boot_keeps w = (case w of Some (a, Some g, _) \<Rightarrow> [(a, g)] | _ \<Rightarrow> [])"

lemma select_fast_holds:
  "select_fast_loop peers start limit deadline pool_after evs r = Some (w, r') \<Longrightarrow> boot_ok t0 peers start r \<Longrightarrow>
   distinct peers \<Longrightarrow> limit \<le> length peers \<Longrightarrow> holds t0 (boot_keeps w) (br_tier r')"
proof (induction peers start limit deadline pool_after evs r rule: select_fast_loop.induct)
  case (2 peers start limit deadline pool_after now ev evs r)
  obtain held r1 where q: "boot_launch peers start limit pool_after now r = (held, r1)"
    by (cases "boot_launch peers start limit pool_after now r")
  have ok: "boot_ok t0 peers start r1"
    using boot_launch_ok[OF "2.prems"(2,3,4), of pool_after now] q by simp
  then have h: "holds t0 (br_slots r1) (br_tier r1)" by (simp add: boot_ok_def)
  have dry: "holds t0 ([] :: slots) (free_all (br_slots r1) (br_tier r1))"
    using holds_free_all[of t0 "br_slots r1" "[]"] h by simp
  have win: "holds t0 [(a, g)] (free_all (AList.delete a (br_slots r1)) (br_tier r1))" if "map_of (br_slots r1) a = Some g" for a g
    using holds_rotate[OF holds_front[OF h that]] by (rule holds_free_all)
  show ?case
  proof (cases "br_in_flight r1 = 0 \<or> deadline \<le> now")
    case True
    with "2.prems"(1) q dry show ?thesis by (auto simp: Let_def boot_keeps_def)
  next
    case False
    show ?thesis
    proof (cases ev)
      case (BootOk a p s)
      with "2.prems"(1) q False dry win[of a] show ?thesis
        by (auto simp: Let_def boot_keeps_def split: if_splits option.splits)
    next
      case (BootErr a p e)
      with "2.prems" q False "2.IH"(1)[OF q[symmetric] refl refl False BootErr] ok show ?thesis
        by (simp add: boot_free_ok)
    next
      case (BootPanic a p e)
      with "2.prems" q False "2.IH"(2)[OF q[symmetric] refl refl False BootPanic] ok show ?thesis
        by (simp add: boot_free_ok)
    next
      case (BootWake at)
      with "2.prems" q False "2.IH"(3)[OF q[symmetric] refl refl False BootWake] ok dry show ?thesis
        by (auto simp: boot_keeps_def Let_def split: if_splits)
    qed
  qed
qed simp

lemma owes_select_fast:
  assumes "tier_ok t" and "distinct peers" and "select_fast_bootstrap_peer t peers start started evs = Some (w, t')"
  shows "owes t (case w of Some (_, slot, _) \<Rightarrow> one slot | None \<Rightarrow> {#}) t'"
proof (cases "peers = []")
  case True
  with assms show ?thesis by (auto simp: select_fast_bootstrap_peer_def owes_start)
next
  case False
  let ?r0 = "\<lparr>br_tier = t, br_slots = [], br_launched = 0, br_in_flight = 0, br_prio_in_flight = 0, br_fails = [], br_dialed = []\<rparr>"
  have ok: "boot_ok t peers start ?r0" using holds_start[OF assms(1)] by (simp add: boot_ok_def)
  obtain r' dl pa where "select_fast_loop peers start (min (length peers) BOOTSTRAP_SELECT_MAX_PEERS) dl pa evs ?r0 = Some (w, r')"
      and t': "t' = br_tier r'"
    using assms(3) False by (auto simp: select_fast_bootstrap_peer_def)
  from holds_owes[OF assms(1) select_fast_holds[OF this(1) ok assms(2)]] show ?thesis
    by (auto simp: t' boot_keeps_def split: option.splits)
qed

lemma bootstrap_sources_distinct:
  assumes "tier_ok t"
  shows "distinct (bootstrap_source_list bl policy (candidates_at bl now t) remembered pool start)"
  using distinct_candidates[OF assms, of bl now] ordered_candidates_distinct
  by (auto simp: bootstrap_source_list_def Let_def split: bootstrap_policy.split dest!: in_set_takeD)

end
