(* ===== verification/Gateway_Fo_Slots.thy ===== *)
theory Gateway_Fo_Slots
  imports Gateway_Slots
begin

text \<open>
  The slots of a failover session: a standby's slot comes with its dial, goes with its connection or is handed to the
  pin when the session switches to it; the session never holds another slot.
\<close>

section \<open>One step of the session\<close>

definition shrinks :: "nat multiset \<Rightarrow> fo_sess \<Rightarrow> fo_sess \<Rightarrow> bool" where
  "shrinks got s s' \<longleftrightarrow> (\<exists>rs. fs_repins s' = fs_repins s @ rs \<and> slots_of (fs_lives s') + slots_of rs \<subseteq># got + slots_of (fs_lives s))"

lemma shrinks_refl [simp]: "shrinks got s s"
  by (simp add: shrinks_def)

lemma shrinks_trans: "shrinks got s s1 \<Longrightarrow> shrinks {#} s1 s2 \<Longrightarrow> shrinks got s s2"
proof -
  assume "shrinks got s s1" "shrinks {#} s1 s2"
  then obtain r1 r2 where r: "fs_repins s1 = fs_repins s @ r1" "slots_of (fs_lives s1) + slots_of r1 \<subseteq># got + slots_of (fs_lives s)"
      "fs_repins s2 = fs_repins s1 @ r2" "slots_of (fs_lives s2) + slots_of r2 \<subseteq># slots_of (fs_lives s1)"
    by (auto simp: shrinks_def)
  have "slots_of (fs_lives s2) + slots_of (r1 @ r2) \<subseteq># got + slots_of (fs_lives s)"
    using subset_mset.order_trans[OF subset_mset.add_right_mono[OF r(4), of "slots_of r1"] r(2)] by (simp add: ac_simps)
  then show ?thesis using r(1,3) unfolding shrinks_def by (intro exI[of _ "r1 @ r2"]) simp
qed

lemma shrinks_same: "fs_lives s' = fs_lives s \<Longrightarrow> fs_repins s' = fs_repins s \<Longrightarrow> shrinks got s s'"
  by (simp add: shrinks_def)

lemma drop_upstream_kept [simp]: "fs_lives (drop_upstream i u s) = fs_lives s" "fs_repins (drop_upstream i u s) = fs_repins s"
  by (auto simp: drop_upstream_def Let_def split: prod.splits option.splits)

lemma mark_dead_kept [simp]: "fs_lives (mark_dead now why s) = fs_lives s" "fs_repins (mark_dead now why s) = fs_repins s"
  by (simp_all add: mark_dead_def)

lemma shrinks_drop_live: "shrinks got s s1 \<Longrightarrow> shrinks got s (drop_live i s1)"
  by (erule shrinks_trans) (simp add: shrinks_def drop_live_def slots_of_delete_le)

lemma shrinks_drop_upstream: "shrinks got s s1 \<Longrightarrow> shrinks got s (drop_upstream i u s1)"
  by (erule shrinks_trans) (simp add: shrinks_same)

lemma shrinks_fold: "(\<And>x s1. shrinks got s s1 \<Longrightarrow> shrinks got s (f x s1)) \<Longrightarrow> shrinks got s s1 \<Longrightarrow> shrinks got s (fold f xs s1)"
  by (induction xs arbitrary: s1) auto

lemma shrinks_set [simp]:
  "shrinks got s (s1\<lparr>fs_core := x1\<rparr>) = shrinks got s s1" "shrinks got s (s1\<lparr>fs_queued := x2\<rparr>) = shrinks got s s1"
  "shrinks got s (s1\<lparr>fs_progress := x3\<rparr>) = shrinks got s s1" "shrinks got s (s1\<lparr>fs_active_dead := x4\<rparr>) = shrinks got s s1"
  "shrinks got s (s1\<lparr>fs_cooldown := x5\<rparr>) = shrinks got s s1" "shrinks got s (s1\<lparr>fs_blacklist_seen := x6\<rparr>) = shrinks got s s1"
  "shrinks got s (s1\<lparr>fs_last_rotate := x7\<rparr>) = shrinks got s s1" "shrinks got s (s1\<lparr>fs_rot := x8\<rparr>) = shrinks got s s1"
  "shrinks got s (s1\<lparr>fs_next_connect := x9\<rparr>) = shrinks got s s1"
  "shrinks got s (s1\<lparr>fs_connecting := y1, fs_next_connect := x9\<rparr>) = shrinks got s s1"
  "shrinks got s (s1\<lparr>fs_connecting := y1, fs_dialing := y2\<rparr>) = shrinks got s s1"
  "shrinks got s (s1\<lparr>fs_connecting := y1\<rparr>) = shrinks got s s1"
  by (simp_all add: shrinks_def)

lemma shrinks_mark_dead: "shrinks got s s1 \<Longrightarrow> shrinks got s (mark_dead now why s1)"
  by (erule shrinks_trans) (simp add: shrinks_same)

lemma shrinks_drop_bad: "shrinks got s s1 \<Longrightarrow> shrinks got s (drop_bad u bad s1)"
  by (induction u bad s1 rule: drop_bad.induct) (simp_all add: shrinks_drop_live shrinks_drop_upstream)

lemma shrinks_queue_node: "shrinks got s s1 \<Longrightarrow> shrinks got s (snd (queue_node e f s1))"
  by (simp add: queue_node_def)

lemma shrinks_queue_all: "shrinks got s s1 \<Longrightarrow> shrinks got s (snd (queue_all e fs s1))"
  by (induction e fs s1 rule: queue_all.induct) (auto simp: queue_node_def)

lemmas shrinks_intros = shrinks_drop_live shrinks_drop_upstream shrinks_mark_dead shrinks_drop_bad shrinks_queue_node shrinks_queue_all

lemma shrinks_forward: "shrinks got s s1 \<Longrightarrow> shrinks got s (snd (forward_active_block e f r h at s1))"
  by (auto simp: forward_active_block_def Let_def split: prod.splits intro!: shrinks_intros)

lemma shrinks_block: "shrinks {#} s (snd (fo_block msg e i f at r p h s))"
  by (auto simp: fo_block_def Let_def split: option.splits sum.splits prod.splits standby_verdict.splits
      intro!: shrinks_intros shrinks_forward)

lemma shrinks_frame: "shrinks {#} s (snd (fo_frame D H msg e i f at s))"
  by (auto simp: fo_frame_def shrinks_block split: option.splits intro!: shrinks_intros)

lemma shrinks_connected: "shrinks (one prio) s (fo_connected e a prio s)"
  by (simp add: fo_connected_def Let_def shrinks_def slots_of_update_le)

lemma shrinks_after_switch:
  assumes "shrinks {#} s s1"
  shows "shrinks {#} s (after_switch e old old_ip i bad s1)"
proof -
  let ?slot = "case map_of (fs_lives s1) i of Some p \<Rightarrow> p | None \<Rightarrow> None"
  let ?ip = "case ip_of i (fs_core s1) of Some a \<Rightarrow> a | None \<Rightarrow> ''?''"
  let ?s2 = "s1\<lparr>fs_active_dead := None, fs_switches := fs_switches s1 + 1,
      fs_progress := block_progress_new (c_last_forwarded (fs_core s1)) (fe_now e),
      fs_lives := hm_update i (\<lambda>_. None) (fs_lives s1), fs_repins := fs_repins s1 @ [(?ip, ?slot)]\<rparr>"
  have "shrinks {#} s1 ?s2" using slots_of_none_le[of i "fs_lives s1"] by (simp add: shrinks_def)
  then have "shrinks {#} s ?s2" using assms by (rule shrinks_trans[rotated])
  then show ?thesis by (simp add: after_switch_def Let_def shrinks_intros)
qed

lemma shrinks_tick: "shrinks {#} s (snd (fo_tick fo e s))"
proof -
  have 1: "shrinks {#} s (tick_blacklist e (tick_stall e s))"
    by (auto simp: tick_blacklist_def tick_stall_def Let_def intro!: shrinks_fold shrinks_intros)
  have sw: "shrinks {#} s (snd (tick_switch e s1))" if "shrinks {#} s s1" for s1
  proof (cases "pick_switch (fe_now e) (fs_active_dead s1 \<noteq> None) (fs_core s1)")
    case (Some x)
    obtain i reason where x: "x = (i, reason)" by (cases x)
    obtain y c where y: "switch_to i (fe_now e) (fs_core s1) = (y, c)" by (cases "switch_to i (fe_now e) (fs_core s1)")
    have "shrinks {#} s (snd (queue_all e fr (s1\<lparr>fs_core := c\<rparr>)))" for fr using that by (intro shrinks_queue_all) simp
    then show ?thesis using Some x y that
      by (cases y) (auto simp: tick_switch_def Let_def split: prod.splits bool.splits intro!: shrinks_after_switch; metis snd_conv)+
  qed (use that in \<open>simp add: tick_switch_def\<close>)
  have fill: "shrinks {#} s (tick_fill fo e (tick_rotate fo e s1))" if "shrinks {#} s s1" for s1
    using that by (auto simp: tick_fill_def tick_rotate_def Let_def split: option.splits intro!: shrinks_intros)
  show ?thesis using sw[OF 1] fill by (auto simp: fo_tick_def split: prod.splits option.splits; metis snd_conv)
qed

text \<open>Whatever the event, the slots a session holds afterwards or has handed to its pin were its own before or came
  with the dial.\<close>

lemma shrinks_event:
  "shrinks (case ev of FoConnected a p \<Rightarrow> one p | _ \<Rightarrow> {#}) s (snd (fo_event D H msg fo e ev s))"
  by (cases ev) (auto simp: fo_event_def shrinks_frame shrinks_connected shrinks_tick fo_closed_def fo_node_bytes_def intro!: shrinks_intros)

section \<open>The session as its events come\<close>

lemma fo_loop_snoc:
  "fo_loop D H msg fo es s = (None, s1) \<Longrightarrow> snd (fo_loop D H msg fo (es @ [(e, ev)]) s) = snd (fo_event D H msg fo e ev s1)"
  by (induction es arbitrary: s) (auto split: prod.splits option.splits)

lemma serve_failover_snoc:
  assumes "serve_failover D H msg fo cfg act_r w e0 pre_env es = (None, out, s)"
  shows "snd (snd (serve_failover D H msg fo cfg act_r w e0 pre_env (es @ [(e, ev)]))) = snd (fo_event D H msg fo e ev s)"
  using assms fo_loop_snoc[of D H msg fo es _ s e ev]
  by (fastforce simp: serve_failover_def Let_def split: sum.splits prod.splits option.splits)

lemma fo_prefetched_kept:
  "fs_lives (snd (fo_prefetched D H msg fs s)) = fs_lives s \<and> fs_repins (snd (fo_prefetched D H msg fs s)) = fs_repins s"
  by (induction D H msg fs s rule: fo_prefetched.induct) (auto simp: queue_node_def Let_def split: prod.splits option.splits sum.splits)

lemma serve_failover_begin:
  "slots_of (fs_lives (snd (snd (serve_failover D H msg fo cfg act_r w e0 pre_env [])))) = {#}"
  using fo_prefetched_kept[of D H msg _ "fo_start fo cfg e0"]
  by (auto simp: serve_failover_def fo_start_def Let_def split: sum.splits prod.splits option.splits) (metis snd_conv one_simps(1) slots_of_simps(1,2) add.right_neutral)+

lemma run_session_inv:
  assumes init: "I es s" and sub: "set vs \<subseteq> V"
    and step: "\<And>es s v e s1. I es s \<Longrightarrow> fst (sess es) = None \<Longrightarrow> v \<in> V \<Longrightarrow> watch v (snd (sess es)) s = (Some e, s1) \<Longrightarrow>
           I (es @ [e]) (react (snd (sess es)) (snd (sess (es @ [e]))) s1)"
    and skip: "\<And>es s v s1. I es s \<Longrightarrow> fst (sess es) = None \<Longrightarrow> v \<in> V \<Longrightarrow> watch v (snd (sess es)) s = (None, s1) \<Longrightarrow> I es s1"
  shows "\<exists>es'. fst (run_session sess watch react es vs s) = sess es' \<and> I es' (snd (run_session sess watch react es vs s))"
  using init sub
proof (induction vs arbitrary: es s)
  case (Cons v vs)
  have v: "v \<in> V" and vs: "set vs \<subseteq> V" using Cons.prems(2) by auto
  obtain x s1 where w: "watch v (snd (sess es)) s = (x, s1)" by (cases "watch v (snd (sess es)) s")
  show ?case
  proof (cases "fst (sess es) = None")
    case None: True
    show ?thesis
    proof (cases x)
      case no: None
      have "I es s1" by (rule skip[OF Cons.prems(1) None v]) (simp add: w no)
      from Cons.IH[OF this vs] show ?thesis by (simp add: None w no)
    next
      case (Some e)
      have "I (es @ [e]) (react (snd (sess es)) (snd (sess (es @ [e]))) s1)"
        by (rule step[OF Cons.prems(1) None v]) (simp add: w Some)
      from Cons.IH[OF this vs] show ?thesis by (simp add: None w Some)
    qed
  next
    case False
    then have "run_session sess watch react es (v # vs) s = (sess es, s)" by simp
    then show ?thesis using Cons.prems(1) by auto
  qed
qed auto

section \<open>Switches\<close>

text \<open>Other tasks that leave the session counts and the pin alone.\<close>

definition calm :: "(gw \<Rightarrow> gw) \<Rightarrow> bool" where
  "calm f \<longleftrightarrow> (\<forall>t0 M g. owes t0 M (gw_tier g) \<longrightarrow> owes t0 M (gw_tier (f g))) \<and> (\<forall>g. n_active (gw_node (f g)) = n_active (gw_node g))"

lemma on_switch_account:
  assumes "owes t0 (one slot + one old + M) (gw_tier g)" "on_switch a slot (g, peer, old) = (g', peer', s')"
  shows "owes t0 (one s' + M) (gw_tier g') \<and> n_active (gw_node g') = Some peer'"
proof -
  obtain s t where st: "(case slot of Some i \<Rightarrow> (Some i, gw_tier g) | None \<Rightarrow> try_acquire a (gw_tier g)) = (s, t)"
    by (cases "case slot of Some i \<Rightarrow> (Some i, gw_tier g) | None \<Rightarrow> try_acquire a (gw_tier g)")
  have o: "owes t0 (one s + one old + M) t"
    using st assms(1) owes_try_acquire[of t0 "one old + M" "gw_tier g" a s t] by (auto simp: ac_simps split: option.splits)
  have "owes t0 (one s + M) (case old of None \<Rightarrow> t | Some i \<Rightarrow> drop_session i t)"
    using o by (auto split: option.split intro: owes_drop)
  then show ?thesis using assms(2) st
    by (auto simp: on_switch_def gw_pin_def pin_active_def drop_slot_def Let_def split: prod.splits option.splits)
qed

lemma on_switch_fold:
  "owes t0 (slots_of rs + one old + M) (gw_tier g) \<Longrightarrow> n_active (gw_node g) = Some peer \<Longrightarrow>
   fold (\<lambda>(a, slot). on_switch a slot) rs (g, peer, old) = (g', peer', s') \<Longrightarrow>
   owes t0 (one s' + M) (gw_tier g') \<and> n_active (gw_node g') = Some peer'"
proof (induction rs arbitrary: g peer old)
  case (Cons r rs)
  obtain a slot where r: "r = (a, slot)" by (cases r)
  obtain g1 p1 s1 where q: "on_switch a slot (g, peer, old) = (g1, p1, s1)" by (cases "on_switch a slot (g, peer, old)") auto
  have "owes t0 (one s1 + (slots_of rs + M)) (gw_tier g1) \<and> n_active (gw_node g1) = Some p1"
    by (rule on_switch_account[OF _ q]) (use Cons.prems(1) r in \<open>simp add: ac_simps\<close>)
  then show ?case using Cons.IH[of s1 g1 p1] Cons.prems(3) r q by (simp add: ac_simps)
qed simp

lemma mset_fold_remove1: "mset (fold remove1 xs ys) = mset ys - mset xs"
  by (induction xs arbitrary: ys) (simp_all add: diff_diff_add_mset ac_simps)

lemma gw_fold_drop:
  "gw_tier (fold (\<lambda>i. drop_slot (Some i)) xs g) = fold drop_session xs (gw_tier g) \<and>
   gw_node (fold (\<lambda>i. drop_slot (Some i)) xs g) = gw_node g"
  by (induction xs arbitrary: g) (simp_all add: drop_slot_def)

definition fo_account :: "priority_tier \<Rightarrow> fo_sess \<Rightarrow> (gw \<times> fo_pin) \<times> nat list \<Rightarrow> bool" where
  "fo_account t0 s = (\<lambda>((g, peer, slot), got).
     owes t0 (mset got + slots_of (fs_lives s) + one slot) (gw_tier g) \<and> n_active (gw_node g) = Some peer)"

lemma fo_react_account:
  assumes "fo_account t0 s ((g, peer, slot), got)" "shrinks (mset got) s s'"
    and "fo_react (o1, s) (o2, s') ((g, peer, slot), got) = ((g', peer', slot'), got')"
  shows "fo_account t0 s' ((g', peer', slot'), got') \<and> got' = []"
proof -
  obtain rs where rs: "fs_repins s' = fs_repins s @ rs" "slots_of (fs_lives s') + slots_of rs \<subseteq># mset got + slots_of (fs_lives s)"
    using assms(2) by (auto simp: shrinks_def)
  let ?lost = "lost_slots got s s'"
  have "mset ?lost = mset got + slots_of (fs_lives s) - (slots_of (fs_lives s') + slots_of rs)"
    by (simp add: lost_slots_def mset_fold_remove1 live_slots_def handed_def rs(1) slots_of_def)
  then have all: "mset got + slots_of (fs_lives s) = slots_of rs + (mset ?lost + slots_of (fs_lives s'))"
    using subset_mset.add_diff_inverse[OF rs(2)] by (metis add.assoc add.commute)
  obtain g1 where f: "fold (\<lambda>(a, slot). on_switch a slot) rs (g, peer, slot) = (g1, peer', slot')"
      and g': "g' = fold (\<lambda>i. drop_slot (Some i)) ?lost g1" "got' = []"
    using assms(3) by (auto simp: fo_react_def handed_def rs(1) split: prod.splits)
  have "owes t0 (one slot' + (mset ?lost + slots_of (fs_lives s'))) (gw_tier g1) \<and> n_active (gw_node g1) = Some peer'"
  proof (rule on_switch_fold[OF _ _ f])
    have o: "owes t0 (mset got + slots_of (fs_lives s) + one slot) (gw_tier g)" using assms(1) by (simp add: fo_account_def)
    have "slots_of rs + one slot + (mset ?lost + slots_of (fs_lives s')) = mset got + slots_of (fs_lives s) + one slot"
      unfolding all by (simp add: ac_simps)
    with o show "owes t0 (slots_of rs + one slot + (mset ?lost + slots_of (fs_lives s'))) (gw_tier g)"
      by (simp only:)
  qed (use assms(1) in \<open>simp add: fo_account_def\<close>)
  then have "owes t0 (slots_of (fs_lives s') + one slot') (fold drop_session ?lost (gw_tier g1))" "n_active (gw_node g1) = Some peer'"
    by (auto intro!: owes_drop_all simp: ac_simps)
  then show ?thesis using g' gw_fold_drop[of ?lost g1] by (simp add: fo_account_def)
qed

end
