(* ===== verification/Gateway_Props.thy ===== *)
theory Gateway_Props
  imports Gateway_Fo_Slots Push_Session_Props Failover_Stream
begin

text \<open>
  What holds of a whole 4001 connection: it leaves no priority slot and no pin behind, a faulted peer cools down, the
  node reads a cache replay and then ascending rounds above it, and a transparent bootstrap gives back its tap and
  forgets a server that cut it short.
\<close>

section \<open>A session gives everything back\<close>

lemma fo_watch_account:
  assumes "fo_account t0 s ((g, pin), [])" "fo_watch v (out, s) ((g, pin), []) = (x, st1)"
    and "\<And>f. v = FoMeanwhile f \<Longrightarrow> calm f"
  shows "fo_account t0 s st1 \<and>
    mset (snd st1) = (case x of Some (e, FoConnected a p) \<Rightarrow> one p | _ \<Rightarrow> {#})"
proof -
  obtain peer slot where pin: "pin = (peer, slot)" by (cases pin)
  have o: "owes t0 (slots_of (fs_lives s) + one slot) (gw_tier g)" "n_active (gw_node g) = Some peer"
    using assms(1) pin by (simp_all add: fo_account_def)
  show ?thesis
  proof (cases v)
    case (FoSess e ev)
    then show ?thesis using assms(1,2) by (cases ev) (auto simp: fo_watch_def)
  next
    case (FoDialed e first)
    obtain w t where w: "connect_standby first (fs_dialing s) (gw_tier g) = (w, t)"
      by (cases "connect_standby first (fs_dialing s) (gw_tier g)")
    show ?thesis using assms(1,2) FoDialed w o pin owes_connect_standby[OF o(1) w]
      by (auto simp: fo_watch_def fo_account_def ac_simps split: if_splits option.splits)
  next
    case (FoMeanwhile f)
    then show ?thesis using assms(2,3) o pin by (auto simp: fo_watch_def fo_account_def calm_def)
  qed
qed

lemma run_failover_account:
  assumes "owes t0 (one slot) (gw_tier g)" "n_active (gw_node g) = Some peer"
    and "\<forall>f. FoMeanwhile f \<in> set (sr_fo_evs run) \<longrightarrow> calm f"
    and "run_failover D H msg fo cfg run (g, peer, slot) = ((r, out, s), st, got)"
  shows "fo_account t0 s (st, [])"
proof -
  let ?sess = "serve_failover D H msg fo (cfg\<lparr>pc_freshest := None\<rparr>) (sr_act_r run) (sr_write run) (env_at (sr_env run) g) (sr_pre_env run)"
  let ?I = "\<lambda>es st. fo_account t0 (snd (snd (?sess es))) st \<and> snd st = []"
  have "\<exists>es'. fst (run_session ?sess fo_watch fo_react [] (sr_fo_evs run) ((g, peer, slot), [])) = ?sess es'
      \<and> ?I es' (snd (run_session ?sess fo_watch fo_react [] (sr_fo_evs run) ((g, peer, slot), [])))"
  proof (rule run_session_inv[where V = "set (sr_fo_evs run)"])
    show "?I [] ((g, peer, slot), [])"
      using assms(1,2) serve_failover_begin by (simp add: fo_account_def)
  next
    fix es st v e st1
    assume I: "?I es st" and run: "fst (?sess es) = None" and v: "v \<in> set (sr_fo_evs run)"
      and w: "fo_watch v (snd (?sess es)) st = (Some e, st1)"
    obtain o1 s where s: "?sess es = (None, o1, s)" using run by (cases "?sess es") auto
    obtain o2 s' where s': "snd (?sess (es @ [e])) = (o2, s')" by (cases "snd (?sess (es @ [e]))")
    obtain e1 ev where e: "e = (e1, ev)" by (cases e)
    obtain g1 p1 sl1 got1 where st1: "st1 = ((g1, p1, sl1), got1)" by (cases st1) auto
    obtain g0 pin0 where st: "st = ((g0, pin0), [])" using I by (cases st) auto
    have acc: "fo_account t0 s st1 \<and> mset got1 = (case ev of FoConnected a p \<Rightarrow> one p | _ \<Rightarrow> {#})"
      using fo_watch_account[of t0 s g0 pin0 v o1 "Some e" st1] I w v assms(3) st st1 s e by auto
    have "s' = snd (fo_event D H msg fo e1 ev s)" using serve_failover_snoc[OF s, of e1 ev] s' e by simp
    then have "shrinks (mset got1) s s'" using shrinks_event[of ev s D H msg fo e1] acc by simp
    then show "?I (es @ [e]) (fo_react (snd (?sess es)) (snd (?sess (es @ [e]))) st1)"
      using fo_react_account[of t0 s g1 p1 sl1 got1 s' o1 o2] acc s s' st1
      by (cases "fo_react (o1, s) (o2, s') ((g1, p1, sl1), got1)") auto
  next
    fix es st v st1
    assume I: "?I es st" and v: "v \<in> set (sr_fo_evs run)" and w: "fo_watch v (snd (?sess es)) st = (None, st1)"
    obtain g0 pin0 where st: "st = ((g0, pin0), [])" using I by (cases st) auto
    show "?I es st1" using fo_watch_account[of t0 "snd (snd (?sess es))" g0 pin0 v "fst (snd (?sess es))" None st1] I w v assms(3) st
      by auto
  qed simp
  then obtain es' where "(r, out, s) = ?sess es'" "?I es' (st, got)" using assms(4) by (auto simp: run_failover_def)
  then show ?thesis by (metis snd_conv)
qed

lemma repin_check_active: "repin_check bl timing w ans now (n, t) = (r, n', t') \<Longrightarrow> n_active n' = n_active n"
  by (auto simp: repin_check_def Let_def claim_repin_attempt_def claim_every_def forget_repin_attempt_def
      split: if_splits prod.splits option.splits bool.splits)

lemma catchup_check_active: "catchup_check timing w now n = (r, n') \<Longrightarrow> n_active n' = n_active n"
  by (auto simp: catchup_check_def claim_catchup_cut_def claim_every_def split: if_splits prod.splits option.splits bool.splits)

lemma push_watch_account:
  assumes "owes t0 M (gw_tier g)" "push_watch armed w v st g = (x, g')" "\<And>f. v = Meanwhile f \<Longrightarrow> calm f"
  shows "owes t0 M (gw_tier g') \<and> n_active (gw_node g') = n_active (gw_node g)"
proof (cases v)
  case (RepinCheck bl now ans)
  then show ?thesis using assms(1,2)
    by (auto simp: push_watch_def split: if_splits prod.splits dest: owes_repin_check repin_check_active)
qed (use assms in \<open>auto simp: push_watch_def calm_def split: if_splits prod.splits sess_ev.splits dest: catchup_check_active\<close>)

lemma run_push_account:
  assumes "owes t0 M (gw_tier g)" "\<forall>f. Meanwhile f \<in> set (sr_evs run) \<longrightarrow> calm f" "run_push D msg cfg run a g = (r, g')"
  shows "owes t0 M (gw_tier g') \<and> n_active (gw_node g') = n_active (gw_node g)"
proof -
  let ?sess = "serve_push D msg cfg (sr_act_r run) (sr_write run) (sr_conds run) (sr_start run)"
  let ?watch = "push_watch (end_when 0 (gw_tier g) a) (sr_start run)"
  have keep: "owes t0 M (gw_tier g2) \<and> n_active (gw_node g2) = n_active (gw_node g)"
    if "owes t0 M (gw_tier g1) \<and> n_active (gw_node g1) = n_active (gw_node g)" "v \<in> set (sr_evs run)"
      "?watch v (st :: bytes list) g1 = (x, g2)" for g1 g2 v st x
    using push_watch_account[OF _ that(3), of t0 M] that(1,2) assms(2) by auto
  have "\<exists>es'. fst (run_session ?sess ?watch (\<lambda>_ _ g. g) [] (sr_evs run) g) = ?sess es'
      \<and> (\<lambda>es g'. owes t0 M (gw_tier g') \<and> n_active (gw_node g') = n_active (gw_node g)) es'
          (snd (run_session ?sess ?watch (\<lambda>_ _ g. g) [] (sr_evs run) g))"
    by (rule run_session_inv[where V = "set (sr_evs run)"]) (simp add: assms(1), simp, erule keep, assumption+, erule keep, assumption+)
  then show ?thesis using assms(3) by (auto simp: run_push_def)
qed

lemma gw_simps [simp]:
  "gw_tier (gw_unpin p g) = gw_tier g" "gw_node (drop_slot sl g) = gw_node g" "gw_node (cool_down_on_fault now a r g) = gw_node g"
  "gw_node (cool_down now a g) = gw_node g"
  by (auto simp: gw_unpin_def drop_slot_def cool_down_on_fault_def cool_down_def split: option.splits)

lemma owes_cool_down [simp]:
  "owes t0 M (gw_tier (cool_down now a g)) = owes t0 M (gw_tier g)"
  "owes t0 M (gw_tier (cool_down_on_fault now a r g)) = owes t0 M (gw_tier g)"
  by (simp_all add: cool_down_on_fault_def cool_down_def)

lemma owes_drop_slot: "owes t0 (M + one sl) (gw_tier g) \<Longrightarrow> owes t0 M (gw_tier (drop_slot sl g))"
  by (auto simp: drop_slot_def split: option.splits intro: owes_drop)

lemma unpin_active: "n_active (gw_node g) = Some p \<or> n_active (gw_node g) = None \<Longrightarrow> n_active (gw_node (gw_unpin p g)) = None"
  by (auto simp: gw_unpin_def clear_active_if_current_def)

text \<open>Everything other tasks do during a session.\<close>

definition calm_run :: "session_run \<Rightarrow> bool" where
  "calm_run run \<longleftrightarrow> (\<forall>f. Meanwhile f \<in> set (sr_evs run) \<longrightarrow> calm f) \<and> (\<forall>f. FoMeanwhile f \<in> set (sr_fo_evs run) \<longrightarrow> calm f)"

lemma repinned_settles:
  assumes "owes t0 (one sl) (gw_tier g)" "calm_run run" "serve_push_repinned D H msg fo cfg sl run g = (True, out, g')"
  shows "owes t0 {#} (gw_tier g') \<and> n_active (gw_node g') = None"
proof -
  let ?a = "pc_hosts cfg ! pc_active_idx cfg"
  obtain peer g1 where pin: "gw_pin ?a g = (peer, g1)" by (cases "gw_pin ?a g")
  have g1: "gw_tier g1 = gw_tier g" "n_active (gw_node g1) = Some peer"
    using pin by (auto simp: gw_pin_def pin_active_def Let_def)
  obtain slot t where sl: "(case sl of Some i \<Rightarrow> (Some i, gw_tier g1) | None \<Rightarrow> acquire ?a (gw_tier g1)) = (slot, t)"
    by (cases "case sl of Some i \<Rightarrow> (Some i, gw_tier g1) | None \<Rightarrow> acquire ?a (gw_tier g1)")
  have o: "owes t0 (one slot) t"
    using sl assms(1) g1(1) owes_acquire[of t0 "{#}" "gw_tier g" ?a slot t] by (auto split: option.splits)
  let ?g2 = "g1\<lparr>gw_tier := t\<rparr>"
  show ?thesis
  proof (cases "0 < fc_standbys fo")
    case True
    obtain r out' s g3 lp ls got where run: "run_failover D H msg fo cfg run (?g2, peer, slot) = ((r, out', s), (g3, lp, ls), got)"
      by (cases "run_failover D H msg fo cfg run (?g2, peer, slot)") auto
    have acc: "fo_account t0 s ((g3, lp, ls), [])"
      by (rule run_failover_account[OF _ _ _ run]) (use o g1 assms(2) in \<open>simp_all add: calm_run_def\<close>)
    obtain reason where r: "r = Some reason" using assms(3) pin sl True run by (cases r) (auto simp: serve_push_repinned_def Let_def)
    let ?g4 = "fold (\<lambda>i. drop_slot (Some i)) (live_slots s) g3"
    have "owes t0 (one ls) (gw_tier ?g4)" "n_active (gw_node ?g4) = Some lp"
      using acc gw_fold_drop[of "live_slots s" g3] owes_drop_all[of t0 "live_slots s" "one ls" "gw_tier g3"]
      by (simp_all add: fo_account_def live_slots_def slots_of_def)
    then show ?thesis using assms(3) pin sl True run r owes_drop_slot[of t0 "{#}" ls] unpin_active[of ?g4 lp]
      by (auto simp: serve_push_repinned_def Let_def intro!: unpin_active)
  next
    case False
    obtain r out' g3 where run: "run_push D msg cfg run ?a ?g2 = ((r, out'), g3)" by (cases "run_push D msg cfg run ?a ?g2") auto
    obtain reason where r: "r = Some reason" using assms(3) pin sl False run by (cases r) (auto simp: serve_push_repinned_def Let_def)
    have "owes t0 (one slot) (gw_tier g3) \<and> n_active (gw_node g3) = Some peer"
      using run_push_account[OF _ _ run, of t0 "one slot"] o g1 assms(2) by (simp add: calm_run_def)
    then show ?thesis using assms(3) pin sl False run r owes_drop_slot[of t0 "{#}" slot]
      by (auto simp: serve_push_repinned_def Let_def intro!: unpin_active)
  qed
qed

section \<open>A connection gives everything back\<close>

definition settled :: "gw \<Rightarrow> gw \<Rightarrow> bool" where
  "settled g g' \<longleftrightarrow> owes (gw_tier g) {#} (gw_tier g') \<and> n_active (gw_node g') \<in> {None, n_active (gw_node g)}"

lemma fallback_settles:
  assumes "owes t0 {#} (gw_tier g)" "calm_run (lv_session run)"
    and "serve_push_4001_fallback D H msg run peers start fr g = (True, out, g')"
  shows "owes t0 {#} (gw_tier g') \<and> n_active (gw_node g') \<in> {None, n_active (gw_node g)}"
proof -
  let ?cands = "tiered_peers (lv_bl run) (lv_now run) (gw_tier g) peers start"
  obtain w t where w: "race_fallback_upstream (gw_tier g) ?cands (lv_fallback run) (lv_joined run) = (w, t)"
    by (cases "race_fallback_upstream (gw_tier g) ?cands (lv_fallback run) (lv_joined run)")
  have "owes t0 (case w of Some (_, _, s) \<Rightarrow> one s | None \<Rightarrow> {#}) t"
    using owes_fallback[OF assms(1) _ w] assms(1) by (simp add: tiered_peers_distinct owes_def)
  then show ?thesis using assms(2,3) w repinned_settles[of t0 _ "g\<lparr>gw_tier := t\<rparr>"]
    by (cases w) (auto simp: serve_push_4001_fallback_def)
qed

lemma serve_live_settles:
  assumes "tier_ok (gw_tier g)" "calm_run (lv_session run)" "serve_live D H msg run peers start fr g = (True, out, g')"
  shows "settled g g'"
proof -
  obtain w t where w: "select_live_peer msg (lv_bl run) (gw_tier g) peers start (lv_started run) (lv_select run) = Some (w, t)"
    using assms(3) by (auto simp: serve_live_def split: option.splits)
  note o = owes_select_live[OF assms(1) w]
  show ?thesis
  proof (cases w)
    case None
    then show ?thesis using assms(2,3) w o fallback_settles[of "gw_tier g" "g\<lparr>gw_tier := t\<rparr>"] by (auto simp: serve_live_def settled_def)
  next
    case (Some live)
    then show ?thesis using assms(2,3) w o repinned_settles[of "gw_tier g" "lp_slot live" "g\<lparr>gw_tier := t\<rparr>"]
      by (auto simp: serve_live_def settled_def)
  qed
qed

lemma splice_live_settles:
  assumes "tier_ok (gw_tier g)" "splice_live run peers start g = (True, out, g')"
  shows "settled g g'"
proof -
  let ?cands = "tiered_peers (lv_bl run) (lv_now run) (gw_tier g) peers start"
  obtain w t where w: "race_fallback_upstream (gw_tier g) ?cands (lv_fallback run) (lv_joined run) = (w, t)"
    by (cases "race_fallback_upstream (gw_tier g) ?cands (lv_fallback run) (lv_joined run)")
  have o: "owes (gw_tier g) (case w of Some (_, _, s) \<Rightarrow> one s | None \<Rightarrow> {#}) t"
    using owes_fallback[OF owes_start[OF assms(1)] _ w] assms(1) by (simp add: tiered_peers_distinct)
  show ?thesis
  proof (cases w)
    case (Some x)
    obtain a greeting slot where x: "x = (a, greeting, slot)" by (cases x)
    obtain peer g1 where p: "gw_pin a (g\<lparr>gw_tier := t\<rparr>) = (peer, g1)" by (cases "gw_pin a (g\<lparr>gw_tier := t\<rparr>)")
    then have "owes (gw_tier g) (one slot) (gw_tier g1)" "n_active (gw_node g1) = Some peer"
      using o Some x by (auto simp: gw_pin_def pin_active_def Let_def)
    then show ?thesis using assms(2) w Some x p owes_drop_slot[of "gw_tier g" "{#}" slot]
      by (auto simp: splice_live_def settled_def split: option.splits if_splits intro!: unpin_active)
  qed (use assms(2) w o in \<open>auto simp: splice_live_def settled_def\<close>)
qed

lemma settled_trans:
  "settled g g1 \<Longrightarrow> settled g1 g2 \<Longrightarrow> settled g g2"
  unfolding settled_def using owes_trans[of "gw_tier g" "{#}" "gw_tier g1" "{#}"] by auto

lemma calm_settled: "calm f \<Longrightarrow> tier_ok (gw_tier g) \<Longrightarrow> settled g (f g)"
  by (simp add: calm_def settled_def owes_start)

lemma settled_set [simp]:
  "settled g (g1\<lparr>gw_rr := x\<rparr>) = settled g g1" "settled g (g1\<lparr>gw_sink := y\<rparr>) = settled g g1"
  "settled (g\<lparr>gw_rr := x\<rparr>) g1 = settled g g1" "settled g (g1\<lparr>gw_servers := z\<rparr>) = settled g g1"
  "settled g (g1\<lparr>gw_taps := u\<rparr>) = settled g g1"
  by (simp_all add: settled_def)

lemma settled_ok: "settled g g' \<Longrightarrow> tier_ok (gw_tier g')"
  by (simp add: settled_def owes_def)

lemma settled_node:
  "tier_ok (gw_tier g) \<Longrightarrow> n_active n \<in> {None, n_active (gw_node g)} \<Longrightarrow> settled g (g\<lparr>gw_node := n\<rparr>)"
  by (auto simp: settled_def owes_start)

lemma set_replay_floor_active [simp]: "n_active (set_replay_floor fl n) = n_active n"
  by (simp add: set_replay_floor_def split: option.splits prod.splits)

lemma replay_settles:
  assumes "tier_ok (gw_tier g)" "calm (rp_others run)" "calm_run (lv_session (rp_live run))"
    and "replay_cache_then_live D H msg run peers blob g = (True, out, g')"
  shows "settled g g'"
proof -
  let ?g0 = "g\<lparr>gw_node := (gw_node g)\<lparr>n_last_cache_replay_secs := rp_now run\<rparr>\<rparr>"
  let ?g1 = "rp_others run ?g0"
  let ?g2 = "?g1\<lparr>gw_node := replay_in_flight_drop (gw_node ?g1)\<rparr>"
  have "settled g ?g0" using assms(1) by (intro settled_node) simp_all
  moreover have "settled ?g0 ?g1" using assms(1,2) by (intro calm_settled) simp_all
  ultimately have 1: "settled g ?g1" by (rule settled_trans)
  moreover have "settled ?g1 ?g2" using settled_ok[OF 1] by (intro settled_node) (simp_all add: replay_in_flight_drop_def)
  ultimately have 2: "settled g ?g2" by (rule settled_trans)
  let ?fl = "replay_floor D blob (gw_tip ?g2)"
  let ?g3 = "?g2\<lparr>gw_node := set_replay_floor ?fl ((gw_node ?g2)\<lparr>n_last_cache_replay_secs := rp_done run\<rparr>), gw_rr := gw_rr ?g2 + 1\<rparr>"
  have "settled ?g2 ?g3" using owes_start[OF settled_ok[OF 2]] by (simp add: settled_def)
  with 2 have 3: "settled g ?g3" by (rule settled_trans)
  obtain sent full where wr: "replay_write blob (rp_failed run) = (sent, full)" by (cases "replay_write blob (rp_failed run)")
  show ?thesis
  proof (cases full)
    case False
    then show ?thesis using assms(4) wr 2 by (simp add: replay_cache_then_live_def Let_def)
  next
    case True
    then obtain out' where "serve_live D H msg (rp_live run) peers (gw_rr ?g2) ?fl ?g3 = (True, out', g')"
      using assms(4) wr by (auto simp: replay_cache_then_live_def Let_def split: prod.splits)
    from serve_live_settles[OF settled_ok[OF 3] assms(3) this] 3 show ?thesis by (rule settled_trans[rotated])
  qed
qed

lemma boot_done_kept [simp]: "gw_tier (boot_done a tapped rel ck g) = gw_tier g" "gw_node (boot_done a tapped rel ck g) = gw_node g"
  by (simp_all add: boot_done_def)

lemma bootstrap_via_settles:
  assumes "owes t0 (one slot) (gw_tier g)" "calm (bt_others run)" "bootstrap_via D cc run a slot hdr payload g = (True, g')"
  shows "owes t0 {#} (gw_tier g') \<and> n_active (gw_node g') = None"
proof -
  let ?g0 = "g\<lparr>gw_servers := (if tier_contains (gw_tier g) a then gw_servers g else remember_state_server a (gw_servers g))\<rparr>"
  obtain peer g1 where p: "gw_pin a ?g0 = (peer, g1)" by (cases "gw_pin a ?g0")
  define tapped where "tapped = (cc \<and> 0 < gw_taps g1)"
  define g2 where "g2 = bt_others run (if tapped then g1\<lparr>gw_taps := gw_taps g1 - 1\<rparr> else g1)"
  have "owes t0 (one slot) (gw_tier g1)" "n_active (gw_node g1) = Some peer"
    using assms(1) p by (auto simp: gw_pin_def pin_active_def Let_def)
  then have g2: "owes t0 (one slot) (gw_tier g2)" "n_active (gw_node g2) = Some peer"
    using assms(2) by (auto simp: g2_def calm_def)
  obtain rel ck where "g' = gw_unpin peer (drop_slot slot (boot_done a tapped rel ck g2))"
    using assms(3) unfolding bootstrap_via_def p prod.case Let_def tapped_def[symmetric] g2_def[symmetric]
    by (auto split: option.splits prod.splits)
  then show ?thesis using g2 owes_drop_slot[of t0 "{#}" slot "boot_done a tapped rel ck g2"] by (auto intro!: unpin_active)
qed

lemma bootstrap_settles:
  assumes "tier_ok (gw_tier g)" "calm (bt_others run)" "transparent_bootstrap D cc run peers g = (True, g')"
  shows "settled g g'"
proof -
  let ?g1 = "g\<lparr>gw_node := (gw_node g)\<lparr>n_live_floor := 0\<rparr>, gw_rr := gw_rr g + BOOTSTRAP_SELECT_MAX_PEERS\<rparr>"
  let ?cands = "bootstrap_source_list (bt_bl run) (t_bootstrap (gw_tier g))
                         (candidates_at (bt_bl run) (bt_started run) (gw_tier g)) (gw_servers g) peers (gw_rr g)"
  obtain w t where w: "select_fast_bootstrap_peer (gw_tier g) ?cands 0 (bt_started run) (bt_select run) = Some (w, t)"
    using assms(3) by (auto simp: transparent_bootstrap_def Let_def split: option.splits)
  note o = owes_select_fast[OF assms(1) bootstrap_sources_distinct[OF assms(1)] w]
  show ?thesis
  proof (cases w)
    case None
    then show ?thesis using assms(3) w o by (auto simp: transparent_bootstrap_def Let_def settled_def)
  next
    case (Some x)
    obtain a slot hdr payload where x: "x = (a, slot, hdr, payload)" by (cases x)
    show ?thesis using assms(2,3) w Some x o bootstrap_via_settles[of "gw_tier g" slot "?g1\<lparr>gw_tier := t\<rparr>"]
      by (auto simp: transparent_bootstrap_def Let_def settled_def)
  qed
qed

lemma cache_replay_blob_active: "cache_replay_blob bl now ck n = (b, n') \<Longrightarrow> n_active n' \<in> {None, n_active n}"
  by (auto simp: cache_replay_blob_def has_active_session_def unpin_blacklisted_def Let_def split: option.splits if_splits)

lemma bootstrap_handler_settles:
  assumes "tier_ok (gw_tier g)" "calm (rp_others rrun)" "calm_run (lv_session (rp_live rrun))" "calm (bt_others brun)"
    and "handle_4001_bootstrap D H msg cc now rrun brun peers g = (True, out, g')"
  shows "settled g g'"
proof (cases cc)
  case True
  obtain b n where q: "cache_replay_blob (bt_bl brun) now (gw_sink g) (gw_node g) = (b, n)"
    by (cases "cache_replay_blob (bt_bl brun) now (gw_sink g) (gw_node g)")
  let ?g1 = "g\<lparr>gw_node := n\<rparr>"
  have 1: "settled g ?g1" using assms(1) cache_replay_blob_active[OF q] by (intro settled_node)
  have "settled ?g1 g'"
    using assms(5) True q replay_settles[OF settled_ok[OF 1] assms(2,3)] bootstrap_settles[OF settled_ok[OF 1] assms(4)]
    by (auto simp: handle_4001_bootstrap_def split: option.splits prod.splits)
  with 1 show ?thesis by (rule settled_trans)
qed (use assms bootstrap_settles[OF assms(1,4)] in \<open>auto simp: handle_4001_bootstrap_def split: prod.splits\<close>)

text \<open>C7. A 4001 connection gives everything back. Whatever the races, the session with or without hot standbys, its
  switches, the replay or the relay did, once the handler has returned every priority peer has exactly the session count
  from before, and the node is not left pinned to a peer of this connection. The other tasks are taken to leave the
  session counts and the pin alone meanwhile.\<close>
theorem connection_gives_back:
  assumes "tier_ok (gw_tier g)" and "calm_run (lv_session lrun)" and "calm_run (lv_session (rp_live rrun))"
    and "calm (rp_others rrun)" and "calm (bt_others brun)"
    and "handle_4001_live D H msg push lrun peers g = (True, out, g')
      \<or> handle_4001_bootstrap D H msg cc now rrun brun peers g = (True, out, g')"
  shows "t_sessions (gw_tier g') = t_sessions (gw_tier g) \<and> n_active (gw_node g') \<in> {None, n_active (gw_node g)}"
proof -
  have live: "settled g g'" if "handle_4001_live D H msg push lrun peers g = (True, out, g')"
    using that serve_live_settles[of "g\<lparr>gw_rr := gw_rr g + 1\<rparr>", OF _ assms(2)]
      splice_live_settles[of "g\<lparr>gw_rr := gw_rr g + 1\<rparr>" lrun peers "gw_rr g" out g'] assms(1)
    by (auto simp: handle_4001_live_def Let_def split: if_splits)
  then have "settled g g'" using assms(6) bootstrap_handler_settles[OF assms(1,4,3,5)] by blast
  then show ?thesis using owes_settled[OF assms(1)] by (simp add: settled_def)
qed

section \<open>What the node reads\<close>

lemma block_round_fst: "block_round D p = map_option fst (block_round_parent D p)"
proof -
  have "find_block_round = map_option fst \<circ> find_block_round_parent" by (simp add: fun_eq_iff find_block_round_def)
  then show ?thesis
    by (auto simp: block_round_def block_round_parent_def block_round_full_def map_option_bind split: option.splits)
      (simp add: find_block_round_def)
qed

lemma block_round_parent_Nil: "block_round_parent D [] = None"
  by (simp add: block_round_parent_def decompress_block_def declared_size_ok_def)

lemma frame_round_classify: "frame_round D f = map_option fst (classify D H f)"
  by (cases "length f \<le> 5") (auto simp: frame_round_def classify_def block_round_fst block_round_parent_Nil split: option.splits)

lemma block_rounds_sent: "block_rounds D H fs = sent_rounds D fs"
  by (simp add: block_rounds_def sent_rounds_def frame_round_classify[symmetric])

lemma run_session_sess:
  assumes "run_session sess watch react es vs s = (x, s')"
  obtains es' where "sess es' = x"
  using run_session_inv[where I = "\<lambda>_ _. True" and V = UNIV and sess = sess and watch = watch and react = react and es = es and vs = vs and s = s]
    assms by auto

definition ascends :: "(bytes \<Rightarrow> bytes option) \<Rightarrow> u32 \<Rightarrow> bytes list \<Rightarrow> bool" where
  "ascends D r0 out \<longleftrightarrow> out = [] \<or> sorted_wrt (<) (r0 # sent_rounds D (tl out))"

lemma repinned_ascends:
  assumes "serve_push_repinned D H msg fo cfg sl run g = (fin, out, g')"
  shows "ascends D (pc_initial_last_forwarded cfg) out"
proof -
  have push: "ascends D (pc_initial_last_forwarded cfg) o1" if run: "run_push D msg cfg run a g1 = ((r, o1), g2)" for a g1 r o1 g2
  proof -
    obtain es where "serve_push D msg cfg (sr_act_r run) (sr_write run) (sr_conds run) (sr_start run) es = (r, o1)"
      using run unfolding run_push_def by (rule run_session_sess)
    from push_stream[OF this] show ?thesis by (auto simp: ascends_def)
  qed
  have fail: "ascends D (pc_initial_last_forwarded cfg) o1" if run: "run_failover D H msg fo cfg run st = ((r, o1, s), st1)" for st r o1 s st1
  proof -
    obtain es where "serve_failover D H msg fo (cfg\<lparr>pc_freshest := None\<rparr>) (sr_act_r run) (sr_write run)
        (env_at (sr_env run) (fst st)) (sr_pre_env run) es = (r, o1, s)"
      using run unfolding run_failover_def by (rule run_session_sess)
    from failover_stream[OF this] show ?thesis by (auto simp: ascends_def block_rounds_sent)
  qed
  show ?thesis using assms push fail
    by (auto simp: serve_push_repinned_def Let_def split: prod.splits option.splits if_splits)
qed

lemma fallback_ascends:
  "serve_push_4001_fallback D H msg run peers start r0 g = (fin, out, g') \<Longrightarrow> ascends D r0 out"
  by (auto simp: serve_push_4001_fallback_def ascends_def[of D r0 "[]"] push_config_for_def
      split: prod.splits option.splits dest!: repinned_ascends)

lemma serve_live_ascends: "serve_live D H msg run peers start r0 g = (fin, out, g') \<Longrightarrow> ascends D r0 out"
  by (auto simp: serve_live_def ascends_def[of D r0 "[]"] push_config_for_def
      split: prod.splits option.splits dest!: repinned_ascends fallback_ascends)

text \<open>C6. A node that cold-starts from the cache reads the cached bootstrap from its first byte on, and a live stream
  only after the whole of it. The live stream is the peer's greeting and then blocks whose rounds ascend strictly; unless
  the blob ends implausibly far above a known network tip, every one of them is above the last round of the blob, so no
  block reaches the node twice. This holds for the push session, the failover session and the fallback.\<close>
theorem cold_start_stream:
  assumes "replay_cache_then_live D H msg run peers blob g = (fin, out, g')"
    and "tip = gw_tip (rp_others run (g\<lparr>gw_node := (gw_node g)\<lparr>n_last_cache_replay_secs := rp_now run\<rparr>\<rparr>))"
  shows "\<exists>sent live. out = sent # live \<and> (\<exists>rest. blob = sent @ rest) \<and>
    (live \<noteq> [] \<longrightarrow> sent = blob \<and> sorted_wrt (<) (sent_rounds D (tl live)) \<and>
      (\<forall>m. max_block_round_in_frames D blob = Some m \<and> (tip = 0 \<or> m \<le> saturating_add tip ACTIVE_ROUND_MAX_LAG) \<longrightarrow>
         (\<forall>r \<in> set (sent_rounds D (tl live)). m < r)))"
proof -
  obtain sent full where wr: "replay_write blob (rp_failed run) = (sent, full)" by (cases "replay_write blob (rp_failed run)")
  have pre: "\<exists>rest. blob = sent @ rest" "full \<Longrightarrow> sent = blob"
    using wr by (auto simp: replay_write_def split: option.splits if_splits) (metis append_take_drop_id)
  show ?thesis
  proof (cases full)
    case False
    then show ?thesis using assms(1) wr pre by (auto simp: replay_cache_then_live_def Let_def)
  next
    case True
    then obtain live st g3 where live: "serve_live D H msg (rp_live run) peers st (replay_floor D blob tip) g3 = (fin, live, g')"
        and out: "out = sent # live"
      using assms wr by (auto simp: replay_cache_then_live_def Let_def split: prod.splits)
    have asc: "sorted_wrt (<) (replay_floor D blob tip # sent_rounds D (tl live))" if "live \<noteq> []"
      using serve_live_ascends[OF live] that by (simp add: ascends_def)
    have "replay_floor D blob tip = m"
      if "max_block_round_in_frames D blob = Some m" "tip = 0 \<or> m \<le> saturating_add tip ACTIVE_ROUND_MAX_LAG" for m
      using that by (auto simp: replay_floor_def bounded_cache_floor_def not_less)
    then show ?thesis using asc out pre True by auto
  qed
qed

section \<open>Examples\<close>

text \<open>A connection that selects a priority peer after another declined, is greeted and then superseded.\<close>

definition sample_session :: session_run where
  "sample_session = \<lparr>sr_act_r = [], sr_write = Wrote, sr_conds = (\<lambda>_. (0, 0, 0)), sr_start = 0, sr_evs = [SessEv Superseded],
     sr_env = sample_env, sr_pre_env = (\<lambda>_. sample_env), sr_fo_evs = [], sr_end = 9\<rparr>"

definition sample_live :: live_run where
  "sample_live = \<lparr>lv_fo = failover_config_from_env (\<lambda>_. None), lv_bl = blacklist_init,
     lv_freshest = freshest_new PEER_LAG_ROUNDS PEER_LAG_GRACE FRESHEST_STALE, lv_started = 0,
     lv_select = [(1, LiveErr ''192.0.2.2'' True SelPeerFull),
       (2, LiveOk \<lparr>lp_ip = ''192.0.2.1'', lp_greeting = [0, 0, 0, 1, 0, 1], lp_frames = [], lp_first_round = 9, lp_slot = None\<rparr> True)],
     lv_now = 3, lv_fallback = [], lv_joined = 3, lv_session = sample_session, lv_greet_write = Wrote, lv_relay = [], lv_end = 9\<rparr>"

definition sample_gw :: gw where
  "sample_gw = \<lparr>gw_node = node_state_new (V4 9) 0, gw_tier = sample_tier, gw_cooldown = [], gw_servers = [], gw_rr = 0,
     gw_sink = \<lparr>ck_blob = None, ck_cached_at = 0, ck_disk = False, ck_jobs = []\<rparr>, gw_taps = 1, gw_tip = 0\<rparr>"

lemma sample_candidates: "candidates_at blacklist_init 0 sample_tier = [''192.0.2.2'', ''192.0.2.1'']"
  by (simp add: sample_tier_def candidates_at_def priority_new_def bl_contains_def blacklist_init_def upt_rec)

lemma sample_serves:
  assumes "gw_tier g = sample_tier"
  shows "\<exists>g'. serve_live D H (\<lambda>_. []) sample_live [''192.0.2.7''] 0 r0 g = (True, [[0, 0, 0, 1, 0, 1]], g')"
proof -
  let ?s = "\<lparr>lp_ip = ''192.0.2.1'', lp_greeting = [0, 0, 0, 1, 0, 1], lp_frames = [], lp_first_round = 9, lp_slot = Some 0\<rparr>"
  have "\<exists>t'. select_live_peer (\<lambda>_. []) blacklist_init sample_tier [''192.0.2.7''] 0 0 (lv_select sample_live) = Some (Some ?s, t')"
    using sample_candidates
    by (simp add: sample_live_def select_live_peer_unfold live_race_new_def live_attempt_slot_def try_acquire_def tier_index_def sample_tier_def
        priority_new_def LIVE_SELECT_WAIT_def from_millis_def exclusive_def live_fail_def free_slot_def drop_session_def
        judge_priority_def mark_failed_at_def cool_until_def live_win_def free_all_def AList.delete_eq Let_def)
  then obtain t' where sel: "select_live_peer (\<lambda>_. []) blacklist_init sample_tier [''192.0.2.7''] 0 0 (lv_select sample_live) = Some (Some ?s, t')" ..
  have lv: "lv_bl sample_live = blacklist_init" "lv_started sample_live = 0" "lv_fo sample_live = failover_config_from_env (\<lambda>_. None)"
      "lv_session sample_live = sample_session" by (simp_all add: sample_live_def)
  show ?thesis using sel assms
    by (simp add: serve_live_def lv serve_push_repinned_def run_push_def sample_session_def failover_config_from_env_def env_num_def
        push_config_for_def push_watch_def serve_push_def serve_greeting_def greeting_written_def serve_event_def Let_def
        split: prod.split)
qed

lemma sample_serves_parts:
  assumes "gw_tier g = sample_tier"
  shows "fst (serve_live D H (\<lambda>_. []) sample_live [''192.0.2.7''] 0 r0 g)"
    "fst (snd (serve_live D H (\<lambda>_. []) sample_live [''192.0.2.7''] 0 r0 g)) = [[0, 0, 0, 1, 0, 1]]"
  using sample_serves[OF assms, of D H r0] by auto

theorem connection_gives_back_witness:
  "\<exists>out g'. handle_4001_live (\<lambda>_. None) (\<lambda>_. 0) (\<lambda>_. []) True sample_live [''192.0.2.7''] sample_gw = (True, out, g') \<and>
     t_sessions (gw_tier g') = [1, 0] \<and> n_active (gw_node g') = None"
proof -
  let ?rr = "\<lparr>rp_now = 0, rp_failed = None, rp_done = 0, rp_others = id, rp_live = sample_live\<rparr>"
  let ?br = "\<lparr>bt_bl = blacklist_init, bt_started = 0, bt_select = [], bt_now = 0, bt_others = id, bt_tap = [], bt_tap_end = TapTask,
    bt_hdr_write = Wrote, bt_payload_write = Wrote, bt_relay = []\<rparr>"
  obtain g' where g': "handle_4001_live (\<lambda>_. None) (\<lambda>_. 0) (\<lambda>_. []) True sample_live [''192.0.2.7''] sample_gw = (True, [[0, 0, 0, 1, 0, 1]], g')"
    using sample_serves[of "sample_gw\<lparr>gw_rr := 1\<rparr>" "\<lambda>_. None" "\<lambda>_. 0" 0] by (auto simp: handle_4001_live_def sample_gw_def)
  have calm: "calm_run (lv_session sample_live)" "calm id"
    by (simp_all add: calm_run_def calm_def sample_live_def sample_session_def)
  have "t_sessions (gw_tier g') = t_sessions (gw_tier sample_gw) \<and> n_active (gw_node g') \<in> {None, n_active (gw_node sample_gw)}"
    by (rule connection_gives_back[OF _ _ _ _ _ disjI1[OF g'], where rrun = ?rr and brun = ?br])
      (use calm sample_tier_ok in \<open>simp_all add: sample_gw_def\<close>)
  then show ?thesis using g' by (auto simp: sample_gw_def sample_tier_def node_state_new_def)
qed

text \<open>A cold start over a one-block bootstrap.\<close>

theorem cold_start_stream_witness:
  "\<exists>g'. replay_cache_then_live (\<lambda>_. None) (\<lambda>_. 0) (\<lambda>_. [])
      \<lparr>rp_now = 5, rp_failed = None, rp_done = 6, rp_others = id, rp_live = sample_live\<rparr> [''192.0.2.7''] (live_frame 2) sample_gw
      = (True, [live_frame 2, [0, 0, 0, 1, 0, 1]], g')
    \<and> (\<exists>sent live. [live_frame 2, [0, 0, 0, 1, 0, 1]] = sent # live \<and> sent = live_frame 2 \<and> sorted_wrt (<) (sent_rounds (\<lambda>_. None) (tl live)))"
proof -
  let ?run = "\<lparr>rp_now = 5, rp_failed = None, rp_done = 6, rp_others = id, rp_live = sample_live\<rparr>"
  have g: "gw_rr sample_gw = 0" "gw_tier sample_gw = sample_tier" by (simp_all add: sample_gw_def)
  obtain g' where r: "replay_cache_then_live (\<lambda>_. None) (\<lambda>_. 0) (\<lambda>_. []) ?run [''192.0.2.7''] (live_frame 2) sample_gw
      = (True, [live_frame 2, [0, 0, 0, 1, 0, 1]], g')"
    by (simp add: replay_cache_then_live_def replay_write_def Let_def case_prod_beta g sample_serves_parts)
  from cold_start_stream[OF r refl] have "sorted_wrt (<) (sent_rounds (\<lambda>_. None) (tl [[0, 0, 0, 1, 0, 1]]))" by auto
  with r show ?thesis by auto
qed

section \<open>Faulted pool peers\<close>

definition pool_cooling :: "peer_cooldown \<Rightarrow> ip \<Rightarrow> instant \<Rightarrow> bool" where
  "pool_cooling m a t \<longleftrightarrow> (case map_of m a of Some until \<Rightarrow> t < until | None \<Rightarrow> False)"

definition pool_sane :: "peer_cooldown \<Rightarrow> instant \<Rightarrow> bool" where
  "pool_sane m now \<longleftrightarrow> distinct (map fst m) \<and> (\<forall>(_, until) \<in> set m. until \<le> now + SESSION_FAULT_COOLDOWN)"

lemma map_of_live:
  "distinct (map fst m) \<Longrightarrow> map_of (filter (\<lambda>(_, until). now < until) m) a =
     (case map_of m a of Some until \<Rightarrow> if now < until then Some until else None | None \<Rightarrow> None)"
  by (induction m) (auto split: option.splits simp: map_of_eq_None_iff rev_image_eqI)

lemma set_update_le: "set (AList.update k v al) \<subseteq> insert (k, v) (set al)"
  by (induction al) auto

interpretation gc: cooldown_table pool_cooling cooldown_mark SESSION_FAULT_COOLDOWN "\<lambda>_ _. True" pool_sane
proof unfold_locales
  fix s :: peer_cooldown and now t :: instant and a b :: ip
  assume s: "pool_sane s now" and t: "now \<le> t"
  have le: "map_of s b = Some u \<Longrightarrow> u \<le> now + SESSION_FAULT_COOLDOWN" for u
    using s map_of_SomeD[of s b u] by (auto simp: pool_sane_def)
  have "map_of (cooldown_mark a now s) b =
      (if b = a then Some (now + SESSION_FAULT_COOLDOWN)
       else case map_of s b of Some until \<Rightarrow> if now < until then Some until else None | None \<Rightarrow> None)"
    using s map_of_live[of s now b] by (simp add: cooldown_mark_def update_conv' pool_sane_def)
  then show "pool_cooling (cooldown_mark a now s) b t \<longleftrightarrow> (a = b \<and> True \<and> t < now + SESSION_FAULT_COOLDOWN) \<or> pool_cooling s b t"
    using t le by (cases "map_of s b") (auto simp: pool_cooling_def)
next
  fix s :: peer_cooldown and now :: instant and a :: ip
  assume "pool_sane s now"
  then show "pool_sane (cooldown_mark a now s) now"
    using set_update_le[of a "now + SESSION_FAULT_COOLDOWN" "filter (\<lambda>(_, until). now < until) s"]
    by (auto simp: pool_sane_def cooldown_mark_def distinct_update distinct_map_filter)
qed (fastforce simp: pool_sane_def)+

lemma usable_exact:
  assumes "pool_sane m now"
  shows "fst (cooldown_usable peers now m) =
    (let ok = filter (\<lambda>a. \<not> pool_cooling m a now) peers in if ok = [] then peers else ok)"
proof -
  let ?m = "filter (\<lambda>(_, until). now < until) m"
  have d: "distinct (map fst m)" using assms by (simp add: pool_sane_def)
  have "(case map_of ?m a of None \<Rightarrow> True | Some until \<Rightarrow> until \<le> now) \<longleftrightarrow> \<not> pool_cooling m a now" for a
    using map_of_live[OF d, of now a] by (auto simp: pool_cooling_def split: option.splits)
  moreover have "?m = [] \<Longrightarrow> \<not> pool_cooling m a now" for a
    using map_of_live[OF d, of now a] by (auto simp: pool_cooling_def split: option.splits if_splits)
  ultimately show ?thesis by (auto simp: cooldown_usable_def Let_def)
qed

text \<open>After any sequence of faulted sessions, a new connection is offered exactly the pool peers without a fault in
  the last thirty seconds, in the pool's order, or the whole pool when every peer of it faulted in that time, so the
  cooldown never leaves a node without a peer.\<close>
theorem faulted_peers_avoided:
  assumes "sorted (map snd faults)" and "\<forall>f \<in> set faults. snd f \<le> now"
  shows "fst (cooldown_usable peers now (fold (\<lambda>(a, t). cooldown_mark a t) faults [])) =
    (let ok = filter (\<lambda>a. \<forall>t. (a, t) \<in> set faults \<longrightarrow> t + from_secs 30 \<le> now) peers in if ok = [] then peers else ok)"
proof -
  let ?m = "fold (\<lambda>(a, t). cooldown_mark a t) faults []"
  have sane: "pool_sane (fold (\<lambda>(a, t). cooldown_mark a t) fs m) now" if "pool_sane m t0" "sorted (t0 # map snd fs)" "t0 \<le> now" "\<forall>f \<in> set fs. snd f \<le> now" for fs m t0
    using that
  proof (induction fs arbitrary: m t0)
    case (Cons f fs)
    then show ?case using gc.sane_mark[OF gc.sane_mono[of m t0 "snd f"], of "fst f"] Cons.IH[of "cooldown_mark (fst f) (snd f) m" "snd f"]
      by (auto simp: case_prod_beta)
  qed (auto intro: gc.sane_mono)
  have start: "pool_sane [] 0" by (simp add: pool_sane_def)
  have "pool_cooling ?m a now \<longleftrightarrow> (\<exists>t. (a, t) \<in> set faults \<and> now < t + SESSION_FAULT_COOLDOWN)" for a
    using gc.cooling_run[of "[]" 0 faults now a] start assms by (simp add: pool_cooling_def)
  then have "(\<lambda>a. \<not> pool_cooling ?m a now) = (\<lambda>a. \<forall>t. (a, t) \<in> set faults \<longrightarrow> t + from_secs 30 \<le> now)"
    by (auto simp: fun_eq_iff SESSION_FAULT_COOLDOWN_def not_less)
  then show ?thesis using usable_exact[OF sane[OF start]] assms by simp
qed

theorem faulted_peers_avoided_witness:
  "fst (cooldown_usable [''192.0.2.1'', ''192.0.2.2''] (from_secs 40)
     (fold (\<lambda>(a, t). cooldown_mark a t) [(''192.0.2.1'', from_secs 5), (''192.0.2.2'', from_secs 20)] [])) = [''192.0.2.1'']"
  using faulted_peers_avoided[of "[(''192.0.2.1'', from_secs 5), (''192.0.2.2'', from_secs 20)]" "from_secs 40" "[''192.0.2.1'', ''192.0.2.2'']"]
  by (simp add: from_secs_def)

end
