(* ===== verification/Gateway_Main.thy ===== *)
theory Gateway_Main
  imports Gateway_Session Client_Race
begin

text \<open>
  The gateway itself (gateway/mod.rs): the pool and tip refresher, the background capture of the bootstrap cache, the
  dial to a node's active peer, and the dispatch of an accepted connection by port.
\<close>

section \<open>Pool and network tip\<close>

definition PEER_FILE_TIP_MAX_AGE :: duration where "PEER_FILE_TIP_MAX_AGE = from_secs (15 * 60)"

definition read_pool :: "blacklist \<Rightarrow> priority_tier \<Rightarrow> string list \<Rightarrow> ip list" where
  "read_pool bl t files = bl_filtered bl (strip t (read_node_peers files))"

definition next_net_tip :: "u32 option \<Rightarrow> duration \<Rightarrow> u32 option" where
  "next_net_tip fresh since_fresh =
     (case fresh of
        Some tip \<Rightarrow> Some tip
      | None \<Rightarrow> if PEER_FILE_TIP_MAX_AGE < since_fresh then Some 0 else None)"

text \<open>The file's age, if it can be told, and its contents, if it can be read.\<close>

definition fresh_peer_file_tip :: "duration option \<Rightarrow> string option \<Rightarrow> u32 option" where
  "fresh_peer_file_tip age contents =
     (case age of
        None \<Rightarrow> None
      | Some a \<Rightarrow> if PEER_FILE_TIP_MAX_AGE < a then None else Option.bind contents extract_round_tip)"

text \<open>One pass of the refresher: the blacklist is reloaded, the pool re-read, the tip replaced or given up.\<close>

record pool_state =
  pl_bl :: blacklist
  pl_pool :: "ip list"
  pl_tip :: u32
  pl_last_fresh :: instant

record pool_in =
  pi_env :: "string option"
  pi_list :: "string option"
  pi_files :: "string list"
  pi_age :: "duration option"
  pi_contents :: "string option"
  pi_now :: instant

definition refresh_pool :: "priority_tier \<Rightarrow> pool_in \<Rightarrow> pool_state \<Rightarrow> pool_state" where
  "refresh_pool t i s =
     (let bl = snd (reload (pi_env i) (pi_list i) (pl_bl s));
          p = read_pool bl t (pi_files i);
          fresh = fresh_peer_file_tip (pi_age i) (pi_contents i);
          last_fresh = (if fresh \<noteq> None then pi_now i else pl_last_fresh s)
      in \<lparr>pl_bl = bl,
          pl_pool = (if p = [] then filter (\<lambda>a. \<not> bl_contains bl a) (pl_pool s) else p),
          pl_tip = (case next_net_tip fresh (pi_now i - last_fresh) of Some tip \<Rightarrow> tip | None \<Rightarrow> pl_tip s),
          pl_last_fresh = last_fresh\<rparr>)"

section \<open>The background capture\<close>

definition CACHE_REFRESH_SECS :: nat where "CACHE_REFRESH_SECS = 4 * 60"

definition FRESH_CACHE_REFRESH_MAX_INFLIGHT :: nat where "FRESH_CACHE_REFRESH_MAX_INFLIGHT = 1"

definition COLD_CACHE_REFRESH_MAX_INFLIGHT :: nat where "COLD_CACHE_REFRESH_MAX_INFLIGHT = 2"

text \<open>The window of peers of one attempt. The rotation multiplies in 64 bits.\<close>

definition capture_peers :: "bool \<Rightarrow> nat \<Rightarrow> 64 word \<Rightarrow> ip list \<Rightarrow> ip list" where
  "capture_peers have_fresh fails cycle full =
     (let n = length full; k = min (if have_fresh then 24 else 64) n;
          off = (if have_fresh \<or> 0 < fails then unat (cycle * word_of_nat k) mod n else 0)
      in if n = 0 then [] else map (\<lambda>j. full ! ((off + j) mod n)) [0..<k])"

record refresher =
  rf_sink :: cache_sink
  rf_cycle :: "64 word"
  rf_fails :: nat

text \<open>What a pass meets: the time, the pool, the candidate files, the race's events up to its deadline, and the times
  after it.\<close>

record refresh_in =
  ri_now :: nat
  ri_pool :: "ip list"
  ri_bl :: blacklist
  ri_tier :: priority_tier
  ri_files :: "string list"
  ri_race :: "cap_ev list"
  ri_done :: nat

definition failed_capture_delay :: "nat \<Rightarrow> nat" where
  "failed_capture_delay fails = (if fails = 1 then 60 else if fails = 2 then 120 else if fails = 3 then 300 else 600)"

text \<open>A failed attempt: with a fresh cache retry before it expires, else back off.\<close>

definition refresh_failed :: "bool \<Rightarrow> nat \<Rightarrow> refresh_in \<Rightarrow> refresher \<Rightarrow> nat \<times> refresher" where
  "refresh_failed have_fresh cached_at i r =
     (if have_fresh then (fresh_cache_retry_delay_secs (ri_done i) cached_at, r)
      else (let fails = min 4 (rf_fails r + 1) in (failed_capture_delay fails, r\<lparr>rf_fails := fails\<rparr>)))"

definition refresh_attempt ::
  "(bytes \<Rightarrow> bytes option) \<Rightarrow> bool \<Rightarrow> nat \<Rightarrow> refresh_in \<Rightarrow> refresher \<Rightarrow> nat \<times> refresher" where
  "refresh_attempt D have_fresh cached_at i r =
     (let full = strip (ri_tier i) (bootstrap_capture_peers (ri_bl i) (ri_files i) (ri_pool i) (\<not> have_fresh));
          peers = capture_peers have_fresh (rf_fails r) (rf_cycle r) full;
          r1 = r\<lparr>rf_cycle := rf_cycle r + 1\<rparr>;
          limit = (if have_fresh then FRESH_CACHE_REFRESH_MAX_INFLIGHT else COLD_CACHE_REFRESH_MAX_INFLIGHT)
      in case fst (capture_bootstrap_raced peers limit (ri_race i)) of
           Some (Some (blob, _)) \<Rightarrow>
             if has_live_tail D blob
             then (CACHE_REFRESH_SECS, r1\<lparr>rf_sink := install_bootstrap_cache D (ri_done i) blob (rf_sink r1), rf_fails := 0\<rparr>)
             else refresh_failed have_fresh cached_at i r1
         | _ \<Rightarrow> refresh_failed have_fresh cached_at i r1)"

text \<open>One pass of the loop: the seconds it sleeps afterwards and the new state. A blob past its window is freed.\<close>

definition refresh_pass :: "(bytes \<Rightarrow> bytes option) \<Rightarrow> refresh_in \<Rightarrow> refresher \<Rightarrow> nat \<times> refresher" where
  "refresh_pass D i r =
     (let ck = rf_sink r; now = ri_now i; cached_at = ck_cached_at ck;
          have_fresh = (ck_blob ck \<noteq> None \<and> is_bootstrap_cache_fresh now cached_at);
          r1 = (if have_fresh then r else r\<lparr>rf_sink := ck\<lparr>ck_blob := None\<rparr>\<rparr>)
      in if have_fresh \<and> now < cached_at + CACHE_REFRESH_SECS
         then (min (cached_at + CACHE_REFRESH_SECS - now) CACHE_REFRESH_RETRY_SECS, r1)
         else if have_fresh \<and> should_delay_cache_refresh_for_live_pool now cached_at (length (ri_pool i))
         then (fresh_cache_retry_delay_secs now cached_at, r1)
         else refresh_attempt D have_fresh cached_at i r1)"

text \<open>The cache at startup: orphans are swept, then the file is loaded if it is whole and fresh.\<close>

definition load_at_start :: "(bytes \<Rightarrow> bytes option) \<Rightarrow> nat \<Rightarrow> string \<Rightarrow> string \<Rightarrow> (string \<Rightarrow> bool) \<Rightarrow> dir \<Rightarrow> cache_sink \<times> dir" where
  "load_at_start D now stem name undeletable d =
     (let d1 = remove_orphan_cache_tmps stem undeletable d;
          f = (case map_of d1 name of None \<Rightarrow> Missing | Some (at, blob) \<Rightarrow> DiskFile at (length blob) (Some blob))
      in case load_bootstrap_cache D now f of
           Inr (Some (blob, at)) \<Rightarrow> (\<lparr>ck_blob = Some blob, ck_cached_at = at, ck_disk = True, ck_jobs = []\<rparr>, d1)
         | _ \<Rightarrow> (\<lparr>ck_blob = None, ck_cached_at = 0, ck_disk = True, ck_jobs = []\<rparr>, d1))"

section \<open>The other gossip ports\<close>

text \<open>Fifteen polls for the pin, with what other tasks do in between.\<close>

fun poll_active :: "blacklist \<Rightarrow> nat \<Rightarrow> (nat \<Rightarrow> gw_node \<Rightarrow> gw_node) \<Rightarrow> gw_node \<Rightarrow> active_peer option \<times> gw_node" where
  "poll_active bl 0 others n = (None, n)"
| "poll_active bl (Suc k) others n =
     (case active_snapshot bl n of
        (Some a, n1) \<Rightarrow> (Some a, n1)
      | (None, n1) \<Rightarrow> poll_active bl k others (others k n1))"

definition lazy_target :: "blacklist \<Rightarrow> instant \<Rightarrow> ip list \<Rightarrow> gw \<Rightarrow> ip option \<times> gw" where
  "lazy_target bl now peers g =
     (if peers = [] \<or> \<not> pool_allowed bl now (gw_tier g)
      then (case candidates_at bl now (gw_tier g) of [] \<Rightarrow> (None, g) | a # _ \<Rightarrow> (Some a, g))
      else (Some (peers ! (gw_rr g mod length peers)), g\<lparr>gw_rr := gw_rr g + 1\<rparr>))"

text \<open>The peer the connection is dialed to, with whether the dial went through.\<close>

definition dial_active ::
  "blacklist \<Rightarrow> instant \<Rightarrow> (nat \<Rightarrow> gw_node \<Rightarrow> gw_node) \<Rightarrow> (ip \<Rightarrow> bool) \<Rightarrow> nat \<Rightarrow> ip list \<Rightarrow> gw \<Rightarrow> ip option \<times> gw" where
  "dial_active bl now others reachable port peers g =
     (case poll_active bl 15 others (gw_node g) of
        (found, n) \<Rightarrow>
          (let g1 = g\<lparr>gw_node := n\<rparr>;
               dial = (\<lambda>a. if connect bl (a @ '':'' @ show_nat port) \<noteq> PermissionDenied \<and> reachable a then Some a else None)
           in case found of
                Some p \<Rightarrow> (dial (ap_ip p), g1)
              | None \<Rightarrow>
                  (case lazy_target bl now peers g1 of
                     (None, g2) \<Rightarrow> (None, g2)
                   | (Some a, g2) \<Rightarrow>
                       (case pin_lazy_active bl a (gw_node g2) of (p, n2) \<Rightarrow> (dial (ap_ip p), g2\<lparr>gw_node := n2\<rparr>)))))"

section \<open>Accepted connections\<close>

definition should_fetch_forward_client_blocks :: "nat \<Rightarrow> bool" where
  "should_fetch_forward_client_blocks port \<longleftrightarrow> port = 4002"

datatype conn_kind = Refused | NoGreeting | BootstrapConn | LiveConn | ClientBlocksConn | GossipConn

text \<open>What an accepted connection becomes: nothing without a peer to serve it from, else by its port, and for 4001 by
  byte 5 of its greeting.\<close>

definition dispatch :: "nat \<Rightarrow> ip list \<Rightarrow> priority_tier \<Rightarrow> rd_ev list \<Rightarrow> conn_kind" where
  "dispatch port peers t reads =
     (if peers = [] \<and> t_peers t = [] then Refused
      else if port = 4001 then
        (case fst (read_exact 8 reads) of
           Inl _ \<Rightarrow> NoGreeting
         | Inr greet \<Rightarrow> if greet ! 5 = 1 then BootstrapConn else LiveConn)
      else if should_fetch_forward_client_blocks port then ClientBlocksConn else GossipConn)"

text \<open>One connection, from the registry's entry to the guard that is dropped at its end.\<close>

record conn_run =
  cn_reads :: "rd_ev list"
  cn_now :: nat
  cn_instant :: instant
  cn_bl :: blacklist
  cn_live :: live_run
  cn_replay :: replay_run
  cn_boot :: boot_run
  cn_wait :: prefetch_wait
  cn_slot :: bool
  cn_fetch :: fetch_run
  cn_freshest :: "u32 option"
  cn_prefetch :: "nat \<times> nat"
  cn_others :: "nat \<Rightarrow> gw_node \<Rightarrow> gw_node"
  cn_reachable :: "ip \<Rightarrow> bool"
  cn_gossip :: "relay_ev list"
  cn_end :: nat

definition run_conn ::
  "(bytes \<Rightarrow> bytes option) \<Rightarrow> (bytes \<Rightarrow> hash64) \<Rightarrow> (io_error \<Rightarrow> string) \<Rightarrow> bool \<Rightarrow> bool \<Rightarrow> conn_run \<Rightarrow> nat \<Rightarrow> ip list \<Rightarrow> gw
     \<Rightarrow> bool \<times> gw" where
  "run_conn D H msg push cache_coldstart run port peers g =
     (case dispatch port peers (gw_tier g) (cn_reads run) of
        Refused \<Rightarrow> (True, g)
      | NoGreeting \<Rightarrow> (True, g)
      | BootstrapConn \<Rightarrow>
          (case handle_4001_bootstrap D H msg cache_coldstart (cn_now run) (cn_replay run) (cn_boot run) peers g of (fin, _, g') \<Rightarrow> (fin, g'))
      | LiveConn \<Rightarrow> (case handle_4001_live D H msg push (cn_live run) peers g of (fin, _, g') \<Rightarrow> (fin, g'))
      | ClientBlocksConn \<Rightarrow>
          (case serve_client_blocks msg peers (cn_reads run) (cn_wait run) (cn_slot run) (cn_fetch run) (cn_freshest run) (cn_instant run)
                  (cn_prefetch run, gw_node g, gw_tier g, gw_rr g) of
             None \<Rightarrow> (False, g)
           | Some (_, _, n, t, rr) \<Rightarrow> (True, g\<lparr>gw_node := n, gw_tier := t, gw_rr := rr\<rparr>))
      | GossipConn \<Rightarrow>
          (case dial_active (cn_bl run) (cn_instant run) (cn_others run) (cn_reachable run) port peers g of
             (None, g') \<Rightarrow> (True, g')
           | (Some _, g') \<Rightarrow> (splice (cn_gossip run) \<noteq> None, g')))"

definition handle_connection ::
  "(bytes \<Rightarrow> bytes option) \<Rightarrow> (bytes \<Rightarrow> hash64) \<Rightarrow> (io_error \<Rightarrow> string) \<Rightarrow> bool \<Rightarrow> bool \<Rightarrow> conn_run \<Rightarrow> nat \<Rightarrow> ip_addr \<Rightarrow> ip list
     \<Rightarrow> prefetch node_registry \<times> gw \<Rightarrow> bool \<times> prefetch node_registry \<times> gw" where
  "handle_connection D H msg push cache_coldstart run port addr pool = (\<lambda>(reg, g).
     case get_or_insert addr (cn_now run) reg of
       (n, reg1) \<Rightarrow>
         (case cooldown_usable pool (cn_instant run) (gw_cooldown g) of
            (peers, cd) \<Rightarrow>
              (case run_conn D H msg push cache_coldstart run port peers (g\<lparr>gw_node := n, gw_cooldown := cd\<rparr>) of
                 (fin, g1) \<Rightarrow>
                   (let n1 = (if fin then node_conn_guard_drop (cn_end run) (gw_node g1) else gw_node g1)
                    in (fin, AList.update addr n1 reg1, g1\<lparr>gw_node := n1\<rparr>)))))"

end
