(* ===== verification/Cache_Disk.thy ===== *)
theory Cache_Disk
  imports Cache_Capture "HOL-Library.Multiset"
begin

text \<open>
  The cache file and the race for it: the file is replaced as a whole or not at all, across failed writes,
  crashes and restarts; a restart sweeps the temporary files and only those; the race of captures keeps to its
  bound and settles once every peer has had its attempt.
\<close>

section \<open>The cache file\<close>

lemma tmp_is_orphan: "is_orphan_tmp stem (tmp_name stem seq)"
  by (simp add: is_orphan_tmp_def tmp_name_def starts_with_def show_nat_digits)

lemma map_of_sweep:
  "map_of (remove_orphan_cache_tmps stem keep d) f =
     (if is_orphan_tmp stem f \<and> \<not> keep f then None else map_of d f)"
  by (induction d) (auto simp: remove_orphan_cache_tmps_def)

lemma persist_file:
  assumes "persist_bootstrap_cache stem name p blob (seq, d) = (ok, seq', d')" and "\<not> is_orphan_tmp stem name"
  shows "map_of d' name = (if ok then Some (pr_now p, blob) else map_of d name)"
  using assms tmp_is_orphan[of stem seq]
  by (auto simp: persist_bootstrap_cache_def Let_def update_conv' delete_conv' split: if_splits option.splits)

lemma persist_others:
  assumes "persist_bootstrap_cache stem name p blob (seq, d) = (ok, seq', d')" and "f \<noteq> name" and "f \<noteq> tmp_name stem seq"
  shows "map_of d' f = map_of d f"
  using assms
  by (auto simp: persist_bootstrap_cache_def Let_def update_conv' delete_conv' split: if_splits option.splits)

text \<open>The life of the cache directory: writers that succeed or fail, and a process that dies with some of the
  temporary file written and starts again, with the sequence back at zero and the sweep done. The ghost value is
  what the last successful writer saved.\<close>

inductive disk_reach :: "string \<Rightarrow> string \<Rightarrow> (nat \<times> bytes) option \<Rightarrow> nat \<times> dir \<Rightarrow> bool" for stem name where
  disk_start: "disk_reach stem name (map_of d name) (0, d)"
| disk_persist: "disk_reach stem name saved (seq, d) \<Longrightarrow>
     persist_bootstrap_cache stem name p blob (seq, d) = (ok, seq', d') \<Longrightarrow>
     disk_reach stem name (if ok then Some (pr_now p, blob) else saved) (seq', d')"
| disk_crash: "disk_reach stem name saved (seq, d) \<Longrightarrow>
     disk_reach stem name saved
       (0, remove_orphan_cache_tmps stem keep (AList.update (tmp_name stem seq) (t, take k blob) d))"

text \<open>Across any number of writers that succeed, fail in the middle or die with the process, and the restarts
  after them, the cache file holds exactly the bytes of the last writer that succeeded; and the sweep of a restart leaves
  no temporary file it could delete.\<close>

lemma cache_file_whole:
  assumes "disk_reach stem name saved (seq, d)" and "\<not> is_orphan_tmp stem name"
  shows "map_of d name = saved \<and> (is_orphan_tmp stem f \<longrightarrow> map_of (remove_orphan_cache_tmps stem (\<lambda>_. False) d) f = None)
    \<and> map_of (remove_orphan_cache_tmps stem (\<lambda>_. False) d) name = saved"
proof -
  have "map_of d name = saved" using assms
  proof (induction "(seq, d)" arbitrary: seq d rule: disk_reach.induct)
    case (disk_persist saved seq d p blob ok seq' d')
    then show ?case using persist_file by fastforce
  next
    case (disk_crash saved seq d keep t k blob)
    then show ?case using tmp_is_orphan[of stem seq] by (auto simp: map_of_sweep update_conv')
  qed simp
  then show ?thesis using assms(2) by (simp add: map_of_sweep)
qed

text \<open>A cache path whose own extension is \<open>tmp\<close> is not such a name: the sweep removes the cache itself.\<close>

lemma tmp_cache_swept:
  "map_of (remove_orphan_cache_tmps stem (\<lambda>_. False) d) (stem @ ''.tmp'') = None"
  by (simp add: map_of_sweep is_orphan_tmp_def starts_with_def)

section \<open>The race of captures\<close>

declare capture_race_loop.simps [simp del]

definition race_ok :: "ip list \<Rightarrow> nat \<Rightarrow> cap_race \<Rightarrow> bool" where
  "race_ok peers k r \<longleftrightarrow> length (rc_set r) \<le> max 1 k \<and> rc_idx r \<le> length peers \<and> mset (rc_set r) \<subseteq># mset (take (rc_idx r) peers)"

lemma race_ok_spawn:
  "race_ok peers k r \<Longrightarrow> length (rc_set r) < max 1 k \<Longrightarrow> rc_idx r < length peers \<Longrightarrow> race_ok peers k (spawn_next peers r)"
  by (auto simp: race_ok_def spawn_next_def take_Suc_conv_app_nth)

lemma race_ok_replace:
  assumes "race_ok peers k r" and a: "a \<in> set (rc_set r)"
  shows "race_ok peers k (replace_attempt peers a r)"
proof -
  have "race_ok peers k (r\<lparr>rc_set := remove1 a (rc_set r)\<rparr>)"
    using assms by (auto simp: race_ok_def length_remove1 intro: subset_mset.order_trans[OF diff_subset_eq_self])
  moreover have "length (remove1 a (rc_set r)) < max 1 k"
    using assms length_pos_if_in_set[OF a] by (auto simp: race_ok_def length_remove1)
  ultimately show ?thesis by (auto simp: replace_attempt_def Let_def intro: race_ok_spawn)
qed

lemma race_ok_hedge:
  "race_ok peers k r \<Longrightarrow>
   race_ok peers k (if length (rc_set r) < k \<and> rc_idx r < length peers then spawn_next peers r else r)"
  by (auto intro: race_ok_spawn)

lemma race_ok_loop:
  "race_ok peers k r \<Longrightarrow> race_ok peers k (snd (capture_race_loop peers k evs r))"
  by (induction peers k evs r rule: capture_race_loop.induct, subst capture_race_loop.simps)
    (auto simp: race_ok_replace race_ok_spawn split: list.split cap_ev.split sum.split)

lemma race_start_ok: "peers \<noteq> [] \<Longrightarrow> race_ok peers k (spawn_next peers \<lparr>rc_set = [], rc_idx = 0\<rparr>)"
  by (rule race_ok_spawn) (simp_all add: race_ok_def)

lemma loop_result:
  assumes "capture_race_loop peers k evs r = (Some res, r')"
  shows "case res of None \<Rightarrow> rc_set r' = [] \<and> length peers \<le> rc_idx r'
      | Some (blob, a) \<Rightarrow> a \<in> set (rc_set r') \<and> CapDone a (Inr blob) \<in> set evs"
  using assms
proof (induction peers k evs r rule: capture_race_loop.induct)
  case (1 peers k evs r)
  show ?case
  proof (cases "rc_set r = [] \<and> length peers \<le> rc_idx r")
    case True
    then show ?thesis using "1.prems" by (auto simp: capture_race_loop.simps[of peers k evs])
  next
    case False
    then obtain ev rest where e: "evs = ev # rest"
      using "1.prems" by (cases evs) (auto simp: capture_race_loop.simps[of peers k "[]"])
    show ?thesis using "1.prems" False "1.IH"[OF False e] e
      by (auto simp: capture_race_loop.simps[of peers k "ev # rest"] split: cap_ev.splits sum.splits if_splits option.splits)
  qed
qed

text \<open>The attempt that an event ends; a run in which every attempt that ends was in flight.\<close>

fun ended :: "cap_ev \<Rightarrow> ip option" where
  "ended (CapDone a _) = Some a"
| "ended (CapPanic a) = Some a"
| "ended CapHedge = None"

definition race_step :: "ip list \<Rightarrow> nat \<Rightarrow> cap_ev \<Rightarrow> cap_race \<Rightarrow> cap_race" where
  "race_step peers k ev r =
     (case ended ev of
        Some a \<Rightarrow> replace_attempt peers a r
      | None \<Rightarrow> if length (rc_set r) < k \<and> rc_idx r < length peers then spawn_next peers r else r)"

fun flight_run :: "ip list \<Rightarrow> nat \<Rightarrow> cap_ev list \<Rightarrow> cap_race \<Rightarrow> bool" where
  "flight_run peers k [] r \<longleftrightarrow> True"
| "flight_run peers k (ev # evs) r \<longleftrightarrow>
     rc_set r = [] \<and> length peers \<le> rc_idx r
     \<or> (case ended ev of Some a \<Rightarrow> a \<in> set (rc_set r) | None \<Rightarrow> True) \<and> flight_run peers k evs (race_step peers k ev r)"

definition endings :: "cap_ev list \<Rightarrow> nat" where
  "endings evs = length (filter (\<lambda>ev. ended ev \<noteq> None) evs)"

definition to_go :: "ip list \<Rightarrow> cap_race \<Rightarrow> nat" where
  "to_go peers r = (length peers - rc_idx r) + length (rc_set r)"

lemma to_go_spawn: "rc_idx r < length peers \<Longrightarrow> to_go peers (spawn_next peers r) = to_go peers r"
  by (simp add: to_go_def spawn_next_def)

lemma to_go_step:
  assumes "case ended ev of Some a \<Rightarrow> a \<in> set (rc_set r) | None \<Rightarrow> True"
  shows "to_go peers (race_step peers k ev r) + endings [ev] = to_go peers r"
proof (cases "ended ev")
  case (Some a)
  let ?r = "r\<lparr>rc_set := remove1 a (rc_set r)\<rparr>"
  have "to_go peers ?r + 1 = to_go peers r"
    using assms Some length_pos_if_in_set[of a "rc_set r"] by (simp add: to_go_def length_remove1)
  then show ?thesis using Some to_go_spawn[of ?r peers]
    by (simp add: race_step_def replace_attempt_def Let_def endings_def)
qed (simp add: race_step_def endings_def to_go_spawn)

lemma loop_settles:
  assumes "flight_run peers k evs r" and "to_go peers r \<le> endings evs"
  shows "fst (capture_race_loop peers k evs r) \<noteq> None"
  using assms
proof (induction evs arbitrary: r)
  case Nil
  then show ?case by (subst capture_race_loop.simps) (simp add: to_go_def endings_def)
next
  case (Cons ev evs)
  show ?case
  proof (cases "rc_set r = [] \<and> length peers \<le> rc_idx r")
    case False
    then have hit: "case ended ev of Some a \<Rightarrow> a \<in> set (rc_set r) | None \<Rightarrow> True"
      and run: "flight_run peers k evs (race_step peers k ev r)" using Cons.prems by auto
    have "endings (ev # evs) = endings [ev] + endings evs" by (simp add: endings_def)
    then have "fst (capture_race_loop peers k evs (race_step peers k ev r)) \<noteq> None"
      using Cons.IH[OF run] Cons.prems(2) to_go_step[OF hit, of peers k] by linarith
    then show ?thesis using False hit
      by (subst capture_race_loop.simps) (auto simp: race_step_def split: cap_ev.splits sum.splits)
  qed (subst capture_race_loop.simps, simp)
qed

lemma to_go_start: "peers \<noteq> [] \<Longrightarrow> to_go peers (spawn_next peers \<lparr>rc_set = [], rc_idx = 0\<rparr>) = length peers"
  by (simp add: to_go_def spawn_next_def Suc_leI)

text \<open>C21. A race of captures always comes to a result: once as many attempts have ended as there are peers, however
  the hedging timer fired in between, it has returned. It returns a blob that one of the peers delivered, or nothing,
  and then only after every peer had an attempt and none is left running; and it never ran more than the permitted
  number of attempts at once (one at least).\<close>
theorem capture_race_settles:
  assumes "flight_run peers k evs (spawn_next peers \<lparr>rc_set = [], rc_idx = 0\<rparr>)" and "length peers \<le> endings evs"
  shows "\<exists>res r. capture_bootstrap_raced peers k evs = (Some res, r) \<and> length (rc_set r) \<le> max 1 k
    \<and> (case res of None \<Rightarrow> rc_idx r = length peers \<and> rc_set r = []
        | Some (blob, a) \<Rightarrow> a \<in> set peers \<and> CapDone a (Inr blob) \<in> set evs)"
proof (cases "peers = []")
  case False
  let ?r0 = "spawn_next peers \<lparr>rc_set = [], rc_idx = 0\<rparr>"
  obtain res r where loop: "capture_race_loop peers k evs ?r0 = (Some res, r)"
    using loop_settles[OF assms(1)] assms(2) to_go_start[OF False] by (cases "capture_race_loop peers k evs ?r0") auto
  have ok: "race_ok peers k r" using race_ok_loop[OF race_start_ok[OF False], of k evs] loop by simp
  then have "set (rc_set r) \<subseteq> set peers"
    by (metis race_ok_def set_mset_mono set_mset_mset set_take_subset subset_trans)
  then show ?thesis using loop_result[OF loop] loop ok False
    by (auto simp: capture_bootstrap_raced_def race_ok_def split: option.splits)
qed (simp add: capture_bootstrap_raced_def)

theorem capture_race_settles_witness:
  "\<exists>res r. capture_bootstrap_raced [''a'', ''b''] 2 [CapHedge, CapPanic ''b'', CapDone ''a'' (Inl TooSlow)] = (Some res, r)"
proof -
  have run: "flight_run [''a'', ''b''] 2 [CapHedge, CapPanic ''b'', CapDone ''a'' (Inl TooSlow)]
      (spawn_next [''a'', ''b''] \<lparr>rc_set = [], rc_idx = 0\<rparr>)"
    by (simp add: race_step_def spawn_next_def replace_attempt_def)
  show ?thesis using capture_race_settles[OF run] by (auto simp: endings_def)
qed

end
