(* ===== verification/Cache_Props.thy ===== *)
theory Cache_Props
  imports Cache_Capture Frames_Props Push_Session_Props
begin

text \<open>
  Properties of the bootstrap cache: only whole, complete bootstraps are installed and they load back from
  disk, a relayed bootstrap is captured, the file on disk is replaced as a whole or not at all, and the
  race of captures is bounded and tries every peer.
\<close>

section \<open>Reads\<close>

lemma read_exact_length: "read_exact n s = (Inr bs, s') \<Longrightarrow> length bs = n"
proof (induction n s arbitrary: bs s' rule: read_exact.induct)
  case (1 n s)
  show ?case
  proof (cases "n = 0")
    case False
    obtain x s1 where x: "read_some n s = (x, s1)" by fastforce
    with "1.prems" False obtain b where b: "x = Inr b" "b \<noteq> []"
      by (cases x) (auto simp: read_exact.simps[of n s] split: if_splits)
    with x "1.prems" False obtain rest s2 where r: "read_exact (n - length b) s1 = (Inr rest, s2)" "bs = b @ rest"
      by (auto simp: read_exact.simps[of n s] split: prod.splits sum.splits)
    have "length b \<le> n" using read_some_progress[of n s b s1] x b by auto
    with 1(1)[OF False x[symmetric] b(1) b(2) r(1)] r(2) show ?thesis by simp
  qed (use "1.prems" in \<open>simp add: read_exact.simps\<close>)
qed

lemma header_complete_length:
  "read_header_or_timeout hdr s = (Inr Complete, h, s') \<Longrightarrow> length hdr \<le> 5 \<Longrightarrow> length h = 5"
proof (induction hdr s rule: read_header_or_timeout.induct)
  case (1 hdr s)
  show ?case
  proof (cases "length hdr < 5")
    case True
    obtain x s1 where x: "read_some (5 - length hdr) s = (x, s1)" by fastforce
    with "1.prems" True obtain b where b: "x = Inr b" "b \<noteq> []"
      by (cases x) (auto simp: read_header_or_timeout.simps[of hdr s] split: list.splits io_error.splits)
    have "length b \<le> 5 - length hdr" using read_some_progress[of _ s b s1] x b by auto
    moreover obtain c cs where cs: "b = c # cs" using b(2) by (cases b) auto
    ultimately show ?thesis
      using 1(1)[OF True x[symmetric] b(1) cs] "1.prems" True x b(1) by (simp add: read_header_or_timeout.simps[of hdr s] cs)
  qed (use "1.prems" in \<open>auto simp: read_header_or_timeout.simps[of hdr s]\<close>)
qed

lemma header_timeout_length:
  "read_header_or_timeout hdr s = (Inr (TimedOut off), h, s') \<Longrightarrow> length h < 5"
proof (induction hdr s rule: read_header_or_timeout.induct)
  case (1 hdr s)
  show ?case
  proof (cases "length hdr < 5")
    case True
    obtain x s1 where x: "read_some (5 - length hdr) s = (x, s1)" by fastforce
    show ?thesis
    proof (cases x)
      case (Inr b)
      with x True "1.prems" obtain c cs where "b = c # cs"
        by (cases b) (auto simp: read_header_or_timeout.simps[of hdr s])
      with 1(1)[OF True x[symmetric] Inr] "1.prems" True x Inr show ?thesis
        by (simp add: read_header_or_timeout.simps[of hdr s])
    qed (use x True "1.prems" in \<open>auto simp: read_header_or_timeout.simps[of hdr s] split: io_error.splits\<close>)
  qed (use "1.prems" in \<open>auto simp: read_header_or_timeout.simps[of hdr s]\<close>)
qed

lemma finish_header_length:
  "finish_header_after_partial hdr s = (Inr h, s') \<Longrightarrow> length hdr \<le> 5 \<Longrightarrow> length h = 5"
proof (induction hdr s rule: finish_header_after_partial.induct)
  case (1 hdr s)
  show ?case
  proof (cases "length hdr < 5")
    case True
    obtain x s1 where x: "read_some (5 - length hdr) (skip_quiet s) = (x, s1)" by fastforce
    with "1.prems" True obtain b where b: "x = Inr b" "b \<noteq> []"
      by (cases x) (auto simp: finish_header_after_partial.simps[of hdr s] split: if_splits)
    have "length b \<le> 5 - length hdr" using read_some_progress[of _ "skip_quiet s" b s1] x b by auto
    with 1(1)[OF True x[symmetric] b] "1.prems" True x b show ?thesis
      by (simp add: finish_header_after_partial.simps[of hdr s])
  qed (use "1.prems" in \<open>auto simp: finish_header_after_partial.simps[of hdr s]\<close>)
qed

section \<open>Frame-aligned captures\<close>

definition aligned :: "bytes \<Rightarrow> nat \<Rightarrow> bool" where
  "aligned b k \<longleftrightarrow> (\<exists>fs. b = encode_frames fs \<and> length fs = k \<and> (\<forall>(t, p) \<in> set fs. length p \<le> MAX_COUNTED_FRAME))"

lemma aligned_Nil: "aligned [] 0"
  by (rule exI[of _ "[]", THEN aligned_def[THEN iffD2]]) simp

lemma aligned_count: "aligned b k \<Longrightarrow> complete_frame_count b = Some k"
  using count_frames_encode[of _ "[]"] by (auto simp: aligned_def complete_frame_count_def)

lemma aligned_snoc:
  assumes "aligned b k" "length hdr = 5" "length p = be_len hdr 0" "length p \<le> MAX_COUNTED_FRAME"
  shows "aligned (b @ hdr @ p) (k + 1)"
proof -
  obtain fs where fs: "b = encode_frames fs" "length fs = k" "\<forall>(t, p) \<in> set fs. length p \<le> MAX_COUNTED_FRAME"
    using assms(1) by (auto simp: aligned_def)
  have be: "be_len (hdr @ p) 0 = be_len hdr 0"
    using assms(2) by (simp add: be_len_def nth_append)
  obtain t q where q: "hdr @ p = encode_frame t q @ drop (5 + be_len hdr 0) (hdr @ p)" "length q = be_len hdr 0"
    using split_frame[of 0 "hdr @ p"] assms(2,3) be by auto
  have "hdr @ p = encode_frame t q"
    using q assms(2,3) by simp
  with fs q(2) assms(3,4) show ?thesis
    unfolding aligned_def by (intro exI[of _ "fs @ [(t, q)]"]) (auto simp: encode_frames_def)
qed

text \<open>A blob a restart would accept.\<close>

definition usable_blob :: "(bytes \<Rightarrow> bytes option) \<Rightarrow> bytes \<Rightarrow> bool" where
  "usable_blob D blob \<longleftrightarrow> (\<exists>k. aligned blob k \<and> complete_bootstrap_at_frame_boundary (length blob) k) \<and> has_live_tail D blob"

lemma usable_loads:
  "usable_blob D blob \<Longrightarrow> is_bootstrap_cache_fresh now t \<Longrightarrow>
     load_bootstrap_cache D now (DiskFile t (length blob) (Some blob)) = Inr (Some (blob, t))"
  by (auto simp: usable_blob_def load_bootstrap_cache_def aligned_count complete_bootstrap_at_frame_boundary_def)

section \<open>The tap\<close>

text \<open>An installed blob is usable and the start of what the node was sent.\<close>

definition sink_ok :: "(bytes \<Rightarrow> bytes option) \<Rightarrow> cache_sink \<Rightarrow> tap \<Rightarrow> bool" where
  "sink_ok D ck s \<longleftrightarrow> tp_sink s = ck \<or> (\<exists>blob rest. ck_blob (tp_sink s) = Some blob \<and> tp_sent s = blob @ rest \<and> usable_blob D blob)"

text \<open>A running capture is all that was sent, and it is whole frames.\<close>

definition capture_ok :: "cache_sink \<Rightarrow> tap \<Rightarrow> bool" where
  "capture_ok ck s \<longleftrightarrow> tp_capture s \<longrightarrow> tp_blob s = tp_sent s \<and> tp_sink s = ck \<and> aligned (tp_blob s) (tp_frames s)"

definition tap_ok :: "(bytes \<Rightarrow> bytes option) \<Rightarrow> cache_sink \<Rightarrow> tap \<Rightarrow> bool" where
  "tap_ok D ck s \<longleftrightarrow> sink_ok D ck s \<and> capture_ok ck s \<and> (\<forall>h q. tp_first s = Some (h, q) \<longrightarrow> length h = 5)"

lemma sink_ok_extend: "sink_ok D ck s \<Longrightarrow> tp_sink s' = tp_sink s \<Longrightarrow> tp_sent s' = tp_sent s @ got \<Longrightarrow> sink_ok D ck s'"
  by (auto simp: sink_ok_def)

lemma tap_ok_new: "length hdr = 5 \<Longrightarrow> tap_ok D ck (tap_new hdr front now ck)"
  by (simp add: tap_ok_def sink_ok_def capture_ok_def tap_new_def aligned_Nil)

lemma tap_ok_drop_slow: "tap_ok D ck s \<Longrightarrow> tap_ok D ck (drop_slow_capture now s)"
  by (auto simp: tap_ok_def sink_ok_def capture_ok_def drop_slow_capture_def)

lemma tap_install_ok:
  assumes "sink_ok D ck s" "capture_ok ck s" "tp_capture s"
    and "complete_bootstrap_at_frame_boundary (length (tp_blob s)) (tp_frames s)"
  shows "sink_ok D ck (tap_install D now s)"
proof (cases "has_live_tail D (tp_blob s)")
  case True
  then have "usable_blob D (tp_blob s)"
    using assms(2-4) by (auto simp: usable_blob_def capture_ok_def)
  with True assms(2,3) show ?thesis
    by (auto simp: sink_ok_def tap_install_def install_bootstrap_cache_def capture_ok_def)
qed (use assms(1) in \<open>auto simp: sink_ok_def tap_install_def install_bootstrap_cache_def\<close>)

lemma sink_ok_fields [simp]:
  "sink_ok D ck (s\<lparr>tp_capture := b\<rparr>) = sink_ok D ck s" "sink_ok D ck (s\<lparr>tp_permit := b\<rparr>) = sink_ok D ck s"
  "sink_ok D ck (s\<lparr>tp_first := f\<rparr>) = sink_ok D ck s" "sink_ok D ck (s\<lparr>tp_slow := n\<rparr>) = sink_ok D ck s"
  "sink_ok D ck (s\<lparr>tp_win := t\<rparr>) = sink_ok D ck s" "sink_ok D ck (s\<lparr>tp_win_bytes := n\<rparr>) = sink_ok D ck s"
  "sink_ok D ck (s\<lparr>tp_frames := n\<rparr>) = sink_ok D ck s" "sink_ok D ck (s\<lparr>tp_blob := b'\<rparr>) = sink_ok D ck s"
  "sink_ok D ck (upstream_gone s) = sink_ok D ck s"
  by (simp_all add: sink_ok_def upstream_gone_def)

lemma tap_header_ok:
  assumes "tap_ok D ck s" "tap_header D i s = (x, s')"
  shows "case x of
     None \<Rightarrow> sink_ok D ck s'
   | Some (hdr, front) \<Rightarrow> length hdr = 5 \<and> tap_ok D ck s' \<and> tp_first s' = None"
proof -
  let ?full = "tp_capture s \<and> complete_bootstrap_at_frame_boundary (length (tp_blob s)) (tp_frames s)"
  let ?in = "tap_install D (ti_unix i) s"
  have ok: "sink_ok D ck s" "capture_ok ck s" using assms(1) by (simp_all add: tap_ok_def)
  show ?thesis
  proof (cases "tp_first s")
    case (Some f)
    obtain h q where f: "f = (h, q)" by (cases f)
    have "x = Some (h, q)" "s' = s\<lparr>tp_first := None\<rparr>"
      using assms(2) Some f by (simp_all add: tap_header_def)
    moreover have "length h = 5" using assms(1) Some f by (simp add: tap_ok_def)
    ultimately show ?thesis using ok by (auto simp: tap_ok_def capture_ok_def)
  next
    case None
    show ?thesis
    proof (cases ?full)
      case True
      then have sin: "sink_ok D ck ?in" using tap_install_ok[OF ok] by blast
      obtain r h rest where r: "read_header_or_timeout [] (ti_hdr i) = (r, h, rest)"
        by (cases "read_header_or_timeout [] (ti_hdr i)") auto
      show ?thesis
      proof (cases r)
        case (Inl e)
        with assms(2) None True r sin show ?thesis by (auto simp: tap_header_def)
      next
        case (Inr c)
        show ?thesis
        proof (cases c)
          case Complete
          have "length h = 5" using header_complete_length[of "[]"] r Inr Complete by simp
          with assms None True r Inr Complete show ?thesis by (auto simp: tap_header_def)
        next
          case (TimedOut off)
          obtain y rest' where y: "finish_header_after_partial h rest = (y, rest')" by fastforce
          have "y = Inr h' \<Longrightarrow> length h' = 5" for h'
            using finish_header_length[of h rest h' rest'] header_timeout_length[of "[]"] r Inr TimedOut y by force
          moreover have "tp_first ?in = None" using None by (simp add: tap_install_def)
          ultimately show ?thesis
            using assms(2) None True r Inr TimedOut y sin
            by (cases y) (auto simp: tap_header_def Let_def tap_ok_def capture_ok_def)
        qed
      qed
    next
      case False
      then show ?thesis
        using assms ok None read_exact_length[of 5 "ti_hdr i"]
        by (cases "read_exact 5 (ti_hdr i)"; cases "fst (read_exact 5 (ti_hdr i))") (auto simp: tap_header_def)
    qed
  qed
qed

declare tap_payload.simps [simp del]

lemma tap_payload_relays:
  "tap_payload n cs s = (r, s') \<Longrightarrow> \<exists>got. (r = TapNext \<longrightarrow> length got = n) \<and> tp_sent s' = tp_sent s @ got \<and>
     (tp_capture s' \<longrightarrow> tp_capture s \<and> tp_blob s' = tp_blob s @ got) \<and> tp_sink s' = tp_sink s \<and>
     tp_frames s' = tp_frames s \<and> tp_first s' = tp_first s"
proof (induction n cs s rule: tap_payload.induct)
  case (1 n cs s)
  show ?case
  proof (cases "n = 0 \<or> cs = []")
    case True
    with "1.prems" show ?thesis
      by (auto simp: tap_payload.simps[of n] intro: exI[of _ "[]"] split: if_splits)
  next
    case False
    then obtain now res w rest where cs: "cs = (now, res, w) # rest" and n: "n \<noteq> 0"
      by (cases cs) auto
    let ?s1 = "drop_slow_capture now s"
    have s1: "tp_sent ?s1 = tp_sent s" "tp_sink ?s1 = tp_sink s" "tp_frames ?s1 = tp_frames s" "tp_first ?s1 = tp_first s"
      "tp_capture ?s1 \<longrightarrow> tp_capture s \<and> tp_blob ?s1 = tp_blob s"
      by (auto simp: drop_slow_capture_def)
    show ?thesis
    proof (cases "\<exists>got. res = Inr got \<and> take (min n TAP_BUFFER) got \<noteq> [] \<and> w")
      case False
      with "1.prems" cs n s1 show ?thesis
        by (auto simp: tap_payload.simps[of n] upstream_gone_def Let_def split: sum.splits if_splits intro!: exI[of _ "[]"])
    next
      case True
      then obtain got bs where got: "res = Inr got" "bs = take (min n TAP_BUFFER) got" "bs \<noteq> []" "w" by blast
      have step: "tap_payload n cs s = tap_payload (n - length bs) rest (relay_bytes bs ?s1)"
        using n got(3,4) unfolding cs got(1) by (subst tap_payload.simps) (simp flip: got(2))
      obtain more where more: "(r = TapNext \<longrightarrow> length more = n - length bs)"
          "tp_sent s' = tp_sent (relay_bytes bs ?s1) @ more"
          "tp_capture s' \<longrightarrow> tp_capture (relay_bytes bs ?s1) \<and> tp_blob s' = tp_blob (relay_bytes bs ?s1) @ more"
          "tp_sink s' = tp_sink (relay_bytes bs ?s1)" "tp_frames s' = tp_frames (relay_bytes bs ?s1)"
          "tp_first s' = tp_first (relay_bytes bs ?s1)"
        using 1(1)[OF n cs refl refl refl got(1) got(2) got(3)] got(4) "1.prems" step by auto
      have "length bs \<le> n" by (simp add: got(2))
      with more s1 show ?thesis
        by (intro exI[of _ "bs @ more"]) (auto simp: relay_bytes_def)
    qed
  qed
qed

lemma tap_after_frame_ok:
  assumes "sink_ok D ck s" "tp_first s = None"
    and "tp_capture s \<Longrightarrow> tp_blob s = tp_sent s \<and> tp_sink s = ck \<and> aligned (tp_blob s) (tp_frames s + 1)"
  shows "tap_ok D ck (tap_after_frame D i len s)"
proof -
  let ?s = "s\<lparr>tp_frames := tp_frames s + 1\<rparr>"
  have c: "capture_ok ck ?s" using assms(3) by (auto simp: capture_ok_def)
  have w: "tap_ok D ck (tap_window D i len ?s)" if cap: "tp_capture s"
  proof -
    let ?w = "?s\<lparr>tp_win_bytes := tp_win_bytes ?s + (5 + len), tp_slow := tp_slow ?s + 1\<rparr>"
    have "capture_ok ck ?w" using c by (auto simp: capture_ok_def)
    with assms(1) cap have "complete_bootstrap_at_frame_boundary (length (tp_blob ?w)) (tp_frames ?w) \<Longrightarrow>
        sink_ok D ck (tap_install D (ti_unix i) ?w)"
      by (intro tap_install_ok) simp_all
    with assms(1,2) c show ?thesis
      by (auto simp: tap_window_def Let_def tap_ok_def capture_ok_def tap_install_def)
  qed
  show ?thesis
    using assms(1,2) c w by (auto simp: tap_after_frame_def Let_def tap_ok_def capture_ok_def)
qed

lemma tap_frame_ok:
  assumes "tap_ok D ck s0" "tp_first s0 = None" "length hdr = 5" "tap_frame D i hdr front s0 = (r, s')"
  shows "if r = TapNext then tap_ok D ck s' else sink_ok D ck s'"
proof -
  let ?len = "be_len hdr 0"
  have ok: "sink_ok D ck s0" "capture_ok ck s0" using assms(1) by (simp_all add: tap_ok_def)
  define s1 where "s1 = (if tp_capture s0 \<and> MAX_BOOTSTRAP_CAPTURE_BYTES < length (tp_blob s0) + 5 + ?len
      then s0\<lparr>tp_blob := [], tp_capture := False\<rparr> else s0)"
  have s1: "sink_ok D ck s1" "capture_ok ck s1" "tp_first s1 = None"
    using ok assms(2) by (auto simp: s1_def capture_ok_def)
  have rel: "sink_ok D ck (relay_bytes bs s)" if "sink_ok D ck s" for bs s
    using that by (rule sink_ok_extend) (simp_all add: relay_bytes_def)
  show ?thesis
  proof (cases "?len \<le> MAX_ABCI_STATE_FRAME \<and> ti_hdr_written i \<and> (front \<noteq> [] \<longrightarrow> length front \<le> ?len \<and> ti_prefix_written i)")
    case False
    with assms(4) ok(1) s1(1) rel show ?thesis
      by (auto simp: tap_frame_def Let_def s1_def[symmetric] split: if_splits)
  next
    case go: True
    let ?s3 = "relay_bytes front (relay_bytes hdr s1)"
    obtain q s4 where q: "tap_payload (?len - length front) (ti_chunks i) ?s3 = (q, s4)" by fastforce
    obtain got where got: "q = TapNext \<longrightarrow> length got = ?len - length front" "tp_sent s4 = tp_sent ?s3 @ got"
        "tp_capture s4 \<longrightarrow> tp_capture ?s3 \<and> tp_blob s4 = tp_blob ?s3 @ got" "tp_sink s4 = tp_sink ?s3"
        "tp_frames s4 = tp_frames ?s3" "tp_first s4 = tp_first ?s3"
      using tap_payload_relays[OF q] by blast
    have s4: "sink_ok D ck s4"
      using rel[OF rel[OF s1(1)]] by (rule sink_ok_extend[OF _ got(4,2)])
    have r: "tap_frame D i hdr front s0 = (case q of TapNext \<Rightarrow> (TapNext, tap_after_frame D i ?len s4) | r \<Rightarrow> (r, s4))"
      using go q by (auto simp: tap_frame_def Let_def s1_def[symmetric] split: tap_out.splits)
    show ?thesis
    proof (cases "q = TapNext")
      case True
      have "aligned (tp_blob s4) (tp_frames s4 + 1) \<and> tp_blob s4 = tp_sent s4 \<and> tp_sink s4 = ck" if "tp_capture s4"
      proof -
        have c: "tp_capture s1" using got(3) that by (simp add: relay_bytes_def)
        have p: "length (front @ got) = ?len" using got(1) True go by (cases "front = []") auto
        have b: "tp_blob s4 = tp_blob s1 @ hdr @ front @ got" using got(3) that c by (simp add: relay_bytes_def)
        have "aligned (tp_blob s1 @ hdr @ (front @ got)) (tp_frames s1 + 1)"
          using s1(2) c p go assms(3) by (intro aligned_snoc) (auto simp: capture_ok_def MAX_ABCI_STATE_FRAME_def MAX_COUNTED_FRAME_def)
        with b got s1(2) c show ?thesis by (auto simp: relay_bytes_def capture_ok_def)
      qed
      then have "tap_ok D ck (tap_after_frame D i ?len s4)"
        using s4 got(6) s1(3) by (intro tap_after_frame_ok) (auto simp: relay_bytes_def)
      with r True assms(4) show ?thesis by simp
    next
      case False
      with r assms(4) s4 show ?thesis by (auto split: tap_out.splits)
    qed
  qed
qed

lemma tap_pass_ok:
  assumes "tap_ok D ck s" "tap_pass D i s = (r, s')"
  shows "if r = TapNext then tap_ok D ck s' else sink_ok D ck s'"
proof -
  define s2 where "s2 = (let s1 = drop_slow_capture (ti_now i) s in if tp_capture s1 then s1 else s1\<lparr>tp_permit := False\<rparr>)"
  have s2: "tap_ok D ck s2"
    using tap_ok_drop_slow[OF assms(1), of "ti_now i"] by (auto simp: s2_def Let_def tap_ok_def capture_ok_def)
  obtain x s3 where x: "tap_header D i s2 = (x, s3)" by fastforce
  note h = tap_header_ok[OF s2 x]
  have "tap_pass D i s = (case x of None \<Rightarrow> (TapEnd, s3) | Some (hdr, front) \<Rightarrow> tap_frame D i hdr front s3)"
    using x by (simp add: tap_pass_def s2_def Let_def split: option.splits)
  with h assms(2) show ?thesis
    by (auto split: option.splits prod.splits dest: tap_frame_ok)
qed

lemma tap_loop_ok: "tap_ok D ck s \<Longrightarrow> tap_loop D is s = (r, s') \<Longrightarrow> sink_ok D ck s'"
proof (induction D "is" s rule: tap_loop.induct)
  case (2 D i "is" s)
  obtain q s1 where q: "tap_pass D i s = (q, s1)" by fastforce
  from tap_pass_ok[OF "2.prems"(1) q] 2 q show ?case
    by (cases q) auto
qed (simp add: tap_ok_def)

section \<open>The background capture\<close>

declare read_large.simps [simp del]

lemma read_large_length: "read_large len started cs got = Some (Inr p) \<Longrightarrow> length got \<le> len \<Longrightarrow> length p = len"
proof (induction len started cs got rule: read_large.induct)
  case (1 len started cs got)
  show ?case
  proof (cases "len \<le> length got \<or> cs = []")
    case True
    with "1.prems" show ?thesis by (auto simp: read_large.simps[of len] split: if_splits)
  next
    case False
    then obtain res now rest where cs: "cs = (res, now) # rest" by (cases cs) auto
    define more where "more = (case res of Inr bs \<Rightarrow> take (len - length got) bs | Inl _ \<Rightarrow> [])"
    have m: "more \<noteq> []" "\<not> (from_secs 4 < now - started \<and> slower_than (length (got @ more)) (now - started) MIN_BOOTSTRAP_RATE_BYTES_PER_SEC)"
      and rec: "read_large len started rest (got @ more) = Some (Inr p)"
      using "1.prems"(1) False unfolding cs
      by (auto simp: read_large.simps[of len started "(res, now) # rest"] Let_def more_def[symmetric] split: if_splits)
    have "length (got @ more) \<le> len"
      using "1.prems"(2) by (cases res) (auto simp: more_def)
    then show ?thesis
      using 1(1)[OF _ cs refl more_def refl m rec] False by simp
  qed
qed

lemma capture_payload_length: "capture_payload i len = Some (Inr p) \<Longrightarrow> length p = len"
  by (auto simp: capture_payload_def read_large_length split: if_splits prod.splits sum.splits dest: read_exact_length)

lemma capture_pass_ok:
  assumes "aligned (cp_blob s) (cp_frames s)" "capture_pass i s = (r, s')"
  shows "aligned (cp_blob s') (cp_frames s')"
    and "r = Some (Inr blob) \<Longrightarrow> \<exists>k. aligned blob k \<and> complete_bootstrap_at_frame_boundary (length blob) k"
proof -
  have app: "aligned (cp_blob (snd (capture_append i hdr p s))) (cp_frames (snd (capture_append i hdr p s))) \<and>
      (fst (capture_append i hdr p s) = Some (Inr b) \<longrightarrow> (\<exists>k. aligned b k \<and> complete_bootstrap_at_frame_boundary (length b) k))"
    if "length hdr = 5" "length p = be_len hdr 0" "length p \<le> MAX_COUNTED_FRAME" for hdr p b
  proof -
    have a: "aligned (cp_blob s @ hdr @ p) (cp_frames s + 1)" by (rule aligned_snoc[OF assms(1) that])
    then show ?thesis by (auto simp: capture_append_def capture_window_def Let_def)
  qed
  obtain x rest where x: "read_exact 5 (ci_hdr i) = (x, rest)" by fastforce
  have "aligned (cp_blob s') (cp_frames s') \<and>
      (r = Some (Inr blob) \<longrightarrow> (\<exists>k. aligned blob k \<and> complete_bootstrap_at_frame_boundary (length blob) k))"
  proof (cases x)
    case (Inl e)
    with assms x show ?thesis by (auto simp: capture_pass_def split: if_splits)
  next
    case (Inr hdr)
    have l: "length hdr = 5" using read_exact_length[of 5] x Inr by simp
    show ?thesis
    proof (cases "\<exists>p. be_len hdr 0 \<le> MAX_ABCI_STATE_FRAME \<and> capture_payload i (be_len hdr 0) = Some (Inr p) \<and>
        (r, s') = capture_append i hdr p s")
      case True
      then obtain p where p: "be_len hdr 0 \<le> MAX_ABCI_STATE_FRAME" "capture_payload i (be_len hdr 0) = Some (Inr p)"
        "(r, s') = capture_append i hdr p s" by blast
      with app[OF l, of p blob] capture_payload_length[OF p(2)] show ?thesis
        by (cases "capture_append i hdr p s") (auto simp: MAX_ABCI_STATE_FRAME_def MAX_COUNTED_FRAME_def)
    next
      case False
      with assms x Inr show ?thesis
        by (auto simp: capture_pass_def Let_def not_less split: if_splits option.splits sum.splits)
    qed
  qed
  then show "aligned (cp_blob s') (cp_frames s')"
    and "r = Some (Inr blob) \<Longrightarrow> \<exists>k. aligned blob k \<and> complete_bootstrap_at_frame_boundary (length blob) k" by blast+
qed

lemma capture_loop_complete:
  "aligned (cp_blob s) (cp_frames s) \<Longrightarrow> capture_loop is s = Some (Inr blob) \<Longrightarrow>
     \<exists>k. aligned blob k \<and> complete_bootstrap_at_frame_boundary (length blob) k"
proof (induction "is" s rule: capture_loop.induct)
  case (2 i "is" s)
  obtain r s' where r: "capture_pass i s = (r, s')" by fastforce
  from 2 r capture_pass_ok[OF "2.prems"(1) r] show ?case
    by (cases r) auto
qed simp

lemma aligned_capture_new: "aligned (cp_blob (capture_new now)) (cp_frames (capture_new now))"
  by (simp add: capture_new_def aligned_Nil)

section \<open>What the cache holds\<close>

text \<open>A blob enters the cache by the tap of a relayed bootstrap or by a background capture.\<close>

inductive cached :: "(bytes \<Rightarrow> bytes option) \<Rightarrow> bytes \<Rightarrow> bool" for D where
  cached_tap: "tap_loop D is (tap_new hdr front now ck) = (r, s) \<Longrightarrow> length hdr = 5 \<Longrightarrow> tp_sink s \<noteq> ck \<Longrightarrow>
     ck_blob (tp_sink s) = Some blob \<Longrightarrow> cached D blob"
| cached_refresh: "fetch_bootstrap bl up dialed now is = Some (Inr blob) \<Longrightarrow>
     install_bootstrap_cache D t blob ck = ck' \<Longrightarrow> ck' \<noteq> ck \<Longrightarrow> ck_blob ck' = Some b \<Longrightarrow> cached D b"

lemma cached_usable: "cached D blob \<Longrightarrow> usable_blob D blob"
proof (induction rule: cached.induct)
  case (cached_tap "is" hdr front now ck r s blob)
  from tap_loop_ok[OF tap_ok_new[OF cached_tap(2)] cached_tap(1)] cached_tap(3,4) show ?case
    by (auto simp: sink_ok_def)
next
  case (cached_refresh bl up dialed now "is" blob t ck ck' b)
  have "\<exists>k. aligned blob k \<and> complete_bootstrap_at_frame_boundary (length blob) k"
    using cached_refresh(1) capture_loop_complete[OF aligned_capture_new]
    by (auto simp: fetch_bootstrap_def split: if_splits)
  with cached_refresh(2-4) show ?case
    by (auto simp: install_bootstrap_cache_def usable_blob_def split: if_splits)
qed

text \<open>Nothing half-captured is ever cached: whatever the upstreams send and wherever they stop, a blob that
  enters the cache is a whole number of frames, large enough and with a live tail, so that it loads again.\<close>

lemma cached_loads:
  "cached D blob \<Longrightarrow> is_bootstrap_cache_fresh now t \<Longrightarrow>
     load_bootstrap_cache D now (DiskFile t (length blob) (Some blob)) = Inr (Some (blob, t))"
  by (rule usable_loads[OF cached_usable])

section \<open>A whole capture\<close>

text \<open>A fast server: each frame arrives at once, and then the stream ends.\<close>

definition fast_in :: "instant \<Rightarrow> u8 \<times> bytes \<Rightarrow> capture_in" where
  "fast_in now = (\<lambda>(t, p). \<lparr>ci_hdr = [Chunk (take 5 (encode_frame t p))], ci_payload = [Chunk p],
     ci_started = now, ci_chunks = [], ci_after = now\<rparr>)"

definition closed_in :: "instant \<Rightarrow> capture_in" where
  "closed_in now = \<lparr>ci_hdr = [Eof], ci_payload = [], ci_started = now, ci_chunks = [], ci_after = now\<rparr>"

lemma read_exact_chunk: "\<exists>s'. read_exact (length b) [Chunk b] = (Inr b, s')"
  using read_exact_busy[of "[Chunk b]" "length b"] by (auto simp: busy_def live_def)

lemma encode_frame_split: "encode_frame t p = take 5 (encode_frame t p) @ p"
  by (simp add: encode_frame_def)

lemma be_len_header: "length p < 2 ^ 32 \<Longrightarrow> be_len (take 5 (encode_frame t p)) 0 = length p"
  using be_len_encode[of p "[]" t "[]"] by (simp add: be_len_def)

lemma capture_pass_fast:
  assumes "length p \<le> 50000000" "cp_first s \<longrightarrow> 4000000 < length p" "cp_t0 s = now" "cp_win s = now"
    and "length (cp_blob s) + 5 + length p \<le> MAX_BOOTSTRAP_CAPTURE_BYTES"
  shows "capture_pass (fast_in now (t, p)) s = (None, s\<lparr>cp_blob := cp_blob s @ encode_frame t p, cp_frames := cp_frames s + 1,
     cp_first := False, cp_win_bytes := cp_win_bytes s + (5 + length p)\<rparr>)"
proof -
  let ?h = "take 5 (encode_frame t p)"
  have l: "length ?h = 5" by simp
  obtain s1 where h: "read_exact 5 [Chunk ?h] = (Inr ?h, s1)"
    using read_exact_chunk[of ?h] unfolding l by blast
  obtain s2 where q: "read_exact (length p) [Chunk p] = (Inr p, s2)"
    using read_exact_chunk by blast
  have b: "be_len ?h 0 = length p" using assms(1) by (intro be_len_header) simp
  have "capture_payload (fast_in now (t, p)) (length p) = Some (Inr p)"
    using assms(1) q by (simp add: capture_payload_def fast_in_def)
  then have "capture_pass (fast_in now (t, p)) s = capture_append (fast_in now (t, p)) ?h p s"
    using assms h b by (auto simp: capture_pass_def fast_in_def MAX_ABCI_STATE_FRAME_def Let_def)
  then show ?thesis
    using assms(3-5) by (simp add: capture_append_def capture_window_def fast_in_def slower_than_def from_millis_def
        encode_frame_split[of t p, symmetric] l add.assoc)
qed

lemma capture_loop_fast:
  "\<forall>(t, p) \<in> set fs. length p \<le> 50000000 \<Longrightarrow> cp_first s \<longrightarrow> (\<exists>t p gs. fs = (t, p) # gs \<and> 4000000 < length p) \<Longrightarrow>
     cp_t0 s = now \<Longrightarrow> cp_win s = now \<Longrightarrow> length (cp_blob s) + length (encode_frames fs) \<le> MAX_BOOTSTRAP_CAPTURE_BYTES \<Longrightarrow>
     complete_bootstrap_at_frame_boundary (length (cp_blob s) + length (encode_frames fs)) (cp_frames s + length fs) \<Longrightarrow>
     capture_loop (map (fast_in now) fs @ [closed_in now]) s = Some (Inr (cp_blob s @ encode_frames fs))"
proof (induction fs arbitrary: s)
  case Nil
  then show ?case
    by (simp add: capture_pass_def closed_in_def read_exact.simps)
next
  case (Cons f fs)
  obtain t p where f: "f = (t, p)" by (cases f)
  let ?s = "s\<lparr>cp_blob := cp_blob s @ encode_frame t p, cp_frames := cp_frames s + 1,
     cp_first := False, cp_win_bytes := cp_win_bytes s + (5 + length p)\<rparr>"
  have "capture_pass (fast_in now (t, p)) s = (None, ?s)"
    using Cons.prems f by (intro capture_pass_fast) auto
  moreover have "capture_loop (map (fast_in now) fs @ [closed_in now]) ?s = Some (Inr (cp_blob ?s @ encode_frames fs))"
    using Cons.prems f by (intro Cons.IH) (simp_all add: add.assoc)
  ultimately show ?case using f by simp
qed

definition frame_rounds :: "(bytes \<Rightarrow> bytes option) \<Rightarrow> u8 \<times> bytes \<Rightarrow> u32 list" where
  "frame_rounds D = (\<lambda>(t, p).
     if t = 1 \<and> length p \<le> MAX_LIVE_FRAME then
       (case block_round D p of Some r \<Rightarrow> if is_plausible_mainnet_round r 0 then [r] else [] | None \<Rightarrow> [])
     else [])"

lemma rounds_encode:
  "\<forall>(t, p) \<in> set fs. length p < 2 ^ 32 \<Longrightarrow>
     rounds_in_frames D (pre @ encode_frames fs) (length pre) = concat (map (frame_rounds D) fs)"
proof (induction fs arbitrary: pre)
  case Nil
  then show ?case by (simp add: rounds_in_frames.simps)
next
  case (Cons f fs)
  obtain t p where f: "f = (t, p)" by (cases f)
  let ?b = "pre @ encode_frame t p @ encode_frames fs"
  have len: "be_len ?b (length pre) = length p"
    using Cons.prems f by (intro be_len_encode) simp
  have ty: "(encode_frame t p @ encode_frames fs) ! 4 = t"
    by (simp add: nth_append)
  have pay: "take (length p) (drop (length pre + 5) ?b) = p"
    using encode_frame_parts(2)[of t p] by simp
  have "rounds_in_frames D ?b (length pre) = frame_rounds D (t, p) @ rounds_in_frames D ?b (length pre + 5 + length p)"
    by (subst rounds_in_frames.simps) (simp add: len ty pay frame_rounds_def Let_def)
  also have "\<dots> = frame_rounds D (t, p) @ concat (map (frame_rounds D) fs)"
    using Cons.IH[of "pre @ encode_frame t p"] Cons.prems f by (simp add: ac_simps)
  finally show ?case using f by simp
qed

text \<open>A bootstrap of 5.6 GB that ends in four live blocks.\<close>

definition sample_frames :: "(u8 \<times> bytes) list" where
  "sample_frames = (2, replicate 5000000 0) # replicate 4000 (2, replicate 1400000 0)
     @ [(1, drop 5 (live_frame 2)), (1, drop 5 (live_frame 3)), (1, drop 5 (live_frame 2)), (1, drop 5 (live_frame 3))]"

lemma sample_frames_size: "length (encode_frames sample_frames) = 5605020109"
  by (simp add: encode_frames_def sample_frames_def length_concat comp_def live_frame_shape sum_list_replicate)

lemma frame_rounds_bulk: "frame_rounds D (2, p) = []"
  by (simp add: frame_rounds_def)

lemma live_payload_rounds:
  "frame_rounds D (1, drop 5 (live_frame 2)) = [1500000002]" "frame_rounds D (1, drop 5 (live_frame 3)) = [1500000003]"
  using live_frame_round[of D]
  by (simp_all add: frame_rounds_def frame_round_def live_frame_shape MAX_LIVE_FRAME_def is_plausible_mainnet_round_def round_consts)

lemma sample_live_tail: "has_live_tail D (encode_frames sample_frames)"
proof -
  have "rounds_in_frames D (encode_frames sample_frames) 0 = concat (map (frame_rounds D) sample_frames)"
    using rounds_encode[of sample_frames D "[]"] by (simp add: sample_frames_def live_frame_shape)
  also have "\<dots> = [1500000002, 1500000003, 1500000002, 1500000003]"
    by (simp add: sample_frames_def live_payload_rounds frame_rounds_bulk)
  finally show ?thesis
    by (simp add: has_live_tail_def max_block_round_in_frames_def max_clustered_round_def best_round_cluster_def
        MIN_ROUND_CLUSTER_def MAX_ROUND_CLUSTER_GAP_def cluster_step_def saturating_sub_def upt_rec Let_def)
qed

lemma sample_cached: "cached D (encode_frames sample_frames)"
proof -
  have "capture_loop (map (fast_in 0) sample_frames @ [closed_in 0]) (capture_new 0)
      = Some (Inr (cp_blob (capture_new 0) @ encode_frames sample_frames))"
    by (rule capture_loop_fast)
      (simp_all add: capture_new_def sample_frames_size MAX_BOOTSTRAP_CAPTURE_BYTES_def
        complete_bootstrap_at_frame_boundary_def MIN_COMPLETE_BOOTSTRAP_BYTES_def MIN_COMPLETE_BOOTSTRAP_FRAMES_def,
       simp_all add: sample_frames_def live_frame_shape)
  then have f: "fetch_bootstrap blacklist_init ''192.0.2.1:4001'' True 0 (map (fast_in 0) sample_frames @ [closed_in 0])
      = Some (Inr (encode_frames sample_frames))"
    by (simp add: fetch_bootstrap_def connect_def bl_contains_def blacklist_init_def capture_new_def)
  let ?ck = "\<lparr>ck_blob = None, ck_cached_at = 0, ck_disk = False, ck_jobs = []\<rparr>"
  show ?thesis
    by (rule cached_refresh[OF f refl, of D 7 ?ck])
      (simp_all add: install_bootstrap_cache_def sample_live_tail)
qed

end
