(* ===== verification/Gateway_Main_Props.thy ===== *)
theory Gateway_Main_Props
  imports Gateway_Main Cache_Disk Cache_Props Priority_Props
begin

text \<open>
  The background tasks of the gateway: the network tip follows the published readings and is given up when they stop,
  the pool never holds a listed or a priority address, the capture task is paced and stays off the priority tier, and a
  restart takes up the last blob that was written.
\<close>

section \<open>The network tip\<close>

definition reading :: "pool_in \<Rightarrow> u32 option" where
  "reading i = fresh_peer_file_tip (pi_age i) (pi_contents i)"

text \<open>The last reading of a run and when it was taken; the tip and time it began with if there was none.\<close>

definition last_reading :: "pool_in list \<Rightarrow> u32 \<times> instant \<Rightarrow> u32 \<times> instant" where
  "last_reading is s0 = fold (\<lambda>i s. case reading i of Some tip \<Rightarrow> (tip, pi_now i) | None \<Rightarrow> s) is s0"

lemma refresh_pool_tip:
  "pl_tip (refresh_pool t i s) =
     (case reading i of Some tip \<Rightarrow> tip | None \<Rightarrow> if PEER_FILE_TIP_MAX_AGE < pi_now i - pl_last_fresh s then 0 else pl_tip s)"
  "pl_last_fresh (refresh_pool t i s) = (case reading i of Some _ \<Rightarrow> pi_now i | None \<Rightarrow> pl_last_fresh s)"
  by (auto simp: refresh_pool_def next_net_tip_def reading_def Let_def split: option.splits)

lemma tip_run:
  assumes "sorted (map pi_now is)" "s' = fold (refresh_pool t) is s"
  shows "pl_last_fresh s' = snd (last_reading is (pl_tip s, pl_last_fresh s)) \<and>
    (is \<noteq> [] \<longrightarrow> pl_tip s' = (if pi_now (last is) - snd (last_reading is (pl_tip s, pl_last_fresh s)) \<le> PEER_FILE_TIP_MAX_AGE
       then fst (last_reading is (pl_tip s, pl_last_fresh s)) else 0))"
  using assms
proof (induction "is" arbitrary: s' rule: rev_induct)
  case (snoc i "is")
  let ?s1 = "fold (refresh_pool t) is s" and ?l = "last_reading is (pl_tip s, pl_last_fresh s)"
  have IH: "pl_last_fresh ?s1 = snd ?l" "is \<noteq> [] \<longrightarrow> pl_tip ?s1 = (if pi_now (last is) - snd ?l \<le> PEER_FILE_TIP_MAX_AGE then fst ?l else 0)"
    using snoc by (auto simp: sorted_append)
  have mono: "is \<noteq> [] \<Longrightarrow> pi_now (last is) \<le> pi_now i" using snoc.prems(1) by (simp add: sorted_append)
  have l: "last_reading (is @ [i]) (pl_tip s, pl_last_fresh s) = (case reading i of Some tip \<Rightarrow> (tip, pi_now i) | None \<Rightarrow> ?l)"
    by (simp add: last_reading_def split: option.split)
  show ?case
  proof (cases "reading i")
    case None
    have "pl_tip (refresh_pool t i ?s1) = (if pi_now i - snd ?l \<le> PEER_FILE_TIP_MAX_AGE then fst ?l else 0)"
    proof (cases "is = []")
      case True
      then show ?thesis using IH(1) None by (simp add: refresh_pool_tip last_reading_def)
    next
      case False
      then have "pi_now (last is) - snd ?l \<le> pi_now i - snd ?l" using mono by (simp add: diff_le_mono)
      then show ?thesis using IH None False by (simp add: refresh_pool_tip)
    qed
    then show ?thesis using IH(1) None l snoc.prems(2) by (simp add: refresh_pool_tip)
  qed (use l snoc.prems(2) in \<open>simp add: refresh_pool_tip\<close>)
qed (simp add: last_reading_def)

text \<open>C29. After any passes of the refresher the network tip is the last reading that was published fresh, for as long as
  that is at most fifteen minutes old, and 0 (unknown) once it is older: a publisher that stops is never trusted longer,
  and one bad reading lasts until the next. No other task writes the tip: the cache scans that a comment at its
  declaration says may raise it do not exist.\<close>
theorem net_tip_follows_readings:
  assumes "sorted (map pi_now (is @ [i]))"
  shows "pl_tip (fold (refresh_pool t) (is @ [i]) s) =
    (let l = last_reading (is @ [i]) (pl_tip s, pl_last_fresh s)
     in if pi_now i - snd l \<le> from_secs 900 then fst l else 0)"
  using tip_run[OF assms refl, of t s] by (simp add: Let_def PEER_FILE_TIP_MAX_AGE_def)

definition sample_read :: "string option \<Rightarrow> nat \<Rightarrow> pool_in" where
  "sample_read c at = \<lparr>pi_env = None, pi_list = None, pi_files = [], pi_age = Some 0, pi_contents = c, pi_now = from_secs at\<rparr>"

theorem net_tip_follows_readings_witness:
  "pl_tip (fold (refresh_pool (priority_new [] 0 0 Fallback)) ([sample_read (Some (round_tip_key @ show_nat (unat (1500000000 :: u32)))) 30, sample_read None 60] @ [sample_read None 931])
     \<lparr>pl_bl = blacklist_init, pl_pool = [], pl_tip = 7, pl_last_fresh = 0\<rparr>) = 0"
proof -
  have tw: "takeWhile is_digit (show_nat n) = show_nat n" for n
    using show_nat_digits[of n] by (simp add: takeWhile_eq_all_conv list_all_iff)
  have "extract_round_tip (round_tip_key @ show_nat (unat r)) = Some r" for r
    using find_str_here[of round_tip_key] unat_u32_lt[of r] by (simp add: extract_round_tip_def tw parse_show_nat)
  from this[of 1500000000] show ?thesis
    by (subst net_tip_follows_readings)
      (simp_all add: sample_read_def last_reading_def reading_def fresh_peer_file_tip_def PEER_FILE_TIP_MAX_AGE_def from_secs_def Let_def)
qed

section \<open>The pool\<close>

definition clean :: "priority_tier \<Rightarrow> pool_state \<Rightarrow> bool" where
  "clean t s \<longleftrightarrow> (\<forall>a \<in> set (pl_pool s). \<not> tier_contains t a)"

lemma read_pool_set: "a \<in> set (read_pool bl t files) \<Longrightarrow> \<not> bl_contains bl a \<and> \<not> tier_contains t a"
  by (auto simp: read_pool_def bl_filtered_def strip_def bl_contains_def tier_contains_iff split: if_splits)

lemma refresh_pool_set:
  assumes "clean t s" "a \<in> set (pl_pool (refresh_pool t i s))"
  shows "\<not> bl_contains (pl_bl (refresh_pool t i s)) a \<and> \<not> tier_contains t a"
  using assms read_pool_set[of a "snd (reload (pi_env i) (pi_list i) (pl_bl s))" t "pi_files i"]
  by (auto simp: refresh_pool_def clean_def Let_def split: if_splits)

lemma refresh_pool_clean: "clean t s \<Longrightarrow> clean t (fold (refresh_pool t) is s)"
  by (induction "is" arbitrary: s) (auto simp: clean_def dest: refresh_pool_set[unfolded clean_def])

section \<open>The background capture\<close>

lemma rotated_window:
  assumes "distinct full" "k \<le> length full"
  shows "distinct (map (\<lambda>j. full ! ((off + j) mod length full)) [0..<k])"
proof -
  have "inj_on (\<lambda>j. full ! ((off + j) mod length full)) (set [0..<k])"
    by (rule inj_onI, rule nth_rotate_inj[OF assms(1)]) (use assms(2) in auto)
  then show ?thesis by (simp add: distinct_map)
qed

lemma capture_peers_window:
  assumes "distinct full"
  shows "distinct (capture_peers f n c full)" "set (capture_peers f n c full) \<subseteq> set full" "length (capture_peers f n c full) \<le> 64"
  using rotated_window[OF assms] by (auto simp: capture_peers_def Let_def)

text \<open>Whom a pass may capture from: never a priority peer; a peer of the pool, and while there is no fresh cache also one
  of the candidate files that is not listed.\<close>

definition capture_source :: "refresh_in \<Rightarrow> bool \<Rightarrow> ip \<Rightarrow> bool" where
  "capture_source i have_fresh a \<longleftrightarrow> \<not> tier_contains (ri_tier i) a \<and>
     (a \<in> set (ri_pool i) \<or> a \<in> set (read_node_peers (ri_files i)) \<and> \<not> bl_contains (ri_bl i) a \<and> \<not> have_fresh)"

lemma fold_adds: "set (fold (\<lambda>a out. if a \<in> set out then out else out @ [a]) as bs) = set bs \<union> set as"
  by (induction as arbitrary: bs) auto

lemma capture_sources:
  assumes "a \<in> set (capture_peers f n c (strip (ri_tier i) (bootstrap_capture_peers (ri_bl i) (ri_files i) (ri_pool i) (\<not> hf))))"
  shows "capture_source i hf a"
proof -
  have "set (capture_peers f n c full) \<subseteq> set full" for full by (auto simp: capture_peers_def Let_def)
  then have "a \<in> set (bootstrap_capture_peers (ri_bl i) (ri_files i) (ri_pool i) (\<not> hf))" "\<not> tier_contains (ri_tier i) a"
    using assms by (fastforce simp: strip_def tier_contains_iff split: if_splits)+
  then show ?thesis
    by (auto simp: capture_source_def bootstrap_capture_peers_def fold_adds bl_filtered_def bl_contains_def split: if_splits)
qed

lemma raced_delivers:
  assumes "fst (capture_bootstrap_raced peers k evs) = Some (Some (blob, a))"
  shows "a \<in> set peers \<and> CapDone a (Inr blob) \<in> set evs"
proof -
  let ?r0 = "spawn_next peers \<lparr>rc_set = [], rc_idx = 0\<rparr>"
  have ne: "peers \<noteq> []" using assms by (auto simp: capture_bootstrap_raced_def)
  then obtain r where loop: "capture_race_loop peers k evs ?r0 = (Some (Some (blob, a)), r)"
    using assms by (cases "capture_race_loop peers k evs ?r0") (auto simp: capture_bootstrap_raced_def)
  have "race_ok peers k r" using race_ok_loop[OF race_start_ok[OF ne], of k evs] loop by simp
  then have "set (rc_set r) \<subseteq> set peers"
    by (metis race_ok_def set_mset_mono set_mset_mset set_take_subset subset_trans)
  then show ?thesis using loop_result[OF loop] by auto
qed

lemma failed_delay: "1 \<le> fst (refresh_failed hf ca i r) \<and> fst (refresh_failed hf ca i r) \<le> 600"
  by (auto simp: refresh_failed_def failed_capture_delay_def fresh_cache_retry_delay_secs_def CACHE_REFRESH_RETRY_SECS_def Let_def)

lemma refresh_pass_cases:
  assumes "refresh_pass D i r = (secs, r')"
  shows "1 \<le> secs \<and> secs \<le> 600 \<and>
    (ck_blob (rf_sink r') = None
     \<or> rf_sink r' = rf_sink r \<and> is_bootstrap_cache_fresh (ri_now i) (ck_cached_at (rf_sink r'))
     \<or> (\<exists>a blob. CapDone a (Inr blob) \<in> set (ri_race i) \<and> has_live_tail D blob
          \<and> capture_source i (ck_blob (rf_sink r) \<noteq> None \<and> is_bootstrap_cache_fresh (ri_now i) (ck_cached_at (rf_sink r))) a
          \<and> ck_blob (rf_sink r') = Some blob \<and> ck_cached_at (rf_sink r') = ri_done i))"
proof -
  let ?ck = "rf_sink r"
  define hf where "hf = (ck_blob ?ck \<noteq> None \<and> is_bootstrap_cache_fresh (ri_now i) (ck_cached_at ?ck))"
  define r1 where "r1 = (if hf then r else r\<lparr>rf_sink := ?ck\<lparr>ck_blob := None\<rparr>\<rparr>)"
  let ?old = "ck_blob (rf_sink r') = None \<or> rf_sink r' = rf_sink r \<and> is_bootstrap_cache_fresh (ri_now i) (ck_cached_at (rf_sink r'))"
  have eq: "refresh_pass D i r =
      (if hf \<and> ri_now i < ck_cached_at ?ck + CACHE_REFRESH_SECS
       then (min (ck_cached_at ?ck + CACHE_REFRESH_SECS - ri_now i) CACHE_REFRESH_RETRY_SECS, r1)
       else if hf \<and> should_delay_cache_refresh_for_live_pool (ri_now i) (ck_cached_at ?ck) (length (ri_pool i))
       then (fresh_cache_retry_delay_secs (ri_now i) (ck_cached_at ?ck), r1)
       else refresh_attempt D hf (ck_cached_at ?ck) i r1)"
    unfolding refresh_pass_def Let_def hf_def r1_def by (rule refl)
  have keep: "?old" if "rf_sink r' = rf_sink r1" using that by (auto simp: r1_def hf_def)
  show ?thesis
  proof (cases "refresh_pass D i r = refresh_attempt D hf (ck_cached_at ?ck) i r1")
    case False
    then have "rf_sink r' = rf_sink r1" "1 \<le> secs" "secs \<le> 600"
      using assms eq by (auto simp: CACHE_REFRESH_RETRY_SECS_def fresh_cache_retry_delay_secs_def Let_def split: if_splits)
    then show ?thesis using keep by blast
  next
    case True
    let ?peers = "capture_peers hf (rf_fails r1) (rf_cycle r1)
      (strip (ri_tier i) (bootstrap_capture_peers (ri_bl i) (ri_files i) (ri_pool i) (\<not> hf)))"
    let ?limit = "if hf then FRESH_CACHE_REFRESH_MAX_INFLIGHT else COLD_CACHE_REFRESH_MAX_INFLIGHT"
    let ?race = "fst (capture_bootstrap_raced ?peers ?limit (ri_race i))"
    have failed: ?thesis if "refresh_failed hf (ck_cached_at ?ck) i (r1\<lparr>rf_cycle := rf_cycle r1 + 1\<rparr>) = (secs, r')"
      using that failed_delay[of hf "ck_cached_at ?ck" i "r1\<lparr>rf_cycle := rf_cycle r1 + 1\<rparr>"] keep
      by (auto simp: refresh_failed_def Let_def split: if_splits)
    show ?thesis
    proof (cases "\<exists>blob a. ?race = Some (Some (blob, a)) \<and> has_live_tail D blob")
      case got: True
      then obtain blob a where b: "?race = Some (Some (blob, a))" "has_live_tail D blob" by blast
      have "CapDone a (Inr blob) \<in> set (ri_race i)" "capture_source i hf a"
        using raced_delivers[OF b(1)] capture_sources by blast+
      moreover have "secs = CACHE_REFRESH_SECS" "rf_sink r' = install_bootstrap_cache D (ri_done i) blob (rf_sink r1)"
        using assms True b by (auto simp: refresh_attempt_def Let_def)
      ultimately show ?thesis using b(2) by (auto simp: install_bootstrap_cache_def CACHE_REFRESH_SECS_def hf_def)
    next
      case no: False
      then show ?thesis using assms True failed by (auto simp: refresh_attempt_def Let_def split: option.splits if_splits prod.splits)
    qed
  qed
qed

text \<open>C28. The background capture is paced, leaves the priority tier alone, and never serves a stale blob. Each pass is
  followed by a sleep of one second to ten minutes; after it the cache is empty, or it is the one from before and still
  fresh, or it is a blob with a live tail that a capture of this pass completed, from a peer that is no priority peer and is in
  the pool or, when the pass began without a fresh cache, an unlisted address of the candidate files.\<close>
theorem refresh_pass_sound:
  "case refresh_pass D i r of (secs, r') \<Rightarrow>
    1 \<le> secs \<and> secs \<le> 600 \<and>
    (ck_blob (rf_sink r') = None
     \<or> rf_sink r' = rf_sink r \<and> is_bootstrap_cache_fresh (ri_now i) (ck_cached_at (rf_sink r'))
     \<or> (\<exists>a blob. CapDone a (Inr blob) \<in> set (ri_race i) \<and> has_live_tail D blob
          \<and> capture_source i (ck_blob (rf_sink r) \<noteq> None \<and> is_bootstrap_cache_fresh (ri_now i) (ck_cached_at (rf_sink r))) a
          \<and> ck_blob (rf_sink r') = Some blob \<and> ck_cached_at (rf_sink r') = ri_done i))"
proof (cases "refresh_pass D i r")
  case (Pair secs r')
  show ?thesis unfolding Pair prod.case by (rule refresh_pass_cases[OF Pair])
qed

section \<open>Restarts\<close>

text \<open>C8. A cached bootstrap survives a restart. Whatever writers succeeded, failed half way or died with the process
  before, when the last that succeeded wrote a blob that entered the cache by a capture, the next start of the gateway within
  the cache's lifetime loads exactly that blob, with the time it was written, and sweeps the temporary files it can delete.
  The cache file must not itself be named like one of its temporary files.\<close>
theorem cached_blob_survives_restart:
  assumes "disk_reach stem name (Some (t, blob)) (seq, d)" and "\<not> is_orphan_tmp stem name"
    and "cached D blob" and "is_bootstrap_cache_fresh now t"
  shows "fst (load_at_start D now stem name keep d) = \<lparr>ck_blob = Some blob, ck_cached_at = t, ck_disk = True, ck_jobs = []\<rparr>
    \<and> (\<forall>f. is_orphan_tmp stem f \<and> \<not> keep f \<longrightarrow> map_of (snd (load_at_start D now stem name keep d)) f = None)"
proof -
  have "map_of (remove_orphan_cache_tmps stem keep d) name = Some (t, blob)"
    using cache_file_whole[OF assms(1,2)] assms(2) by (simp add: map_of_sweep)
  then show ?thesis using cached_loads[OF assms(3,4)]
    by (simp add: load_at_start_def Let_def map_of_sweep)
qed

text \<open>A writer that fails half way, one that dies, then one that writes a bootstrap of 5.6 GB.\<close>

theorem cached_blob_survives_restart_witness:
  "\<exists>d. disk_reach ''boot'' ''boot.bin'' (Some (700, encode_frames sample_frames)) (1, d) \<and>
     ck_blob (fst (load_at_start (\<lambda>_. None) 1000 ''boot'' ''boot.bin'' (\<lambda>_. False) d)) = Some (encode_frames sample_frames)"
proof -
  let ?bad = "\<lparr>pr_mkdir = True, pr_create = True, pr_write_failed = Some 1, pr_rename = True, pr_now = 5\<rparr>"
  let ?ok = "\<lparr>pr_mkdir = True, pr_create = True, pr_write_failed = None, pr_rename = True, pr_now = 700\<rparr>"
  let ?b = "encode_frames sample_frames"
  define d1 where "d1 = snd (snd (persist_bootstrap_cache ''boot'' ''boot.bin'' ?bad [1, 2] (0, [])))"
  define d2 where "d2 = remove_orphan_cache_tmps ''boot'' (\<lambda>_. False) (AList.update (tmp_name ''boot'' 1) (6, take 1 [1, 2]) d1)"
  define d3 where "d3 = snd (snd (persist_bootstrap_cache ''boot'' ''boot.bin'' ?ok ?b (0, d2)))"
  have "disk_reach ''boot'' ''boot.bin'' None (0, [])"
    using disk_start[of "''boot''" "''boot.bin''" "[]"] by simp
  then have "disk_reach ''boot'' ''boot.bin'' None (1, d1)"
    by (rule disk_persist[where p = ?bad and blob = "[1, 2]" and ok = False, simplified])
      (simp add: persist_bootstrap_cache_def d1_def)
  then have "disk_reach ''boot'' ''boot.bin'' None (0, d2)"
    unfolding d2_def by (rule disk_crash)
  then have r: "disk_reach ''boot'' ''boot.bin'' (Some (700, ?b)) (1, d3)"
    by (rule disk_persist[where p = ?ok and blob = ?b and ok = True, simplified])
      (simp add: persist_bootstrap_cache_def d3_def Let_def)
  have "\<not> is_orphan_tmp ''boot'' ''boot.bin''" by (simp add: is_orphan_tmp_def starts_with_def)
  moreover have "is_bootstrap_cache_fresh 1000 700" by (simp add: is_bootstrap_cache_fresh_def MAX_BOOTSTRAP_CACHE_AGE_SECS_def)
  ultimately show ?thesis using r cached_blob_survives_restart[OF r _ sample_cached] by fastforce
qed

end
