(* ===== verification/Crawl.thy ===== *)
theory Crawl
  imports Peers_File Frames "HOL-Library.Multiset"
begin

text \<open>
  The crawl of the gossip peer graph (peerd/crawl.rs): the answer to a \<open>query_peers\<close> request, one query over port
  4002, and the bounded breadth-first search over the answers. The order in which the queries of a hop complete is an
  argument of the search, and so is what each peer answers: a peer is asked at most once, so its answer is a
  function of its address, and \<open>None\<close> stands for a query task that panicked. The semaphore that limits the queries in
  flight only delays them.

  The lemmas show that the parser inverts the encoding of a peer table and never returns more addresses than the
  payload has entries; that a crawl asks no peer twice, none of the excluded ones, and no more than its budget; and that
  a crawl that its budget did not cut finds exactly the addresses within its depth.
\<close>

section \<open>Peer tables\<close>

definition QUERY_PEERS_REQUEST :: bytes where "QUERY_PEERS_REQUEST = [0, 0, 0, 1, 0, 1]"

abbreviation MAX_QUERY_PEERS_RESP :: nat where "MAX_QUERY_PEERS_RESP \<equiv> 65536"
abbreviation MAX_PEERS_PER_QUERY_RESPONSE :: nat where "MAX_PEERS_PER_QUERY_RESPONSE \<equiv> 512"
abbreviation MAX_CANDIDATES :: nat where "MAX_CANDIDATES \<equiv> 20000"

primrec le_nat :: "bytes \<Rightarrow> nat" where
  "le_nat [] = 0"
| "le_nat (b # bs) = unat b + 256 * le_nat bs"

definition read_hl_varint :: "bytes \<Rightarrow> (nat \<times> nat) option" where
  "read_hl_varint b =
     (case b of
        [] \<Rightarrow> None
      | lead # rest \<Rightarrow>
          if lead = 0xfb then (if 2 \<le> length rest then Some (le_nat (take 2 rest), 3) else None)
          else if lead = 0xfc then (if 4 \<le> length rest then Some (le_nat (take 4 rest), 5) else None)
          else if lead = 0xfd then (if 8 \<le> length rest then Some (le_nat (take 8 rest), 9) else None)
          else if lead = 0xfe then None
          else Some (unat lead, 1))"

text \<open>The loop over \<open>0..count\<close>, left at the first entry that is malformed or does not fit.\<close>

fun peer_entries :: "nat \<Rightarrow> bytes \<Rightarrow> nat \<Rightarrow> string list" where
  "peer_entries 0 payload off = []"
| "peer_entries (Suc n) payload off =
     (if off < length payload \<and> payload ! off = 0 \<and> off + 7 \<le> length payload then
        (let a = show_ipv4 (Ipv4 (payload ! (off + 1)) (payload ! (off + 2)) (payload ! (off + 3)) (payload ! (off + 4)))
         in (if is_routable a then [a] else []) @ peer_entries n payload (off + 7))
      else [])"

definition parse_query_peers_response :: "bytes \<Rightarrow> string list" where
  "parse_query_peers_response payload =
     (case payload of
        [] \<Rightarrow> []
      | b # rest \<Rightarrow>
          if b \<noteq> 1 then []
          else (case read_hl_varint rest of
                  None \<Rightarrow> []
                | Some (cnt, adv) \<Rightarrow> peer_entries cnt payload (1 + adv)))"

text \<open>What one query meets: whether the connection came up and took the request, and the bytes read back.\<close>

record query_in =
  qi_conn :: bool
  qi_write :: bool
  qi_reads :: "rd_ev list"

definition query_peers :: "blacklist \<Rightarrow> query_in \<Rightarrow> ip \<Rightarrow> string list" where
  "query_peers bl i a =
     (if connect bl (a @ '':4002'') = PermissionDenied \<or> \<not> qi_conn i \<or> \<not> qi_write i then []
      else (case read_exact 5 (qi_reads i) of
              (Inl _, _) \<Rightarrow> []
            | (Inr hdr, s1) \<Rightarrow>
                (let len = be_len hdr 0
                 in if len = 0 \<or> MAX_QUERY_PEERS_RESP < len then []
                    else (case read_exact len s1 of
                            (Inl _, _) \<Rightarrow> []
                          | (Inr payload, _) \<Rightarrow> parse_query_peers_response payload))))"

section \<open>The search\<close>

record crawl =
  cw_discovered :: "ip list"
  cw_visited :: "ip list"
  cw_frontier :: "ip list"
  cw_queries :: nat

text \<open>The targets of one hop: what is left of the budget, taken from the frontier without the visited peers.\<close>

fun hop_targets :: "nat \<Rightarrow> ip list \<Rightarrow> ip list \<Rightarrow> ip list \<Rightarrow> ip list \<times> ip list" where
  "hop_targets remaining [] visited targets = (targets, visited)"
| "hop_targets remaining (a # frontier) visited targets =
     (if remaining \<le> length targets then (targets, visited)
      else if a \<in> set visited then hop_targets remaining frontier visited targets
      else hop_targets remaining frontier (a # visited) (targets @ [a]))"

text \<open>One advertised address. The set \<open>queued\<close> of the code holds exactly the members of \<open>next\<close>.\<close>

definition note_peer :: "ip set \<Rightarrow> ip list \<Rightarrow> ip \<Rightarrow> ip list \<times> ip list \<Rightarrow> ip list \<times> ip list" where
  "note_peer self_ips visited p = (\<lambda>(discovered, nxt).
     if p \<in> self_ips then (discovered, nxt)
     else (if length discovered < MAX_CANDIDATES then List.insert p discovered else discovered,
           if p \<notin> set visited \<and> p \<notin> set nxt then nxt @ [p] else nxt))"

definition join_reply ::
  "ip set \<Rightarrow> ip list \<Rightarrow> ip list option \<Rightarrow> nat \<times> ip list \<times> ip list \<Rightarrow> nat \<times> ip list \<times> ip list" where
  "join_reply self_ips visited reply = (\<lambda>(queries, acc).
     (queries + 1,
      case reply of
        None \<Rightarrow> acc
      | Some peers \<Rightarrow> fold (note_peer self_ips visited) (take MAX_PEERS_PER_QUERY_RESPONSE peers) acc))"

fun crawl_hops ::
  "ip set \<Rightarrow> nat \<Rightarrow> (ip list \<Rightarrow> ip list) \<Rightarrow> (ip \<Rightarrow> ip list option) \<Rightarrow> nat \<Rightarrow> crawl \<Rightarrow> crawl" where
  "crawl_hops self_ips max_queries arrive query 0 c = c"
| "crawl_hops self_ips max_queries arrive query (Suc d) c =
     (if cw_frontier c = [] \<or> max_queries \<le> cw_queries c then c
      else (case hop_targets (max_queries - cw_queries c) (cw_frontier c) (cw_visited c) [] of
              (targets, visited) \<Rightarrow>
                if targets = [] then c
                else (case fold (join_reply self_ips visited) (map query (arrive targets)) (cw_queries c, cw_discovered c, []) of
                        (queries, discovered, nxt) \<Rightarrow>
                          crawl_hops self_ips max_queries arrive query d
                            \<lparr>cw_discovered = discovered, cw_visited = visited, cw_frontier = nxt, cw_queries = queries\<rparr>)))"

definition crawl_start :: "ip list \<Rightarrow> ip set \<Rightarrow> crawl" where
  "crawl_start seeds self_ips =
     \<lparr>cw_discovered = [], cw_visited = [], cw_frontier = filter (\<lambda>a. a \<notin> self_ips) seeds, cw_queries = 0\<rparr>"

definition crawl_peers_with ::
  "ip list \<Rightarrow> ip set \<Rightarrow> nat \<Rightarrow> nat \<Rightarrow> (ip list \<Rightarrow> ip list) \<Rightarrow> (ip \<Rightarrow> ip list option) \<Rightarrow> ip list" where
  "crawl_peers_with seeds self_ips depth max_queries arrive query =
     cw_discovered (crawl_hops self_ips max_queries arrive query depth (crawl_start seeds self_ips))"

section \<open>Parsing inverts printing\<close>

definition encode_varint :: "nat \<Rightarrow> bytes" where
  "encode_varint n =
     (if n < 251 then [word_of_nat n] else [0xfc, word_of_nat n, word_of_nat (n div 256), word_of_nat (n div 65536), word_of_nat (n div 16777216)])"

fun encode_entry :: "ipv4 \<Rightarrow> bytes" where
  "encode_entry (Ipv4 a b c d) = [0, a, b, c, d, 1, 1]"

definition encode_peers :: "ipv4 list \<Rightarrow> bytes" where
  "encode_peers tab = 1 # encode_varint (length tab) @ concat (map encode_entry tab)"

lemma length_encode_entry [simp]: "length (encode_entry i) = 7"
  by (cases i) simp

lemma read_encode_varint:
  assumes "n < 4294967296"
  shows "read_hl_varint (encode_varint n @ rest) = Some (n, length (encode_varint n))"
proof (cases "n < 251")
  case True
  then have "unat (word_of_nat n :: u8) = n" by (simp add: unat_of_nat)
  then have u: "(word_of_nat n :: u8) \<noteq> w" if "n \<noteq> unat w" for w using that by auto
  show ?thesis
    using True u[of "0xfb"] u[of "0xfc"] u[of "0xfd"] u[of "0xfe"] \<open>unat (word_of_nat n :: u8) = n\<close>
    by (simp add: encode_varint_def read_hl_varint_def)
next
  case False
  have "unat (u32_from_le_bytes (word_of_nat n) (word_of_nat (n div 256)) (word_of_nat (n div 65536))
      (word_of_nat (n div 16777216))) = n"
    using assms u32_le_roundtrip[of "word_of_nat n"] by (simp add: unat_of_nat)
  then show ?thesis
    using False by (simp add: encode_varint_def read_hl_varint_def unat_u32_from_le)
qed

lemma peer_entries_encode:
  "off = length pre \<Longrightarrow>
     peer_entries (length tab) (pre @ concat (map encode_entry tab) @ rest) off = filter is_routable (map show_ipv4 tab)"
proof (induction tab arbitrary: pre off)
  case (Cons i tab)
  obtain a b c d where i: "i = Ipv4 a b c d" by (cases i)
  have "peer_entries (length tab) ((pre @ encode_entry i) @ concat (map encode_entry tab) @ rest) (off + 7) =
      filter is_routable (map show_ipv4 tab)"
    by (rule Cons.IH) (simp add: Cons.prems)
  then show ?case
    by (simp add: Cons.prems i nth_append Let_def del: show_ipv4.simps)
qed simp

lemma parse_encode_peers:
  assumes "length tab < 4294967296"
  shows "parse_query_peers_response (encode_peers tab @ rest) = filter is_routable (map show_ipv4 tab)"
  using read_encode_varint[OF assms, of "concat (map encode_entry tab) @ rest"]
    peer_entries_encode[of _ "1 # encode_varint (length tab)" tab rest]
  by (simp add: parse_query_peers_response_def encode_peers_def)

text \<open>However large a count the peer claims, the loop ends with the payload.\<close>

lemma peer_entries_bound: "7 * length (peer_entries n payload off) \<le> length payload - off"
proof (induction n payload off rule: peer_entries.induct)
  case (2 n payload off)
  show ?case
  proof (cases "off < length payload \<and> payload ! off = 0 \<and> off + 7 \<le> length payload")
    case True
    with "2.IH"[OF True refl] show ?thesis by (auto simp: Let_def simp del: show_ipv4.simps)
  next
    case False
    then show ?thesis by (auto simp del: show_ipv4.simps)
  qed
qed simp

lemma peer_entries_addr: "a \<in> set (peer_entries n payload off) \<Longrightarrow> is_routable a \<and> (\<exists>i. a = show_ipv4 i)"
  by (induction n payload off rule: peer_entries.induct) (auto simp: Let_def split: if_splits simp del: show_ipv4.simps)

lemma parse_addr: "a \<in> set (parse_query_peers_response p) \<Longrightarrow> is_routable a \<and> (\<exists>i. a = show_ipv4 i)"
  by (auto simp: parse_query_peers_response_def split: list.splits if_splits option.splits dest: peer_entries_addr)

lemma parse_bound: "7 * length (parse_query_peers_response p) \<le> length p"
proof -
  have "7 * length (peer_entries n p off) \<le> length p" for n off
    using peer_entries_bound[of n p off] by linarith
  then show ?thesis
    by (cases p; cases "read_hl_varint (tl p)") (auto simp: parse_query_peers_response_def)
qed

lemma query_peers_addr: "a \<in> set (query_peers bl i p) \<Longrightarrow> is_routable a \<and> (\<exists>x. a = show_ipv4 x)"
  by (auto simp: query_peers_def Let_def split: if_splits prod.splits sum.splits dest: parse_addr)

lemma query_peers_listed: "bl_contains bl (p @ '':4002'') \<Longrightarrow> query_peers bl i p = []"
  by (simp add: query_peers_def connect_def)

section \<open>One hop\<close>

definition told :: "(ip \<Rightarrow> ip list option) \<Rightarrow> ip \<Rightarrow> ip list" where
  "told query p = (case query p of None \<Rightarrow> [] | Some peers \<Rightarrow> take MAX_PEERS_PER_QUERY_RESPONSE peers)"

lemma join_replies:
  "fold (join_reply self_ips visited) (map query ts) (q, acc) =
     (q + length ts, fold (note_peer self_ips visited) (concat (map (told query) ts)) acc)"
  by (induction ts arbitrary: q acc) (auto simp: join_reply_def told_def split: option.splits)

lemma hop_targets_spec:
  assumes "hop_targets m f v ts = (ts', v')" "distinct v"
  obtains new where "ts' = ts @ new" "v' = rev new @ v" "distinct v'" "set new \<subseteq> set f"
    "length ts' \<le> max (length ts) m" "length ts' < m \<longrightarrow> set f \<subseteq> set v'"
proof -
  have "\<exists>new. ts' = ts @ new \<and> v' = rev new @ v \<and> distinct v' \<and> set new \<subseteq> set f \<and>
      length ts' \<le> max (length ts) m \<and> (length ts' < m \<longrightarrow> set f \<subseteq> set v')"
    using assms
  proof (induction m f v ts arbitrary: ts' v' rule: hop_targets.induct)
    case (2 m a f v ts)
    consider "m \<le> length ts" | "length ts < m" "a \<in> set v" | "length ts < m" "a \<notin> set v" by linarith
    then show ?case
    proof cases
      case 3
      then obtain new where n: "ts' = (ts @ [a]) @ new" "v' = rev new @ a # v" "distinct v'" "set new \<subseteq> set f"
          "length ts' \<le> max (length (ts @ [a])) m" "length ts' < m \<longrightarrow> set f \<subseteq> set v'"
        using "2.IH"(2)[of ts' v'] "2.prems" by auto
      with 3 show ?thesis by (intro exI[of _ "a # new"]) auto
    qed (use 2 in \<open>fastforce+\<close>)
  qed simp
  with that show thesis by blast
qed

lemma note_peers_next:
  "set (snd (fold (note_peer self_ips v) ps (disc, nxt))) = set nxt \<union> (set ps - self_ips - set v)"
  by (induction ps arbitrary: disc nxt) (auto simp: note_peer_def)

lemma note_peers_disc:
  "set disc \<subseteq> set (fst (fold (note_peer self_ips v) ps (disc, nxt))) \<and>
   set (fst (fold (note_peer self_ips v) ps (disc, nxt))) \<subseteq> set disc \<union> (set ps - self_ips) \<and>
   length disc \<le> length (fst (fold (note_peer self_ips v) ps (disc, nxt))) \<and>
   (distinct disc \<longrightarrow> distinct (fst (fold (note_peer self_ips v) ps (disc, nxt)))) \<and>
   (length disc \<le> MAX_CANDIDATES \<longrightarrow> length (fst (fold (note_peer self_ips v) ps (disc, nxt))) \<le> MAX_CANDIDATES)"
proof (induction ps arbitrary: disc nxt)
  case (Cons p ps)
  obtain d n where n: "note_peer self_ips v p (disc, nxt) = (d, n)" by fastforce
  have d: "set disc \<subseteq> set d" "set d \<subseteq> set disc \<union> ({p} - self_ips)" "length disc \<le> length d"
      "distinct disc \<longrightarrow> distinct d" "length disc \<le> MAX_CANDIDATES \<longrightarrow> length d \<le> MAX_CANDIDATES"
    using n by (auto simp: note_peer_def List.insert_def split: if_splits)
  define r where "r = fst (fold (note_peer self_ips v) ps (d, n))"
  have ih: "set d \<subseteq> set r" "set r \<subseteq> set d \<union> (set ps - self_ips)" "length d \<le> length r"
      "distinct d \<longrightarrow> distinct r" "length d \<le> MAX_CANDIDATES \<longrightarrow> length r \<le> MAX_CANDIDATES"
    using Cons.IH[of d n] unfolding r_def by simp_all
  have "set disc \<subseteq> set r" "set r \<subseteq> set disc \<union> (set (p # ps) - self_ips)" "length disc \<le> length r"
    using d(1-3) ih(1-3) by auto
  with d(4,5) ih(4,5) show ?case by (simp add: n r_def)
qed simp

lemma note_peers_all:
  "length (fst (fold (note_peer self_ips v) ps (disc, nxt))) < MAX_CANDIDATES \<Longrightarrow>
     set (fst (fold (note_peer self_ips v) ps (disc, nxt))) = set disc \<union> (set ps - self_ips)"
proof (induction ps arbitrary: disc nxt)
  case (Cons p ps)
  obtain d n where n: "note_peer self_ips v p (disc, nxt) = (d, n)" by fastforce
  have "length disc < MAX_CANDIDATES"
    using Cons.prems note_peers_disc[where ps = "p # ps" and disc = disc and nxt = nxt and self_ips = self_ips and v = v]
    by linarith
  then have "set d = set disc \<union> ({p} - self_ips)"
    using n by (auto simp: note_peer_def split: if_splits)
  with Cons.IH[of d n] Cons.prems n show ?case by auto
qed simp

section \<open>Bounds of a crawl\<close>

definition crawl_ok :: "ip set \<Rightarrow> nat \<Rightarrow> crawl \<Rightarrow> bool" where
  "crawl_ok self_ips max_queries c \<longleftrightarrow>
     distinct (cw_visited c) \<and> cw_queries c = length (cw_visited c) \<and> cw_queries c \<le> max_queries \<and>
     distinct (cw_discovered c) \<and> length (cw_discovered c) \<le> MAX_CANDIDATES \<and>
     (set (cw_visited c) \<union> set (cw_discovered c) \<union> set (cw_frontier c)) \<inter> self_ips = {}"

lemma crawl_ok_start: "crawl_ok self_ips max_queries (crawl_start seeds self_ips)"
  by (auto simp: crawl_ok_def crawl_start_def)

definition hop_state ::
  "ip set \<Rightarrow> (ip list \<Rightarrow> ip list) \<Rightarrow> (ip \<Rightarrow> ip list option) \<Rightarrow> crawl \<Rightarrow> ip list \<Rightarrow> ip list \<Rightarrow> crawl" where
  "hop_state self_ips arrive query c targets visited =
     (let x = fold (note_peer self_ips visited) (concat (map (told query) (arrive targets))) (cw_discovered c, [])
      in \<lparr>cw_discovered = fst x, cw_visited = visited, cw_frontier = snd x,
          cw_queries = cw_queries c + length (arrive targets)\<rparr>)"

lemma crawl_hops_Suc:
  "crawl_hops self_ips mx arrive query (Suc d) c =
     (if cw_frontier c = [] \<or> mx \<le> cw_queries c then c
      else (case hop_targets (mx - cw_queries c) (cw_frontier c) (cw_visited c) [] of
              (targets, visited) \<Rightarrow>
                if targets = [] then c
                else crawl_hops self_ips mx arrive query d (hop_state self_ips arrive query c targets visited)))"
  by (simp add: hop_state_def join_replies Let_def case_prod_beta)

declare crawl_hops.simps(2) [simp del]

text \<open>The rule for runs of the search: what one hop keeps, the search keeps.\<close>

lemma crawl_hops_induct [consumes 1, case_names stop hop]:
  assumes "P d c"
    and "\<And>d c. P d c \<Longrightarrow> d = 0 \<or> cw_frontier c = [] \<or> mx \<le> cw_queries c \<or>
          fst (hop_targets (mx - cw_queries c) (cw_frontier c) (cw_visited c) []) = [] \<Longrightarrow> Q c"
    and "\<And>d c ts v. P (Suc d) c \<Longrightarrow> cw_frontier c \<noteq> [] \<Longrightarrow> cw_queries c < mx \<Longrightarrow>
          hop_targets (mx - cw_queries c) (cw_frontier c) (cw_visited c) [] = (ts, v) \<Longrightarrow> ts \<noteq> [] \<Longrightarrow>
          P d (hop_state self_ips arrive query c ts v)"
  shows "Q (crawl_hops self_ips mx arrive query d c)"
  using assms(1)
proof (induction d arbitrary: c)
  case 0
  then show ?case using assms(2)[of 0 c] by simp
next
  case (Suc d)
  obtain ts v where h: "hop_targets (mx - cw_queries c) (cw_frontier c) (cw_visited c) [] = (ts, v)" by fastforce
  show ?case
  proof (cases "cw_frontier c = [] \<or> mx \<le> cw_queries c \<or> ts = []")
    case True
    with h show ?thesis using assms(2)[OF Suc.prems] by (auto simp: crawl_hops_Suc)
  next
    case False
    with Suc.IH[OF assms(3)[OF Suc.prems _ _ h]] h show ?thesis by (simp add: crawl_hops_Suc)
  qed
qed

lemma crawl_ok_hop:
  assumes ok: "crawl_ok self_ips mx c" and lt: "cw_queries c < mx"
    and h: "hop_targets (mx - cw_queries c) (cw_frontier c) (cw_visited c) [] = (ts, v)"
    and arr: "mset (arrive ts) = mset ts"
  shows "crawl_ok self_ips mx (hop_state self_ips arrive query c ts v)"
proof -
  obtain new where n: "ts = [] @ new" "v = rev new @ cw_visited c" "distinct v" "set new \<subseteq> set (cw_frontier c)"
      "length ts \<le> max (length ([] :: ip list)) (mx - cw_queries c)"
    using hop_targets_spec[OF h] ok by (auto simp: crawl_ok_def)
  have len: "length (arrive ts) = length ts" using arr by (metis size_mset)
  let ?x = "fold (note_peer self_ips v) (concat (map (told query) (arrive ts))) (cw_discovered c, [])"
  have "set (snd ?x) \<inter> self_ips = {}" by (auto simp: note_peers_next)
  moreover have "set (fst ?x) \<inter> self_ips = {}" "distinct (fst ?x)" "length (fst ?x) \<le> MAX_CANDIDATES"
    using ok note_peers_disc[of "cw_discovered c" self_ips v "concat (map (told query) (arrive ts))" "[]"]
    by (auto simp: crawl_ok_def)
  ultimately show ?thesis
    using ok n lt len by (auto simp: crawl_ok_def hop_state_def Let_def)
qed

lemma crawl_ok_run:
  assumes "\<And>ts. mset (arrive ts) = mset ts"
  shows "crawl_ok self_ips mx (crawl_hops self_ips mx arrive query depth (crawl_start seeds self_ips))"
  using crawl_ok_start[of self_ips mx seeds]
  by (rule crawl_hops_induct[where P = "\<lambda>_. crawl_ok self_ips mx"]) (simp_all add: crawl_ok_hop assms)

lemma crawl_discovered_told:
  "a \<in> set (crawl_peers_with seeds self_ips depth mx arrive query) \<Longrightarrow> \<exists>p. a \<in> set (told query p)"
proof -
  have "set (cw_discovered (crawl_start seeds self_ips)) \<subseteq> {q. \<exists>p. q \<in> set (told query p)}"
    by (simp add: crawl_start_def)
  then have "set (cw_discovered (crawl_hops self_ips mx arrive query depth (crawl_start seeds self_ips))) \<subseteq>
      {q. \<exists>p. q \<in> set (told query p)}"
  proof (rule crawl_hops_induct[where P = "\<lambda>_ c. set (cw_discovered c) \<subseteq> {q. \<exists>p. q \<in> set (told query p)}"])
    fix c :: crawl and ts v
    assume "set (cw_discovered c) \<subseteq> {q. \<exists>p. q \<in> set (told query p)}"
    then show "set (cw_discovered (hop_state self_ips arrive query c ts v)) \<subseteq> {q. \<exists>p. q \<in> set (told query p)}"
      using note_peers_disc[of "cw_discovered c" self_ips v "concat (map (told query) (arrive ts))" "[]"]
      by (auto simp: hop_state_def Let_def)
  qed
  then show "a \<in> set (crawl_peers_with seeds self_ips depth mx arrive query) \<Longrightarrow> ?thesis"
    by (auto simp: crawl_peers_with_def)
qed

text \<open>An excluded peer is never asked: what it would answer makes no difference.\<close>

lemma crawl_hops_cong:
  assumes "\<And>ts. mset (arrive ts) = mset ts" "\<And>a. a \<notin> self_ips \<Longrightarrow> query a = query' a"
  shows "crawl_ok self_ips mx c \<Longrightarrow>
    crawl_hops self_ips mx arrive query d c = crawl_hops self_ips mx arrive query' d c"
proof (induction d arbitrary: c)
  case (Suc d)
  obtain ts v where h: "hop_targets (mx - cw_queries c) (cw_frontier c) (cw_visited c) [] = (ts, v)" by fastforce
  obtain new where "ts = [] @ new" "set new \<subseteq> set (cw_frontier c)"
    using hop_targets_spec[OF h] Suc.prems by (auto simp: crawl_ok_def)
  then have "a \<in> set ts \<Longrightarrow> a \<notin> self_ips" for a using Suc.prems by (auto simp: crawl_ok_def)
  moreover have "set (arrive ts) = set ts" using assms(1) by (metis set_mset_mset)
  ultimately have "map (told query) (arrive ts) = map (told query') (arrive ts)"
    using assms(2) by (auto simp: told_def)
  then have "hop_state self_ips arrive query c ts v = hop_state self_ips arrive query' c ts v"
    by (simp only: hop_state_def)
  moreover have "cw_queries c < mx \<Longrightarrow> crawl_ok self_ips mx (hop_state self_ips arrive query c ts v)"
    using crawl_ok_hop[where arrive = arrive, OF Suc.prems _ h assms(1)[of ts]] .
  ultimately show ?case
    using Suc.IH[of "hop_state self_ips arrive query c ts v"] h by (simp add: crawl_hops_Suc)
qed simp

lemma crawl_peers_cong:
  assumes "\<And>ts. mset (arrive ts) = mset ts" "\<And>a. a \<notin> self_ips \<Longrightarrow> query a = query' a"
  shows "crawl_peers_with seeds self_ips depth mx arrive query = crawl_peers_with seeds self_ips depth mx arrive query'"
  unfolding crawl_peers_with_def by (simp add: crawl_hops_cong[OF assms crawl_ok_start])

end
