(* ===== verification/Crawl_Props.thy ===== *)
theory Crawl_Props
  imports Crawl
begin

text \<open>
  What a crawl finds: it comes to rest within its budget, and without a cut it finds exactly the addresses that peers
  within its depth advertise.
\<close>

section \<open>Rest\<close>

lemma crawl_hops_rest:
  assumes arr: "\<And>ts. mset (arrive ts) = mset ts"
  shows "mx - cw_queries c \<le> d \<Longrightarrow>
    crawl_hops self_ips mx arrive query d c = crawl_hops self_ips mx arrive query (mx - cw_queries c) c"
proof (induction d arbitrary: c rule: less_induct)
  case (less d)
  show ?case
  proof (cases "mx - cw_queries c")
    case 0
    then show ?thesis by (cases d) (auto simp: crawl_hops_Suc)
  next
    case (Suc k)
    with less.prems obtain e where e: "d = Suc e" "k \<le> e" by (cases d) auto
    obtain ts v where h: "hop_targets (mx - cw_queries c) (cw_frontier c) (cw_visited c) [] = (ts, v)" by fastforce
    let ?c = "hop_state self_ips arrive query c ts v"
    have "crawl_hops self_ips mx arrive query e ?c = crawl_hops self_ips mx arrive query k ?c" if "ts \<noteq> []"
    proof -
      have "length (arrive ts) = length ts" using arr by (metis size_mset)
      with that have "mx - cw_queries ?c \<le> k"
        using Suc by (cases ts) (auto simp: hop_state_def Let_def)
      with e less.IH[of e ?c] less.IH[of k ?c] show ?thesis by simp
    qed
    with e Suc h show ?thesis by (simp add: crawl_hops_Suc)
  qed
qed

section \<open>Reachability\<close>

inductive hop_reach :: "(ip \<Rightarrow> ip list) \<Rightarrow> ip set \<Rightarrow> ip set \<Rightarrow> nat \<Rightarrow> ip \<Rightarrow> bool"
  for tells :: "ip \<Rightarrow> ip list" and self_ips :: "ip set" and seeds :: "ip set"
where
  seed: "s \<in> seeds \<Longrightarrow> s \<notin> self_ips \<Longrightarrow> hop_reach tells self_ips seeds 0 s"
| step: "hop_reach tells self_ips seeds n p \<Longrightarrow> q \<in> set (tells p) \<Longrightarrow> q \<notin> self_ips \<Longrightarrow>
    hop_reach tells self_ips seeds (Suc n) q"

inductive_simps hop_reach_0: "hop_reach tells self_ips seeds 0 s"
inductive_simps hop_reach_Suc: "hop_reach tells self_ips seeds (Suc n) q"

text \<open>A level that adds nothing new ends the search.\<close>

lemma hop_reach_closed:
  assumes "\<And>p. hop_reach tells self_ips seeds k p \<Longrightarrow> \<exists>n < k. hop_reach tells self_ips seeds n p"
  shows "hop_reach tells self_ips seeds m p \<Longrightarrow> \<exists>n < k. hop_reach tells self_ips seeds n p"
proof (induction rule: hop_reach.induct)
  case (seed s)
  then show ?case using assms[of s] by (cases k) (auto intro: hop_reach.seed)
next
  case (step n p q)
  then obtain j where j: "j < k" "hop_reach tells self_ips seeds j p" by blast
  then have q: "hop_reach tells self_ips seeds (Suc j) q" using step.hyps by (auto intro: hop_reach.step)
  show ?case
  proof (cases "Suc j < k")
    case False
    with j have "Suc j = k" by simp
    with q assms show ?thesis by blast
  qed (use q in blast)
qed

definition found :: "(ip \<Rightarrow> ip list) \<Rightarrow> ip set \<Rightarrow> ip set \<Rightarrow> nat \<Rightarrow> ip set" where
  "found tells self_ips seeds depth =
     {q. q \<notin> self_ips \<and> (\<exists>n < depth. \<exists>p. hop_reach tells self_ips seeds n p \<and> q \<in> set (tells p))}"

text \<open>What the search holds before its hop number \<open>k\<close>, unless its budget cut it.\<close>

definition at_level :: "(ip \<Rightarrow> ip list) \<Rightarrow> ip set \<Rightarrow> ip set \<Rightarrow> nat \<Rightarrow> crawl \<Rightarrow> bool" where
  "at_level tells self_ips seeds k c \<longleftrightarrow>
     set (cw_visited c) = {p. \<exists>n < k. hop_reach tells self_ips seeds n p} \<and>
     set (cw_frontier c) \<subseteq> {p. hop_reach tells self_ips seeds k p} \<and>
     {p. hop_reach tells self_ips seeds k p} \<subseteq> set (cw_frontier c) \<union> set (cw_visited c) \<and>
     set (cw_discovered c) = found tells self_ips seeds k"

lemma at_level_start: "at_level tells self_ips (set seeds) 0 (crawl_start seeds self_ips)"
  by (auto simp: at_level_def crawl_start_def found_def hop_reach_0)

lemma found_Suc:
  "found tells self_ips seeds (Suc k) =
     found tells self_ips seeds k \<union> {q. q \<notin> self_ips \<and> (\<exists>p. hop_reach tells self_ips seeds k p \<and> q \<in> set (tells p))}"
  by (auto simp: found_def less_Suc_eq)

lemma at_level_hop:
  assumes lv: "at_level (told query) self_ips seeds k c" and ok: "crawl_ok self_ips mx c"
    and h: "hop_targets (mx - cw_queries c) (cw_frontier c) (cw_visited c) [] = (ts, v)"
    and arr: "mset (arrive ts) = mset ts"
    and uncut: "cw_queries (hop_state self_ips arrive query c ts v) < mx"
    and room: "length (cw_discovered (hop_state self_ips arrive query c ts v)) < MAX_CANDIDATES"
  shows "at_level (told query) self_ips seeds (Suc k) (hop_state self_ips arrive query c ts v)"
proof -
  let ?R = "hop_reach (told query) self_ips seeds"
  have len: "length (arrive ts) = length ts" and set: "set (arrive ts) = set ts"
    using arr by (metis size_mset, metis set_mset_mset)
  obtain new where n: "ts = [] @ new" "v = rev new @ cw_visited c" "set new \<subseteq> set (cw_frontier c)"
      "length ts < mx - cw_queries c \<longrightarrow> set (cw_frontier c) \<subseteq> set v"
    using hop_targets_spec[OF h] ok by (auto simp: crawl_ok_def)
  have "length ts < mx - cw_queries c" using uncut len by (simp add: hop_state_def Let_def)
  with n have v: "set v = set (cw_visited c) \<union> set (cw_frontier c)" by auto
  with lv have vis: "set v = {p. \<exists>n < Suc k. ?R n p}"
    by (auto simp: at_level_def less_Suc_eq)
  have asked: "p \<in> set ts \<or> p \<in> set (cw_visited c)" if "?R k p" for p
  proof -
    have "p \<in> set (cw_visited c) \<union> set (cw_frontier c)" using lv that by (auto simp: at_level_def)
    then have "p \<in> set v" unfolding v .
    with n show ?thesis by auto
  qed
  have told: "set (concat (map (told query) (arrive ts))) - self_ips \<subseteq> {q. ?R (Suc k) q}"
    using lv n set by (auto simp: at_level_def intro!: hop_reach.step)
  have old: "q \<notin> self_ips \<Longrightarrow> p \<in> set (cw_visited c) \<Longrightarrow> q \<in> set (told query p) \<Longrightarrow>
      q \<in> found (told query) self_ips seeds k \<and> (\<exists>n < Suc k. ?R n q)" for p q
    using lv by (auto simp: at_level_def found_def intro: hop_reach.step)
  let ?x = "fold (note_peer self_ips v) (concat (map (told query) (arrive ts))) (cw_discovered c, [])"
  have "set (fst ?x) = set (cw_discovered c) \<union> (set (concat (map (told query) (arrive ts))) - self_ips)"
    using note_peers_all[of self_ips v "concat (map (told query) (arrive ts))" "cw_discovered c" "[]"] room
    by (simp add: hop_state_def Let_def)
  then have fx: "set (fst ?x) = found (told query) self_ips seeds k \<union> ((\<Union>p\<in>set ts. set (told query p)) - self_ips)"
    using lv set by (simp add: at_level_def)
  have "set ts \<subseteq> {p. ?R k p}" using lv n by (auto simp: at_level_def)
  then have disc: "set (fst ?x) = found (told query) self_ips seeds (Suc k)"
    unfolding fx found_Suc using asked old by blast
  have nxt: "set (snd ?x) = set (concat (map (told query) (arrive ts))) - self_ips - set v"
    by (simp add: note_peers_next)
  have "q \<in> set (snd ?x) \<union> set v" if r: "?R (Suc k) q" for q
  proof -
    obtain p where p: "?R k p" "q \<in> set (told query p)" "q \<notin> self_ips"
      using r by (auto simp: hop_reach_Suc)
    with asked[OF p(1)] old[of q p] show ?thesis unfolding nxt vis set_concat using set by auto
  qed
  then have front: "{q. ?R (Suc k) q} \<subseteq> set (snd ?x) \<union> set v" by blast
  have "set (snd ?x) \<subseteq> {q. ?R (Suc k) q}" using told unfolding nxt by blast
  with front vis disc show ?thesis
    unfolding at_level_def hop_state_def Let_def crawl.simps by blast
qed

lemma hop_grows:
  "cw_queries c \<le> cw_queries (hop_state self_ips arrive query c ts v)"
  "length (cw_discovered c) \<le> length (cw_discovered (hop_state self_ips arrive query c ts v))"
  using note_peers_disc[of "cw_discovered c" self_ips v "concat (map (told query) (arrive ts))" "[]"]
  by (simp_all add: hop_state_def Let_def)

lemma crawl_grows:
  "cw_queries c \<le> cw_queries (crawl_hops self_ips mx arrive query d c) \<and>
   length (cw_discovered c) \<le> length (cw_discovered (crawl_hops self_ips mx arrive query d c))"
proof (induction d arbitrary: c)
  case (Suc d)
  show ?case
  proof (cases "hop_targets (mx - cw_queries c) (cw_frontier c) (cw_visited c) []")
    case (Pair ts v)
    let ?c = "hop_state self_ips arrive query c ts v"
    show ?thesis
      using Suc.IH[of ?c] hop_grows[of c self_ips arrive query ts v] Pair by (simp add: crawl_hops_Suc)
  qed
qed simp

lemma crawl_hops_found:
  assumes arr: "\<And>ts. mset (arrive ts) = mset ts"
  shows "at_level (told query) self_ips seeds k c \<Longrightarrow> crawl_ok self_ips mx c \<Longrightarrow>
    cw_queries (crawl_hops self_ips mx arrive query d c) < mx \<Longrightarrow>
    length (cw_discovered (crawl_hops self_ips mx arrive query d c)) < MAX_CANDIDATES \<Longrightarrow>
    set (cw_discovered (crawl_hops self_ips mx arrive query d c)) = found (told query) self_ips seeds (k + d)"
proof (induction d arbitrary: k c)
  case 0
  then show ?case by (simp add: at_level_def)
next
  case (Suc d)
  let ?R = "hop_reach (told query) self_ips seeds"
  obtain ts v where h: "hop_targets (mx - cw_queries c) (cw_frontier c) (cw_visited c) [] = (ts, v)" by fastforce
  have q: "cw_queries c < mx" using Suc.prems(3) crawl_grows[of c self_ips mx arrive query "Suc d"] by linarith
  show ?case
  proof (cases "cw_frontier c = [] \<or> ts = []")
    case True
    have "set (cw_frontier c) \<subseteq> set (cw_visited c)"
    proof -
      obtain new where "ts = [] @ new" "v = rev new @ cw_visited c"
          "length ts < mx - cw_queries c \<longrightarrow> set (cw_frontier c) \<subseteq> set v"
        using hop_targets_spec[OF h] Suc.prems(2) by (auto simp: crawl_ok_def)
      with True q show ?thesis by auto
    qed
    then have "\<And>p. ?R k p \<Longrightarrow> \<exists>n < k. ?R n p" using Suc.prems(1) by (auto simp: at_level_def)
    note closed = hop_reach_closed[OF this]
    have "found (told query) self_ips seeds (k + Suc d) = found (told query) self_ips seeds k"
      unfolding found_def using closed trans_less_add1 by blast
    with True h Suc.prems(1) show ?thesis by (auto simp: crawl_hops_Suc at_level_def)
  next
    case False
    let ?c = "hop_state self_ips arrive query c ts v"
    have e: "crawl_hops self_ips mx arrive query (Suc d) c = crawl_hops self_ips mx arrive query d ?c"
      using False h q by (simp add: crawl_hops_Suc)
    have "cw_queries ?c < mx" "length (cw_discovered ?c) < MAX_CANDIDATES"
      using Suc.prems(3,4) crawl_grows[of ?c self_ips mx arrive query d] unfolding e by linarith+
    then have "at_level (told query) self_ips seeds (Suc k) ?c"
      by (rule at_level_hop[where arrive = arrive, OF Suc.prems(1,2) h arr[of ts]])
    with Suc.IH[of "Suc k" ?c] Suc.prems(3,4) crawl_ok_hop[where arrive = arrive and query = query, OF Suc.prems(2) q h arr[of ts]] show ?thesis
      unfolding e by simp
  qed
qed

section \<open>Properties\<close>

text \<open>C22: whatever the peers answer and in whatever order, a crawl comes to rest: it asks no peer twice, none of the
  excluded ones and at most \<open>max_queries\<close> in all, so no depth beyond \<open>max_queries\<close> hops changes it, and it returns at
  most 20000 addresses, none of them excluded.\<close>

theorem crawl_terminates:
  assumes "\<And>ts. mset (arrive ts) = mset ts"
    and "c = crawl_hops self_ips max_queries arrive query depth (crawl_start seeds self_ips)"
  shows "c = crawl_hops self_ips max_queries arrive query (min depth max_queries) (crawl_start seeds self_ips) \<and>
    distinct (cw_visited c) \<and> cw_queries c = length (cw_visited c) \<and> cw_queries c \<le> max_queries \<and>
    set (cw_visited c) \<inter> self_ips = {} \<and>
    cw_discovered c = crawl_peers_with seeds self_ips depth max_queries arrive query \<and>
    length (cw_discovered c) \<le> 20000 \<and> set (cw_discovered c) \<inter> self_ips = {}"
proof -
  have "crawl_hops self_ips max_queries arrive query depth (crawl_start seeds self_ips) =
      crawl_hops self_ips max_queries arrive query (min depth max_queries) (crawl_start seeds self_ips)"
    using crawl_hops_rest[OF assms(1), of max_queries "crawl_start seeds self_ips" depth]
    by (simp add: min_def crawl_start_def)
  moreover have "crawl_ok self_ips max_queries c"
    unfolding assms(2) by (rule crawl_ok_run[OF assms(1)])
  ultimately show ?thesis
    unfolding crawl_ok_def crawl_peers_with_def assms(2)[symmetric] by blast
qed

definition sample_graph :: "ip \<Rightarrow> ip list option" where
  "sample_graph p =
     (if p = ''1.1.1.1'' then Some [''2.2.2.2'', ''3.3.3.3''] else if p = ''2.2.2.2'' then Some [''1.1.1.1'', ''4.4.4.4''] else None)"

lemma sample_crawl:
  "crawl_hops {''3.3.3.3''} 10 rev sample_graph 3 (crawl_start [''1.1.1.1'', ''3.3.3.3''] {''3.3.3.3''}) =
     \<lparr>cw_discovered = [''4.4.4.4'', ''1.1.1.1'', ''2.2.2.2''], cw_visited = [''4.4.4.4'', ''2.2.2.2'', ''1.1.1.1''],
      cw_frontier = [], cw_queries = 3\<rparr>"
  by (simp add: crawl_start_def sample_graph_def crawl_hops.simps join_reply_def note_peer_def List.insert_def numeral_3_eq_3)

theorem crawl_terminates_witness:
  "length (crawl_peers_with [''1.1.1.1'', ''3.3.3.3''] {''3.3.3.3''} 3 10 rev sample_graph) \<le> 20000"
  using crawl_terminates[of rev _ "{''3.3.3.3''}" 10 sample_graph 3 "[''1.1.1.1'', ''3.3.3.3'']", OF mset_rev refl]
  by (simp add: sample_crawl crawl_peers_with_def)

text \<open>C23: a crawl that neither used up its budget nor filled the candidate set returns exactly the addresses that some
  peer within \<open>depth - 1\<close> hops of the seeds advertises among its first 512, without the excluded ones.\<close>

theorem crawl_finds_neighbourhood:
  assumes "\<And>ts. mset (arrive ts) = mset ts"
    and "cw_queries (crawl_hops self_ips max_queries arrive query depth (crawl_start seeds self_ips)) < max_queries"
    and "length (crawl_peers_with seeds self_ips depth max_queries arrive query) < 20000"
  shows "set (crawl_peers_with seeds self_ips depth max_queries arrive query) =
    {q. q \<notin> self_ips \<and> (\<exists>n < depth. \<exists>p. hop_reach (told query) self_ips (set seeds) n p \<and> q \<in> set (told query p))}"
  using crawl_hops_found[OF assms(1) at_level_start crawl_ok_start assms(2)] assms(3)
  by (simp add: crawl_peers_with_def found_def)

theorem crawl_finds_neighbourhood_witness:
  "{q. q \<notin> {''3.3.3.3''} \<and> (\<exists>n < 3. \<exists>p. hop_reach (told sample_graph) {''3.3.3.3''} (set [''1.1.1.1'', ''3.3.3.3'']) n p \<and>
      q \<in> set (told sample_graph p))} = {''1.1.1.1'', ''2.2.2.2'', ''4.4.4.4''}"
  using crawl_finds_neighbourhood[of rev "{''3.3.3.3''}" 10 sample_graph 3 "[''1.1.1.1'', ''3.3.3.3'']", OF mset_rev]
  by (simp add: sample_crawl crawl_peers_with_def insert_commute)

end
