(* ===== verification/Probe.thy ===== *)
theory Probe
  imports Blacklist Frames
begin

text \<open>
  The probe of one candidate (peerd/probe.rs): connect, greet for live blocks, and count the blocks with a plausible
  round until the deadline, an error or a refusal. A probe is given what it meets: the outcome of the dial (\<open>None\<close>
  when it timed out), whether the greeting was written, and per frame what the reads of its header and of its payload
  see; the list ends where the deadline does.

  The lemmas show that a probe has a round exactly when it counted a block, that the round is plausible, that a listed
  peer is never counted live, and that two blocks or more are reported as live unless the peer refused. The names of
  the statuses only appear in the log.
\<close>

section \<open>Definitions\<close>

datatype probe_status =
    NoLiveFrame | ProbeLive | ConnectTimeout | ConnectError | GreetWriteError | HeaderTimeout | HeaderEof | HeaderError
  | PayloadTimeout | PayloadEof | PayloadError | OversizedFrame | PeerFull | StatusFrame | LowRound | UnparseableBlock

record live_probe =
  lp_blocks :: nat
  lp_max_round :: "u32 option"
  lp_status :: probe_status

definition live_probe_default :: live_probe where
  "live_probe_default = \<lparr>lp_blocks = 0, lp_max_round = None, lp_status = NoLiveFrame\<rparr>"

abbreviation MAX_PROBE_FRAME :: nat where "MAX_PROBE_FRAME \<equiv> 2000000"
abbreviation MIN_LIVE_BLOCKS :: nat where "MIN_LIVE_BLOCKS \<equiv> 2"

record probe_in =
  pb_conn :: "bool option"
  pb_greet :: bool
  pb_frames :: "(rd_ev list \<times> rd_ev list) list"

text \<open>One pass of the loop: whether the probe goes on, and what it has seen.\<close>

definition probe_frame :: "(bytes \<Rightarrow> bytes option) \<Rightarrow> rd_ev list \<Rightarrow> rd_ev list \<Rightarrow> live_probe \<Rightarrow> bool \<times> live_probe" where
  "probe_frame D hs ps p =
     (case fst (read_exact 5 hs) of
        Inl e \<Rightarrow>
          (False, p\<lparr>lp_status := (case e of UnexpectedEof \<Rightarrow> HeaderEof | Elapsed \<Rightarrow> HeaderTimeout | _ \<Rightarrow> HeaderError)\<rparr>)
      | Inr hdr \<Rightarrow>
          (let len = be_len hdr 0
           in if MAX_PROBE_FRAME < len then (False, p\<lparr>lp_status := OversizedFrame\<rparr>)
              else (case fst (read_exact len ps) of
                      Inl e \<Rightarrow>
                        (False, p\<lparr>lp_status := (case e of UnexpectedEof \<Rightarrow> PayloadEof | Elapsed \<Rightarrow> PayloadTimeout | _ \<Rightarrow> PayloadError)\<rparr>)
                    | Inr payload \<Rightarrow>
                        if hdr ! 4 = 0 \<and> len = 1 \<and> hd payload = 4 then (False, p\<lparr>lp_status := PeerFull\<rparr>)
                        else (let p1 = (if hdr ! 4 = 0 then p\<lparr>lp_status := StatusFrame\<rparr> else p)
                              in (True,
                                  if hdr ! 4 = 1 \<and> 1 < len then
                                    (case block_round D payload of
                                       None \<Rightarrow> p1\<lparr>lp_status := UnparseableBlock\<rparr>
                                     | Some r \<Rightarrow>
                                         if is_plausible_mainnet_round r 0 then
                                           \<lparr>lp_blocks = lp_blocks p1 + 1,
                                            lp_max_round = Some (case lp_max_round p1 of None \<Rightarrow> r | Some prev \<Rightarrow> max prev r),
                                            lp_status = ProbeLive\<rparr>
                                         else p1\<lparr>lp_status := LowRound\<rparr>)
                                  else p1)))))"

fun probe_loop :: "(bytes \<Rightarrow> bytes option) \<Rightarrow> (rd_ev list \<times> rd_ev list) list \<Rightarrow> live_probe \<Rightarrow> live_probe" where
  "probe_loop D [] p = p"
| "probe_loop D ((hs, ps) # fs) p =
     (case probe_frame D hs ps p of (True, p1) \<Rightarrow> probe_loop D fs p1 | (False, p1) \<Rightarrow> p1)"

definition final_probe_status :: "nat \<Rightarrow> probe_status \<Rightarrow> probe_status" where
  "final_probe_status blocks status = (if MIN_LIVE_BLOCKS \<le> blocks \<and> status \<noteq> PeerFull then ProbeLive else status)"

definition probe_live :: "(bytes \<Rightarrow> bytes option) \<Rightarrow> blacklist \<Rightarrow> probe_in \<Rightarrow> ip \<Rightarrow> live_probe" where
  "probe_live D bl i a =
     (if connect bl (a @ '':4001'') = PermissionDenied then live_probe_default\<lparr>lp_status := ConnectError\<rparr>
      else (case pb_conn i of
              None \<Rightarrow> live_probe_default\<lparr>lp_status := ConnectTimeout\<rparr>
            | Some False \<Rightarrow> live_probe_default\<lparr>lp_status := ConnectError\<rparr>
            | Some True \<Rightarrow>
                if \<not> pb_greet i then live_probe_default\<lparr>lp_status := GreetWriteError\<rparr>
                else (let p = probe_loop D (pb_frames i) live_probe_default
                      in p\<lparr>lp_status := final_probe_status (lp_blocks p) (lp_status p)\<rparr>)))"

section \<open>What a probe has seen\<close>

definition probe_ok :: "live_probe \<Rightarrow> bool" where
  "probe_ok p \<longleftrightarrow> (lp_blocks p = 0 \<longleftrightarrow> lp_max_round p = None) \<and>
     (\<forall>r. lp_max_round p = Some r \<longrightarrow> is_plausible_mainnet_round r 0)"

lemma probe_frame_ok: "probe_ok p \<Longrightarrow> probe_ok (snd (probe_frame D hs ps p))"
  by (auto simp: probe_ok_def probe_frame_def Let_def max_def split: sum.splits option.splits)

lemma probe_loop_ok: "probe_ok p \<Longrightarrow> probe_ok (probe_loop D fs p)"
proof (induction D fs p rule: probe_loop.induct)
  case (2 D hs ps fs p)
  then show ?case
    using probe_frame_ok[of p D hs ps] by (cases "probe_frame D hs ps p"; cases "fst (probe_frame D hs ps p)") auto
qed simp

lemma probe_default_ok: "probe_ok live_probe_default"
  by (simp add: probe_ok_def live_probe_default_def)

lemma probe_live_ok: "probe_ok (probe_live D bl i a)"
  using probe_loop_ok[OF probe_default_ok, of D "pb_frames i"] probe_default_ok
  by (auto simp: probe_live_def Let_def probe_ok_def split: option.splits bool.splits)

text \<open>A listed peer is never dialed, so it never counts as live.\<close>

lemma probe_live_listed: "bl_contains bl (a @ '':4001'') \<Longrightarrow> lp_blocks (probe_live D bl i a) = 0"
  by (simp add: probe_live_def connect_def live_probe_default_def)

lemma probe_live_status:
  "MIN_LIVE_BLOCKS \<le> lp_blocks (probe_live D bl i a) \<Longrightarrow> lp_status (probe_live D bl i a) \<in> {ProbeLive, PeerFull}"
  by (auto simp: probe_live_def Let_def final_probe_status_def live_probe_default_def split: if_splits option.splits bool.splits)

end
