(* ===== verification/Peerd.thy ===== *)
theory Peerd
  imports Crawl Probe Priority "HOL-Library.List_Lexorder" "HOL-Library.Char_ord"
begin

text \<open>
  The discovery daemon (peerd/daemon.rs): the candidate set, its discovery and pruning, the choice of the candidates
  to probe, and the pool written to \<open>peers.json\<close>. The sets of the code that are only tested for membership are sets
  here; the candidate set, which is iterated over, is a list without repetitions whose order stands for the iteration
  order of the hash set. What a cycle meets (the answers of the peers, the order in which tasks complete, whether a
  file could be replaced) is one record. The log line and the counts that only it shows are left out.
\<close>

section \<open>Rules of the pool\<close>

abbreviation MIN_LIVE_SERVERS_TO_OVERWRITE :: nat where "MIN_LIVE_SERVERS_TO_OVERWRITE \<equiv> 8"
abbreviation MAX_LIVE_ROUND_LAG :: u32 where "MAX_LIVE_ROUND_LAG \<equiv> 50000"
abbreviation MAX_GOSSIP_ROOTS_BYTES :: nat where "MAX_GOSSIP_ROOTS_BYTES \<equiv> 64 * 1024"
abbreviation PRUNE_AFTER :: nat where "PRUNE_AFTER \<equiv> 50"

definition write_atomic :: "bool \<Rightarrow> string \<Rightarrow> string option \<Rightarrow> string option" where
  "write_atomic replaced contents old = (if replaced then Some contents else old)"

definition should_keep_previous_peer_pool :: "nat \<Rightarrow> nat \<Rightarrow> bool \<Rightarrow> bool" where
  "should_keep_previous_peer_pool current_live previous_live previous_trusted \<longleftrightarrow>
     previous_trusted \<and> 0 < previous_live \<and>
     (current_live = 0 \<or>
      (current_live < MIN_LIVE_SERVERS_TO_OVERWRITE \<and> MIN_LIVE_SERVERS_TO_OVERWRITE \<le> previous_live))"

definition fallback_mark :: string where
  "fallback_mark = CHR 0x22 # ''candidate_fallback'' @ CHR 0x22 # '':true''"

definition previous_peer_pool_is_trusted :: "string \<Rightarrow> bool" where
  "previous_peer_pool_is_trusted contents \<longleftrightarrow> find_str fallback_mark contents = None \<and> extract_ipv4 contents \<noteq> []"

definition clustered_probe_tip :: "(ip \<times> live_probe) list \<Rightarrow> u32 option" where
  "clustered_probe_tip probes =
     corroborated_clustered_round (List.map_filter (\<lambda>x. lp_max_round (snd x)) probes) 2 MAX_LIVE_ROUND_LAG"

definition near_tip :: "u32 \<Rightarrow> live_probe \<Rightarrow> bool" where
  "near_tip tip p =
     (case lp_max_round p of
        None \<Rightarrow> False
      | Some r \<Rightarrow> tip \<le> saturating_add r MAX_LIVE_ROUND_LAG \<and> r \<le> saturating_add tip MAX_LIVE_ROUND_LAG)"

definition split_live_by_tip :: "(ip \<times> live_probe) list \<Rightarrow> u32 option \<Rightarrow> (ip \<times> live_probe) list \<times> ip list" where
  "split_live_by_tip probed round_tip =
     (case round_tip of
        None \<Rightarrow> (probed, [])
      | Some tip \<Rightarrow> (filter (\<lambda>x. near_tip tip (snd x)) probed, map fst (filter (\<lambda>x. \<not> near_tip tip (snd x)) probed)))"

definition env_number :: "nat \<Rightarrow> env \<Rightarrow> string \<Rightarrow> nat \<Rightarrow> nat \<Rightarrow> nat \<Rightarrow> nat" where
  "env_number mx e name dflt lo hi =
     (case Option.bind (e name) (parse_uint mx) of Some v \<Rightarrow> min (max v lo) hi | None \<Rightarrow> dflt)"

definition env_usize :: "env \<Rightarrow> string \<Rightarrow> nat \<Rightarrow> nat \<Rightarrow> nat \<Rightarrow> nat" where
  "env_usize e name dflt lo hi = env_number U64_MAX e name dflt lo hi"

definition env_u64 :: "env \<Rightarrow> string \<Rightarrow> nat \<Rightarrow> nat \<Rightarrow> nat \<Rightarrow> nat" where
  "env_u64 e name dflt lo hi0 =
     (let hi = max hi0 lo in env_number U64_MAX e name (min (max dflt lo) hi) lo hi)"

definition empty_pool_sleep_secs :: "nat \<Rightarrow> u32 \<Rightarrow> nat \<Rightarrow> nat" where
  "empty_pool_sleep_secs interval streak max_backoff =
     (if streak = 0 then interval
      else (let multiplier = 2 ^ (min (unat streak) 3)
            in min (max (min (interval * multiplier) U64_MAX) interval) (max max_backoff interval)))"

definition next_empty_live_streak :: "u32 \<Rightarrow> bool \<Rightarrow> bool \<Rightarrow> u32" where
  "next_empty_live_streak streak ranked_empty kept_previous =
     (if ranked_empty \<and> \<not> kept_previous then saturating_add streak 1 else 0)"

section \<open>The candidates of a cycle\<close>

text \<open>The set \<open>seen\<close> of the code holds exactly the members of \<open>selected\<close>.\<close>

fun probe_previous :: "nat \<Rightarrow> ip set \<Rightarrow> ip list \<Rightarrow> ip list \<Rightarrow> ip list" where
  "probe_previous limit cands [] selected = selected"
| "probe_previous limit cands (a # prev) selected =
     (if limit \<le> length selected then selected
      else probe_previous limit cands prev (if a \<in> cands \<and> a \<notin> set selected then selected @ [a] else selected))"

fun probe_rotation :: "nat \<Rightarrow> ip list \<Rightarrow> nat \<Rightarrow> nat \<Rightarrow> ip list \<Rightarrow> ip list \<times> nat" where
  "probe_rotation remaining [] added scanned selected = (selected, scanned)"
| "probe_rotation remaining (a # as) added scanned selected =
     (if a \<in> set selected then probe_rotation remaining as added (scanned + 1) selected
      else if remaining \<le> added + 1 then (selected @ [a], scanned + 1)
      else probe_rotation remaining as (added + 1) (scanned + 1) (selected @ [a]))"

definition select_probe_candidates :: "ip list \<Rightarrow> ip list \<Rightarrow> nat \<Rightarrow> nat \<Rightarrow> ip list \<times> nat" where
  "select_probe_candidates all_candidates previous_live max_per_cycle0 cursor =
     (let max_per_cycle = max max_per_cycle0 1;
          previous_limit = max (max_per_cycle div 2) 1;
          selected = probe_previous previous_limit (set all_candidates) previous_live [];
          remaining = max_per_cycle - length selected;
          n = length all_candidates
      in if 0 < remaining \<and> 0 < n then
           (let start = cursor mod n;
                (sel, scanned) =
                  probe_rotation remaining (map (\<lambda>off. all_candidates ! ((start + off) mod n)) [0..<n]) 0 0 selected
            in (sel, (start + scanned) mod n))
         else (selected, cursor))"

section \<open>Discovery\<close>

definition strip_suffix_char :: "char \<Rightarrow> string \<Rightarrow> string option" where
  "strip_suffix_char c s = (if s \<noteq> [] \<and> last s = c then Some (butlast s) else None)"

fun ip_items :: "string list \<Rightarrow> string list option" where
  "ip_items [] = Some []"
| "ip_items (item # items) =
     (case Option.bind (strip_prefix (trim item) [CHR 0x22]) (strip_suffix_char (CHR 0x22)) of
        None \<Rightarrow> None
      | Some a \<Rightarrow>
          if parse_ipv4 a = None then None
          else map_option (\<lambda>as. if is_routable a then a # as else as) (ip_items items))"

definition parse_ip_string_array :: "string \<Rightarrow> string list option" where
  "parse_ip_string_array body =
     (case Option.bind (strip_prefix (trim body) ''['') (strip_suffix_char (CHR '']'')) of
        None \<Rightarrow> None
      | Some s \<Rightarrow>
          (let inner = trim s in if inner = [] then Some [] else ip_items (split_on (CHR '','') inner)))"

text \<open>The exit status and the output of the query for the gossip roots.\<close>

definition gossip_root_ips :: "bool \<times> string \<Rightarrow> string list" where
  "gossip_root_ips out =
     (if \<not> fst out \<or> MAX_GOSSIP_ROOTS_BYTES < length (snd out) then []
      else (case parse_ip_string_array (snd out) of None \<Rightarrow> [] | Some as \<Rightarrow> as))"

definition parse_peer_candidates :: "string \<Rightarrow> ip list" where
  "parse_peer_candidates contents = remdups (filter (\<lambda>l. is_ipv4 l \<and> is_routable l) (map trim (text_lines contents)))"

definition format_peer_candidates :: "ip list \<Rightarrow> string" where
  "format_peer_candidates cands = concat (map (\<lambda>a. a @ [CHR 0x0A]) cands)"

record peerd =
  pd_candidates :: "ip list"
  pd_fails :: "(ip \<times> nat) list"
  pd_streak :: u32
  pd_cursor :: nat
  pd_bl :: blacklist
  pd_cand_file :: "string option"
  pd_out :: "string option"

record peerd_config =
  pc_interval :: nat
  pc_self :: "ip set"
  pc_backoff_max :: nat
  pc_depth :: nat
  pc_max_queries :: nat
  pc_per_cycle :: nat

record cycle_in =
  ci_env :: "string option"
  ci_list :: "string option"
  ci_roots :: "(bool \<times> string) option"
  ci_query :: "ip \<Rightarrow> query_in option"
  ci_arrive :: "ip list \<Rightarrow> ip list"
  ci_stats :: "string list list"
  ci_cand_ok :: bool
  ci_probe :: "ip \<Rightarrow> probe_in option"
  ci_joined :: "ip list \<Rightarrow> ip list"
  ci_out_ok :: bool
  ci_secs :: nat

definition peerd_config_from_env :: "env \<Rightarrow> nat \<Rightarrow> peerd_config" where
  "peerd_config_from_env e interval =
     \<lparr>pc_interval = interval,
      pc_self = set (case e ''HL_SELF_IP'' of None \<Rightarrow> [] | Some v \<Rightarrow> split_csv v) \<union> set (priority_peers_from_env e),
      pc_backoff_max = env_u64 e ''PEERD_EMPTY_BACKOFF_MAX_SECS'' 1800 interval 7200,
      pc_depth = env_usize e ''PEERD_CRAWL_DEPTH'' 3 1 6,
      pc_max_queries = env_usize e ''PEERD_CRAWL_MAX_QUERIES'' 200 10 2000,
      pc_per_cycle = env_usize e ''PEERD_PROBE_MAX_PER_CYCLE'' 256 32 5000\<rparr>"

text \<open>The state before the first cycle, from the files left by an earlier run.\<close>

definition peerd_start :: "peerd_config \<Rightarrow> blacklist \<Rightarrow> string option \<Rightarrow> string option \<Rightarrow> peerd" where
  "peerd_start cfg bl cand_file out =
     \<lparr>pd_candidates =
        filter (\<lambda>a. a \<notin> pc_self cfg) (case cand_file of None \<Rightarrow> [] | Some f \<Rightarrow> parse_peer_candidates f),
      pd_fails = [], pd_streak = 0, pd_cursor = 0, pd_bl = bl, pd_cand_file = cand_file, pd_out = out\<rparr>"

definition drop_excluded :: "ip set \<Rightarrow> ip list \<times> (ip \<times> nat) list \<Rightarrow> ip list \<times> (ip \<times> nat) list" where
  "drop_excluded excluded = (\<lambda>(cands, fails).
     (filter (\<lambda>a. a \<notin> excluded) cands, filter (\<lambda>x. fst x \<notin> excluded) fails))"

definition insert_allowed :: "ip set \<Rightarrow> ip \<Rightarrow> ip list \<Rightarrow> ip list" where
  "insert_allowed excluded a cands = (if a \<in> excluded then cands else List.insert a cands)"

definition insert_crawled :: "ip set \<Rightarrow> ip \<Rightarrow> ip list \<Rightarrow> ip list" where
  "insert_crawled excluded a cands =
     (if a \<in> excluded \<or> a \<in> set cands \<or> MAX_CANDIDATES \<le> length cands then cands else List.insert a cands)"

definition peerd_discover :: "peerd_config \<Rightarrow> cycle_in \<Rightarrow> ip set \<Rightarrow> blacklist \<Rightarrow> ip list \<Rightarrow> ip list" where
  "peerd_discover cfg i excluded bl cands0 =
     (let roots = (case ci_roots i of None \<Rightarrow> [] | Some out \<Rightarrow> gossip_root_ips out);
          cands1 = fold (insert_allowed excluded) roots cands0;
          discovered = crawl_peers_with cands1 excluded (pc_depth cfg) (pc_max_queries cfg) (ci_arrive i)
            (\<lambda>a. map_option (\<lambda>q. query_peers bl q a) (ci_query i a));
          cands2 = fold (insert_crawled excluded) discovered cands1
      in fold (insert_allowed excluded) (concat (map read_node_peers (ci_stats i))) cands2)"

section \<open>Publication\<close>

definition previous_live_pool :: "string \<Rightarrow> ip set \<Rightarrow> ip list \<times> bool" where
  "previous_live_pool contents excluded =
     (let ips = filter (\<lambda>a. a \<notin> excluded) (extract_ipv4 contents)
      in (ips, length ips < length (extract_ipv4 contents)))"

definition peer_pool_to_write :: "ip list \<Rightarrow> ip list \<Rightarrow> bool \<Rightarrow> bool \<Rightarrow> ip list option" where
  "peer_pool_to_write ranked previous_pruned kept_previous previous_tainted =
     (if \<not> kept_previous then Some ranked else if previous_tainted then Some previous_pruned else None)"

fun append_fresh :: "ip list \<Rightarrow> ip list \<Rightarrow> ip list" where
  "append_fresh out [] = out"
| "append_fresh out (a # as) = append_fresh (if a \<in> set out then out else out @ [a]) as"

fun fill_up :: "ip list \<Rightarrow> ip list \<Rightarrow> ip list" where
  "fill_up out [] = out"
| "fill_up out (a # as) =
     (if MIN_LIVE_SERVERS_TO_OVERWRITE \<le> length out then out
      else fill_up (if a \<in> set out then out else out @ [a]) as)"

definition merge_kept_pool :: "ip list \<Rightarrow> ip list \<Rightarrow> ip set \<Rightarrow> ip list" where
  "merge_kept_pool ranked previous failed =
     fill_up (append_fresh ranked (filter (\<lambda>a. a \<notin> failed) previous)) (filter (\<lambda>a. a \<in> failed) previous)"

definition quoted :: "ip \<Rightarrow> string" where
  "quoted a = CHR 0x22 # a @ [CHR 0x22]"

definition peers_json :: "ip list \<Rightarrow> nat \<Rightarrow> u32 option \<Rightarrow> string" where
  "peers_json pool n_candidates round_tip =
     ''{'' @ quoted ''live_servers'' @ '':['' @ join_with '','' (map quoted pool) @ ''],'' @
     quoted ''n_candidates'' @ '':'' @ show_nat n_candidates @ '','' @
     round_tip_key @ (case round_tip of None \<Rightarrow> ''null'' | Some r \<Rightarrow> show_nat (unat r)) @ '','' @
     quoted ''candidate_fallback'' @ '':false}''"

text \<open>The probes of a cycle in the order they complete; a task that panicked counts neither way.\<close>

definition probe_is_live :: "live_probe \<Rightarrow> bool" where
  "probe_is_live p \<longleftrightarrow> MIN_LIVE_BLOCKS \<le> lp_blocks p \<and>
     (case lp_max_round p of None \<Rightarrow> False | Some r \<Rightarrow> is_plausible_mainnet_round r 0)"

definition probe_selected :: "(bytes \<Rightarrow> bytes option) \<Rightarrow> blacklist \<Rightarrow> cycle_in \<Rightarrow> ip list \<Rightarrow> (ip \<times> live_probe) list \<times> ip list" where
  "probe_selected D bl i targets =
     (let done = List.map_filter (\<lambda>a. map_option (\<lambda>x. (a, probe_live D bl x a)) (ci_probe i a)) (ci_joined i targets)
      in (filter (\<lambda>x. probe_is_live (snd x)) done, map fst (filter (\<lambda>x. \<not> probe_is_live (snd x)) done)))"

definition note_failed :: "ip \<Rightarrow> ip list \<times> (ip \<times> nat) list \<Rightarrow> ip list \<times> (ip \<times> nat) list" where
  "note_failed a = (\<lambda>(cands, fails).
     let c = (case map_of fails a of None \<Rightarrow> 0 | Some n \<Rightarrow> n) + 1
     in if PRUNE_AFTER \<le> c then (filter (\<lambda>b. b \<noteq> a) cands, AList.delete a fails) else (cands, AList.update a c fails))"

definition rank_live :: "(ip \<times> live_probe) list \<Rightarrow> ip list" where
  "rank_live live =
     map fst (sort_key (\<lambda>x. case lp_max_round (snd x) of None \<Rightarrow> 1 | Some r \<Rightarrow> - int (unat r))
       (sort_key (\<lambda>x. - int (lp_blocks (snd x))) live))"

definition peerd_excluded :: "peerd_config \<Rightarrow> blacklist \<Rightarrow> ip set" where
  "peerd_excluded cfg bl = pc_self cfg \<union> bl_ips bl"

text \<open>The choice of what to publish, if anything.\<close>

definition choose_pool :: "ip list \<Rightarrow> string \<Rightarrow> ip set \<Rightarrow> ip set \<Rightarrow> bool \<times> ip list option" where
  "choose_pool ranked previous_contents excluded failed =
     (let (previous, tainted) = previous_live_pool previous_contents excluded;
          kept = should_keep_previous_peer_pool (length ranked) (length previous) (previous_peer_pool_is_trusted previous_contents)
      in (kept,
          if kept \<and> ranked \<noteq> [] then Some (merge_kept_pool ranked previous failed)
          else peer_pool_to_write ranked previous kept tainted))"

definition peerd_cycle :: "(bytes \<Rightarrow> bytes option) \<Rightarrow> peerd_config \<Rightarrow> cycle_in \<Rightarrow> peerd \<Rightarrow> nat \<times> peerd" where
  "peerd_cycle D cfg i s =
     (let bl = snd (reload (ci_env i) (ci_list i) (pd_bl s));
          excluded = peerd_excluded cfg bl;
          (cands0, fails0) = drop_excluded excluded (pd_candidates s, pd_fails s);
          cands1 = peerd_discover cfg i excluded bl cands0;
          cand_file = write_atomic (ci_cand_ok i) (format_peer_candidates cands1) (pd_cand_file s);
          contents = (case pd_out s of None \<Rightarrow> [] | Some f \<Rightarrow> f);
          previous = fst (previous_live_pool contents excluded);
          (targets, cursor) = select_probe_candidates (sort cands1) previous (pc_per_cycle cfg) (pd_cursor s);
          (probed, failed0) = probe_selected D bl i targets;
          tip = clustered_probe_tip probed;
          (live, lagged) = split_live_by_tip probed tip;
          failed = failed0 @ lagged;
          (cands2, fails2) = fold note_failed failed (cands1, fold (\<lambda>x. AList.delete (fst x)) live fails0);
          ranked = rank_live live;
          (kept, published) = choose_pool ranked contents excluded (set failed);
          out = (case published of
                   None \<Rightarrow> pd_out s
                 | Some pool \<Rightarrow> write_atomic (ci_out_ok i) (peers_json pool (length cands1) tip) (pd_out s));
          streak = next_empty_live_streak (pd_streak s) (ranked = []) kept
      in (empty_pool_sleep_secs (pc_interval cfg) streak (pc_backoff_max cfg) - ci_secs i,
          \<lparr>pd_candidates = cands2, pd_fails = fails2, pd_streak = streak, pd_cursor = cursor, pd_bl = bl,
           pd_cand_file = cand_file, pd_out = out\<rparr>))"

end
