(* ===== verification/Peerd_Text.thy ===== *)
theory Peerd_Text
  imports Peerd
begin

text \<open>
  The texts of the daemon: what the readers of \<open>peers.json\<close> and of the candidate file get back of what was written,
  and the form of the addresses that every source of candidates yields.
\<close>

section \<open>Addresses\<close>

text \<open>A routable dotted quad written with digits and dots only.\<close>

definition good_addr :: "ip \<Rightarrow> bool" where
  "good_addr a \<longleftrightarrow> is_ipv4 a \<and> is_routable a \<and> list_all addr_char a"

lemma octet_token_digits: "octet_token p \<Longrightarrow> CHR ''+'' \<notin> set p \<Longrightarrow> p \<noteq> [] \<and> list_all is_digit p"
  by (auto simp: octet_token_def parse_uint_def Let_def split: option.splits if_splits list.splits)

lemma set_join: "set (join_with sep ps) \<subseteq> set sep \<union> \<Union> (set ` set ps)"
  by (induction sep ps rule: join_with.induct) auto

lemma split_on_sub: "p \<in> set (split_on c s) \<Longrightarrow> set p \<subseteq> set s"
proof (induction s arbitrary: p)
  case (Cons x s)
  then show ?case by (cases "split_on c s") (auto split: if_splits, blast+)
qed simp

lemma is_ipv4_pieces:
  assumes "is_ipv4 a" "CHR ''+'' \<notin> set a"
  shows "list_all addr_char a \<and> a \<noteq> [] \<and> is_digit (hd a)"
proof -
  let ?ps = "split_on (CHR ''.'') a"
  have d: "p \<noteq> [] \<and> list_all is_digit p" if "p \<in> set ?ps" for p
    using that assms split_on_sub[OF that] octet_token_digits[of p] by (auto simp: is_ipv4_def Let_def list_all_iff)
  have "set a \<subseteq> set ''.'' \<union> \<Union> (set ` set ?ps)"
    using set_join[of "''.''" ?ps] unfolding join_split .
  then have "list_all addr_char a" using d by (fastforce simp: list_all_iff addr_char_def)
  moreover have "hd ?ps \<noteq> [] \<and> list_all is_digit (hd ?ps)" by (rule d) simp
  then have "a \<noteq> [] \<and> is_digit (hd a)"
    unfolding hd_split_on by (cases a) (auto split: if_splits)
  ultimately show ?thesis by blast
qed

lemma good_addrI: "is_ipv4 a \<Longrightarrow> is_routable a \<Longrightarrow> CHR ''+'' \<notin> set a \<Longrightarrow> good_addr a"
  using is_ipv4_pieces by (simp add: good_addr_def)

lemma good_addr_plus: "good_addr a \<Longrightarrow> CHR ''+'' \<notin> set a"
  by (auto simp: good_addr_def list_all_iff addr_char_def is_digit_def)

lemma good_addr_hd: "good_addr a \<Longrightarrow> a \<noteq> [] \<and> is_digit (hd a)"
  using is_ipv4_pieces good_addr_plus by (simp add: good_addr_def)

lemma good_addr_show: "is_routable (show_ipv4 i) \<Longrightarrow> good_addr (show_ipv4 i)"
  by (simp add: good_addr_def is_ipv4_show addr_char_show)

lemma extract_good: "t \<in> set (extract_ipv4 s) \<Longrightarrow> good_addr t"
proof (induction s rule: extract_ipv4.induct)
  case (1 s)
  show ?case
  proof (cases s)
    case Nil
    with "1.prems" show ?thesis by (simp add: extract_ipv4.simps)
  next
    case (Cons c cs)
    have "list_all addr_char (takeWhile addr_char s)" by (auto simp: list_all_iff dest: set_takeWhileD)
    with Cons "1.prems" "1.IH"(1)[OF Cons _ refl] "1.IH"(2)[OF Cons] show ?thesis
      by (subst (asm) extract_ipv4.simps) (auto simp: Let_def good_addr_def split: if_splits)
  qed
qed

lemma read_node_peers_set: "set (read_node_peers fs) = \<Union> (set ` extract_ipv4 ` set fs)"
  by (simp add: read_node_peers_def dedup_first_spec)

lemma ip_items_good: "ip_items items = Some as \<Longrightarrow> a \<in> set as \<Longrightarrow> good_addr a"
proof (induction items arbitrary: as)
  case (Cons item items)
  then show ?case
    using show_parse_ipv4 by (fastforce split: option.splits if_splits dest: good_addr_show)
qed simp

lemma gossip_root_good: "a \<in> set (gossip_root_ips out) \<Longrightarrow> good_addr a"
  by (auto simp: gossip_root_ips_def parse_ip_string_array_def Let_def split: if_splits option.splits dest: ip_items_good[OF sym])

lemma crawled_good:
  "a \<in> set (crawl_peers_with seeds self_ips d m arrive (\<lambda>p. map_option (\<lambda>q. query_peers bl q p) (f p))) \<Longrightarrow> good_addr a"
  by (drule crawl_discovered_told)
    (auto simp: told_def split: option.splits dest!: in_set_takeD query_peers_addr good_addr_show)

section \<open>The candidate file\<close>

lemma text_lines_format:
  "\<forall>a \<in> set cs. CHR 0x0A \<notin> set a \<and> CHR 0x0D \<notin> set a \<Longrightarrow> text_lines (format_peer_candidates cs) = cs"
proof -
  assume a: "\<forall>a \<in> set cs. CHR 0x0A \<notin> set a \<and> CHR 0x0D \<notin> set a"
  then have "split_on (CHR 0x0A) (format_peer_candidates cs) = cs @ [[]]"
    by (induction cs) (auto simp: format_peer_candidates_def split_on_append)
  moreover have "map strip_cr cs = cs"
    using a by (intro map_idI) (metis strip_cr_def last_in_set)
  ultimately show ?thesis by (simp add: text_lines_def)
qed

lemma addr_char_plain: "addr_char c \<Longrightarrow> \<not> is_ws c \<and> c \<noteq> CHR 0x0A \<and> c \<noteq> CHR 0x0D \<and> c \<noteq> CHR 0x22 \<and> c \<noteq> CHR ''+''"
  by (auto simp: addr_char_def is_digit_def is_ws_def)

lemma trim_good: "good_addr a \<Longrightarrow> trim a = a"
  unfolding trim_def
  by (rule trim_with_id) (auto simp: good_addr_def list_all_iff dest: addr_char_plain)

lemma candidates_read_back:
  assumes "distinct cs" "\<forall>a \<in> set cs. good_addr a"
  shows "parse_peer_candidates (format_peer_candidates cs) = cs"
proof -
  have "text_lines (format_peer_candidates cs) = cs"
    using assms(2) by (intro text_lines_format) (auto simp: good_addr_def list_all_iff dest: addr_char_plain)
  moreover have "map trim cs = cs" using assms(2) by (auto simp: trim_good intro: map_idI)
  ultimately show ?thesis
    using assms by (simp add: parse_peer_candidates_def good_addr_def filter_id_conv)
qed

lemma parsed_candidates_good:
  "CHR ''+'' \<notin> set f \<Longrightarrow> a \<in> set (parse_peer_candidates f) \<Longrightarrow> good_addr a"
proof -
  have tr: "set (trim l) \<subseteq> set l" for l
    by (auto simp: trim_def trim_with_def dest!: set_dropWhileD)
  have "set (last (split_on (CHR 0x0A) f)) \<subseteq> set f" by (rule split_on_sub[where c = "CHR 0x0A"]) simp
  then have "l \<in> set (text_lines f) \<Longrightarrow> set l \<subseteq> set f" for l
    by (auto simp: text_lines_def Let_def strip_cr_def split: if_splits dest!: in_set_butlastD dest: split_on_sub)
  with tr show "CHR ''+'' \<notin> set f \<Longrightarrow> a \<in> set (parse_peer_candidates f) \<Longrightarrow> ?thesis"
    by (fastforce simp: parse_peer_candidates_def intro!: good_addrI)
qed

section \<open>The pool file\<close>

lemma extract_skip: "list_all (\<lambda>c. \<not> addr_char c) s \<Longrightarrow> extract_ipv4 (s @ r) = extract_ipv4 r"
proof (induction s)
  case (Cons c s)
  then show ?case using extract_append[of c "[]" "s @ r"] by (simp add: extract_ipv4.simps[of "[]"])
qed simp

lemma extract_token:
  assumes "s \<noteq> []" "is_digit (hd s)" "list_all addr_char s"
  shows "extract_ipv4 s = (if is_ipv4 s \<and> is_routable s then [s] else [])"
proof (cases s)
  case (Cons c cs)
  with assms have c: "addr_char c" "takeWhile addr_char cs = cs" "dropWhile addr_char cs = []" "is_digit c"
    by (auto simp: list_all_iff)
  show ?thesis
    unfolding Cons by (subst extract_ipv4.simps) (simp add: Let_def c extract_ipv4.simps[of "[]"])
qed (use assms in simp)

lemma extract_number:
  assumes "s \<noteq> [] \<and> list_all is_digit s" "\<not> addr_char x"
  shows "extract_ipv4 (s @ x # r) = extract_ipv4 r"
proof -
  have "CHR ''.'' \<notin> set s" using assms(1) by (auto simp: list_all_iff is_digit_def)
  then have "\<not> is_ipv4 s" by (simp add: is_ipv4_def split_on_no_sep)
  with assms have "extract_ipv4 s = []"
    by (subst extract_token) (auto simp: list_all_iff addr_char_def)
  with extract_append[OF assms(2)] show ?thesis by simp
qed

lemma extract_good_head:
  assumes "good_addr a" "\<not> addr_char x"
  shows "extract_ipv4 (a @ x # r) = a # extract_ipv4 r"
  using assms(1) good_addr_hd[OF assms(1)] extract_append[OF assms(2)] extract_token[of a]
  by (simp add: good_addr_def)

lemma plain_chars:
  "\<not> addr_char (CHR 0x22)" "\<not> addr_char (CHR '','')" "\<not> addr_char (CHR '']'')"
  by (simp_all add: addr_char_def is_digit_def)

lemma extract_quoted: "good_addr a \<Longrightarrow> extract_ipv4 (quoted a @ r) = a # extract_ipv4 r"
  using extract_good_head[of a "CHR 0x22" r] extract_skip[of "[CHR 0x22]"] plain_chars by (simp add: quoted_def)

lemma extract_join:
  "\<forall>a \<in> set pool. good_addr a \<Longrightarrow>
     extract_ipv4 (join_with '','' (map quoted pool) @ CHR '']'' # r) = pool @ extract_ipv4 r"
proof (induction pool)
  case Nil
  show ?case using extract_skip[of "'']''" r] plain_chars by simp
next
  case (Cons a pool)
  show ?case
  proof (cases pool)
    case Nil
    with Cons.prems show ?thesis using extract_skip[of "'']''" r] plain_chars by (simp add: extract_quoted)
  next
    case (Cons b bs)
    then have "join_with '','' (map quoted (a # pool)) @ CHR '']'' # r =
        quoted a @ '','' @ join_with '','' (map quoted pool) @ CHR '']'' # r" by simp
    with Cons.IH Cons.prems show ?thesis
      using extract_skip[of "'',''"] plain_chars by (simp add: extract_quoted)
  qed
qed

lemma extract_peers_json:
  assumes "\<forall>a \<in> set pool. good_addr a"
  shows "extract_ipv4 (peers_json pool n tip) = pool"
proof -
  let ?tip = "case tip of None \<Rightarrow> ''null'' | Some r \<Rightarrow> show_nat (unat r)"
  let ?post = "quoted ''candidate_fallback'' @ '':false}''"
  have lits: "list_all (\<lambda>c. \<not> addr_char c) (''{'' @ quoted ''live_servers'' @ '':['')"
      "list_all (\<lambda>c. \<not> addr_char c) ('','' @ quoted ''n_candidates'' @ '':'')"
      "list_all (\<lambda>c. \<not> addr_char c) round_tip_key" "list_all (\<lambda>c. \<not> addr_char c) ?post"
      "list_all (\<lambda>c. \<not> addr_char c) ''null,''"
    by (simp_all add: quoted_def round_tip_key_def addr_char_def is_digit_def)
  have post: "extract_ipv4 ?post = []" using extract_skip[OF lits(4), of "[]"] by (simp add: extract_ipv4.simps)
  have "extract_ipv4 (?tip @ CHR '','' # ?post) = []"
    using extract_number[of _ "CHR '',''"] show_nat_digits plain_chars post extract_skip[OF lits(5), of ?post]
    by (cases tip) simp_all
  then have "extract_ipv4 (show_nat n @ CHR '','' # round_tip_key @ ?tip @ CHR '','' # ?post) = []"
    using extract_number[of _ "CHR '',''"] show_nat_digits plain_chars extract_skip[OF lits(3)] by simp
  moreover have "peers_json pool n tip = (''{'' @ quoted ''live_servers'' @ '':['') @
      join_with '','' (map quoted pool) @ CHR '']'' # ('','' @ quoted ''n_candidates'' @ '':'') @
      show_nat n @ CHR '','' # round_tip_key @ ?tip @ CHR '','' # ?post"
    by (simp add: peers_json_def)
  ultimately show ?thesis
    by (simp only: extract_skip[OF lits(1)] extract_skip[OF lits(2)] extract_join[OF assms] append_Nil2)
qed

text \<open>No quote is followed by the given character, and the text does not end in a quote.\<close>

fun quote_free :: "char \<Rightarrow> string \<Rightarrow> bool" where
  "quote_free q [] = True"
| "quote_free q (c # s) = ((c = CHR 0x22 \<longrightarrow> s \<noteq> [] \<and> hd s \<noteq> q) \<and> quote_free q s)"

lemma quote_free_append [intro]: "quote_free q s \<Longrightarrow> quote_free q t \<Longrightarrow> quote_free q (s @ t)"
  by (induction q s rule: quote_free.induct) auto

lemma quote_free_plain: "CHR 0x22 \<notin> set s \<Longrightarrow> quote_free q s"
  by (induction s) auto

lemma quote_free_quoted:
  assumes "CHR 0x22 \<notin> set a" "a \<noteq> []" "hd a \<noteq> q" "quote_free q r" "r \<noteq> []" "hd r \<noteq> q"
  shows "quote_free q (quoted a @ r)"
proof -
  have "quote_free q (a @ CHR 0x22 # r)"
    by (rule quote_free_append[OF quote_free_plain[OF assms(1)]]) (use assms in simp)
  with assms(2,3) show ?thesis by (cases a) (auto simp: quoted_def)
qed

lemma find_str_quote_free:
  "quote_free q pre \<Longrightarrow>
     find_str (CHR 0x22 # q # p) (pre @ s) = map_option ((+) (length pre)) (find_str (CHR 0x22 # q # p) s)"
proof (induction pre)
  case Nil
  show ?case by (simp add: option.map_ident)
next
  case (Cons c pre)
  have "\<not> starts_with (c # pre @ s) (CHR 0x22 # q # p)"
    using Cons.prems by (cases pre) (auto simp: starts_with_def)
  with Cons show ?case by (simp add: option.map_comp comp_def)
qed

definition json_pool :: "ip list \<Rightarrow> string" where
  "json_pool pool = ''{'' @ quoted ''live_servers'' @ '':['' @ join_with '','' (map quoted pool) @ ''],''"

lemma quote_free_join:
  "\<forall>a \<in> set pool. CHR 0x22 \<notin> set a \<and> a \<noteq> [] \<and> hd a \<noteq> q \<Longrightarrow> q \<notin> {CHR 0x22, CHR '','', CHR '']''} \<Longrightarrow>
     quote_free q (join_with '','' (map quoted pool) @ ''],'')"
proof (induction pool)
  case (Cons a pool)
  show ?case
  proof (cases pool)
    case Nil
    with Cons.prems show ?thesis using quote_free_quoted[of a q "''],''"] by auto
  next
    case (Cons b bs)
    then have "join_with '','' (map quoted (a # pool)) @ ''],'' =
        quoted a @ '','' @ join_with '','' (map quoted pool) @ ''],''" by simp
    with Cons.IH Cons.prems show ?thesis
      by (auto intro!: quote_free_quoted)
  qed
qed simp

lemma quote_free_pool:
  assumes "\<forall>a \<in> set pool. good_addr a" "q = CHR ''r'' \<or> q = CHR ''c''"
  shows "quote_free q (json_pool pool)"
proof -
  have "\<not> is_digit q" using assms(2) by (auto simp: is_digit_def)
  then have "\<forall>a \<in> set pool. CHR 0x22 \<notin> set a \<and> a \<noteq> [] \<and> hd a \<noteq> q"
    using assms(1) good_addr_hd by (metis good_addr_def list_all_iff addr_char_plain)
  then have "quote_free q (join_with '','' (map quoted pool) @ ''],'')"
    by (rule quote_free_join) (use assms(2) in auto)
  then have "quote_free q ((''{'' @ quoted ''live_servers'' @ '':['') @ join_with '','' (map quoted pool) @ ''],'')"
    by (rule quote_free_append[rotated]) (use assms(2) in \<open>auto simp: quoted_def\<close>)
  then show ?thesis by (simp add: json_pool_def)
qed

lemma quote_free_number: "quote_free q (show_nat n)"
  using show_nat_digits[of n] by (intro quote_free_plain) (auto simp: list_all_iff is_digit_def)

lemma tip_peers_json:
  assumes "\<forall>a \<in> set pool. good_addr a"
  shows "extract_round_tip (peers_json pool n tip) = tip"
proof -
  let ?pre = "json_pool pool @ (quoted ''n_candidates'' @ '':'') @ show_nat n @ '',''"
  let ?tip = "case tip of None \<Rightarrow> ''null'' | Some r \<Rightarrow> show_nat (unat r)"
  let ?rest = "?tip @ '','' @ quoted ''candidate_fallback'' @ '':false}''"
  have j: "peers_json pool n tip = ?pre @ round_tip_key @ ?rest"
    by (simp add: peers_json_def json_pool_def)
  have "quote_free (CHR ''r'') (quoted ''n_candidates'' @ '':'')" "quote_free (CHR ''r'') '',''"
    by (simp_all add: quoted_def)
  then have "quote_free (CHR ''r'') ?pre"
    by (intro quote_free_append[OF quote_free_pool[OF assms]] quote_free_append[OF _ quote_free_append[OF quote_free_number]])
      simp_all
  then have f: "find_str round_tip_key (?pre @ round_tip_key @ ?rest) = Some (length ?pre)"
    using find_str_quote_free[of "CHR ''r''" ?pre _ "round_tip_key @ ?rest"] find_str_here[of round_tip_key ?rest]
    by (simp add: round_tip_key_def)
  have d: "drop (length ?pre + length round_tip_key) (?pre @ round_tip_key @ ?rest) = ?rest" by simp
  have "map_option word_of_nat (parse_uint U32_MAX (takeWhile is_digit ?rest)) = tip"
  proof (cases tip)
    case None
    then show ?thesis by (simp add: is_digit_def parse_uint_def)
  next
    case (Some r)
    have "takeWhile is_digit ?rest = show_nat (unat r)"
      using show_nat_digits[of "unat r"] Some by (auto simp: takeWhile_append list_all_iff is_digit_def)
    moreover have "unat r \<le> U32_MAX" using unat_u32_lt[of r] by simp
    ultimately show ?thesis using Some by (simp add: parse_show_nat)
  qed
  then show ?thesis unfolding extract_round_tip_def j f option.case d .
qed

lemma trusted_peers_json:
  assumes "\<forall>a \<in> set pool. good_addr a"
  shows "previous_peer_pool_is_trusted (peers_json pool n tip) \<longleftrightarrow> pool \<noteq> []"
proof -
  let ?tip = "case tip of None \<Rightarrow> ''null'' | Some r \<Rightarrow> show_nat (unat r)"
  let ?pre = "json_pool pool @ (quoted ''n_candidates'' @ '':'') @ show_nat n @ '','' @ round_tip_key @ ?tip @ '',''"
  let ?rest = "quoted ''candidate_fallback'' @ '':false}''"
  have j: "peers_json pool n tip = ?pre @ ?rest"
    by (simp add: peers_json_def json_pool_def)
  have lits: "quote_free (CHR ''c'') (quoted ''n_candidates'' @ '':'')" "quote_free (CHR ''c'') ('','' @ round_tip_key)"
      "quote_free (CHR ''c'') '',''"
    by (simp_all add: quoted_def round_tip_key_def)
  have "quote_free (CHR ''c'') ?tip" by (cases tip) (simp_all add: quote_free_number)
  from quote_free_append[OF quote_free_pool[OF assms] quote_free_append[OF lits(1) quote_free_append[OF quote_free_number
      quote_free_append[OF lits(2) quote_free_append[OF this lits(3)]]]]]
  have "quote_free (CHR ''c'') ?pre" by simp
  moreover have "find_str fallback_mark ?rest = None"
    by (simp add: fallback_mark_def quoted_def starts_with_def)
  ultimately have "find_str fallback_mark (?pre @ ?rest) = None"
    using find_str_quote_free[of "CHR ''c''" ?pre _ ?rest] by (simp add: fallback_mark_def)
  then show ?thesis
    unfolding previous_peer_pool_is_trusted_def extract_peers_json[OF assms] by (simp add: j)
qed

end
