(* ===== verification/Peerd_Props.thy ===== *)
theory Peerd_Props
  imports Peerd_Text
begin

text \<open>
  What the daemon keeps from cycle to cycle: the form of its candidates and failure counts, that excluded addresses are
  neither contacted nor written, and that a good pool is not thinned out by a bad cycle.
\<close>

section \<open>The steps of a cycle\<close>

lemma probe_previous_spec:
  "distinct sel \<Longrightarrow> distinct (probe_previous l cands prev sel) \<and> set (probe_previous l cands prev sel) \<subseteq> set sel \<union> cands \<and>
     length (probe_previous l cands prev sel) \<le> max l (length sel)"
proof (induction l cands prev sel rule: probe_previous.induct)
  case (2 l cands a prev sel)
  show ?case
  proof (cases "l \<le> length sel")
    case False
    with 2 show ?thesis by (fastforce simp: max_def split: if_splits)
  qed (use 2 in auto)
qed simp

lemma probe_rotation_spec:
  "distinct sel \<Longrightarrow> added < remaining \<Longrightarrow>
     distinct (fst (probe_rotation remaining as added scanned sel)) \<and>
     set (fst (probe_rotation remaining as added scanned sel)) \<subseteq> set sel \<union> set as \<and>
     length (fst (probe_rotation remaining as added scanned sel)) + added \<le> length sel + remaining"
proof (induction remaining "as" added scanned sel rule: probe_rotation.induct)
  case (2 remaining a as added scanned sel)
  consider "a \<in> set sel" | "a \<notin> set sel" "remaining \<le> added + 1" | "a \<notin> set sel" "added + 1 < remaining" by linarith
  then show ?case
  proof cases
    case 1
    with 2 show ?thesis by auto
  next
    case 2
    with "2.prems" show ?thesis by auto
  next
    case 3
    with "2.IH"(2)[OF 3(1)] "2.prems" show ?thesis by auto
  qed
qed simp

lemma select_probe_spec:
  "distinct (fst (select_probe_candidates cs prev m cur)) \<and>
   set (fst (select_probe_candidates cs prev m cur)) \<subseteq> set cs \<and>
   length (fst (select_probe_candidates cs prev m cur)) \<le> max m 1"
proof -
  define lim where "lim = max (max m 1 div 2) 1"
  define sel where "sel = probe_previous lim (set cs) prev []"
  define rem where "rem = max m 1 - length sel"
  define rot where "rot = map (\<lambda>off. cs ! ((cur mod length cs + off) mod length cs)) [0..<length cs]"
  define r where "r = probe_rotation rem rot 0 0 sel"
  have e: "fst (select_probe_candidates cs prev m cur) = (if 0 < rem \<and> 0 < length cs then fst r else sel)"
    by (simp add: select_probe_candidates_def Let_def case_prod_beta r_def rot_def rem_def sel_def lim_def)
  have "lim \<le> max m 1" by (simp add: lim_def max_def)
  then have s: "distinct sel" "set sel \<subseteq> set cs" "length sel \<le> max m 1"
    using probe_previous_spec[of "[]" lim "set cs" prev] unfolding sel_def by auto
  have "distinct (fst r) \<and> set (fst r) \<subseteq> set cs \<and> length (fst r) \<le> max m 1" if "0 < rem" "0 < length cs"
  proof -
    have "set rot \<subseteq> set cs" using that(2) by (auto simp: rot_def)
    moreover have "length sel + rem = max m 1" using s(3) by (simp add: rem_def)
    ultimately show ?thesis
      using probe_rotation_spec[OF s(1) that(1), of rot 0] s(2) unfolding r_def by auto
  qed
  with s show ?thesis unfolding e by simp
qed

lemma partition_keys:
  "set (map fst (filter P xs) @ map fst (filter (\<lambda>x. \<not> P x) xs)) = set (map fst xs) \<and>
   (distinct (map fst xs) \<longrightarrow> distinct (map fst (filter P xs) @ map fst (filter (\<lambda>x. \<not> P x) xs)))"
  by (induction xs) auto

lemma probe_selected_spec:
  assumes "mset (ci_joined i ts) = mset ts" "distinct ts"
  shows "distinct (map fst (fst (probe_selected D bl i ts)) @ snd (probe_selected D bl i ts)) \<and>
    set (map fst (fst (probe_selected D bl i ts)) @ snd (probe_selected D bl i ts)) \<subseteq> set ts"
proof -
  let ?f = "\<lambda>a. map_option (\<lambda>x. (a, probe_live D bl x a)) (ci_probe i a)"
  have d: "distinct (ci_joined i ts)" "set (ci_joined i ts) = set ts"
    using assms mset_eq_imp_distinct_iff by (blast, metis set_mset_mset)
  have f: "map fst (List.map_filter ?f xs) = filter (\<lambda>a. ci_probe i a \<noteq> None) xs" for xs
    by (induction xs) (auto simp: map_filter_simps)
  define joined where "joined = List.map_filter ?f (ci_joined i ts)"
  have "map fst joined = filter (\<lambda>a. ci_probe i a \<noteq> None) (ci_joined i ts)" unfolding joined_def by (rule f)
  then have "distinct (map fst joined)" "set (map fst joined) \<subseteq> set ts" using d by simp_all
  then show ?thesis
    using partition_keys[of "\<lambda>x. probe_is_live (snd x)" joined]
    unfolding probe_selected_def Let_def joined_def[symmetric] fst_conv snd_conv by simp
qed

lemma split_live_spec:
  assumes "split_live_by_tip probed tip = (live, lagged)"
  shows "set (map fst live @ lagged) = set (map fst probed) \<and> (distinct (map fst probed) \<longrightarrow> distinct (map fst live @ lagged))"
proof (cases tip)
  case (Some t)
  with assms have "live = filter (\<lambda>x. near_tip t (snd x)) probed" "lagged = map fst (filter (\<lambda>x. \<not> near_tip t (snd x)) probed)"
    by (auto simp: split_live_by_tip_def)
  then show ?thesis using partition_keys[of "\<lambda>x. near_tip t (snd x)" probed] by simp
qed (use assms in \<open>simp add: split_live_by_tip_def\<close>)

lemma rank_live_mset: "mset (rank_live live) = mset (map fst live)"
  by (simp add: rank_live_def)

lemma rank_live_spec: "set (rank_live live) = fst ` set live \<and> (distinct (map fst live) \<longrightarrow> distinct (rank_live live))"
  using rank_live_mset[of live] mset_eq_imp_distinct_iff by (metis list.set_map set_mset_mset)

text \<open>Failure counts: one per candidate at most, below the limit at which a candidate is pruned.\<close>

definition fails_ok :: "ip list \<times> (ip \<times> nat) list \<Rightarrow> bool" where
  "fails_ok = (\<lambda>(cands, fails). distinct cands \<and> distinct (map fst fails) \<and>
     (\<forall>a n. map_of fails a = Some n \<longrightarrow> a \<in> set cands \<and> 0 < n \<and> n < PRUNE_AFTER))"

lemma note_failed_ok:
  assumes "fails_ok (cands, fails)" "a \<in> set cands"
  shows "fails_ok (note_failed a (cands, fails)) \<and> set (fst (note_failed a (cands, fails))) \<subseteq> set cands \<and>
    set cands - {a} \<subseteq> set (fst (note_failed a (cands, fails)))"
  using assms
  by (auto simp: note_failed_def fails_ok_def Let_def AList.delete_conv' AList.update_conv' AList.distinct_update
      AList.distinct_delete split: if_splits)

lemma note_all_failed_ok:
  "fails_ok x \<Longrightarrow> distinct failed \<Longrightarrow> set failed \<subseteq> set (fst x) \<Longrightarrow>
     fails_ok (fold note_failed failed x) \<and> set (fst (fold note_failed failed x)) \<subseteq> set (fst x)"
proof (induction failed arbitrary: x)
  case (Cons a failed)
  obtain cands fails where x: "x = (cands, fails)" by fastforce
  from Cons.prems x note_failed_ok[of cands fails a] have n: "fails_ok (note_failed a x)"
      "set (fst (note_failed a x)) \<subseteq> set (fst x)" "set (fst x) - {a} \<subseteq> set (fst (note_failed a x))"
    by auto
  with Cons.prems have "set failed \<subseteq> set (fst (note_failed a x))" by auto
  with Cons.IH[OF n(1)] Cons.prems n(2) show ?case by auto
qed simp

lemma fails_ok_delete: "fails_ok (cands, fails) \<Longrightarrow> fails_ok (cands, AList.delete a fails)"
  unfolding fails_ok_def by (simp add: AList.delete_conv' AList.distinct_delete)

lemma fails_ok_clear: "fails_ok (cands, fails) \<Longrightarrow> fails_ok (cands, fold (\<lambda>x. AList.delete (fst x)) live fails)"
  by (induction live arbitrary: fails) (simp_all add: fails_ok_delete)

lemma fails_ok_more: "fails_ok (cands, fails) \<Longrightarrow> distinct cands' \<Longrightarrow> set cands \<subseteq> set cands' \<Longrightarrow> fails_ok (cands', fails)"
  by (auto simp: fails_ok_def)

lemma drop_excluded_ok:
  "fails_ok (cands, fails) \<Longrightarrow> fails_ok (drop_excluded ex (cands, fails)) \<and>
     set (fst (drop_excluded ex (cands, fails))) = set cands - ex"
proof -
  have "map_of (filter (\<lambda>x. fst x \<notin> ex) fails) a = (if a \<in> ex then None else map_of fails a)" for a
    by (induction fails) auto
  then show "fails_ok (cands, fails) \<Longrightarrow> ?thesis"
    by (auto simp: fails_ok_def drop_excluded_def distinct_map_filter split: if_splits)
qed

section \<open>Discovery\<close>

lemma insert_allowed_run:
  "set (fold (insert_allowed ex) as cs) = set cs \<union> (set as - ex) \<and> (distinct cs \<longrightarrow> distinct (fold (insert_allowed ex) as cs))"
  by (induction "as" arbitrary: cs) (auto simp: insert_allowed_def)

lemma insert_crawled_run:
  "set cs \<subseteq> set (fold (insert_crawled ex) as cs) \<and> set (fold (insert_crawled ex) as cs) \<subseteq> set cs \<union> (set as - ex) \<and>
   (distinct cs \<longrightarrow> distinct (fold (insert_crawled ex) as cs)) \<and>
   length (fold (insert_crawled ex) as cs) \<le> max (length cs) MAX_CANDIDATES"
proof (induction "as" arbitrary: cs)
  case (Cons a "as")
  show ?case
  proof (cases "a \<in> ex \<or> a \<in> set cs \<or> MAX_CANDIDATES \<le> length cs")
    case True
    with Cons.IH[of cs] show ?thesis by (auto simp: insert_crawled_def)
  next
    case False
    with Cons.IH[of "a # cs"] show ?thesis by (auto simp: insert_crawled_def)
  qed
qed simp

lemma discover_spec:
  assumes "set cs \<inter> ex = {}" "distinct cs" "\<forall>a \<in> set cs. good_addr a"
  shows "set cs \<subseteq> set (peerd_discover cfg i ex bl cs)" "distinct (peerd_discover cfg i ex bl cs)"
    "set (peerd_discover cfg i ex bl cs) \<inter> ex = {}" "\<forall>a \<in> set (peerd_discover cfg i ex bl cs). good_addr a"
proof -
  define roots where "roots = (case ci_roots i of None \<Rightarrow> [] | Some out \<Rightarrow> gossip_root_ips out)"
  define cs1 where "cs1 = fold (insert_allowed ex) roots cs"
  define dsc where "dsc = crawl_peers_with cs1 ex (pc_depth cfg) (pc_max_queries cfg) (ci_arrive i)
            (\<lambda>a. map_option (\<lambda>q. query_peers bl q a) (ci_query i a))"
  define cs2 where "cs2 = fold (insert_crawled ex) dsc cs1"
  define stats where "stats = concat (map read_node_peers (ci_stats i))"
  have d: "peerd_discover cfg i ex bl cs = fold (insert_allowed ex) stats cs2"
    by (simp add: peerd_discover_def Let_def roots_def cs1_def dsc_def cs2_def stats_def)
  have "\<forall>a \<in> set roots. good_addr a" by (auto simp: roots_def gossip_root_good split: option.splits)
  then have 1: "set cs \<subseteq> set cs1" "distinct cs1" "set cs1 \<inter> ex = {}" "\<forall>a \<in> set cs1. good_addr a"
    using assms insert_allowed_run[of ex roots cs] unfolding cs1_def by auto
  have "\<forall>a \<in> set dsc. good_addr a" unfolding dsc_def using crawled_good by blast
  then have 2: "set cs1 \<subseteq> set cs2" "distinct cs2" "set cs2 \<inter> ex = {}" "\<forall>a \<in> set cs2. good_addr a"
    using 1 insert_crawled_run[of cs1 ex dsc] unfolding cs2_def by auto
  have "\<forall>a \<in> set stats. good_addr a"
    by (auto simp: stats_def read_node_peers_set dest: extract_good)
  then show "set cs \<subseteq> set (peerd_discover cfg i ex bl cs)" "distinct (peerd_discover cfg i ex bl cs)"
    "set (peerd_discover cfg i ex bl cs) \<inter> ex = {}" "\<forall>a \<in> set (peerd_discover cfg i ex bl cs). good_addr a"
    using 1 2 insert_allowed_run[of ex stats cs2] unfolding d by auto
qed

section \<open>The pool\<close>

lemma append_fresh_spec:
  "set (append_fresh out as) = set out \<union> set as \<and> (distinct out \<longrightarrow> distinct (append_fresh out as))"
  by (induction out "as" rule: append_fresh.induct) auto

lemma fill_up_spec:
  "set out \<subseteq> set (fill_up out as) \<and> set (fill_up out as) \<subseteq> set out \<union> set as \<and> (distinct out \<longrightarrow> distinct (fill_up out as)) \<and>
   (MIN_LIVE_SERVERS_TO_OVERWRITE \<le> length (fill_up out as) \<or> set (fill_up out as) = set out \<union> set as)"
proof (induction out "as" rule: fill_up.induct)
  case (2 out a "as")
  show ?case
  proof (cases "MIN_LIVE_SERVERS_TO_OVERWRITE \<le> length out")
    case False
    with "2.IH" show ?thesis by (cases "a \<in> set out") auto
  qed auto
qed simp

lemma merge_kept_spec:
  "set ranked \<subseteq> set (merge_kept_pool ranked prev failed) \<and> set (merge_kept_pool ranked prev failed) \<subseteq> set ranked \<union> set prev \<and>
   (distinct ranked \<longrightarrow> distinct (merge_kept_pool ranked prev failed)) \<and>
   (MIN_LIVE_SERVERS_TO_OVERWRITE \<le> length (merge_kept_pool ranked prev failed) \<or>
    set (merge_kept_pool ranked prev failed) = set ranked \<union> set prev)"
proof -
  let ?o = "append_fresh ranked (filter (\<lambda>a. a \<notin> failed) prev)"
  have "set ?o = set ranked \<union> (set prev - failed)" "distinct ranked \<longrightarrow> distinct ?o"
    using append_fresh_spec[of ranked "filter (\<lambda>a. a \<notin> failed) prev"] by auto
  with fill_up_spec[of ?o "filter (\<lambda>a. a \<in> failed) prev"] show ?thesis
    unfolding merge_kept_pool_def by auto
qed

lemma choose_pool_some:
  assumes "choose_pool ranked contents ex failed = (kept, Some pool)" "set ranked \<inter> ex = {}" "\<forall>a \<in> set ranked. good_addr a"
  shows "set pool \<inter> ex = {} \<and> (\<forall>a \<in> set pool. good_addr a)"
proof -
  let ?prev = "filter (\<lambda>a. a \<notin> ex) (extract_ipv4 contents)"
  have "pool = merge_kept_pool ranked ?prev failed \<or> pool = ranked \<or> pool = ?prev"
    using assms(1) by (auto simp: choose_pool_def previous_live_pool_def peer_pool_to_write_def Let_def split: if_splits)
  moreover have "set ?prev \<inter> ex = {}" "\<forall>a \<in> set ?prev. good_addr a" by (auto dest: extract_good)
  ultimately show ?thesis using assms(2,3) merge_kept_spec[of ranked ?prev failed] by blast
qed

lemma choose_pool_none:
  assumes "choose_pool ranked contents ex failed = (kept, None)"
  shows "set (extract_ipv4 contents) \<inter> ex = {}"
proof -
  have "\<not> length (filter (\<lambda>a. a \<notin> ex) (extract_ipv4 contents)) < length (extract_ipv4 contents)"
    using assms by (auto simp: choose_pool_def previous_live_pool_def peer_pool_to_write_def Let_def split: if_splits)
  then have "filter (\<lambda>a. a \<notin> ex) (extract_ipv4 contents) = extract_ipv4 contents"
    by (metis filter_id_conv length_filter_less)
  then show ?thesis by (metis disjoint_iff filter_id_conv)
qed

text \<open>What the pool file names after the choice, whether or not the file could be replaced.\<close>

lemma choose_pool_size:
  assumes "choose_pool ranked contents ex failed = (kept, published)" "distinct ranked"
    and "previous_peer_pool_is_trusted contents"
    and "pool = (case published of None \<Rightarrow> extract_ipv4 contents | Some p \<Rightarrow> p)"
    and "prev = filter (\<lambda>a. a \<notin> ex) (extract_ipv4 contents)"
  shows "(prev \<noteq> [] \<longrightarrow> pool \<noteq> []) \<and> (8 \<le> card (set prev) \<longrightarrow> 8 \<le> card (set pool))"
proof -
  let ?keep = "should_keep_previous_peer_pool (length ranked) (length prev) True"
  have c: "kept = ?keep" "published = (if ?keep \<and> ranked \<noteq> [] then Some (merge_kept_pool ranked prev failed)
      else peer_pool_to_write ranked prev ?keep (length prev < length (extract_ipv4 contents)))"
    using assms(1,3,5) by (auto simp: choose_pool_def previous_live_pool_def Let_def)
  have ps: "set prev \<subseteq> set (extract_ipv4 contents)" using assms(5) by auto
  have m: "8 \<le> card (set (merge_kept_pool ranked prev failed))" if "8 \<le> card (set prev)"
  proof -
    have "distinct (merge_kept_pool ranked prev failed)" using merge_kept_spec assms(2) by blast
    then have "length (merge_kept_pool ranked prev failed) = card (set (merge_kept_pool ranked prev failed))"
      by (simp add: distinct_card)
    moreover have "card (set prev) \<le> card (set ranked \<union> set prev)" by (intro card_mono) auto
    ultimately show ?thesis using merge_kept_spec[of ranked prev failed] that by auto
  qed
  consider "?keep" "ranked \<noteq> []" | "?keep" "ranked = []" | "\<not> ?keep" by blast
  then show ?thesis
  proof cases
    case 1
    then have "pool = merge_kept_pool ranked prev failed" using c(2) assms(4) by simp
    with m 1(2) merge_kept_spec[of ranked prev failed] show ?thesis by (cases ranked) auto
  next
    case 2
    then have "pool = prev \<or> pool = extract_ipv4 contents"
      using c(2) assms(4) by (auto simp: peer_pool_to_write_def split: if_splits)
    moreover have "card (set prev) \<le> card (set (extract_ipv4 contents))" using ps by (intro card_mono) auto
    ultimately show ?thesis using ps by (auto simp: assms(5))
  next
    case 3
    then have "pool = ranked" using c(2) assms(4) by (auto simp: peer_pool_to_write_def)
    moreover have "card (set prev) \<le> length prev" by (rule card_length)
    ultimately show ?thesis
      using 3 distinct_card[OF assms(2)] by (auto simp: should_keep_previous_peer_pool_def)
  qed
qed

section \<open>Cycles\<close>

lemma peerd_cycleE:
  assumes "peerd_cycle D cfg i s = (n, s')"
  obtains bl ex cands0 fails0 cands1 targets cursor probed failed0 tip live lagged cands2 fails2 kept published where
    "bl = snd (reload (ci_env i) (ci_list i) (pd_bl s))" "ex = peerd_excluded cfg bl"
    "drop_excluded ex (pd_candidates s, pd_fails s) = (cands0, fails0)"
    "cands1 = peerd_discover cfg i ex bl cands0"
    "select_probe_candidates (sort cands1) (fst (previous_live_pool (case pd_out s of None \<Rightarrow> [] | Some f \<Rightarrow> f) ex))
       (pc_per_cycle cfg) (pd_cursor s) = (targets, cursor)"
    "probe_selected D bl i targets = (probed, failed0)" "tip = clustered_probe_tip probed"
    "split_live_by_tip probed tip = (live, lagged)"
    "fold note_failed (failed0 @ lagged) (cands1, fold (\<lambda>x. AList.delete (fst x)) live fails0) = (cands2, fails2)"
    "choose_pool (rank_live live) (case pd_out s of None \<Rightarrow> [] | Some f \<Rightarrow> f) ex (set (failed0 @ lagged)) = (kept, published)"
    "pd_candidates s' = cands2" "pd_fails s' = fails2" "pd_bl s' = bl"
    "pd_cand_file s' = write_atomic (ci_cand_ok i) (format_peer_candidates cands1) (pd_cand_file s)"
    "pd_out s' = (case published of None \<Rightarrow> pd_out s
       | Some pool \<Rightarrow> write_atomic (ci_out_ok i) (peers_json pool (length cands1) tip) (pd_out s))"
  using assms unfolding peerd_cycle_def Let_def
  by (auto split: prod.splits)

definition peerd_ok :: "peerd_config \<Rightarrow> peerd \<Rightarrow> bool" where
  "peerd_ok cfg s \<longleftrightarrow> fails_ok (pd_candidates s, pd_fails s) \<and>
     (\<forall>a \<in> set (pd_candidates s). good_addr a \<and> a \<notin> pc_self cfg)"

text \<open>The facts of one cycle that the properties share.\<close>

definition cycle_view ::
  "cycle_in \<Rightarrow> peerd \<Rightarrow> peerd \<Rightarrow> ip set \<Rightarrow> ip list \<Rightarrow> (ip \<times> live_probe) list \<Rightarrow> ip list option \<Rightarrow> bool" where
  "cycle_view i s s' ex cands1 live published \<longleftrightarrow>
     set (pd_candidates s') \<subseteq> set cands1 \<and> distinct cands1 \<and> set cands1 \<inter> ex = {} \<and> (\<forall>a \<in> set cands1. good_addr a) \<and>
     set (rank_live live) \<subseteq> set cands1 \<and> distinct (rank_live live) \<and>
     (\<exists>failed kept. choose_pool (rank_live live) (case pd_out s of None \<Rightarrow> [] | Some f \<Rightarrow> f) ex failed = (kept, published)) \<and>
     pd_cand_file s' = write_atomic (ci_cand_ok i) (format_peer_candidates cands1) (pd_cand_file s) \<and>
     (\<exists>tip. pd_out s' = (case published of None \<Rightarrow> pd_out s
       | Some pool \<Rightarrow> write_atomic (ci_out_ok i) (peers_json pool (length cands1) tip) (pd_out s)))"

lemma peerd_cycle_facts:
  assumes c: "peerd_cycle D cfg i s = (n, s')" and ok: "peerd_ok cfg s"
    and joined: "\<And>ts. mset (ci_joined i ts) = mset ts"
  shows "peerd_ok cfg s' \<and> pd_bl s' = snd (reload (ci_env i) (ci_list i) (pd_bl s)) \<and>
    (\<exists>cands1 live published. cycle_view i s s' (peerd_excluded cfg (pd_bl s')) cands1 live published)"
  using c
proof (rule peerd_cycleE)
  fix bl ex cands0 fails0 cands1 targets cursor probed failed0 tip live lagged cands2 fails2 kept published
  assume bl: "bl = snd (reload (ci_env i) (ci_list i) (pd_bl s))" "ex = peerd_excluded cfg bl"
    and dr: "drop_excluded ex (pd_candidates s, pd_fails s) = (cands0, fails0)"
    and c1: "cands1 = peerd_discover cfg i ex bl cands0"
    and sel: "select_probe_candidates (sort cands1) (fst (previous_live_pool (case pd_out s of None \<Rightarrow> [] | Some f \<Rightarrow> f) ex))
       (pc_per_cycle cfg) (pd_cursor s) = (targets, cursor)"
    and pr: "probe_selected D bl i targets = (probed, failed0)" "tip = clustered_probe_tip probed"
    and sp: "split_live_by_tip probed tip = (live, lagged)"
    and nf: "fold note_failed (failed0 @ lagged) (cands1, fold (\<lambda>x. AList.delete (fst x)) live fails0) = (cands2, fails2)"
    and ch: "choose_pool (rank_live live) (case pd_out s of None \<Rightarrow> [] | Some f \<Rightarrow> f) ex (set (failed0 @ lagged)) = (kept, published)"
    and s': "pd_candidates s' = cands2" "pd_fails s' = fails2" "pd_bl s' = bl"
    and files: "pd_cand_file s' = write_atomic (ci_cand_ok i) (format_peer_candidates cands1) (pd_cand_file s)"
    "pd_out s' = (case published of None \<Rightarrow> pd_out s
       | Some pool \<Rightarrow> write_atomic (ci_out_ok i) (peers_json pool (length cands1) tip) (pd_out s))"
  have f0: "fails_ok (cands0, fails0)" "set cands0 = set (pd_candidates s) - ex"
    using drop_excluded_ok[of "pd_candidates s" "pd_fails s" ex] ok dr by (auto simp: peerd_ok_def)
  then have c0: "set cands0 \<inter> ex = {}" "distinct cands0" "\<forall>a \<in> set cands0. good_addr a"
    using ok by (auto simp: peerd_ok_def fails_ok_def)
  note d = discover_spec[OF c0, of cfg i bl, folded c1]
  have t: "distinct targets" "set targets \<subseteq> set cands1"
    using select_probe_spec[of "sort cands1"] sel by (metis fst_conv, metis fst_conv set_sort)
  have p: "distinct (map fst probed @ failed0)" "set (map fst probed @ failed0) \<subseteq> set targets"
    using probe_selected_spec[OF joined t(1), of D bl] pr(1) by auto
  have l: "set (map fst live @ lagged) = set (map fst probed)" "distinct (map fst live @ lagged)"
    using split_live_spec[OF sp] p(1) by auto
  have part: "set lagged \<subseteq> fst ` set probed" "fst ` set live \<subseteq> fst ` set probed" using l(1) by auto
  have "set failed0 \<inter> fst ` set probed = {}" "distinct failed0" "distinct lagged" using p(1) l(2) by auto
  with part(1) have "distinct (failed0 @ lagged)" by auto
  moreover have "fst ` set probed \<subseteq> set cands1" "set failed0 \<subseteq> set cands1" using p(2) t(2) by auto
  ultimately have fl: "distinct (failed0 @ lagged)" "set (failed0 @ lagged) \<subseteq> set cands1" "fst ` set live \<subseteq> set cands1"
    using part by auto
  have "fails_ok (cands1, fold (\<lambda>x. AList.delete (fst x)) live fails0)"
    using fails_ok_more[OF fails_ok_clear[OF f0(1)] d(2,1)] .
  from note_all_failed_ok[OF this fl(1)] fl(2) have nf': "fails_ok (cands2, fails2)" "set cands2 \<subseteq> set cands1"
    unfolding nf by auto
  have "peerd_ok cfg s'"
    using nf' d(3,4) bl s' by (auto simp: peerd_ok_def peerd_excluded_def)
  moreover have "distinct (rank_live live)" "set (rank_live live) \<subseteq> set cands1" using l(2) fl(3) rank_live_spec by auto
  then have "cycle_view i s s' ex cands1 live published"
    unfolding cycle_view_def using nf'(2) d(2,3,4) ch files s'(1) by blast
  ultimately show ?thesis unfolding s'(3) bl[symmetric] by blast
qed

inductive peerd_reach :: "(bytes \<Rightarrow> bytes option) \<Rightarrow> peerd_config \<Rightarrow> peerd \<Rightarrow> bool"
  for D :: "bytes \<Rightarrow> bytes option" and cfg :: peerd_config
where
  boot: "(\<forall>f. cand_file = Some f \<longrightarrow> CHR ''+'' \<notin> set f) \<Longrightarrow> peerd_reach D cfg (peerd_start cfg bl cand_file out)"
| rehash: "peerd_reach D cfg s \<Longrightarrow> mset cs = mset (pd_candidates s) \<Longrightarrow> peerd_reach D cfg (s\<lparr>pd_candidates := cs\<rparr>)"
| cycle: "peerd_reach D cfg s \<Longrightarrow> (\<And>ts. mset (ci_joined i ts) = mset ts) \<Longrightarrow> (\<And>ts. mset (ci_arrive i ts) = mset ts) \<Longrightarrow>
    peerd_cycle D cfg i s = (n, s') \<Longrightarrow> peerd_reach D cfg s'"

lemma peerd_ok_start:
  "(\<forall>f. cand_file = Some f \<longrightarrow> CHR ''+'' \<notin> set f) \<Longrightarrow> peerd_ok cfg (peerd_start cfg bl cand_file out)"
  by (cases cand_file)
    (auto simp: peerd_ok_def peerd_start_def fails_ok_def parsed_candidates_good, simp add: parse_peer_candidates_def)

lemma peerd_reach_ok: "peerd_reach D cfg s \<Longrightarrow> peerd_ok cfg s"
proof (induction rule: peerd_reach.induct)
  case (boot cand_file bl out)
  then show ?case by (rule peerd_ok_start)
next
  case (rehash s cs)
  then show ?case
    using mset_eq_setD[OF rehash.hyps(2)] mset_eq_imp_distinct_iff[OF rehash.hyps(2)]
    by (auto simp: peerd_ok_def fails_ok_def)
next
  case (cycle s i n s')
  then show ?case using peerd_cycle_facts[OF cycle.hyps(4) cycle.IH cycle.hyps(2)] by simp
qed

lemma discover_cong:
  assumes "\<And>ts. mset (ci_arrive i ts) = mset ts" "\<forall>a. a \<notin> ex \<longrightarrow> q a = ci_query i a"
  shows "peerd_discover cfg (i\<lparr>ci_query := q, ci_probe := p\<rparr>) ex bl cs = peerd_discover cfg i ex bl cs"
proof -
  have "crawl_peers_with seeds ex d m (ci_arrive i) (\<lambda>a. map_option (\<lambda>x. query_peers bl x a) (q a)) =
      crawl_peers_with seeds ex d m (ci_arrive i) (\<lambda>a. map_option (\<lambda>x. query_peers bl x a) (ci_query i a))" for seeds d m
    by (rule crawl_peers_cong) (simp_all add: assms)
  then show ?thesis by (simp add: peerd_discover_def)
qed

lemma map_filter_same: "(\<And>x. x \<in> set xs \<Longrightarrow> f x = g x) \<Longrightarrow> List.map_filter f xs = List.map_filter g xs"
  by (induction xs) (auto simp: map_filter_simps split: option.split)

lemma probe_selected_cong:
  assumes "mset (ci_joined i ts) = mset ts" "\<forall>a. a \<notin> ex \<longrightarrow> p a = ci_probe i a" "set ts \<inter> ex = {}"
  shows "probe_selected D bl (i\<lparr>ci_query := q, ci_probe := p\<rparr>) ts = probe_selected D bl i ts"
proof -
  have "set (ci_joined i ts) = set ts" using assms(1) by (metis set_mset_mset)
  then have "List.map_filter (\<lambda>a. map_option (\<lambda>x. (a, probe_live D bl x a)) (p a)) (ci_joined i ts) =
      List.map_filter (\<lambda>a. map_option (\<lambda>x. (a, probe_live D bl x a)) (ci_probe i a)) (ci_joined i ts)"
    using assms(2,3) by (intro map_filter_same) auto
  then show ?thesis by (simp add: probe_selected_def)
qed

lemma excluded_never_asked:
  assumes ok: "peerd_ok cfg s" and arr: "\<And>ts. mset (ci_arrive i ts) = mset ts" and joined: "\<And>ts. mset (ci_joined i ts) = mset ts"
    and ex: "ex = peerd_excluded cfg (snd (reload (ci_env i) (ci_list i) (pd_bl s)))"
    and same: "\<forall>a. a \<notin> ex \<longrightarrow> q a = ci_query i a \<and> p a = ci_probe i a"
  shows "peerd_cycle D cfg (i\<lparr>ci_query := q, ci_probe := p\<rparr>) s = peerd_cycle D cfg i s"
proof -
  let ?i = "i\<lparr>ci_query := q, ci_probe := p\<rparr>"
  let ?bl = "snd (reload (ci_env i) (ci_list i) (pd_bl s))"
  have same': "\<forall>a. a \<notin> ex \<longrightarrow> q a = ci_query i a" "\<forall>a. a \<notin> ex \<longrightarrow> p a = ci_probe i a" using same by simp_all
  note d = discover_cong[where i = i and ex = ex and q = q and p = p, OF arr same'(1)]
  define cs where "cs = peerd_discover cfg i ex ?bl (fst (drop_excluded ex (pd_candidates s, pd_fails s)))"
  have "set (filter (\<lambda>a. a \<notin> ex) (pd_candidates s)) \<inter> ex = {}" "distinct (filter (\<lambda>a. a \<notin> ex) (pd_candidates s))"
      "\<forall>a \<in> set (filter (\<lambda>a. a \<notin> ex) (pd_candidates s)). good_addr a"
    using ok by (auto simp: peerd_ok_def fails_ok_def)
  from discover_spec(3)[OF this] have "set cs \<inter> ex = {}" by (simp add: cs_def drop_excluded_def)
  then have "set (fst (select_probe_candidates (sort cs) prev m cur)) \<inter> ex = {}" for prev m cur
    using select_probe_spec[of "sort cs" prev m cur] by auto
  note pr = probe_selected_cong[OF joined same'(2) this, of D ?bl q]
  have fields: "ci_env ?i = ci_env i" "ci_list ?i = ci_list i" "ci_cand_ok ?i = ci_cand_ok i" "ci_out_ok ?i = ci_out_ok i"
      "ci_secs ?i = ci_secs i" by simp_all
  show ?thesis
    unfolding peerd_cycle_def Let_def case_prod_beta fields
    by (simp only: ex[symmetric] d cs_def[symmetric] pr)
qed

section \<open>Properties\<close>

text \<open>C24: in every state the daemon reaches, its candidates are distinct routable dotted quads, none of them one of its
  own nodes or a priority peer; failure counts exist only for candidates and stay between 1 and 49; and the candidate
  file written from such a state gives the same candidates to the next start. A persisted file is assumed to contain
  no plus sign.\<close>

theorem peerd_state_typed:
  assumes "peerd_reach D cfg s"
  shows "distinct (pd_candidates s) \<and>
    (\<forall>a \<in> set (pd_candidates s). is_ipv4 a \<and> is_routable a \<and> a \<notin> pc_self cfg) \<and>
    distinct (map fst (pd_fails s)) \<and>
    (\<forall>a n. map_of (pd_fails s) a = Some n \<longrightarrow> a \<in> set (pd_candidates s) \<and> 1 \<le> n \<and> n < 50) \<and>
    parse_peer_candidates (format_peer_candidates (pd_candidates s)) = pd_candidates s"
  using peerd_reach_ok[OF assms] candidates_read_back[of "pd_candidates s"]
  by (auto simp: peerd_ok_def fails_ok_def good_addr_def Suc_le_eq)

definition sample_peerd_config :: peerd_config where
  "sample_peerd_config = peerd_config_from_env (\<lambda>k. if k = ''HL_SELF_IP'' then Some ''192.0.2.9'' else None) 300"

lemma sample_self: "pc_self sample_peerd_config = {''192.0.2.9''}"
  by (simp add: sample_peerd_config_def peerd_config_from_env_def split_csv_def priority_peers_from_env_def
      priority_peers_from_raw_def trim_def trim_with_def is_ws_def)

definition sample_file :: string where
  "sample_file = show_ipv4 (Ipv4 192 0 2 7) @ [CHR 0x0A]"

lemma sample_file_plus: "\<forall>f. Some sample_file = Some f \<longrightarrow> CHR ''+'' \<notin> set f"
  using set_show_ipv4[of "CHR ''+''" "Ipv4 192 0 2 7"] by (auto simp: sample_file_def is_digit_def)

theorem peerd_state_typed_witness:
  "parse_peer_candidates (format_peer_candidates (pd_candidates (peerd_start sample_peerd_config blacklist_init (Some sample_file) None)))
     = pd_candidates (peerd_start sample_peerd_config blacklist_init (Some sample_file) None)"
  using peerd_state_typed[where D = "\<lambda>_. None", OF peerd_reach.boot[OF sample_file_plus]] by blast

text \<open>C11: in every cycle, an address that is one of our own nodes, a priority peer or blacklisted is neither queried
  nor probed (the cycle does not depend on what it would answer), is no candidate afterwards, and is in neither file
  the cycle leaves behind once it could write them.\<close>

theorem excluded_untouched:
  assumes "peerd_reach D cfg s"
    and "\<And>ts. mset (ci_arrive i ts) = mset ts" and "\<And>ts. mset (ci_joined i ts) = mset ts"
    and "ex = pc_self cfg \<union> bl_ips (snd (reload (ci_env i) (ci_list i) (pd_bl s)))"
    and "\<forall>a. a \<notin> ex \<longrightarrow> q a = ci_query i a \<and> p a = ci_probe i a"
    and "s' = snd (peerd_cycle D cfg i s)"
  shows "peerd_cycle D cfg (i\<lparr>ci_query := q, ci_probe := p\<rparr>) s = peerd_cycle D cfg i s \<and>
    set (pd_candidates s') \<inter> ex = {} \<and>
    (ci_cand_ok i \<longrightarrow> (\<exists>f. pd_cand_file s' = Some f \<and> set (parse_peer_candidates f) \<inter> ex = {})) \<and>
    (ci_out_ok i \<longrightarrow> (\<forall>f. pd_out s' = Some f \<longrightarrow> set (read_node_peers [f]) \<inter> ex = {}))"
proof -
  note ok = peerd_reach_ok[OF assms(1)]
  have e: "ex = peerd_excluded cfg (snd (reload (ci_env i) (ci_list i) (pd_bl s)))"
    using assms(4) by (simp add: peerd_excluded_def)
  obtain n where c: "peerd_cycle D cfg i s = (n, s')" using assms(6) by (metis prod.collapse)
  note view = peerd_cycle_facts[OF c ok assms(3)]
  then obtain cands1 live published where "cycle_view i s s' ex cands1 live published" using e by auto
  note f = this[unfolded cycle_view_def]
  have "set (read_node_peers [g]) \<inter> ex = {}" if "ci_out_ok i" "pd_out s' = Some g" for g
  proof (cases published)
    case None
    then have g: "pd_out s = Some g" using f that by auto
    with None f obtain failed kept where "choose_pool (rank_live live) g ex failed = (kept, None)" by auto
    then show ?thesis using choose_pool_none by (simp add: read_node_peers_set)
  next
    case (Some pool)
    then have "set pool \<inter> ex = {} \<and> (\<forall>a \<in> set pool. good_addr a)"
      using f choose_pool_some[of "rank_live live" _ ex _ _ pool] by blast
    with Some f that extract_peers_json[of pool] show ?thesis
      by (auto simp: write_atomic_def read_node_peers_set)
  qed
  moreover have "parse_peer_candidates (format_peer_candidates cands1) = cands1"
    using f by (intro candidates_read_back) auto
  ultimately show ?thesis
    using excluded_never_asked[OF ok assms(2,3) e assms(5)] f by (auto simp: write_atomic_def)
qed

definition sample_cycle :: cycle_in where
  "sample_cycle = \<lparr>ci_env = None, ci_list = None, ci_roots = None, ci_query = (\<lambda>_. None), ci_arrive = rev, ci_stats = [],
     ci_cand_ok = True, ci_probe = (\<lambda>_. None), ci_joined = rev, ci_out_ok = True, ci_secs = 1\<rparr>"

definition sample_peerd :: peerd where
  "sample_peerd = peerd_start sample_peerd_config blacklist_init (Some sample_file)
     (Some (peers_json [show_ipv4 (Ipv4 192 0 2 7)] 1 None))"

lemma sample_peerd_reach: "peerd_reach (\<lambda>_. None) sample_peerd_config sample_peerd"
  unfolding sample_peerd_def by (rule peerd_reach.boot[OF sample_file_plus])

lemma sample_orders: "mset (ci_arrive sample_cycle ts) = mset ts" "mset (ci_joined sample_cycle ts) = mset ts"
  by (simp_all add: sample_cycle_def)

theorem excluded_untouched_witness:
  "peerd_cycle (\<lambda>_. None) sample_peerd_config (sample_cycle\<lparr>ci_query := (\<lambda>_. None),
       ci_probe := (\<lambda>a. if a = ''192.0.2.9'' then Some \<lparr>pb_conn = Some True, pb_greet = True, pb_frames = []\<rparr> else None)\<rparr>)
       sample_peerd = peerd_cycle (\<lambda>_. None) sample_peerd_config sample_cycle sample_peerd \<and>
   ''192.0.2.9'' \<notin> set (pd_candidates (snd (peerd_cycle (\<lambda>_. None) sample_peerd_config sample_cycle sample_peerd)))"
  using excluded_untouched[OF sample_peerd_reach sample_orders refl _ refl, where q = "\<lambda>_. None" and
      p = "\<lambda>a. if a = ''192.0.2.9'' then Some \<lparr>pb_conn = Some True, pb_greet = True, pb_frames = []\<rparr> else None"]
  by (simp add: sample_self sample_cycle_def)

text \<open>what the gateway reads of a pool file the daemon wrote is the pool, without repetitions and in its order,
  and the published tip, or none; the daemon trusts the file exactly when it names a peer.\<close>

theorem peers_json_read_back:
  assumes "\<forall>a \<in> set pool. good_addr a"
  shows "read_node_peers [peers_json pool n tip] = dedup_first [] pool \<and>
    extract_round_tip (peers_json pool n tip) = tip \<and>
    (previous_peer_pool_is_trusted (peers_json pool n tip) \<longleftrightarrow> pool \<noteq> [])"
  using extract_peers_json[OF assms] tip_peers_json[OF assms] trusted_peers_json[OF assms]
  by (simp add: read_node_peers_def)

lemma sample_good: "good_addr (show_ipv4 (Ipv4 192 0 2 7))"
  by (rule good_addr_show) (simp only: is_routable_numeric, simp)

theorem peers_json_read_back_witness:
  "read_node_peers [peers_json [show_ipv4 (Ipv4 192 0 2 7)] 1 (Some 850000000)] = [show_ipv4 (Ipv4 192 0 2 7)] \<and>
   extract_round_tip (peers_json [show_ipv4 (Ipv4 192 0 2 7)] 1 (Some 850000000)) = Some 850000000"
  using peers_json_read_back[of "[show_ipv4 (Ipv4 192 0 2 7)]" 1 "Some 850000000"] sample_good
  by (simp del: show_ipv4.simps)

text \<open>C13: a cycle never empties a trusted pool file that still names a usable peer, and never thins one that names
  eight usable peers below eight, whatever the probes find and whether or not the file can be replaced.\<close>

theorem pool_never_thinned:
  assumes "peerd_reach D cfg s" and "\<And>ts. mset (ci_joined i ts) = mset ts"
    and "pd_out s = Some f" and "previous_peer_pool_is_trusted f"
    and "usable = set (extract_ipv4 f) - (pc_self cfg \<union> bl_ips (snd (reload (ci_env i) (ci_list i) (pd_bl s))))"
  shows "\<exists>g. pd_out (snd (peerd_cycle D cfg i s)) = Some g \<and>
    (usable \<noteq> {} \<longrightarrow> read_node_peers [g] \<noteq> []) \<and> (8 \<le> card usable \<longrightarrow> 8 \<le> length (read_node_peers [g]))"
proof -
  note ok = peerd_reach_ok[OF assms(1)]
  obtain n s' where c: "peerd_cycle D cfg i s = (n, s')" by fastforce
  note view = peerd_cycle_facts[OF c ok assms(2)]
  define ex where "ex = peerd_excluded cfg (pd_bl s')"
  obtain cands1 live published where "cycle_view i s s' ex cands1 live published" using view ex_def by blast
  note x = this[unfolded cycle_view_def assms(3) option.case]
  then obtain failed kept tip where ch: "choose_pool (rank_live live) f ex failed = (kept, published)"
    and out: "pd_out s' = (case published of None \<Rightarrow> Some f
       | Some pool \<Rightarrow> write_atomic (ci_out_ok i) (peers_json pool (length cands1) tip) (Some f))"
    by blast
  have u: "usable = set (filter (\<lambda>a. a \<notin> ex) (extract_ipv4 f))"
    using view assms(5) by (auto simp: ex_def peerd_excluded_def)
  let ?pool = "case published of None \<Rightarrow> extract_ipv4 f | Some p \<Rightarrow> p"
  have size: "(usable \<noteq> {} \<longrightarrow> ?pool \<noteq> []) \<and> (8 \<le> card usable \<longrightarrow> 8 \<le> card (set ?pool))"
    using choose_pool_size[OF ch _ assms(4) refl refl] x unfolding u set_empty by blast
  have old: "usable \<subseteq> set (extract_ipv4 f)" using u by auto
  have rd: "length (read_node_peers [g]) = card (set (extract_ipv4 g))" for g
    using distinct_card[of "read_node_peers [g]"] dedup_first_spec[of "[]" "extract_ipv4 g"]
    by (simp add: read_node_peers_def)
  have re: "read_node_peers [g] = [] \<longleftrightarrow> extract_ipv4 g = []" for g
    using read_node_peers_set[of "[g]"] by (metis set_empty rd card_0_eq finite_set length_0_conv)
  have kept: "(usable \<noteq> {} \<longrightarrow> read_node_peers [f] \<noteq> []) \<and> (8 \<le> card usable \<longrightarrow> 8 \<le> length (read_node_peers [f]))"
    using old card_mono[OF finite_set old] unfolding rd re by auto
  show ?thesis
  proof (cases "published \<noteq> None \<and> ci_out_ok i")
    case True
    then obtain pool where pool: "published = Some pool" by blast
    have "\<forall>a \<in> set pool. good_addr a"
      using choose_pool_some[OF ch[unfolded pool]] x by blast
    then have "extract_ipv4 (peers_json pool (length cands1) tip) = pool" by (rule extract_peers_json)
    with True pool size out c show ?thesis
      unfolding rd re by (simp add: write_atomic_def)
  next
    case False
    then have "pd_out s' = Some f" using out by (auto simp: write_atomic_def split: option.splits)
    with c kept show ?thesis by simp
  qed
qed

theorem pool_never_thinned_witness:
  "\<exists>g. pd_out (snd (peerd_cycle (\<lambda>_. None) sample_peerd_config sample_cycle sample_peerd)) = Some g \<and> read_node_peers [g] \<noteq> []"
proof -
  let ?f = "peers_json [show_ipv4 (Ipv4 192 0 2 7)] 1 None"
  have good: "\<forall>a \<in> set [show_ipv4 (Ipv4 192 0 2 7)]. good_addr a" using sample_good by (simp del: show_ipv4.simps)
  have out: "pd_out sample_peerd = Some ?f" and bl: "bl_ips (snd (reload (ci_env sample_cycle) (ci_list sample_cycle) (pd_bl sample_peerd))) = {}"
    by (simp_all add: sample_peerd_def peerd_start_def sample_cycle_def bl_ips_def bl_list_reload listed_def)
  have "show_ipv4 (Ipv4 192 0 2 7) \<noteq> ''192.0.2.9''"
    using parse_show_ipv4[of "Ipv4 192 0 2 7"] by (auto simp: parse_ipv4_def parse_octet_def dec_val_def digit_val_def is_digit_def simp del: show_ipv4.simps)
  then show ?thesis
    using pool_never_thinned[OF sample_peerd_reach sample_orders(2) out _ refl] trusted_peers_json[OF good] extract_peers_json[OF good]
    by (auto simp: sample_self bl simp del: show_ipv4.simps)
qed

end
