(* ===== verification/Startup.thy ===== *)
theory Startup
  imports Priority Failover_Session
begin

text \<open>
  The checks at startup: the settings of the gateway (env_check.rs) and its arguments (\<open>parse_gateway_args\<close> of main.rs).
  A problem is a value of \<open>env_problem\<close>; the messages the code prints are its renderings, and those about priority
  peers carry positions only.

  The property relates the check to the readers of the settings: what passes is read as it is written.
\<close>

section \<open>Definitions\<close>

datatype env_problem =
    NotIpv4 nat
  | NotPublic nat
  | RepeatsEarlier nat
  | CountDiffers nat nat
  | NotA string string string

definition setting :: "env \<Rightarrow> string \<Rightarrow> string option" where
  "setting e k = (case e k of None \<Rightarrow> None | Some v \<Rightarrow> if trim v = [] then None else Some v)"

fun is_public :: "ipv4 \<Rightarrow> bool" where
  "is_public (Ipv4 a b c d) \<longleftrightarrow>
     \<not> (a = 10 \<or> (a = 172 \<and> 16 \<le> b \<and> b \<le> 31) \<or> (a = 192 \<and> b = 168) \<or>
        a = 127 \<or> (a = 169 \<and> b = 254) \<or>
        (a = 192 \<and> b = 0 \<and> c = 2) \<or> (a = 198 \<and> b = 51 \<and> c = 100) \<or> (a = 203 \<and> b = 0 \<and> c = 113) \<or>
        (224 \<le> a \<and> a \<le> 239) \<or> (a = 255 \<and> b = 255 \<and> c = 255 \<and> d = 255) \<or>
        a = 0 \<or> 240 \<le> a \<or> (a = 100 \<and> 64 \<le> b \<and> b < 128) \<or> (a = 192 \<and> b = 0 \<and> c = 0) \<or>
        (a = 192 \<and> b = 88 \<and> c = 99) \<or> (a = 198 \<and> 18 \<le> b \<and> b < 20))"

definition parse_bool :: "string \<Rightarrow> bool option" where
  "parse_bool v =
     (let s = to_lower (trim_with (\<lambda>c. c = CHR 0x22 \<or> c = CHR 0x27) (trim v))
      in if s \<in> {''1'', ''true'', ''yes'', ''on''} then Some True
         else if s \<in> {''0'', ''false'', ''no'', ''off''} then Some False
         else None)"

definition check_number :: "env \<Rightarrow> string \<Rightarrow> nat \<Rightarrow> nat \<Rightarrow> env_problem list" where
  "check_number e key lo hi =
     (case setting e key of
        None \<Rightarrow> []
      | Some v \<Rightarrow>
          (case parse_uint U64_MAX (trim v) of
             Some n \<Rightarrow> if lo \<le> n \<and> n \<le> hi then [] else [NotA key v (''whole number in '' @ show_nat lo @ ''..='' @ show_nat hi)]
           | None \<Rightarrow> [NotA key v (''whole number in '' @ show_nat lo @ ''..='' @ show_nat hi)]))"

text \<open>The loop over the priority peers from entry number \<open>n\<close> on: the problems, and how many entries are valid.\<close>

fun check_peers :: "nat \<Rightarrow> string list \<Rightarrow> ipv4 set \<Rightarrow> env_problem list \<times> nat" where
  "check_peers n [] seen = ([], 0)"
| "check_peers n (item # items) seen =
     (case parse_ipv4 item of
        None \<Rightarrow> (case check_peers (n + 1) items seen of (ps, k) \<Rightarrow> (NotIpv4 n # ps, k))
      | Some i \<Rightarrow>
          if \<not> is_public i then (case check_peers (n + 1) items seen of (ps, k) \<Rightarrow> (NotPublic n # ps, k))
          else if i \<in> seen then (case check_peers (n + 1) items seen of (ps, k) \<Rightarrow> (RepeatsEarlier n # ps, k))
          else (case check_peers (n + 1) items (insert i seen) of (ps, k) \<Rightarrow> (ps, k + 1)))"

definition FAILOVER_NUMBERS :: "(string \<times> nat \<times> nat) list" where
  "FAILOVER_NUMBERS =
     [(''HYPERSYNC_FAILOVER_STALL_MS'', 50, 86400000), (''HYPERSYNC_FAILOVER_LAG_MS'', 20, 86400000),
      (''HYPERSYNC_FAILOVER_DWELL_MS'', 0, 86400000), (''HYPERSYNC_FAILOVER_ROTATE_MS'', 0, 86400000),
      (''HYPERSYNC_FAILOVER_ROTATE_SECS'', 10, 86400)]"

definition problems :: "env \<Rightarrow> bool \<Rightarrow> env_problem list" where
  "problems e gateway =
     (let (out1, peers) =
            (case setting e ''HYPERSYNC_PRIORITY_PEERS'' of None \<Rightarrow> ([], 0) | Some raw \<Rightarrow> check_peers 1 (split_csv raw) {});
          out2 =
            (case setting e ''HYPERSYNC_PRIORITY_PEERS_EXPECTED'' of
               None \<Rightarrow> []
             | Some v \<Rightarrow>
                 (case parse_uint U64_MAX (trim v) of
                    Some want \<Rightarrow> if want \<noteq> peers then [CountDiffers peers want] else []
                  | None \<Rightarrow> [NotA ''HYPERSYNC_PRIORITY_PEERS_EXPECTED'' v ''whole number'']))
      in if \<not> gateway then out1 @ out2
         else out1 @ out2 @
           (case setting e ''HYPERSYNC_PRIORITY_EXCLUSIVE'' of
              None \<Rightarrow> []
            | Some v \<Rightarrow>
                if parse_bool v = None then [NotA ''HYPERSYNC_PRIORITY_EXCLUSIVE'' v ''1|0|true|false|yes|no|on|off''] else []) @
           (case setting e ''HYPERSYNC_PRIORITY_BOOTSTRAP'' of
              None \<Rightarrow> []
            | Some v \<Rightarrow>
                if bootstrap_policy_parse v = None then [NotA ''HYPERSYNC_PRIORITY_BOOTSTRAP'' v ''fallback|never|prefer''] else []) @
           check_number e ''HYPERSYNC_PRIORITY_MAX_SESSIONS'' 0 U64_MAX @
           check_number e ''HYPERSYNC_PRIORITY_STAGE_MS'' 200 3000 @
           check_number e ''HYPERSYNC_FAILOVER_STANDBYS'' 0 16 @
           concat (map (\<lambda>(k, lo, hi). check_number e k lo hi) FAILOVER_NUMBERS))"

record gateway_args =
  ga_peer_file :: string
  ga_push :: bool
  ga_cache :: bool
  ga_live_ignored :: bool

fun scan_args :: "string list \<Rightarrow> gateway_args \<Rightarrow> string + gateway_args" where
  "scan_args [] g = Inr g"
| "scan_args (a # as) g =
     (if a = ''--push'' then scan_args as (g\<lparr>ga_push := True\<rparr>)
      else if a = ''--cache'' then scan_args as (g\<lparr>ga_cache := True\<rparr>)
      else if a = ''--live'' then
        (case as of
           [] \<Rightarrow> Inl ''--live needs a number''
         | v # as' \<Rightarrow>
             if parse_uint U32_MAX v = None then Inl ''--live needs a number''
             else scan_args as' (g\<lparr>ga_live_ignored := True\<rparr>))
      else if starts_with a ''--'' then Inl (''unknown flag '' @ a)
      else if ga_peer_file g = [] then scan_args as (g\<lparr>ga_peer_file := a\<rparr>)
      else Inl (''unexpected argument '' @ a))"

definition parse_gateway_args :: "string list \<Rightarrow> string + gateway_args" where
  "parse_gateway_args args =
     (case scan_args args \<lparr>ga_peer_file = [], ga_push = False, ga_cache = False, ga_live_ignored = False\<rparr> of
        Inl e \<Rightarrow> Inl e
      | Inr g \<Rightarrow> Inr (if ga_peer_file g = [] then g\<lparr>ga_peer_file := ''/nodepeers''\<rparr> else g))"

section \<open>Arguments\<close>

lemma number_no_dash: "parse_uint mx ''--push'' = None" "parse_uint mx ''--cache'' = None" "parse_uint mx ''--live'' = None"
  by (simp_all add: parse_uint_def is_digit_def)

lemma scan_args_flags:
  "scan_args as g = Inr g' \<Longrightarrow>
     (ga_push g' \<longleftrightarrow> ga_push g \<or> ''--push'' \<in> set as) \<and> (ga_cache g' \<longleftrightarrow> ga_cache g \<or> ''--cache'' \<in> set as) \<and>
     (ga_live_ignored g' \<longleftrightarrow> ga_live_ignored g \<or> ''--live'' \<in> set as)"
proof (induction "as" g rule: scan_args.induct)
  case (2 a "as" g)
  then show ?case
    by (auto simp: number_no_dash split: if_splits list.splits)
qed simp

text \<open>Flags count wherever they stand; an accepted command line names at most one file.\<close>

lemma parse_gateway_args_flags:
  assumes "parse_gateway_args args = Inr g"
  shows "(ga_push g \<longleftrightarrow> ''--push'' \<in> set args) \<and> (ga_cache g \<longleftrightarrow> ''--cache'' \<in> set args) \<and>
    (ga_live_ignored g \<longleftrightarrow> ''--live'' \<in> set args) \<and> ga_peer_file g \<noteq> []"
  using assms scan_args_flags[of args]
  by (fastforce simp: parse_gateway_args_def split: sum.splits if_splits)

section \<open>Settings\<close>

lemma check_peers_none:
  "check_peers n items seen = ([], k) \<Longrightarrow>
     \<exists>is. map parse_ipv4 items = map Some is \<and> distinct is \<and> set is \<inter> seen = {} \<and> (\<forall>i \<in> set is. is_public i) \<and> k = length items"
proof (induction items arbitrary: n seen k)
  case (Cons item items)
  then obtain i j where i: "parse_ipv4 item = Some i" "is_public i" "i \<notin> seen"
      "check_peers (n + 1) items (insert i seen) = ([], j)" "k = j + 1"
    by (auto split: option.splits if_splits prod.splits)
  with Cons.IH[OF i(4)] obtain "is" where "map parse_ipv4 items = map Some is" "distinct is" "set is \<inter> insert i seen = {}"
      "\<forall>i \<in> set is. is_public i" "j = length items" by blast
  with i show ?case by (intro exI[of _ "i # is"]) auto
qed simp

lemma peers_from_items_all:
  "map parse_ipv4 items = map Some is \<Longrightarrow> distinct is \<Longrightarrow> set out \<inter> show_ipv4 ` set is = {} \<Longrightarrow>
     peers_from_items items out = out @ items"
proof (induction items arbitrary: "is" out)
  case (Cons item items)
  then obtain i is' where i: "is = i # is'" "parse_ipv4 item = Some i" "map parse_ipv4 items = map Some is'"
    by (cases "is") auto
  have "show_ipv4 i = item" using i(2) by (rule show_parse_ipv4)
  moreover have "show_ipv4 i \<notin> set out" "show_ipv4 i \<notin> show_ipv4 ` set is'"
    using Cons.prems i(1) by (auto dest: show_ipv4_inj)
  ultimately show ?case
    using Cons.IH[OF i(3), of "out @ [item]"] Cons.prems i by auto
qed simp

definition checked_peers :: "env \<Rightarrow> env_problem list \<times> nat" where
  "checked_peers e =
     (case setting e ''HYPERSYNC_PRIORITY_PEERS'' of None \<Rightarrow> ([], 0) | Some raw \<Rightarrow> check_peers 1 (split_csv raw) {})"

lemma problems_parts:
  assumes "problems e True = []"
  shows "fst (checked_peers e) = []"
    and "\<forall>v. setting e ''HYPERSYNC_PRIORITY_PEERS_EXPECTED'' = Some v \<longrightarrow> parse_uint U64_MAX (trim v) = Some (snd (checked_peers e))"
    and "\<forall>v. setting e ''HYPERSYNC_PRIORITY_EXCLUSIVE'' = Some v \<longrightarrow> parse_bool v \<noteq> None"
    and "\<forall>v. setting e ''HYPERSYNC_PRIORITY_BOOTSTRAP'' = Some v \<longrightarrow> bootstrap_policy_parse v \<noteq> None"
    and "check_number e ''HYPERSYNC_PRIORITY_MAX_SESSIONS'' 0 U64_MAX = []" "check_number e ''HYPERSYNC_PRIORITY_STAGE_MS'' 200 3000 = []"
      "check_number e ''HYPERSYNC_FAILOVER_STANDBYS'' 0 16 = []" "\<forall>x \<in> set FAILOVER_NUMBERS. check_number e (fst x) (fst (snd x)) (snd (snd x)) = []"
proof -
  note p = assms[unfolded problems_def Let_def case_prod_beta checked_peers_def[symmetric] simp_thms if_False append_is_Nil_conv]
  show "fst (checked_peers e) = []" using p by blast
  show "\<forall>v. setting e ''HYPERSYNC_PRIORITY_PEERS_EXPECTED'' = Some v \<longrightarrow> parse_uint U64_MAX (trim v) = Some (snd (checked_peers e))"
    using conjunct1[OF conjunct2[OF p]] by (auto split: option.splits if_splits)
  show "\<forall>v. setting e ''HYPERSYNC_PRIORITY_EXCLUSIVE'' = Some v \<longrightarrow> parse_bool v \<noteq> None"
    using conjunct1[OF conjunct2[OF conjunct2[OF p]]] by (auto split: option.splits if_splits)
  show "\<forall>v. setting e ''HYPERSYNC_PRIORITY_BOOTSTRAP'' = Some v \<longrightarrow> bootstrap_policy_parse v \<noteq> None"
    using conjunct1[OF conjunct2[OF conjunct2[OF conjunct2[OF p]]]] by (auto split: option.splits if_splits)
  show "check_number e ''HYPERSYNC_PRIORITY_MAX_SESSIONS'' 0 U64_MAX = []" "check_number e ''HYPERSYNC_PRIORITY_STAGE_MS'' 200 3000 = []"
    "check_number e ''HYPERSYNC_FAILOVER_STANDBYS'' 0 16 = []" using p by blast+
  show "\<forall>x \<in> set FAILOVER_NUMBERS. check_number e (fst x) (fst (snd x)) (snd (snd x)) = []" using p by simp
qed

text \<open>A number is read as written: the default when unset or blank, otherwise the number the text denotes.\<close>

definition reads_as :: "env \<Rightarrow> string \<Rightarrow> nat \<Rightarrow> nat \<Rightarrow> bool" where
  "reads_as e k d n \<longleftrightarrow>
     (case setting e k of None \<Rightarrow> n = d | Some v \<Rightarrow> parse_uint U64_MAX (trim v) = Some n)"

lemma check_number_reads:
  assumes "check_number e k lo hi = []" "lo \<le> d" "d \<le> hi"
  shows "reads_as e k d (env_num e k d)" "lo \<le> env_num e k d" "env_num e k d \<le> hi"
proof -
  have "reads_as e k d (env_num e k d) \<and> lo \<le> env_num e k d \<and> env_num e k d \<le> hi"
  proof (cases "setting e k")
    case None
    then have "env_num e k d = d"
      by (auto simp: setting_def env_num_def parse_uint_def split: option.splits if_splits)
    with None assms show ?thesis by (simp add: reads_as_def)
  next
    case (Some v)
    then have "e k = Some v" by (auto simp: setting_def split: option.splits if_splits)
    with Some assms show ?thesis
      by (auto simp: check_number_def env_num_def reads_as_def split: option.splits if_splits)
  qed
  then show "reads_as e k d (env_num e k d)" "lo \<le> env_num e k d" "env_num e k d \<le> hi" by blast+
qed

lemma setting_default:
  "exclusive_setting (e k) = (case setting e k of None \<Rightarrow> True | Some v \<Rightarrow> exclusive_setting (Some v))"
  "bootstrap_setting (e k) x = (case setting e k of None \<Rightarrow> if x then Prefer else Fallback | Some v \<Rightarrow> bootstrap_setting (Some v) x)"
  by (auto simp: setting_def exclusive_setting_def bootstrap_setting_def trim_with_def to_lower_def split: option.splits)

lemma exclusive_parse: "parse_bool v \<noteq> None \<Longrightarrow> exclusive_setting (Some v) \<longleftrightarrow> parse_bool v = Some True"
  by (auto simp: parse_bool_def exclusive_setting_def Let_def split: if_splits)

lemma blank_csv: "trim v = [] \<Longrightarrow> split_csv v = []"
proof -
  assume t: "trim v = []"
  have "dropWhile is_ws v = []"
  proof (rule ccontr)
    assume d: "dropWhile is_ws v \<noteq> []"
    then have "\<not> is_ws (hd (dropWhile is_ws v))" by (rule hd_dropWhile)
    moreover have "\<forall>x \<in> set (dropWhile is_ws v). is_ws x" using t by (simp add: trim_def trim_with_def)
    ultimately show False using d hd_in_set by blast
  qed
  then have "\<forall>x \<in> set v. is_ws x" by simp
  moreover have "\<not> is_ws (CHR '','')" by (simp add: is_ws_def)
  ultimately have "CHR '','' \<notin> set v" by blast
  with t show ?thesis by (simp add: split_csv_def split_on_no_sep)
qed

lemma accepted_peers:
  assumes "fst (checked_peers e) = []"
  shows "priority_peers_from_env e = (case setting e ''HYPERSYNC_PRIORITY_PEERS'' of None \<Rightarrow> [] | Some raw \<Rightarrow> split_csv raw)"
    "snd (checked_peers e) = length (priority_peers_from_env e)"
    "\<forall>a \<in> set (priority_peers_from_env e). \<exists>i. parse_ipv4 a = Some i \<and> is_public i"
proof -
  let ?g = "priority_peers_from_env e = (case setting e ''HYPERSYNC_PRIORITY_PEERS'' of None \<Rightarrow> [] | Some raw \<Rightarrow> split_csv raw) \<and>
    snd (checked_peers e) = length (priority_peers_from_env e) \<and>
    (\<forall>a \<in> set (priority_peers_from_env e). \<exists>i. parse_ipv4 a = Some i \<and> is_public i)"
  have ?g
  proof (cases "setting e ''HYPERSYNC_PRIORITY_PEERS''")
    case None
    then have "split_csv (case e ''HYPERSYNC_PRIORITY_PEERS'' of Some v \<Rightarrow> v | None \<Rightarrow> []) = []"
      by (auto simp: setting_def blank_csv split: option.splits if_splits) (simp add: split_csv_def trim_def trim_with_def)
    with None show ?thesis
      by (simp add: priority_peers_from_env_def priority_peers_from_raw_def checked_peers_def)
  next
    case (Some raw)
    then have raw: "e ''HYPERSYNC_PRIORITY_PEERS'' = Some raw" by (auto simp: setting_def split: option.splits if_splits)
    obtain k where "check_peers 1 (split_csv raw) {} = ([], k)"
      using assms Some by (cases "check_peers 1 (split_csv raw) {}") (auto simp: checked_peers_def)
    from check_peers_none[OF this] obtain "is" where i: "map parse_ipv4 (split_csv raw) = map Some is" "distinct is"
        "\<forall>i \<in> set is. is_public i" "k = length (split_csv raw)" by blast
    have "peers_from_items (split_csv raw) [] = split_csv raw"
      using peers_from_items_all[OF i(1,2), of "[]"] by simp
    moreover have "\<exists>i. parse_ipv4 a = Some i \<and> is_public i" if "a \<in> set (split_csv raw)" for a
    proof -
      have "parse_ipv4 a \<in> Some ` set is" using i(1) that by (metis image_eqI list.set_map)
      with i(3) show ?thesis by auto
    qed
    ultimately show ?thesis
      using Some raw \<open>check_peers 1 (split_csv raw) {} = ([], k)\<close> i(4)
      by (simp add: priority_peers_from_env_def priority_peers_from_raw_def checked_peers_def)
  qed
  then show "priority_peers_from_env e = (case setting e ''HYPERSYNC_PRIORITY_PEERS'' of None \<Rightarrow> [] | Some raw \<Rightarrow> split_csv raw)"
    "snd (checked_peers e) = length (priority_peers_from_env e)"
    "\<forall>a \<in> set (priority_peers_from_env e). \<exists>i. parse_ipv4 a = Some i \<and> is_public i" by blast+
qed

section \<open>Property\<close>

text \<open>C26: when the startup check finds no problem, every setting of the tier and of failover is read as it is
  written: all the priority peers listed, each a public address, in their order and as many as expected; the switches as
  their words say; and every number without being raised, lowered or replaced by a default. An unset or blank
  setting has its default.\<close>

theorem accepted_settings_read_as_written:
  assumes "problems e True = []" and "t = priority_from_env e" and "cfg = failover_config_from_env e"
  shows "t_peers t = (case setting e ''HYPERSYNC_PRIORITY_PEERS'' of None \<Rightarrow> [] | Some raw \<Rightarrow> split_csv raw) \<and>
    (\<forall>a \<in> set (t_peers t). \<exists>i. parse_ipv4 a = Some i \<and> is_public i) \<and>
    (\<forall>v. setting e ''HYPERSYNC_PRIORITY_PEERS_EXPECTED'' = Some v \<longrightarrow> parse_uint U64_MAX (trim v) = Some (length (t_peers t))) \<and>
    t_exclusive t = (case setting e ''HYPERSYNC_PRIORITY_EXCLUSIVE'' of None \<Rightarrow> True | Some v \<Rightarrow> parse_bool v = Some True) \<and>
    Some (t_bootstrap t) = (case setting e ''HYPERSYNC_PRIORITY_BOOTSTRAP'' of
       None \<Rightarrow> Some (if t_exclusive t then Prefer else Fallback) | Some v \<Rightarrow> bootstrap_policy_parse v) \<and>
    reads_as e ''HYPERSYNC_PRIORITY_MAX_SESSIONS'' 0 (t_max_sessions t) \<and>
    reads_as e ''HYPERSYNC_PRIORITY_STAGE_MS'' 1500 (as_millis (t_stage t)) \<and>
    reads_as e ''HYPERSYNC_FAILOVER_STANDBYS'' 0 (fc_standbys cfg) \<and>
    reads_as e ''HYPERSYNC_FAILOVER_STALL_MS'' 400 (as_millis (fc_stall cfg)) \<and>
    reads_as e ''HYPERSYNC_FAILOVER_LAG_MS'' 150 (as_millis (fc_lag cfg)) \<and>
    reads_as e ''HYPERSYNC_FAILOVER_DWELL_MS'' 10000 (as_millis (fc_min_dwell cfg)) \<and>
    reads_as e ''HYPERSYNC_FAILOVER_ROTATE_MS'' 100 (as_millis (fc_rotate_slower cfg)) \<and>
    reads_as e ''HYPERSYNC_FAILOVER_ROTATE_SECS'' 60 (as_secs (fc_rotate_every cfg))"
proof -
  note p = problems_parts[OF assms(1)]
  note peers = accepted_peers[OF p(1)]
  have tier: "t_peers t = priority_peers_from_env e" "t_exclusive t = exclusive_setting (e ''HYPERSYNC_PRIORITY_EXCLUSIVE'')"
      "t_bootstrap t = bootstrap_setting (e ''HYPERSYNC_PRIORITY_BOOTSTRAP'') (exclusive_setting (e ''HYPERSYNC_PRIORITY_EXCLUSIVE''))"
      "t_max_sessions t = env_num e ''HYPERSYNC_PRIORITY_MAX_SESSIONS'' 0"
      "as_millis (t_stage t) = max 200 (min 3000 (env_num e ''HYPERSYNC_PRIORITY_STAGE_MS'' 1500))"
    unfolding assms(2) env_num_def stage_setting_def DEFAULT_STAGE_MS_def priority_from_env_def priority_new_def with_exclusive_def Let_def
    by simp_all
  have ex: "t_exclusive t = (case setting e ''HYPERSYNC_PRIORITY_EXCLUSIVE'' of None \<Rightarrow> True | Some v \<Rightarrow> parse_bool v = Some True)"
  proof (cases "setting e ''HYPERSYNC_PRIORITY_EXCLUSIVE''")
    case (Some v)
    then show ?thesis unfolding tier(2) setting_default(1)[of e "''HYPERSYNC_PRIORITY_EXCLUSIVE''"] using p(3) exclusive_parse[of v] by simp
  qed (simp add: tier(2) setting_default(1)[of e "''HYPERSYNC_PRIORITY_EXCLUSIVE''"])
  have boot: "Some (t_bootstrap t) = (case setting e ''HYPERSYNC_PRIORITY_BOOTSTRAP'' of
       None \<Rightarrow> Some (if t_exclusive t then Prefer else Fallback) | Some v \<Rightarrow> bootstrap_policy_parse v)"
  proof (cases "setting e ''HYPERSYNC_PRIORITY_BOOTSTRAP''")
    case (Some v)
    then have "trim v \<noteq> []" "bootstrap_policy_parse v \<noteq> None"
      using p(4) by (auto simp: setting_def split: option.splits if_splits)
    with Some show ?thesis unfolding tier(3) setting_default(2)[of e "''HYPERSYNC_PRIORITY_BOOTSTRAP''"] by (auto simp: bootstrap_setting_def)
  qed (simp add: tier(2,3) setting_default(2)[of e "''HYPERSYNC_PRIORITY_BOOTSTRAP''"])
  have n: "check_number e ''HYPERSYNC_FAILOVER_STALL_MS'' 50 86400000 = []" "check_number e ''HYPERSYNC_FAILOVER_LAG_MS'' 20 86400000 = []"
      "check_number e ''HYPERSYNC_FAILOVER_DWELL_MS'' 0 86400000 = []" "check_number e ''HYPERSYNC_FAILOVER_ROTATE_MS'' 0 86400000 = []"
      "check_number e ''HYPERSYNC_FAILOVER_ROTATE_SECS'' 10 86400 = []"
    using p(8) by (simp_all add: FAILOVER_NUMBERS_def)
  note r = check_number_reads[OF p(5)] check_number_reads[OF p(6), of 1500] check_number_reads[OF p(7), of 0]
    check_number_reads[OF n(1), of 400] check_number_reads[OF n(2), of 150] check_number_reads[OF n(3), of 10000]
    check_number_reads[OF n(4), of 100] check_number_reads[OF n(5), of 60]
  show ?thesis
    using peers p(2) ex boot r unfolding tier(1,4,5) assms(3) by (simp add: failover_config_from_env_def)
qed

definition sample_settings :: env where
  "sample_settings k =
     (if k = ''HYPERSYNC_PRIORITY_PEERS'' then Some ''8.8.4.4, 9.9.9.9''
      else if k = ''HYPERSYNC_FAILOVER_STALL_MS'' then Some ''500'' else None)"

lemma sample_setting:
  "setting sample_settings k =
     (if k = ''HYPERSYNC_PRIORITY_PEERS'' then Some ''8.8.4.4, 9.9.9.9''
      else if k = ''HYPERSYNC_FAILOVER_STALL_MS'' then Some ''500'' else None)"
  by (simp add: setting_def sample_settings_def trim_def trim_with_def is_ws_def)

lemma sample_csv: "split_csv ''8.8.4.4, 9.9.9.9'' = [''8.8.4.4'', ''9.9.9.9'']"
  by (simp add: split_csv_def trim_def trim_with_def is_ws_def)

lemma sample_addrs: "parse_ipv4 ''8.8.4.4'' = Some (Ipv4 8 8 4 4)" "parse_ipv4 ''9.9.9.9'' = Some (Ipv4 9 9 9 9)"
  by (simp_all add: parse_ipv4_def parse_octet_def is_digit_def dec_val_def digit_val_def)

lemma sample_number: "parse_uint U64_MAX (trim ''500'') = Some 500"
  by (simp add: parse_uint_def is_digit_def dec_val_def digit_val_def trim_def trim_with_def is_ws_def)

lemma sample_settings_accepted: "problems sample_settings True = []"
  by (simp add: problems_def check_number_def FAILOVER_NUMBERS_def sample_setting sample_csv sample_addrs sample_number)

theorem accepted_settings_read_as_written_witness:
  "reads_as sample_settings ''HYPERSYNC_FAILOVER_STALL_MS'' 400 (as_millis (fc_stall (failover_config_from_env sample_settings))) \<and>
   t_peers (priority_from_env sample_settings) = split_csv ''8.8.4.4, 9.9.9.9''"
  using accepted_settings_read_as_written[OF sample_settings_accepted refl refl]
  by (simp add: sample_setting)

end
