(* ===== verification/Legacy.thy ===== *)
theory Legacy
  imports Round_Gate Frames Push_Session Blacklist
begin

text \<open>
  The merge and relay modes (push/legacy.rs): the pumps of several upstreams that share one window of recent rounds and
  one channel to the node, and the relay to a single host. The pumps run beside each other; each touches the window
  in one atomic swap, so a run is a sequence of frames in the order of these swaps.

  The property: while the rounds of a run lie within one window, the node gets each round once, from the first upstream
  that delivers it.
\<close>

section \<open>Definitions\<close>

text \<open>The bytes of a frame that is too large to take, read and thrown away: whether the stream goes on.\<close>

function skip_bytes :: "nat \<Rightarrow> rd_ev list \<Rightarrow> (io_error + bool) \<times> rd_ev list" where
  "skip_bytes rem s =
     (if rem = 0 then (Inr True, s)
      else (case read_some (min rem 65536) s of
              (Inl e, s') \<Rightarrow> (Inl e, s')
            | (Inr bs, s') \<Rightarrow> if bs = [] then (Inr False, s') else skip_bytes (rem - length bs) s'))"
  by pat_completeness auto
termination
  by (relation "measure fst") auto

declare skip_bytes.simps [simp del]

datatype pump_read = PumpEnd | PumpFail io_error | PumpSkip "rd_ev list" | PumpFrame bytes "rd_ev list"

definition pump_next :: "rd_ev list \<Rightarrow> pump_read" where
  "pump_next s =
     (case read_exact 5 s of
        (Inl e, _) \<Rightarrow> PumpFail e
      | (Inr hdr, s1) \<Rightarrow>
          (let len = be_len hdr 0
           in if 50000000 < len then
                (case skip_bytes len s1 of
                   (Inl e, _) \<Rightarrow> PumpFail e
                 | (Inr False, _) \<Rightarrow> PumpEnd
                 | (Inr True, s2) \<Rightarrow> PumpSkip s2)
              else (case read_exact len s1 of
                      (Inl e, _) \<Rightarrow> PumpFail e
                    | (Inr payload, s2) \<Rightarrow> if hdr ! 4 \<noteq> 1 then PumpSkip s2 else PumpFrame (hdr @ payload) s2)))"

text \<open>A block frame against the shared window: whether it is sent to the node.\<close>

definition pump_offer :: "(bytes \<Rightarrow> bytes option) \<Rightarrow> bytes \<Rightarrow> round_dedup \<Rightarrow> bool \<times> round_dedup" where
  "pump_offer D frame d =
     (case block_round D (drop 5 frame) of Some r \<Rightarrow> is_new r d | None \<Rightarrow> (True, d))"

fun merge_run :: "(bytes \<Rightarrow> bytes option) \<Rightarrow> bytes list \<Rightarrow> round_dedup \<Rightarrow> bytes list" where
  "merge_run D [] d = []"
| "merge_run D (f # fs) d = (case pump_offer D f d of (sent, d') \<Rightarrow> (if sent then [f] else []) @ merge_run D fs d')"

definition merge_serve :: "(bytes \<Rightarrow> bytes option) \<Rightarrow> bytes list \<Rightarrow> bytes list" where
  "merge_serve D frames = merge_run D frames (round_dedup_new 16384)"

definition connect_greet_target :: "string \<Rightarrow> string" where
  "connect_greet_target a = (if CHR '':'' \<in> set a then a else a @ '':4001'')"

text \<open>One connection of the relay on a port: the dial, and the bytes carried to the node and back.\<close>

definition relay_host :: "string \<Rightarrow> string" where
  "relay_host upstream = (case rsplit_once (CHR '':'') upstream of Some (h, _) \<Rightarrow> h | None \<Rightarrow> upstream)"

definition relay_conn :: "blacklist \<Rightarrow> string \<Rightarrow> nat \<Rightarrow> bool \<Rightarrow> relay_ev list \<Rightarrow> (nat \<times> nat) option" where
  "relay_conn bl upstream port dialed evs =
     (if connect bl (relay_host upstream @ '':'' @ show_nat port) = PermissionDenied \<or> \<not> dialed then None
      else splice evs)"

section \<open>One window\<close>

lemma slot_mod: "(n::nat) AND (2 ^ j - 1) = n mod 2 ^ j"
  by (metis mask_eq_exp_minus_1 take_bit_eq_mask take_bit_eq_mod)

text \<open>The table holds exactly the rounds seen, as long as they lie within one window from \<open>lo\<close>.\<close>

definition holds_seen :: "nat \<Rightarrow> nat \<Rightarrow> u32 set \<Rightarrow> round_dedup \<Rightarrow> bool" where
  "holds_seen j lo seen d \<longleftrightarrow> dmask d = 2 ^ j - 1 \<and> length (slots d) = 2 ^ j \<and>
     (\<forall>r. lo \<le> unat r \<and> unat r < lo + 2 ^ j \<and> r \<noteq> 0 \<longrightarrow> (slots d ! (unat r mod 2 ^ j) = r \<longleftrightarrow> r \<in> seen))"

lemma mod_window: "lo \<le> a \<Longrightarrow> a < lo + m \<Longrightarrow> lo \<le> b \<Longrightarrow> b < lo + m \<Longrightarrow> a mod m = b mod m \<Longrightarrow> a = (b :: nat)"
proof -
  assume *: "lo \<le> a" "a < lo + m" "lo \<le> b" "b < lo + m" "a mod m = b mod m"
  have w: "x = y" if "x \<le> y" "y - x < m" "x mod m = y mod m" for x y :: nat
  proof -
    have "m dvd (y - x)" using that(1,3) by (metis mod_eq_dvd_iff_nat)
    with that(2) have "y - x = 0" by (meson dvd_imp_le not_le neq0_conv)
    with that(1) show ?thesis by simp
  qed
  show ?thesis
  proof (cases "a \<le> b")
    case True
    then show ?thesis by (rule w) (use * in linarith)+
  next
    case False
    then have "b \<le> a" by simp
    then have "b = a" by (rule w) (use * in linarith)+
    then show ?thesis by simp
  qed
qed

lemma is_new_seen:
  assumes "holds_seen j lo seen d" "lo \<le> unat r" "unat r < lo + 2 ^ j" "r \<noteq> 0"
  shows "fst (is_new r d) \<longleftrightarrow> r \<notin> seen" "holds_seen j lo (insert r seen) (snd (is_new r d))"
proof -
  have i: "unat r AND dmask d = unat r mod 2 ^ j" "unat r mod 2 ^ j < length (slots d)"
    using assms(1) slot_mod[of "unat r" j] by (simp_all add: holds_seen_def)
  show "fst (is_new r d) \<longleftrightarrow> r \<notin> seen"
    using assms i by (auto simp: is_new_def Let_def holds_seen_def)
  have "(slots d)[unat r mod 2 ^ j := r] ! (unat q mod 2 ^ j) = q \<longleftrightarrow> q = r \<or> slots d ! (unat q mod 2 ^ j) = q"
    if "lo \<le> unat q" "unat q < lo + 2 ^ j" for q
  proof (cases "unat q mod 2 ^ j = unat r mod 2 ^ j")
    case True
    then have "q = r" using mod_window[of lo "unat q" "2 ^ j" "unat r"] that assms(2,3) by (auto intro: unat_eqI)
    with i show ?thesis by simp
  next
    case False
    with i show ?thesis by (cases "q = r") simp_all
  qed
  with assms i show "holds_seen j lo (insert r seen) (snd (is_new r d))"
    by (auto simp: is_new_def Let_def holds_seen_def)
qed

lemma round_dedup_new_window: "holds_seen 14 lo {} (round_dedup_new 16384)"
proof -
  have "next_power_of_two 16384 = 16384"
    unfolding next_power_of_two_def by (simp add: pow2_from.simps)
  then show ?thesis by (simp add: holds_seen_def round_dedup_new_def Let_def)
qed

definition merged_rounds :: "(bytes \<Rightarrow> bytes option) \<Rightarrow> bytes list \<Rightarrow> u32 list" where
  "merged_rounds D frames = List.map_filter (\<lambda>f. block_round D (drop 5 f)) frames"

text \<open>The first occurrence of every round outside \<open>seen\<close>, in order.\<close>

fun first_rounds :: "u32 set \<Rightarrow> u32 list \<Rightarrow> u32 list" where
  "first_rounds seen [] = []"
| "first_rounds seen (r # rs) = (if r \<in> seen then first_rounds seen rs else r # first_rounds (insert r seen) rs)"

lemma first_rounds_spec: "distinct (first_rounds seen rs) \<and> set (first_rounds seen rs) = set rs - seen"
  by (induction seen rs rule: first_rounds.induct) auto

lemma merge_run_rounds:
  "holds_seen j lo seen d \<Longrightarrow> \<forall>r \<in> set (merged_rounds D fs). lo \<le> unat r \<and> unat r < lo + 2 ^ j \<and> r \<noteq> 0 \<Longrightarrow>
     merged_rounds D (merge_run D fs d) = first_rounds seen (merged_rounds D fs)"
proof (induction fs arbitrary: seen d)
  case (Cons f fs)
  show ?case
  proof (cases "block_round D (drop 5 f)")
    case None
    with Cons show ?thesis by (simp add: pump_offer_def merged_rounds_def map_filter_simps)
  next
    case (Some r)
    then have r: "lo \<le> unat r" "unat r < lo + 2 ^ j" "r \<noteq> 0"
      using Cons.prems(2) by (auto simp: merged_rounds_def map_filter_simps)
    note n = is_new_seen[OF Cons.prems(1) r]
    have "merged_rounds D (merge_run D fs (snd (is_new r d))) = first_rounds (insert r seen) (merged_rounds D fs)"
      using Cons.prems(2) Some by (intro Cons.IH[OF n(2)]) (auto simp: merged_rounds_def map_filter_simps)
    with Some n(1) show ?thesis
      by (auto simp: pump_offer_def merged_rounds_def map_filter_simps case_prod_beta insert_absorb)
  qed
qed (simp add: merged_rounds_def)

text \<open>Whatever the upstreams deliver and however their pumps interleave, as long as the rounds lie within one window
  of 16384 every round reaches the node exactly once, in the order of first arrival.\<close>

theorem merge_forwards_once:
  assumes "\<forall>r \<in> set (merged_rounds D frames). lo \<le> unat r \<and> unat r < lo + 16384 \<and> r \<noteq> 0"
  shows "merged_rounds D (merge_serve D frames) = first_rounds {} (merged_rounds D frames) \<and>
    distinct (merged_rounds D (merge_serve D frames)) \<and> set (merged_rounds D (merge_serve D frames)) = set (merged_rounds D frames)"
  using merge_run_rounds[OF round_dedup_new_window[of lo], of D frames] assms first_rounds_spec[of "{}"]
  by (simp add: merge_serve_def)

text \<open>Beyond a window the table forgets: a round is forwarded again once a round 16384 above it was seen.\<close>

lemma merge_window_forgets:
  assumes "unat r + 16384 < 4294967296"
  shows "fst (is_new r (snd (is_new (r + 16384) (snd (is_new r (round_dedup_new 16384))))))"
proof -
  have "unat (r + 16384) = unat r + 16384"
    using assms by (simp add: unat_word_ariths)
  then have "unat (r + 16384) AND (2 ^ 14 - 1) = unat r AND (2 ^ 14 - 1)" "unat r AND (2 ^ 14 - 1) < 2 ^ 14"
    unfolding slot_mod by simp_all
  moreover have "dmask (round_dedup_new 16384) = 2 ^ 14 - 1" "length (slots (round_dedup_new 16384)) = 2 ^ 14"
    using round_dedup_new_window[of 0] by (simp_all add: holds_seen_def)
  moreover have "r + 16384 \<noteq> r" by simp
  ultimately show ?thesis by (simp add: is_new_def Let_def)
qed

end
