(* ===== verification/Proxy.thy ===== *)
theory Proxy
  imports Legacy
begin

text \<open>
  The transparent proxy with failover (push/proxy.rs): the shared state of the upstreams, the stall monitor, and one
  connection from the dial to the verdict on its upstream. Connections run beside each other on several threads and share
  the state through atomics that are read and written one by one, with no lock around them. \<open>fo_step\<close> is one access of a
  call of \<open>fail_over\<close>, \<open>mon_step\<close> one of the monitor, and \<open>par_reach\<close> interleaves the accesses of any number of calls in any
  order, one after the other (reorderings that relaxed atomics allow beyond that are not modelled); \<open>fail_over\<close> is the
  call that nobody disturbs. A connection remembers the upstream it started on.

  The property: whatever the interleaving, the active upstream is valid, each blame cools its upstream down and switches
  at most once, away from the blamed upstream while it is the active one and to one seen not cooling down, and the
  generation counts the switches. The look at the active upstream and the store of the next one are not one access:
  what the calls can do to each other in between is shown at the end.
\<close>

section \<open>Shared state\<close>

record proxy_state =
  px_hosts :: "string list"
  px_active :: nat
  px_gen :: nat
  px_bad :: "nat list"
  px_last :: nat

definition proxy_start :: "string list \<Rightarrow> proxy_state option" where
  "proxy_start upstreams =
     (let hosts = map relay_host upstreams
      in if hosts = [] then None
         else Some \<lparr>px_hosts = hosts, px_active = 0, px_gen = 0, px_bad = replicate (length hosts) 0, px_last = 0\<rparr>)"

fun pick_from :: "nat list \<Rightarrow> nat \<Rightarrow> nat list \<Rightarrow> nat option" where
  "pick_from bad_until now [] = None"
| "pick_from bad_until now (j # js) = (if bad_until ! j \<le> now then Some j else pick_from bad_until now js)"

definition pick_next :: "nat \<Rightarrow> nat list \<Rightarrow> nat \<Rightarrow> nat \<Rightarrow> nat option" where
  "pick_next cur bad_until now n = pick_from bad_until now (map (\<lambda>off. (cur + off) mod n) [1..<n])"

definition fail_over :: "nat \<Rightarrow> nat \<Rightarrow> proxy_state \<Rightarrow> proxy_state" where
  "fail_over idx now s =
     (let s1 = s\<lparr>px_bad := (px_bad s)[idx := now + 30000]\<rparr>
      in if px_active s1 \<noteq> idx then s1
         else (case pick_next idx (px_bad s1) now (length (px_hosts s1)) of
                 Some j \<Rightarrow> s1\<lparr>px_active := j, px_gen := px_gen s1 + 1, px_last := now\<rparr>
               | None \<Rightarrow> s1))"

text \<open>The same call access by access: what it does next.\<close>

datatype fo_pc =
    FoCool nat nat
  | FoCheck nat nat
  | FoPick nat nat "nat list"
  | FoSwitch nat nat nat
  | FoBump nat
  | FoStamp nat
  | FoDone

fun fo_step :: "fo_pc \<Rightarrow> proxy_state \<Rightarrow> fo_pc \<times> proxy_state" where
  "fo_step (FoCool idx now) s = (FoCheck idx now, s\<lparr>px_bad := (px_bad s)[idx := now + 30000]\<rparr>)"
| "fo_step (FoCheck idx now) s =
     (if px_active s \<noteq> idx then FoDone
      else FoPick idx now (map (\<lambda>off. (idx + off) mod length (px_hosts s)) [1..<length (px_hosts s)]), s)"
| "fo_step (FoPick idx now []) s = (FoDone, s)"
| "fo_step (FoPick idx now (j # js)) s = (if px_bad s ! j \<le> now then FoSwitch idx now j else FoPick idx now js, s)"
| "fo_step (FoSwitch idx now j) s = (FoBump now, s\<lparr>px_active := j\<rparr>)"
| "fo_step (FoBump now) s = (FoStamp now, s\<lparr>px_gen := px_gen s + 1\<rparr>)"
| "fo_step (FoStamp now) s = (FoDone, s\<lparr>px_last := now\<rparr>)"
| "fo_step FoDone s = (FoDone, s)"

text \<open>The stall monitor, once a second: it reads the time of the last byte, then the active upstream, which it blames, and
  when that call is over it restarts the time. Its call is one of the running calls \<open>cs\<close>.\<close>

datatype mon_pc = MonSleep | MonStalled nat | MonCall nat nat

fun mon_step :: "nat \<Rightarrow> mon_pc \<Rightarrow> proxy_state \<Rightarrow> fo_pc list \<Rightarrow> mon_pc \<times> proxy_state \<times> fo_pc list" where
  "mon_step now MonSleep s cs =
     (if px_last s \<noteq> 0 \<and> 20000 < now - px_last s then MonStalled now else MonSleep, s, cs)"
| "mon_step now (MonStalled t) s cs = (MonCall t (length cs), s, cs @ [FoCool (px_active s) now])"
| "mon_step now (MonCall t i) s cs =
     (if cs ! i = FoDone then (MonSleep, s\<lparr>px_last := t\<rparr>, cs) else (MonCall t i, s, cs))"

section \<open>One connection\<close>

datatype n2u_end = EndNode | EndUpstreamGone | EndUpstreamStalled

text \<open>The two directions of a raw connection, with the time of each read, up to the moment the verdict is made (a tenth of a
  second after the first end); \<open>None\<close> for a direction that still runs then.\<close>

fun raw_up :: "(nat \<times> rd_ev \<times> write_res) list \<Rightarrow> (bool \<times> nat) option" where
  "raw_up [] = None"
| "raw_up ((t, r, w) # evs) =
     (case r of
        Chunk bs \<Rightarrow> if bs = [] \<or> w = Wrote then raw_up evs else Some (False, t)
      | Quiet \<Rightarrow> raw_up evs
      | _ \<Rightarrow> Some (True, t))"

fun raw_down :: "(nat \<times> rd_ev \<times> write_res) list \<Rightarrow> (n2u_end \<times> nat) option" where
  "raw_down [] = None"
| "raw_down ((t, r, w) # evs) =
     (case r of
        Chunk bs \<Rightarrow>
          if bs = [] then raw_down evs
          else (case w of
                  Wrote \<Rightarrow> raw_down evs
                | WriteFailed _ \<Rightarrow> Some (EndUpstreamGone, t)
                | WriteTimeout \<Rightarrow> Some (EndUpstreamStalled, t))
      | Quiet \<Rightarrow> raw_down evs
      | _ \<Rightarrow> Some (EndNode, t))"

definition raw_proxy_fault :: "nat \<Rightarrow> (bool \<times> nat) option \<Rightarrow> (n2u_end \<times> nat) option \<Rightarrow> string option" where
  "raw_proxy_fault p up down =
     (let upstream_first =
            (case (up, down) of
               (Some (_, u), Some (_, d)) \<Rightarrow> u \<le> d
             | (Some _, None) \<Rightarrow> True
             | _ \<Rightarrow> False)
      in if upstream_first then
           (case up of
              None \<Rightarrow> None
            | Some (closed, _) \<Rightarrow> if p = 4001 \<and> closed then Some ''upstream closed the stream'' else None)
         else (case down of
                 None \<Rightarrow> None
               | Some (EndUpstreamStalled, _) \<Rightarrow> Some ''upstream stopped reading''
               | Some (EndUpstreamGone, _) \<Rightarrow> if p = 4001 then Some ''upstream write failed'' else None
               | Some (EndNode, _) \<Rightarrow> None))"

datatype first_error = FirstIo io_error | FirstImplausible nat | FirstNotServing nat | FirstTooLarge nat

definition read_first_frame :: "bool \<Rightarrow> rd_ev list \<Rightarrow> first_error + bytes" where
  "read_first_frame bootstrap s =
     (case read_exact 5 s of
        (Inl e, _) \<Rightarrow> Inl (FirstIo e)
      | (Inr hdr, s1) \<Rightarrow>
          (let len = be_len hdr 0
           in if bootstrap \<and> 4000000 < len then
                (if 1500000000 < len then Inl (FirstImplausible len) else Inr hdr)
              else if bootstrap \<and> 1000 < len then Inl (FirstNotServing len)
              else if 1000 < len then Inl (FirstTooLarge len)
              else (case read_exact len s1 of
                      (Inl e, _) \<Rightarrow> Inl (FirstIo e)
                    | (Inr payload, _) \<Rightarrow>
                        if bootstrap \<and> \<not> response_is_peer_full (hdr @ payload) then Inl (FirstNotServing len)
                        else Inr (hdr @ payload))))"

record proxy_in =
  xi_dialed :: bool
  xi_greet :: "bytes option"
  xi_greet_written :: bool
  xi_first :: "rd_ev list"
  xi_first_written :: write_res
  xi_sess :: "(nat \<Rightarrow> u32 \<times> u32 \<times> instant) \<times> instant \<times> sess_ev list"
  xi_raw_up :: "(nat \<times> rd_ev \<times> write_res) list"
  xi_raw_down :: "(nat \<times> rd_ev \<times> write_res) list"
  xi_superseded :: bool

datatype vetted = VetDrop | VetFault string | VetPass bytes bool

definition vet_4001 :: "(first_error \<Rightarrow> string) \<Rightarrow> proxy_in \<Rightarrow> vetted" where
  "vet_4001 emsg i =
     (case xi_greet i of
        None \<Rightarrow> VetDrop
      | Some greet \<Rightarrow>
          if \<not> xi_greet_written i then VetFault ''greeting write failed''
          else (let bootstrap = greet ! 5 = 1
                in case read_first_frame bootstrap (xi_first i) of
                     Inl e \<Rightarrow> VetFault (''first frame: '' @ emsg e)
                   | Inr f \<Rightarrow> if response_is_peer_full f then VetFault ''peer full'' else VetPass f bootstrap))"

definition proxy_push_config :: "proxy_state \<Rightarrow> nat \<Rightarrow> bytes \<Rightarrow> push_config" where
  "proxy_push_config s idx first =
     \<lparr>pc_hosts = px_hosts s, pc_active_idx = idx, pc_prefetched_greeting = Some first, pc_prefetched_frames = [],
      pc_initial_last_forwarded = 0, pc_freshest = None\<rparr>"

text \<open>A connection on port \<open>p\<close>: the upstream it is proxied to, and why it blames it, if it does.\<close>

definition proxy_conn ::
  "(bytes \<Rightarrow> bytes option) \<Rightarrow> (io_error \<Rightarrow> string) \<Rightarrow> (first_error \<Rightarrow> string) \<Rightarrow> blacklist \<Rightarrow> nat \<Rightarrow> bool \<Rightarrow> proxy_in \<Rightarrow> proxy_state
     \<Rightarrow> nat \<times> string option" where
  "proxy_conn D msg emsg bl p push i s =
     (let idx = px_active s; up = px_hosts s ! idx @ '':'' @ show_nat p
      in (idx,
          if connect bl up = PermissionDenied \<or> \<not> xi_dialed i then Some ''dial failed''
          else (case (if p = 4001 then vet_4001 emsg i else VetPass [] False) of
                  VetDrop \<Rightarrow> None
                | VetFault why \<Rightarrow> Some why
                | VetPass first bootstrap \<Rightarrow>
                    if push \<and> p = 4001 \<and> \<not> bootstrap then
                      (case xi_sess i of
                         (conds, start, evs) \<Rightarrow>
                           (case serve_push D msg (proxy_push_config s idx first) [] (xi_first_written i) conds start evs of
                              (Some reason, _) \<Rightarrow>
                                if push_exit_is_upstream_fault reason then Some ''push session failed'' else None
                            | (None, _) \<Rightarrow> None))
                    else if first \<noteq> [] \<and> xi_first_written i \<noteq> Wrote then None
                    else if push \<or> xi_superseded i then None
                    else raw_proxy_fault p (raw_up (xi_raw_up i)) (raw_down (xi_raw_down i)))))"

section \<open>A call on its own\<close>

definition proxy_ok :: "proxy_state \<Rightarrow> bool" where
  "proxy_ok s \<longleftrightarrow> px_active s < length (px_hosts s) \<and> length (px_bad s) = length (px_hosts s)"

lemma pick_from_spec: "pick_from bad now js = Some j \<Longrightarrow> j \<in> set js \<and> bad ! j \<le> now"
  by (induction js) (auto split: if_splits)

lemma pick_from_none: "pick_from bad now js = None \<longleftrightarrow> (\<forall>j \<in> set js. now < bad ! j)"
  by (induction js) auto

lemma pick_targets: "cur < n \<Longrightarrow> set (map (\<lambda>off. (cur + off) mod n) [1..<n]) = {..<n} - {cur}"
proof -
  assume c: "cur < n"
  have "(cur + off) mod n \<noteq> cur" if "1 \<le> off" "off < n" for off
    using c that by (cases "cur + off < n") (auto simp: mod_if)
  moreover have "\<exists>off \<in> {1..<n}. j = (cur + off) mod n" if "j < n" "j \<noteq> cur" for j
  proof (cases "cur < j")
    case True
    then show ?thesis using that by (intro bexI[of _ "j - cur"]) auto
  next
    case False
    then show ?thesis using that c by (intro bexI[of _ "n + j - cur"]) auto
  qed
  ultimately show ?thesis using c by fastforce
qed

lemma pick_next_spec:
  assumes "cur < n"
  shows "pick_next cur bad now n = Some j \<Longrightarrow> j < n \<and> j \<noteq> cur \<and> bad ! j \<le> now"
    and "pick_next cur bad now n = None \<longleftrightarrow> (\<forall>j < n. j \<noteq> cur \<longrightarrow> now < bad ! j)"
  using pick_from_spec[of bad now "map (\<lambda>off. (cur + off) mod n) [1..<n]" j]
    pick_from_none[of bad now "map (\<lambda>off. (cur + off) mod n) [1..<n]"]
  unfolding pick_targets[OF assms] by (auto simp: pick_next_def)

lemma fail_over_spec:
  assumes "proxy_ok s" "idx < length (px_hosts s)"
  shows "proxy_ok (fail_over idx now s) \<and> px_hosts (fail_over idx now s) = px_hosts s \<and>
    (px_active (fail_over idx now s) = px_active s \<and> px_gen (fail_over idx now s) = px_gen s \<and>
       (idx = px_active s \<longrightarrow> (\<forall>j < length (px_hosts s). j \<noteq> idx \<longrightarrow> now < px_bad s ! j)) \<or>
     idx = px_active s \<and> px_active (fail_over idx now s) \<noteq> idx \<and> px_bad s ! px_active (fail_over idx now s) \<le> now \<and>
       px_gen (fail_over idx now s) = px_gen s + 1)"
proof -
  let ?n = "length (px_hosts s)"
  let ?bad = "(px_bad s)[idx := now + 30000]"
  note p = pick_next_spec[OF assms(2), of ?bad now]
  show ?thesis
  proof (cases "px_active s = idx")
    case False
    with assms show ?thesis by (simp add: fail_over_def Let_def proxy_ok_def)
  next
    case True
    show ?thesis
    proof (cases "pick_next idx ?bad now ?n")
      case None
      with True assms p(2) show ?thesis by (auto simp: fail_over_def Let_def proxy_ok_def)
    next
      case (Some j)
      with True assms p(1)[OF Some] show ?thesis by (auto simp: fail_over_def Let_def proxy_ok_def)
    qed
  qed
qed

text \<open>A call whose accesses follow one another undisturbed does what \<open>fail_over\<close> says.\<close>

fun fo_alone :: "nat \<Rightarrow> fo_pc \<times> proxy_state \<Rightarrow> fo_pc \<times> proxy_state" where
  "fo_alone 0 c = c"
| "fo_alone (Suc k) c = fo_alone k (fo_step (fst c) (snd c))"

lemma fo_alone_pick:
  "\<exists>k. fo_alone k (FoPick idx now js, s) =
     (FoDone, case pick_from (px_bad s) now js of
        Some j \<Rightarrow> s\<lparr>px_active := j, px_gen := px_gen s + 1, px_last := now\<rparr> | None \<Rightarrow> s)"
proof (induction js)
  case Nil
  show ?case by (rule exI[of _ 1]) simp
next
  case (Cons j js)
  show ?case
  proof (cases "px_bad s ! j \<le> now")
    case True
    then show ?thesis by (intro exI[of _ 4]) (simp add: numeral_eq_Suc)
  next
    case False
    obtain k where "fo_alone k (FoPick idx now js, s) =
      (FoDone, case pick_from (px_bad s) now js of
         Some j \<Rightarrow> s\<lparr>px_active := j, px_gen := px_gen s + 1, px_last := now\<rparr> | None \<Rightarrow> s)" using Cons by blast
    with False show ?thesis by (intro exI[of _ "Suc k"]) simp
  qed
qed

lemma fail_over_alone: "\<exists>k. fo_alone k (FoCool idx now, s) = (FoDone, fail_over idx now s)"
proof (cases "px_active s = idx")
  case True
  let ?s = "s\<lparr>px_bad := (px_bad s)[idx := now + 30000]\<rparr>"
  let ?js = "map (\<lambda>off. (idx + off) mod length (px_hosts s)) [1..<length (px_hosts s)]"
  obtain k where "fo_alone k (FoPick idx now ?js, ?s) =
     (FoDone, case pick_from (px_bad ?s) now ?js of
        Some j \<Rightarrow> ?s\<lparr>px_active := j, px_gen := px_gen ?s + 1, px_last := now\<rparr> | None \<Rightarrow> ?s)"
    using fo_alone_pick by blast
  with True show ?thesis
    by (intro exI[of _ "Suc (Suc k)"]) (simp add: fail_over_def pick_next_def Let_def)
next
  case False
  then show ?thesis by (intro exI[of _ "Suc (Suc 0)"]) (simp add: fail_over_def Let_def)
qed

section \<open>Calls beside each other\<close>

text \<open>
  The running proxy: \<open>ws\<close> are the upstreams of the connections that will end with a verdict against theirs, \<open>cs\<close> the calls of
  \<open>fail_over\<close> ever made, each with what it does next, \<open>m\<close> the monitor, and \<open>tr\<close> every access a call has made so far, with
  the call's number and the state it found. A byte that arrives writes the time.
\<close>

type_synonym fo_trace = "(nat \<times> fo_pc \<times> proxy_state) list"

inductive par_reach :: "string list \<Rightarrow> proxy_state \<Rightarrow> nat list \<Rightarrow> fo_pc list \<Rightarrow> mon_pc \<Rightarrow> fo_trace \<Rightarrow> bool"
  for upstreams :: "string list" where
  par_start: "proxy_start upstreams = Some s \<Longrightarrow> par_reach upstreams s [] [] MonSleep []"
| par_conn: "par_reach upstreams s ws cs m tr \<Longrightarrow> proxy_conn D msg emsg bl p push i s = (idx, Some why) \<Longrightarrow>
    par_reach upstreams s (idx # ws) cs m tr"
| par_blame: "par_reach upstreams s (ws1 @ idx # ws2) cs m tr \<Longrightarrow>
    par_reach upstreams s (ws1 @ ws2) (cs @ [FoCool idx now]) m tr"
| par_access: "par_reach upstreams s ws cs m tr \<Longrightarrow> i < length cs \<Longrightarrow> fo_step (cs ! i) s = (c, s') \<Longrightarrow>
    par_reach upstreams s' ws (cs[i := c]) m (tr @ [(i, cs ! i, s)])"
| par_monitor: "par_reach upstreams s ws cs m tr \<Longrightarrow> mon_step now m s cs = (m', s', cs') \<Longrightarrow>
    par_reach upstreams s' ws cs' m' tr"
| par_data: "par_reach upstreams s ws cs m tr \<Longrightarrow> par_reach upstreams (s\<lparr>px_last := now\<rparr>) ws cs m tr"

text \<open>Read off the accesses: the upstreams switched to, the calls that switched, and an upstream's cooldowns.\<close>

definition switched :: "fo_trace \<Rightarrow> nat list" where
  "switched tr = concat (map (\<lambda>(i, pc, s). case pc of FoSwitch idx now j \<Rightarrow> [j] | _ \<Rightarrow> []) tr)"

definition switchers :: "fo_trace \<Rightarrow> nat list" where
  "switchers tr = concat (map (\<lambda>(i, pc, s). case pc of FoSwitch idx now j \<Rightarrow> [i] | _ \<Rightarrow> []) tr)"

definition cooldowns :: "nat \<Rightarrow> fo_trace \<Rightarrow> nat list" where
  "cooldowns k tr = concat (map (\<lambda>(i, pc, s). case pc of FoCool idx now \<Rightarrow> if idx = k then [now + 30000] else [] | _ \<Rightarrow> []) tr)"

definition bumping :: "fo_pc \<Rightarrow> bool" where
  "bumping c = (case c of FoBump now \<Rightarrow> True | _ \<Rightarrow> False)"

text \<open>What call \<open>i\<close> has seen: that it cooled its upstream down, found it active, and what it found of the others.\<close>

definition saw_active :: "fo_trace \<Rightarrow> nat \<Rightarrow> nat \<Rightarrow> nat \<Rightarrow> bool" where
  "saw_active tr i idx now \<longleftrightarrow>
     (\<exists>s. (i, FoCool idx now, s) \<in> set tr) \<and> (\<exists>s. (i, FoCheck idx now, s) \<in> set tr \<and> px_active s = idx)"

definition saw_ready :: "fo_trace \<Rightarrow> nat \<Rightarrow> nat \<Rightarrow> nat \<Rightarrow> nat \<Rightarrow> bool" where
  "saw_ready tr i idx now j \<longleftrightarrow> (\<exists>js s. (i, FoPick idx now (j # js), s) \<in> set tr \<and> px_bad s ! j \<le> now)"

definition saw_cooling :: "fo_trace \<Rightarrow> nat \<Rightarrow> nat \<Rightarrow> nat \<Rightarrow> nat \<Rightarrow> bool" where
  "saw_cooling tr i idx now j \<longleftrightarrow> (\<exists>js s. (i, FoPick idx now (j # js), s) \<in> set tr \<and> now < px_bad s ! j)"

text \<open>A call that ended without switching found another upstream active or every other one cooling down.\<close>

definition stood_by :: "nat \<Rightarrow> fo_trace \<Rightarrow> nat \<Rightarrow> bool" where
  "stood_by n tr i \<longleftrightarrow>
     (\<exists>idx now s. (i, FoCheck idx now, s) \<in> set tr \<and> px_active s \<noteq> idx) \<or>
     (\<exists>idx now. saw_active tr i idx now \<and> (\<forall>j < n. j \<noteq> idx \<longrightarrow> saw_cooling tr i idx now j))"

fun so_far :: "nat \<Rightarrow> fo_trace \<Rightarrow> nat \<Rightarrow> fo_pc \<Rightarrow> bool" where
  "so_far n tr i (FoCool idx now) \<longleftrightarrow> idx < n \<and> i \<notin> set (switchers tr)"
| "so_far n tr i (FoCheck idx now) \<longleftrightarrow> idx < n \<and> i \<notin> set (switchers tr) \<and> (\<exists>s. (i, FoCool idx now, s) \<in> set tr)"
| "so_far n tr i (FoPick idx now js) \<longleftrightarrow> i \<notin> set (switchers tr) \<and> saw_active tr i idx now \<and>
     set js \<subseteq> {..<n} - {idx} \<and> (\<forall>j < n. j \<noteq> idx \<longrightarrow> j \<in> set js \<or> saw_cooling tr i idx now j)"
| "so_far n tr i (FoSwitch idx now j) \<longleftrightarrow> i \<notin> set (switchers tr) \<and> saw_active tr i idx now \<and>
     j < n \<and> j \<noteq> idx \<and> saw_ready tr i idx now j"
| "so_far n tr i (FoBump now) \<longleftrightarrow> i \<in> set (switchers tr)"
| "so_far n tr i (FoStamp now) \<longleftrightarrow> i \<in> set (switchers tr)"
| "so_far n tr i FoDone \<longleftrightarrow> i \<in> set (switchers tr) \<or> stood_by n tr i"

lemma trace_append [simp]:
  "switched (tr @ [(i, c, s)]) = switched tr @ (case c of FoSwitch idx now j \<Rightarrow> [j] | _ \<Rightarrow> [])"
  "switchers (tr @ [(i, c, s)]) = switchers tr @ (case c of FoSwitch idx now j \<Rightarrow> [i] | _ \<Rightarrow> [])"
  "cooldowns k (tr @ [(i, c, s)]) =
     cooldowns k tr @ (case c of FoCool idx now \<Rightarrow> if idx = k then [now + 30000] else [] | _ \<Rightarrow> [])"
  "switched [] = []" "switchers [] = []" "cooldowns k [] = []"
  by (simp_all add: switched_def switchers_def cooldowns_def)

lemma saw_mono:
  "saw_active tr i idx now \<Longrightarrow> saw_active (tr @ us) i idx now"
  "saw_ready tr i idx now j \<Longrightarrow> saw_ready (tr @ us) i idx now j"
  "saw_cooling tr i idx now j \<Longrightarrow> saw_cooling (tr @ us) i idx now j"
  unfolding saw_active_def saw_ready_def saw_cooling_def set_append by blast+

lemma stood_by_mono: "stood_by n tr i \<Longrightarrow> stood_by n (tr @ us) i"
  unfolding stood_by_def set_append using saw_mono(1,3)[of tr i] by blast

text \<open>Another call's access changes nothing for a call; its own takes it one step further.\<close>

lemma so_far_other: "so_far n tr i pc \<Longrightarrow> k \<noteq> i \<Longrightarrow> so_far n (tr @ [(k, c, s)]) i pc"
  by (cases pc) (auto simp: saw_mono stood_by_mono split: fo_pc.split)

lemma so_far_own:
  assumes "so_far n tr i c" "fo_step c s = (c', s')" "length (px_hosts s) = n"
  shows "so_far n (tr @ [(i, c, s)]) i c'"
proof (cases c)
  case (FoCheck idx now)
  let ?js = "map (\<lambda>off. (idx + off) mod n) [1..<n]"
  have i: "idx < n" "i \<notin> set (switchers tr)" "\<exists>s. (i, FoCool idx now, s) \<in> set tr" using assms(1) FoCheck by auto
  show ?thesis
  proof (cases "px_active s = idx")
    case True
    then have "saw_active (tr @ [(i, c, s)]) i idx now" using i(3) by (auto simp: FoCheck saw_active_def)
    moreover have "c' = FoPick idx now ?js" using assms(2,3) True by (simp add: FoCheck)
    ultimately show ?thesis using pick_targets[OF i(1)] i(2) by (simp add: FoCheck del: set_map)
  next
    case False
    then have "stood_by n (tr @ [(i, c, s)]) i" by (auto simp: FoCheck stood_by_def)
    with assms(2) False show ?thesis by (simp add: FoCheck)
  qed
next
  case (FoPick idx now js)
  show ?thesis
  proof (cases js)
    case Nil
    with assms FoPick have "stood_by n tr i" "c' = FoDone" unfolding stood_by_def by auto
    then show ?thesis by (simp add: stood_by_mono)
  next
    case (Cons j js')
    have so: "i \<notin> set (switchers tr)" "saw_active tr i idx now" "j < n" "j \<noteq> idx" "set js' \<subseteq> {..<n} - {idx}"
      "\<And>l. l < n \<Longrightarrow> l \<noteq> idx \<Longrightarrow> l = j \<or> l \<in> set js' \<or> saw_cooling tr i idx now l"
      using assms(1) by (auto simp: FoPick Cons)
    show ?thesis
    proof (cases "px_bad s ! j \<le> now")
      case True
      then have "saw_ready (tr @ [(i, c, s)]) i idx now j" unfolding saw_ready_def by (auto simp: FoPick Cons)
      with True so assms(2) show ?thesis by (auto simp: FoPick Cons saw_mono(1))
    next
      case False
      then have "saw_cooling (tr @ [(i, c, s)]) i idx now j" unfolding saw_cooling_def by (auto simp: FoPick Cons not_le)
      then have "l \<in> set js' \<or> saw_cooling (tr @ [(i, c, s)]) i idx now l" if "l < n" "l \<noteq> idx" for l
        using so(6)[OF that] saw_mono(3)[of tr i idx now l] by blast
      with False so(1,2,5) assms(2) show ?thesis by (auto simp: FoPick Cons saw_mono(1))
    qed
  qed
qed (use assms in \<open>auto simp: stood_by_mono\<close>)

lemma filter_update:
  "i < length xs \<Longrightarrow> length (filter P (xs[i := x])) + (if P (xs ! i) then 1 else 0) =
     length (filter P xs) + (if P x then 1 else 0)"
proof (induction xs arbitrary: i)
  case (Cons y xs)
  then show ?case by (cases i) (use Cons.IH[of "i - 1"] in \<open>auto split: if_splits\<close>)
qed simp

text \<open>The invariant of the running proxy: the shared state against the accesses, and the calls against what they saw.\<close>

definition par_state :: "nat \<Rightarrow> proxy_state \<Rightarrow> fo_pc list \<Rightarrow> fo_trace \<Rightarrow> bool" where
  "par_state n s cs tr \<longleftrightarrow>
     length (px_hosts s) = n \<and> length (px_bad s) = n \<and> px_active s < n \<and> px_active s = last (0 # switched tr) \<and>
     px_gen s + length (filter bumping cs) = length (switched tr) \<and>
     (\<forall>k < n. px_bad s ! k = last (0 # cooldowns k tr))"

definition par_calls :: "nat \<Rightarrow> fo_pc list \<Rightarrow> fo_trace \<Rightarrow> bool" where
  "par_calls n cs tr \<longleftrightarrow>
     distinct (switchers tr) \<and> set (switchers tr) \<subseteq> {..<length cs} \<and>
     (\<forall>i < length cs. so_far n tr i (cs ! i)) \<and>
     (\<forall>k < length tr. \<forall>i idx now j s. tr ! k = (i, FoSwitch idx now j, s) \<longrightarrow> so_far n (take k tr) i (FoSwitch idx now j))"

lemma par_state_call: "par_state n s cs tr \<Longrightarrow> par_state n s (cs @ [FoCool idx now]) tr"
  by (simp add: par_state_def bumping_def)

lemma par_state_last: "par_state n (s\<lparr>px_last := now\<rparr>) cs tr = par_state n s cs tr"
  by (simp add: par_state_def)

lemma par_calls_call:
  assumes "par_calls n cs tr" "idx < n"
  shows "par_calls n (cs @ [FoCool idx now]) tr"
proof -
  have "length cs \<notin> set (switchers tr)" using assms(1) by (auto simp: par_calls_def)
  with assms show ?thesis unfolding par_calls_def by (fastforce simp: nth_append less_Suc_eq)
qed

lemma par_state_access:
  assumes "par_state n s cs tr" "par_calls n cs tr" "i < length cs" "fo_step (cs ! i) s = (c, s')"
  shows "par_state n s' (cs[i := c]) (tr @ [(i, cs ! i, s)])"
proof -
  have f: "so_far n tr i (cs ! i)" using assms(2,3) by (simp add: par_calls_def)
  note upd = filter_update[OF assms(3), of bumping c]
  show ?thesis
    using assms(1,4) upd f unfolding par_state_def
    by (cases "(cs ! i, s)" rule: fo_step.cases) (auto simp: bumping_def nth_list_update split: if_splits)
qed

lemma par_calls_access:
  assumes "par_calls n cs tr" "i < length cs" "fo_step (cs ! i) s = (c, s')" "length (px_hosts s) = n"
  shows "par_calls n (cs[i := c]) (tr @ [(i, cs ! i, s)])"
proof -
  note inv = assms(1)[unfolded par_calls_def]
  have f: "so_far n tr i (cs ! i)" using inv assms(2) by blast
  have "so_far n (tr @ [(i, cs ! i, s)]) l (cs[i := c] ! l)" if "l < length cs" for l
  proof (cases "l = i")
    case True
    with so_far_own[OF f assms(3,4)] that show ?thesis by simp
  next
    case False
    have "so_far n tr l (cs ! l)" using inv that by blast
    with False show ?thesis by (simp add: so_far_other)
  qed
  moreover have "distinct (switchers (tr @ [(i, cs ! i, s)]))" "set (switchers (tr @ [(i, cs ! i, s)])) \<subseteq> {..<length cs}"
    using inv f assms(2) by (auto split: fo_pc.splits)
  moreover have "so_far n (take k (tr @ [(i, cs ! i, s)])) l (FoSwitch idx now j)"
    if "k < length (tr @ [(i, cs ! i, s)])" "(tr @ [(i, cs ! i, s)]) ! k = (l, FoSwitch idx now j, s0)" for k l idx now j s0
  proof (cases "k = length tr")
    case True
    with that f show ?thesis by (auto simp del: so_far.simps)
  next
    case False
    with that have "k < length tr" "tr ! k = (l, FoSwitch idx now j, s0)" by (auto simp: nth_append)
    then have "so_far n (take k tr) l (FoSwitch idx now j)" using inv by blast
    with \<open>k < length tr\<close> show ?thesis by (simp del: so_far.simps)
  qed
  ultimately show ?thesis unfolding par_calls_def length_list_update by blast
qed

lemma par_reach_inv:
  "par_reach upstreams s ws cs m tr \<Longrightarrow>
     par_state (length upstreams) s cs tr \<and> par_calls (length upstreams) cs tr \<and> set ws \<subseteq> {..<length upstreams}"
proof (induction rule: par_reach.induct)
  case (par_start s)
  then show ?case by (auto simp: proxy_start_def par_state_def par_calls_def Let_def split: if_splits)
next
  case (par_conn s ws cs m tr D msg emsg bl p push i idx why)
  then have "idx < length upstreams" by (auto simp: proxy_conn_def par_state_def Let_def)
  with par_conn show ?case by simp
next
  case (par_blame s ws1 idx ws2 cs m tr now)
  then show ?case by (auto intro: par_state_call par_calls_call)
next
  case (par_access s ws cs m tr i c s')
  then have "length (px_hosts s) = length upstreams" by (simp add: par_state_def)
  with par_access show ?case by (auto intro: par_state_access par_calls_access)
next
  case (par_monitor s ws cs m tr now m' s' cs')
  moreover have "px_active s < length upstreams" using par_monitor.IH by (simp add: par_state_def)
  ultimately show ?case
    by (cases m) (auto simp: par_state_last split: if_splits intro: par_state_call par_calls_call)
next
  case (par_data s ws cs m tr now)
  then show ?case by (simp add: par_state_last)
qed

lemma switchers_switched: "length (switchers tr) = length (switched tr)"
  by (induction tr rule: rev_induct) (auto split: fo_pc.split)

text \<open>C25. However the calls that blame an upstream, the stall monitor and the connections interleave, the proxy's active
  upstream is valid and is the one last switched to; the generation counts the switches, apart from those whose call is
  just about to count; every blame switches at most once; an upstream's cooldown ends 30 seconds after the last blame
  stored for it. A call that switches has cooled its own upstream down, has found it active, and goes to another
  one, which it has seen not cooling down; a call that ends without switching has found another upstream active, or has
  seen every other one cooling down.\<close>
theorem proxy_switches_sound:
  assumes "par_reach upstreams s ws cs m tr"
  shows "px_active s < length upstreams \<and> px_active s = last (0 # switched tr) \<and>
    px_gen s + length (filter bumping cs) = length (switched tr) \<and>
    distinct (switchers tr) \<and> set (switchers tr) \<subseteq> {..<length cs} \<and> length (switchers tr) = length (switched tr) \<and>
    (\<forall>k < length upstreams. px_bad s ! k = last (0 # cooldowns k tr)) \<and>
    (\<forall>k < length tr. \<forall>i idx now j s0. tr ! k = (i, FoSwitch idx now j, s0) \<longrightarrow>
      j < length upstreams \<and> j \<noteq> idx \<and> saw_active (take k tr) i idx now \<and> saw_ready (take k tr) i idx now j) \<and>
    (\<forall>i < length cs. cs ! i = FoDone \<longrightarrow> i \<in> set (switchers tr) \<or> stood_by (length upstreams) tr i)"
proof -
  have st: "par_state (length upstreams) s cs tr" and ca: "par_calls (length upstreams) cs tr"
    using par_reach_inv[OF assms] by blast+
  have "i \<in> set (switchers tr) \<or> stood_by (length upstreams) tr i" if "i < length cs" "cs ! i = FoDone" for i
  proof -
    have "so_far (length upstreams) tr i (cs ! i)" using ca that(1) unfolding par_calls_def by blast
    with that(2) show ?thesis by simp
  qed
  with st ca show ?thesis unfolding par_state_def par_calls_def switchers_switched so_far.simps by blast
qed

text \<open>The accesses in a given order.\<close>

fun par_run :: "nat list \<Rightarrow> proxy_state \<times> fo_pc list \<times> fo_trace \<Rightarrow> proxy_state \<times> fo_pc list \<times> fo_trace" where
  "par_run [] x = x"
| "par_run (i # is') (s, cs, tr) =
     (case fo_step (cs ! i) s of (c, s') \<Rightarrow> par_run is' (s', cs[i := c], tr @ [(i, cs ! i, s)]))"

lemma par_run_reach:
  "par_reach upstreams s ws cs m tr \<Longrightarrow> \<forall>i \<in> set is'. i < length cs \<Longrightarrow> par_run is' (s, cs, tr) = (s', cs', tr') \<Longrightarrow>
     par_reach upstreams s' ws cs' m tr'"
proof (induction is' arbitrary: s cs tr)
  case (Cons i is')
  obtain c s1 where c: "fo_step (cs ! i) s = (c, s1)" by fastforce
  have "par_reach upstreams s1 ws (cs[i := c]) m (tr @ [(i, cs ! i, s)])"
    using Cons.prems(1,2) c by (intro par_access) auto
  with Cons.IH[OF this] Cons.prems c show ?case by simp
qed simp

lemma par_dial_failed: "par_reach upstreams s ws cs m tr \<Longrightarrow> par_reach upstreams s ws (cs @ [FoCool (px_active s) now]) m tr"
proof -
  let ?i = "\<lparr>xi_dialed = False, xi_greet = None, xi_greet_written = False, xi_first = [], xi_first_written = Wrote,
    xi_sess = (\<lambda>_. (0, 0, 0), 0, []), xi_raw_up = [], xi_raw_down = [], xi_superseded = False\<rparr>"
  assume r: "par_reach upstreams s ws cs m tr"
  have "par_reach upstreams s (px_active s # ws) cs m tr"
    by (rule par_conn[OF r, where D = "\<lambda>_. None" and msg = "\<lambda>_. []" and emsg = "\<lambda>_. []" and bl = blacklist_init
          and p = 4000 and push = False and i = ?i and why = "''dial failed''"]) (simp add: proxy_conn_def Let_def)
  then show ?thesis using par_blame[of upstreams s "[]"] by simp
qed

definition three_up :: proxy_state where
  "three_up = \<lparr>px_hosts = [''192.0.2.1'', ''192.0.2.2'', ''192.0.2.3''], px_active = 0, px_gen = 0, px_bad = [0, 0, 0], px_last = 0\<rparr>"

lemma two_blames:
  "par_reach [''192.0.2.1'', ''192.0.2.2'', ''192.0.2.3''] three_up [] [FoCool 0 5000, FoCool 0 5000] MonSleep []"
proof -
  have "par_reach [''192.0.2.1'', ''192.0.2.2'', ''192.0.2.3''] three_up [] [] MonSleep []"
    by (rule par_start) (simp add: proxy_start_def relay_host_def Let_def three_up_def)
  from par_dial_failed[OF par_dial_failed[OF this, of 5000], of 5000] show ?thesis by (simp add: three_up_def)
qed

text \<open>Two connections blame the active upstream at once: both find it active, and the generation moves twice.\<close>

theorem proxy_switches_sound_witness:
  "\<exists>s tr. par_reach [''192.0.2.1'', ''192.0.2.2'', ''192.0.2.3''] s [] [FoDone, FoDone] MonSleep tr \<and>
     switched tr = [1, 1] \<and> px_active s = 1 \<and> px_gen s = 2 \<and> px_bad s ! 0 = 35000"
proof -
  obtain s tr where run: "par_run [0, 1, 0, 1, 0, 1, 0, 1, 0, 1, 0, 1] (three_up, [FoCool 0 5000, FoCool 0 5000], []) = (s, [FoDone, FoDone], tr)"
      "switched tr = [1, 1]" "cooldowns 0 tr = [35000, 35000]"
    by (simp add: three_up_def switched_def cooldowns_def upt_rec)
  have r: "par_reach [''192.0.2.1'', ''192.0.2.2'', ''192.0.2.3''] s [] [FoDone, FoDone] MonSleep tr"
    by (rule par_run_reach[OF two_blames _ run(1)]) simp
  from proxy_switches_sound[OF r] r run(2,3) show ?thesis by (intro exI[of _ s] exI[of _ tr]) (simp add: bumping_def)
qed

text \<open>A call that stores late puts a cooling upstream back: it saw the second one ready, another call has moved there, found it
  failing and moved on, and then the first call's store makes it the active one again.\<close>

lemma late_store_reactivates:
  "\<exists>s tr. par_reach [''192.0.2.1'', ''192.0.2.2'', ''192.0.2.3''] s [] [FoBump 5000, FoDone, FoDone] MonSleep tr \<and>
     switched tr = [1, 2, 1] \<and> px_active s = 1 \<and> px_bad s ! 1 = 36000 \<and> px_last s = 6000"
proof -
  obtain s tr where run: "par_run [0, 0, 0, 1, 1, 1, 1, 1, 1] (three_up, [FoCool 0 5000, FoCool 0 5000], []) = (s, [FoSwitch 0 5000 1, FoDone], tr)"
      "px_active s = 1" "switched tr = [1]" "px_bad s = [35000, 0, 0]" "px_hosts s = px_hosts three_up"
    by (simp add: three_up_def switched_def upt_rec)
  have "par_reach [''192.0.2.1'', ''192.0.2.2'', ''192.0.2.3''] s [] [FoSwitch 0 5000 1, FoDone] MonSleep tr"
    by (rule par_run_reach[OF two_blames _ run(1)]) simp
  from par_dial_failed[OF this, of 6000] have r: "par_reach [''192.0.2.1'', ''192.0.2.2'', ''192.0.2.3''] s []
      [FoSwitch 0 5000 1, FoDone, FoCool 1 6000] MonSleep tr" by (simp add: run)
  obtain s' tr' where run': "par_run [2, 2, 2, 2, 2, 2, 0] (s, [FoSwitch 0 5000 1, FoDone, FoCool 1 6000], tr) = (s', [FoBump 5000, FoDone, FoDone], tr')"
      "px_active s' = 1" "switched tr' = [1, 2, 1]" "px_bad s' ! 1 = 36000" "px_last s' = 6000"
    using run(2-5) by (simp add: three_up_def switched_def upt_rec)
  have "par_reach [''192.0.2.1'', ''192.0.2.2'', ''192.0.2.3''] s' [] [FoBump 5000, FoDone, FoDone] MonSleep tr'"
    by (rule par_run_reach[OF r _ run'(1)]) simp
  with run' show ?thesis by blast
qed

text \<open>The monitor judges by the last byte alone: it blames the active upstream twenty seconds after the last connection
  has ended as well.\<close>

lemma stall_monitor_blames:
  "px_last s \<noteq> 0 \<Longrightarrow> 20000 < now - px_last s \<Longrightarrow> mon_step now MonSleep s cs = (MonStalled now, s, cs) \<and>
     snd (snd (mon_step now (MonStalled now) s cs)) = cs @ [FoCool (px_active s) now]"
  by simp

end
