(* ===== verification/Entry.thy ===== *)
theory Entry
  imports Startup Proxy
begin

text \<open>
  The entry point (main.rs): the check of the settings, the blacklist of the modes that never reload it, and the choice
  of the mode from the command line with its defaults. Files are a function from paths to contents. The modes
  themselves are the other theories.

  The lemmas show that no mode starts on invalid settings, that a first argument that is neither a mode nor a port
  starts nothing, and that a proxy starts on unlisted upstreams only.
\<close>

section \<open>Definitions\<close>

datatype run_mode =
    InvalidEnv "env_problem list"
  | Bench string nat
  | Mock string string nat nat
  | RunResponder string
  | Fakenode "string list"
  | RunRelay string
  | RunProxy "string list" bool
  | RunCache nat string
  | RunPeerd nat
  | RunGateway gateway_args
  | RunMerge nat "string list"
  | UsageError string

abbreviation U16_MAX :: nat where "U16_MAX \<equiv> 65535"

definition arg :: "string list \<Rightarrow> nat \<Rightarrow> string option" where
  "arg args i = (if i < length args then Some (args ! i) else None)"

definition arg_or :: "string list \<Rightarrow> nat \<Rightarrow> string \<Rightarrow> string" where
  "arg_or args i d = (case arg args i of Some a \<Rightarrow> a | None \<Rightarrow> d)"

definition num_or :: "nat \<Rightarrow> string list \<Rightarrow> nat \<Rightarrow> nat \<Rightarrow> nat" where
  "num_or mx args i d = (case Option.bind (arg args i) (parse_uint mx) of Some n \<Rightarrow> n | None \<Rightarrow> d)"

definition main_blacklist :: "env \<Rightarrow> (string \<Rightarrow> string option) \<Rightarrow> string list \<Rightarrow> blacklist \<Rightarrow> blacklist" where
  "main_blacklist e files args bl =
     (if arg args 1 \<in> {Some ''gateway'', Some ''peerd''} then bl
      else snd (reload (e ''HYPERSYNC_IP_BLACKLIST'')
                  (files ((case e ''HYPERSYNC_DATA'' of Some d \<Rightarrow> d | None \<Rightarrow> ''./data'') @ ''/ip_blacklist.txt'')) bl))"

definition proxy_upstreams :: "string list \<Rightarrow> string list" where
  "proxy_upstreams args =
     (case filter (\<lambda>a. \<not> starts_with a ''--'') (drop 2 args) of [] \<Rightarrow> [] | a # _ \<Rightarrow> split_csv a)"

definition main_mode :: "env \<Rightarrow> (string \<Rightarrow> string option) \<Rightarrow> string list \<Rightarrow> blacklist \<Rightarrow> run_mode" where
  "main_mode e files args bl =
     (let mode = arg args 1; found = problems e (mode = Some ''gateway''); bl1 = main_blacklist e files args bl
      in if found \<noteq> [] then InvalidEnv found
         else if mode = Some ''bench'' then Bench (arg_or args 2 ''.'') (num_or U64_MAX args 3 1000000)
         else if mode = Some ''mock'' then
           Mock (arg_or args 2 ''127.0.0.1:6001'') (arg_or args 3 ''.'') (num_or U64_MAX args 4 0) (num_or U64_MAX args 5 12)
         else if mode = Some ''responder'' then RunResponder (arg_or args 2 ''0.0.0.0'')
         else if mode = Some ''fakenode'' then Fakenode (drop 2 args)
         else if mode = Some ''relay'' then RunRelay (arg_or args 3 (arg_or args 2 ''172.18.0.2:4001''))
         else if mode = Some ''proxy'' then RunProxy (bl_filtered bl1 (proxy_upstreams args)) (''--push'' \<in> set args)
         else if mode = Some ''cache'' then RunCache (num_or U16_MAX args 2 4001) (arg_or args 3 ''172.18.0.2:4001'')
         else if mode = Some ''peerd'' then RunPeerd (num_or U64_MAX args 2 300)
         else if mode = Some ''gateway'' then
           (case parse_gateway_args (drop 2 args) of Inl err \<Rightarrow> UsageError err | Inr g \<Rightarrow> RunGateway g)
         else (case mode of
                 None \<Rightarrow> UsageError ''usage''
               | Some a \<Rightarrow>
                   (case parse_uint U16_MAX a of
                      None \<Rightarrow> UsageError (''unknown mode '' @ a)
                    | Some port \<Rightarrow>
                        RunMerge port (case arg args 2 of Some s \<Rightarrow> split_csv s | None \<Rightarrow> [''74.63.207.101'', ''64.140.170.202'']))))"

section \<open>What starts\<close>

lemma main_mode_checked:
  assumes "main_mode e files args bl = m" "\<forall>ps. m \<noteq> InvalidEnv ps"
  shows "problems e (arg args 1 = Some ''gateway'') = []"
  using assms by (auto simp: main_mode_def Let_def split: if_splits)

text \<open>A first argument that is no mode starts the merge mode only when it is a port.\<close>

lemma typo_starts_nothing:
  assumes "problems e False = []" "parse_uint U16_MAX a = None"
    and "a \<notin> {''bench'', ''mock'', ''responder'', ''fakenode'', ''relay'', ''proxy'', ''cache'', ''peerd'', ''gateway''}"
  shows "main_mode e files (prog # a # as) bl = UsageError (''unknown mode '' @ a)"
proof -
  have "arg (prog # a # as) 1 = Some a" by (simp add: arg_def)
  with assms show ?thesis by (simp add: main_mode_def Let_def)
qed

text \<open>The gateway that starts has settings its readers take as written: the check ran for the gateway.\<close>

lemma gateway_starts_checked:
  assumes "main_mode e files args bl = RunGateway g"
  shows "problems e True = [] \<and> (ga_push g \<longleftrightarrow> ''--push'' \<in> set (drop 2 args)) \<and>
    (ga_cache g \<longleftrightarrow> ''--cache'' \<in> set (drop 2 args))"
proof -
  from assms have "problems e True = []" "parse_gateway_args (drop 2 args) = Inr g"
    by (auto simp: main_mode_def Let_def split: if_splits sum.splits option.splits)
  with parse_gateway_args_flags[of "drop 2 args" g] show ?thesis by blast
qed

text \<open>No upstream a proxy starts with is listed, so none of its hosts is refused at its first dial.\<close>

lemma proxy_upstreams_unlisted:
  assumes "bl_ok bl" "main_mode e files args bl = RunProxy us push" "u \<in> set us"
  shows "\<not> bl_contains (main_blacklist e files args bl) u"
proof -
  have us: "us = bl_filtered (main_blacklist e files args bl) (proxy_upstreams args)"
    using assms(2) by (auto simp: main_mode_def Let_def split: if_splits sum.splits option.splits)
  have "bl_ok (main_blacklist e files args bl)"
    using assms(1) by (simp add: main_blacklist_def bl_ok_reload)
  with assms(3) show ?thesis
    unfolding us by (auto simp: bl_filtered_def bl_ok_def bl_contains_def split: if_splits)
qed

end
