(* ===== verification/Responder.thy ===== *)
theory Responder
  imports Crawl Client_Blocks HS_Contracts Frames_Props
begin

text \<open>
  The public responder (responder.rs): the two ports, the answers, the counters and the limit on open connections. A
  connection is what its read sees within the deadline; the permits of the semaphore are a number, taken when a
  connection is accepted and given back when its task ends.

  The lemmas show that the permits in use are the connections open and at most 256, and the property that our own
  readers understand the answers: the crawl learns nothing, a selection sees a full peer, a client-block request a
  peer-only refusal.
\<close>

section \<open>Definitions\<close>

abbreviation MAX_CONNS :: nat where "MAX_CONNS \<equiv> 256"
abbreviation MAX_REQUEST :: nat where "MAX_REQUEST \<equiv> 64"

definition PEER_FULL :: bytes where "PEER_FULL = [0, 0, 0, 1, 0, 4]"
definition EMPTY_PEER_TABLE :: bytes where "EMPTY_PEER_TABLE = [0, 0, 0, 2, 0, 1, 0]"
definition PEER_ONLY :: bytes where "PEER_ONLY = [0, 0, 0, 3, 0, 0, 1, 0]"
definition QUERY_PEERS :: bytes where "QUERY_PEERS = [0, 1]"

record resp_stats =
  st_probes :: nat
  st_greetings :: nat
  st_query_peers :: nat
  st_other_rpc :: nat
  st_bad :: nat
  st_busy :: nat
  st_from_priority :: nat

definition resp_stats_default :: resp_stats where
  "resp_stats_default = \<lparr>st_probes = 0, st_greetings = 0, st_query_peers = 0, st_other_rpc = 0, st_bad = 0, st_busy = 0,
     st_from_priority = 0\<rparr>"

definition stats_take :: "resp_stats \<Rightarrow> nat list \<times> resp_stats" where
  "stats_take st =
     ([st_probes st, st_greetings st, st_query_peers st, st_other_rpc st, st_bad st, st_busy st, st_from_priority st],
      resp_stats_default)"

definition answer_4001 :: "rd_ev list \<Rightarrow> resp_stats \<Rightarrow> bytes option \<times> resp_stats" where
  "answer_4001 s st =
     (case fst (read_some 8 s) of
        Inr bs \<Rightarrow>
          if bs = [] then (None, st\<lparr>st_probes := st_probes st + 1\<rparr>)
          else (Some PEER_FULL, st\<lparr>st_greetings := st_greetings st + 1\<rparr>)
      | Inl Elapsed \<Rightarrow> (None, st\<lparr>st_probes := st_probes st + 1\<rparr>)
      | Inl _ \<Rightarrow> (None, st\<lparr>st_bad := st_bad st + 1\<rparr>))"

definition responder_request :: "rd_ev list \<Rightarrow> bytes option" where
  "responder_request s =
     (case read_exact 5 s of
        (Inl _, _) \<Rightarrow> None
      | (Inr hdr, s1) \<Rightarrow>
          (let len = be_len hdr 0
           in if MAX_REQUEST < len then None
              else (case read_exact len s1 of (Inl _, _) \<Rightarrow> None | (Inr body, _) \<Rightarrow> Some (hdr ! 4 # body))))"

definition answer_4002 :: "rd_ev list \<Rightarrow> resp_stats \<Rightarrow> bytes option \<times> resp_stats" where
  "answer_4002 s st =
     (case responder_request s of
        None \<Rightarrow> (None, st\<lparr>st_bad := st_bad st + 1\<rparr>)
      | Some req \<Rightarrow>
          if req = QUERY_PEERS then (Some EMPTY_PEER_TABLE, st\<lparr>st_query_peers := st_query_peers st + 1\<rparr>)
          else (Some PEER_ONLY, st\<lparr>st_other_rpc := st_other_rpc st + 1\<rparr>))"

definition take_permit :: "unit \<Rightarrow> nat \<Rightarrow> unit option \<times> nat" where
  "take_permit u permits = (if permits = 0 then (None, permits) else (Some (), permits - 1))"

definition give_permit :: "unit \<Rightarrow> nat \<Rightarrow> nat" where
  "give_permit u permits = permits + 1"

text \<open>An accepted connection: whether it is served, with the permits and the counters after it.\<close>

definition responder_accept :: "bool \<Rightarrow> nat \<times> resp_stats \<Rightarrow> bool \<times> nat \<times> resp_stats" where
  "responder_accept from_priority = (\<lambda>(permits, st).
     case take_permit () permits of
       (None, permits1) \<Rightarrow> (False, permits1, st\<lparr>st_busy := st_busy st + 1\<rparr>)
     | (Some _, permits1) \<Rightarrow>
         (True, permits1, if from_priority then st\<lparr>st_from_priority := st_from_priority st + 1\<rparr> else st))"

definition responder_conn :: "nat \<Rightarrow> rd_ev list \<Rightarrow> nat \<times> resp_stats \<Rightarrow> bytes option \<times> nat \<times> resp_stats" where
  "responder_conn port s = (\<lambda>(permits, st).
     case (if port = 4001 then answer_4001 s st else answer_4002 s st) of
       (reply, st1) \<Rightarrow> (reply, give_permit () permits, st1))"

section \<open>Open connections\<close>

interpretation rp: slot_pool take_permit give_permit "\<lambda>permits _. MAX_CONNS - permits" "\<lambda>_. Some MAX_CONNS" "\<lambda>permits. permits \<le> MAX_CONNS"
  by unfold_locales (auto simp: take_permit_def give_permit_def fun_eq_iff split: if_splits)

lemma count_list_unit: "count_list us () = length us"
  by (induction us) auto

text \<open>Whatever the order in which connections come and go, at most 256 are open.\<close>

lemma responder_conns_bounded:
  "length (snd (fold (slot_step take_permit give_permit) ops (MAX_CONNS, []))) \<le> MAX_CONNS"
proof -
  have "rp.balanced (MAX_CONNS, [])" by (simp add: rp.balanced_def)
  from rp.balanced_run[OF this, of ops] show ?thesis
    by (auto simp: rp.balanced_def case_prod_beta count_list_unit)
qed

section \<open>Answers\<close>

lemma responder_request_frame:
  assumes "busy s" "stream_bytes s = encode_frame t p @ rest" "length p \<le> MAX_REQUEST"
  shows "responder_request s = Some (t # p)"
proof -
  obtain hdr where hdr: "encode_frame t p = hdr @ p" "length hdr = 5" "hdr ! 4 = t"
    by (simp add: encode_frame_def nth_append)
  obtain s1 where s1: "read_exact 5 s = (Inr hdr, s1)" "busy s1" "stream_bytes s1 = p @ rest"
    using read_exact_busy[OF assms(1), of 5] assms(2) hdr by auto
  have "be_len hdr 0 = length p"
    using be_len_encode[of p "[]" t "[]"] assms(3) hdr by (simp add: be_len_def nth_append)
  moreover obtain s2 where "read_exact (length p) s1 = (Inr p, s2)"
    using read_exact_busy[OF s1(2), of "length p"] s1(3) by auto
  ultimately show ?thesis using s1(1) assms(3) hdr(3) by (simp add: responder_request_def)
qed

lemma answers_classified:
  "response_is_peer_full PEER_FULL" "classify_response PEER_ONLY = PeerOnly" "parse_query_peers_response (drop 5 EMPTY_PEER_TABLE) = []"
  by (simp_all add: response_is_peer_full_def PEER_FULL_def classify_response_def response_is_peer_only_def PEER_ONLY_def
      STRUCTURED_PEER_ONLY_def EMPTY_PEER_TABLE_def parse_query_peers_response_def read_hl_varint_def)

lemma query_frame: "encode_frame t p = QUERY_PEERS_REQUEST \<longleftrightarrow> t # p = QUERY_PEERS"
proof -
  have "encode_frame 0 [1] = QUERY_PEERS_REQUEST"
    by (simp add: encode_frame_def QUERY_PEERS_REQUEST_def u32_to_be_bytes_def u32_to_le_bytes_def)
  moreover have "encode_frame t p = encode_frame u q \<Longrightarrow> t = u \<and> p = q" for u q by (simp add: encode_frame_def)
  ultimately show ?thesis by (metis QUERY_PEERS_def list.inject)
qed

text \<open>C27: however its bytes are split, a request of at most 64 bytes on 4002 is answered with an empty peer table when
  it is the one the crawl sends and with a peer-only error otherwise, and anything on 4001 with a full-peer status; and
  the crawl, the client-block fetch and the peer selection take these answers for what they are.\<close>

theorem responder_understood:
  assumes "busy s" "stream_bytes s = encode_frame t p @ rest" "length p \<le> 64"
  shows "fst (answer_4002 s st) = Some (if encode_frame t p = QUERY_PEERS_REQUEST then EMPTY_PEER_TABLE else PEER_ONLY) \<and>
    fst (answer_4001 s st) = Some PEER_FULL \<and>
    parse_query_peers_response (drop 5 EMPTY_PEER_TABLE) = [] \<and> classify_response PEER_ONLY = PeerOnly \<and>
    response_is_peer_full PEER_FULL"
proof -
  have "live s" using assms(1) by (simp add: busy_def)
  note r = read_some_live[OF this, of 8]
  have "stream_bytes s \<noteq> []" using assms(2) by (simp add: encode_frame_def)
  then obtain bs s' where "read_some 8 s = (Inr bs, s')" "bs \<noteq> []"
    using r assms(1) by (cases "read_some 8 s"; cases "fst (read_some 8 s)") auto
  then show ?thesis
    using responder_request_frame[OF assms] answers_classified
    by (simp add: answer_4001_def answer_4002_def query_frame)
qed

theorem responder_understood_witness:
  "fst (answer_4002 [Chunk [0, 0, 0], Chunk [1, 0, 1]] resp_stats_default) = Some EMPTY_PEER_TABLE"
  using responder_understood[of "[Chunk [0, 0, 0], Chunk [1, 0, 1]]" 0 "[1]" "[]" resp_stats_default]
  by (simp add: busy_def live_def encode_frame_def QUERY_PEERS_REQUEST_def u32_to_be_bytes_def u32_to_le_bytes_def)

end
