(* ===== verification/Pace.thy ===== *)
theory Pace
  imports Select Push_Props HS_Contracts
begin

text \<open>
  The pace references (gateway/pace.rs): extra live streams that only feed the freshest round. Two references share the
  set of peers in use and their own cooldown; each picks a peer, follows its stream and releases it. A run of the
  references is a sequence of picks and releases in the order in which they take the lock.

  The lemmas show that a pick takes a free peer of the pool that is not cooling down, that no two references follow the
  same peer, that a peer is avoided for a minute after each ending that cools it (the contract of cooldowns), and that a
  reference offers only plausible rounds under its own feed.
\<close>

section \<open>Definitions\<close>

abbreviation PACE_COOLDOWN :: duration where "PACE_COOLDOWN \<equiv> from_secs 60"
abbreviation PACE_FIRST_BLOCK :: duration where "PACE_FIRST_BLOCK \<equiv> from_secs 30"

record pace_shared =
  pa_in_use :: "ip list"
  pa_cooled :: "(ip \<times> instant) list"

definition pace_pick :: "ip list \<Rightarrow> nat \<Rightarrow> instant \<Rightarrow> pace_shared \<Rightarrow> ip option \<times> pace_shared" where
  "pace_pick pool nxt now s =
     (let cooled = filter (\<lambda>x. now < snd x) (pa_cooled s);
          peers = filter (\<lambda>a. a \<notin> set (pa_in_use s) \<and> map_of cooled a = None) pool
      in if peers = [] then (None, s\<lparr>pa_cooled := cooled\<rparr>)
         else (let a = peers ! (nxt mod length peers)
               in (Some a, s\<lparr>pa_in_use := List.insert a (pa_in_use s), pa_cooled := cooled\<rparr>)))"

text \<open>The end of a following takes the two locks one after the other: the peer is free before it is cooled.\<close>

definition pace_release :: "ip \<Rightarrow> pace_shared \<Rightarrow> pace_shared" where
  "pace_release a s = s\<lparr>pa_in_use := removeAll a (pa_in_use s)\<rparr>"

definition pace_cooldown :: "ip \<Rightarrow> instant \<Rightarrow> pace_shared \<Rightarrow> pace_shared" where
  "pace_cooldown a now s = s\<lparr>pa_cooled := AList.update a (now + PACE_COOLDOWN) (pa_cooled s)\<rparr>"

datatype pace_end =
    PaceConnect sel_error
  | PaceNoRound
  | PaceStalled u32
  | PaceRead io_error
  | PaceImplausible u32
  | PaceJump push_error
  | PaceLags u32

fun pace_cool :: "pace_end \<Rightarrow> bool" where
  "pace_cool (PaceLags _) = False"
| "pace_cool _ = True"

text \<open>What one pass of the loop meets: the time at its start and when the round is offered, the tip, what the other
  streams did to the freshest round meanwhile, and the bytes to read.\<close>

record pace_in =
  pi_start :: instant
  pi_at :: instant
  pi_tip :: u32
  pi_others :: "freshest_round \<Rightarrow> freshest_round"
  pi_read :: "rd_ev list"

definition pace_pass ::
  "(bytes \<Rightarrow> bytes option) \<Rightarrow> nat \<Rightarrow> ip \<Rightarrow> instant \<Rightarrow> pace_in \<Rightarrow> block_progress \<times> freshest_round
     \<Rightarrow> pace_end option \<times> block_progress \<times> freshest_round" where
  "pace_pass D fid a started i = (\<lambda>(p, f0).
     let f = pi_others i f0; now = pi_start i
     in if p_last_round p = 0 \<and> PACE_FIRST_BLOCK < now - started then (Some PaceNoRound, p, f)
        else if stalled now p then (Some (PaceStalled (p_last_round p)), p, f)
        else (case fst (read_live_frame_with_timeout MAX_LIVE_FRAME (pi_read i)) of
                Inl e \<Rightarrow> (Some (PaceRead e), p, f)
              | Inr frame \<Rightarrow>
                  if length frame \<le> 5 \<or> frame ! 4 \<noteq> 1 then (None, p, f)
                  else (case block_round D (drop 5 frame) of
                          None \<Rightarrow> (None, p, f)
                        | Some r \<Rightarrow>
                            if \<not> is_plausible_mainnet_round r (pi_tip i) then (Some (PaceImplausible r), p, f)
                            else (case on_round r now p of
                                    Inl e \<Rightarrow> (Some (PaceJump e), p, f)
                                  | Inr p1 \<Rightarrow>
                                      (let f1 = offer (pi_tip i) fid a r (pi_at i) f;
                                           (lag, p2) = lagging f1 (freshest_get (pi_tip i) (pi_at i) f1) False now p1
                                       in (map_option PaceLags lag, p2, f1))))))"

fun pace_loop ::
  "(bytes \<Rightarrow> bytes option) \<Rightarrow> nat \<Rightarrow> ip \<Rightarrow> instant \<Rightarrow> pace_in list \<Rightarrow> block_progress \<times> freshest_round
     \<Rightarrow> pace_end option \<times> freshest_round" where
  "pace_loop D fid a started [] x = (None, snd x)"
| "pace_loop D fid a started (i # is) x =
     (case pace_pass D fid a started i x of
        (Some e, x1) \<Rightarrow> (Some e, snd x1)
      | (None, x1) \<Rightarrow> pace_loop D fid a started is x1)"

text \<open>The whole of one following; the feed is dropped when it ends.\<close>

definition follow_pace ::
  "(bytes \<Rightarrow> bytes option) \<Rightarrow> blacklist \<Rightarrow> ip \<Rightarrow> dial_out \<Rightarrow> instant \<Rightarrow> pace_in list \<Rightarrow> freshest_round
     \<Rightarrow> pace_end option \<times> freshest_round" where
  "follow_pace D bl a d started is f =
     (case connect_and_greet_4001 bl a d of
        Inl e \<Rightarrow> (Some (PaceConnect e), f)
      | Inr _ \<Rightarrow>
          (case feed f of
             (fid, f1) \<Rightarrow>
               (case pace_loop D fid a started is (block_progress_new 0 started, f1) of
                  (Some e, f2) \<Rightarrow> (Some e, drop_feed fid f2)
                | (None, f2) \<Rightarrow> (None, f2))))"

section \<open>Sharing of peers\<close>

text \<open>References by number, and which peer each is on.\<close>

datatype pace_ev = PacePick nat "ip list" nat instant | PaceFree nat | PaceCool ip instant

fun pace_step :: "pace_ev \<Rightarrow> pace_shared \<times> (nat \<times> ip) list \<Rightarrow> pace_shared \<times> (nat \<times> ip) list" where
  "pace_step (PacePick k pool nxt now) (s, on) =
     (if map_of on k \<noteq> None then (s, on)
      else (case pace_pick pool nxt now s of
              (None, s1) \<Rightarrow> (s1, on)
            | (Some a, s1) \<Rightarrow> (s1, (k, a) # on)))"
| "pace_step (PaceFree k) (s, on) =
     (case map_of on k of
        None \<Rightarrow> (s, on)
      | Some a \<Rightarrow> (pace_release a s, AList.delete k on))"
| "pace_step (PaceCool a now) (s, on) = (pace_cooldown a now s, on)"

definition pace_ok :: "pace_shared \<times> (nat \<times> ip) list \<Rightarrow> bool" where
  "pace_ok = (\<lambda>(s, on). distinct (map fst on) \<and> distinct (map snd on) \<and> set (pa_in_use s) = set (map snd on))"

lemma pace_pick_spec:
  assumes "pace_pick pool nxt now s = (Some a, s')"
  shows "a \<in> set pool \<and> a \<notin> set (pa_in_use s) \<and> set (pa_in_use s') = insert a (set (pa_in_use s)) \<and>
    (\<forall>until. (a, until) \<in> set (pa_cooled s) \<longrightarrow> until \<le> now)"
proof -
  let ?c = "filter (\<lambda>x. now < snd x) (pa_cooled s)"
  let ?p = "filter (\<lambda>a. a \<notin> set (pa_in_use s) \<and> map_of ?c a = None) pool"
  from assms have ne: "?p \<noteq> []" and a: "a = ?p ! (nxt mod length ?p)"
    and s': "pa_in_use s' = List.insert a (pa_in_use s)"
    by (auto simp: pace_pick_def Let_def split: if_splits)
  have "a \<in> set ?p" unfolding a using ne by (intro nth_mem) simp
  then show ?thesis using s' by (force simp: map_of_eq_None_iff not_le)
qed

lemma one_to_one_delete:
  assumes "distinct (map fst xs)" "distinct (map snd xs)" "map_of xs k = Some a"
  shows "snd ` {y \<in> set xs. fst y \<noteq> k} = snd ` set xs - {a}"
proof -
  have ka: "(k, a) \<in> set xs" using assms(3) by (rule map_of_SomeD)
  have "fst y = k \<longleftrightarrow> snd y = a" if "y \<in> set xs" for y
    using inj_onD[of fst "set xs" y "(k, a)"] inj_onD[of snd "set xs" y "(k, a)"] assms(1,2) ka that
    by (cases y) (auto simp: distinct_map)
  then have "{y \<in> set xs. fst y \<noteq> k} = {y \<in> set xs. snd y \<noteq> a}" by blast
  then show ?thesis by auto
qed

lemma pace_step_ok: "pace_ok x \<Longrightarrow> pace_ok (pace_step ev x)"
proof (cases ev)
  case (PacePick k pool nxt now)
  assume ok: "pace_ok x"
  obtain s on where x: "x = (s, on)" by fastforce
  show ?thesis
  proof (cases "map_of on k")
    case None
    show ?thesis
    proof (cases "pace_pick pool nxt now s")
      case (Pair r s')
      show ?thesis
      proof (cases r)
        case (Some a)
        with Pair pace_pick_spec[of pool nxt now s a s'] ok x PacePick None show ?thesis
          by (auto simp: pace_ok_def map_of_eq_None_iff)
      next
        case r: None
        with Pair have "pa_in_use s' = pa_in_use s"
          by (auto simp: pace_pick_def Let_def split: if_splits)
        with r Pair ok x PacePick None show ?thesis by (simp add: pace_ok_def)
      qed
    qed
  qed (use ok x PacePick in simp)
next
  case (PaceFree k)
  assume ok: "pace_ok x"
  obtain s on where x: "x = (s, on)" by fastforce
  show ?thesis
  proof (cases "map_of on k")
    case (Some a)
    have d: "AList.delete k on = filter (\<lambda>y. fst y \<noteq> k) on" by (auto simp: AList.delete_eq intro!: filter_cong)
    have "set (map snd (AList.delete k on)) = set (map snd on) - {a}"
      unfolding d using one_to_one_delete[OF _ _ Some] ok x by (simp add: pace_ok_def)
    moreover have "distinct (map fst (AList.delete k on))" "distinct (map snd (AList.delete k on))"
      using ok x unfolding d by (auto simp: pace_ok_def distinct_map_filter)
    moreover have "set (pa_in_use (pace_release a s)) = set (pa_in_use s) - {a}"
      by (simp add: pace_release_def)
    ultimately show ?thesis using Some ok x PaceFree by (auto simp: pace_ok_def)
  qed (use ok x PaceFree in simp)
next
  case (PaceCool a now)
  assume "pace_ok x"
  with PaceCool show ?thesis by (cases x) (simp add: pace_ok_def pace_cooldown_def)
qed

text \<open>Whatever the order in which the references take the lock, no two of them follow the same peer.\<close>

theorem pace_peers_differ:
  assumes "map_of (snd (fold pace_step evs (\<lparr>pa_in_use = [], pa_cooled = []\<rparr>, []))) j = Some a"
    and "map_of (snd (fold pace_step evs (\<lparr>pa_in_use = [], pa_cooled = []\<rparr>, []))) k = Some a"
  shows "j = k"
proof -
  have keep: "pace_ok x \<Longrightarrow> pace_ok (fold pace_step evs x)" for x
    by (induction evs arbitrary: x) (simp_all add: pace_step_ok)
  have "pace_ok (fold pace_step evs (\<lparr>pa_in_use = [], pa_cooled = []\<rparr>, []))"
    by (rule keep) (simp add: pace_ok_def)
  then have "inj_on snd (set (snd (fold pace_step evs (\<lparr>pa_in_use = [], pa_cooled = []\<rparr>, []))))"
    by (simp add: pace_ok_def case_prod_beta distinct_map)
  from inj_onD[OF this, of "(j, a)" "(k, a)"] assms[THEN map_of_SomeD] show ?thesis by simp
qed

section \<open>The cooldown of the references\<close>

definition pace_cooling :: "pace_shared \<Rightarrow> ip \<Rightarrow> instant \<Rightarrow> bool" where
  "pace_cooling s a t \<longleftrightarrow> (case map_of (pa_cooled s) a of Some until \<Rightarrow> t < until | None \<Rightarrow> False)"

definition pace_sane :: "pace_shared \<Rightarrow> instant \<Rightarrow> bool" where
  "pace_sane s now \<longleftrightarrow> (\<forall>a until. map_of (pa_cooled s) a = Some until \<longrightarrow> until \<le> now + PACE_COOLDOWN)"

interpretation pc: cooldown_table pace_cooling pace_cooldown PACE_COOLDOWN "\<lambda>_ _. True" pace_sane
proof unfold_locales
  fix s :: pace_shared and now t :: instant and a b :: ip
  assume "pace_sane s now"
  then have "map_of (pa_cooled s) a = Some until \<Longrightarrow> until \<le> now + PACE_COOLDOWN" for until
    by (simp add: pace_sane_def)
  then show "pace_cooling (pace_cooldown a now s) b t \<longleftrightarrow>
      (a = b \<and> True \<and> t < now + PACE_COOLDOWN) \<or> pace_cooling s b t"
    by (cases "map_of (pa_cooled s) a") (auto simp: pace_cooling_def pace_cooldown_def update_conv')
next
  fix s :: pace_shared and now :: instant and a :: ip
  assume "pace_sane s now"
  then show "pace_sane (pace_cooldown a now s) now"
    by (simp add: pace_sane_def pace_cooldown_def update_conv')
qed (fastforce simp: pace_sane_def)+

text \<open>A peer is avoided exactly for a minute after each ending that cooled it.\<close>

lemma pace_cooling_exact:
  assumes "sorted (map snd ms)" "\<forall>m \<in> set ms. snd m \<le> t"
  shows "pace_cooling (fold (\<lambda>(a, now). pace_cooldown a now) ms \<lparr>pa_in_use = [], pa_cooled = []\<rparr>) b t \<longleftrightarrow>
    (\<exists>m. (b, m) \<in> set ms \<and> t < m + PACE_COOLDOWN)"
  using pc.cooling_run[of "\<lparr>pa_in_use = [], pa_cooled = []\<rparr>" 0 ms t b] assms
  by (simp add: pace_sane_def pace_cooling_def)

section \<open>What a reference offers\<close>

text \<open>A pass changes the freshest round, beyond what the other streams do, only by offering a plausible round under
  the reference's own feed and peer.\<close>

lemma pace_pass_offers:
  assumes "pace_pass D fid a started i (p, f) = (e, p', f')"
  shows "f' = pi_others i f \<or>
    (\<exists>r. is_plausible_mainnet_round r (pi_tip i) \<and> f' = offer (pi_tip i) fid a r (pi_at i) (pi_others i f))"
  using assms by (auto simp: pace_pass_def Let_def split: if_splits sum.splits option.splits prod.splits)

end
