(* ===== verification/Spec2Isabelle.thy ===== *)
theory Spec2Isabelle
  imports Failover_More Failover_Track Frames_Props Round_Gate Peers_File Push_Guards Node_Props Select_Props Client_Props
    Gateway_Props Gateway_Main_Props Crawl_Props Peerd_Props Entry Responder Pace
begin

text \<open>
  A model of hypersync, the gateway between Hyperliquid nodes and the gossip network (src/src), and its correctness.

  \<^bold>\<open>The program.\<close> A node dials the gateway instead of a peer. On port 4001 it asks either for a bootstrap (the state
  of the chain, then live blocks) or for live blocks only; on 4002 it asks for ranges of client blocks. The gateway
  chooses upstreams from two sources, the operator's priority peers and a pool that the daemon \<open>peerd\<close> discovers,
  and relays, replays or gates what they send, so that the node reads one clean stream although peers stall, lag, lie,
  refuse or die. Beside the gateway the binary has a proxy, a relay, a merge mode and a responder for probes.

  \<^bold>\<open>How the model reads.\<close> Rounds are 32-bit words, hashes 64-bit words, other counters naturals with the caps the
  code applies. Clocks are naturals in nanoseconds. A struct is a record, an enum a datatype, a hash map an association
  list, a set that the code iterates a list without repetitions, a string a list of characters. An async function is a
  function of what its reads, writes, timers and joins bring, in the order in which they do; theorems quantify over
  all of these inputs, so they hold for every interleaving. A task that runs beside the modelled one is a function on
  the shared state applied where the code takes the lock. Errors are values of sum and option types. The LZ4 library is
  the parameter \<open>D\<close> (a partial function on bytes), of which only \<open>block_round_eq_full\<close> assumes anything; the keyed hash of
  a block is the parameter \<open>H\<close>, of which nothing is assumed.

  \<^bold>\<open>Shared theories.\<close>
  \<^item> \<open>HS_Prelude\<close>, \<open>HS_Text\<close>: integers, clocks, byte order, hash maps; the text functions of the standard library.
  \<^item> \<open>HS_BTreeMap\<close>: ordered maps, the contract \<open>ordered_map\<close> and its interpretation \<open>bt\<close>.
  \<^item> \<open>HS_Contracts\<close>: the contracts \<open>cooldown_table\<close> (interpreted for the priority tier, the pool and the pace
    references) and \<open>slot_pool\<close> (priority sessions, responder connections).
  \<^item> \<open>HS_Gate\<close>: the contract \<open>forward_gate\<close>, which gives strictly ascending streams to the failover core and to the
    round gate alike.

  \<^bold>\<open>Components.\<close> Definitions keep the names of the functions they translate.
  \<^item> protocol.rs: \<open>Blocks\<close> (plausible rounds, the bounded LZ4 decoder; it agrees with full decompression), \<open>Frames\<close> and
    \<open>Frames_Props\<close> (frames however the bytes are split, clustered tips that a dishonest minority cannot move),
    \<open>Round_Gate\<close> (the gate of a plain relay refines the test against the last round).
  \<^item> failover/core.rs: \<open>Failover_Core\<close>, its invariant in \<open>Failover_Inv\<close> and \<open>Failover_Switch\<close>, and in \<open>Failover_Props\<close> and
    \<open>Failover_More\<close> what a switch delivers (a parent-linked chain above the node's tip), who is picked, that buffers have
    no silent holes and stay within their caps.
  \<^item> failover/session.rs, failover/mod.rs: \<open>Failover_Session\<close> (every arm of the event loop); \<open>Failover_Track\<close> keeps core,
    connections and targets in agreement over all reachable states, \<open>Failover_Stream\<close> shows the node's stream ascends.
  \<^item> push/live.rs: \<open>Push_Live\<close>, \<open>Push_Session\<close> (queue, progress and lag guards, the freshest round, the session and the
    relays) with \<open>Push_Props\<close>, \<open>Push_Guards\<close>, \<open>Push_Session_Props\<close>.
  \<^item> push/legacy.rs and push/proxy.rs: \<open>Legacy\<close> (the merge forwards each round of a window once; the relay) and \<open>Proxy\<close>
    (vetting, blame and failover of the upstreams).
  \<^item> blacklist.rs, util.rs: \<open>Blacklist\<close>; priority.rs: \<open>Priority\<close>, \<open>Priority_Props\<close>.
  \<^item> gateway/node.rs: \<open>Node_State\<close>, \<open>Node_Props\<close> (the pin and its epochs, the bounded registry).
  \<^item> gateway/select.rs: \<open>Select\<close>, \<open>Select_Race\<close>, \<open>Select_Props\<close>; the account of slots is \<open>Slot_Ledger\<close>.
  \<^item> gateway/client_blocks.rs: \<open>Client_Blocks\<close>, \<open>Client_Race\<close>, \<open>Client_Props\<close> (the best answer heard, no slot lost, no
    prefetch outliving its pin).
  \<^item> gateway/cache.rs: \<open>Cache\<close>, \<open>Cache_Capture\<close>, \<open>Cache_Props\<close>, \<open>Cache_Disk\<close> (the tap, the captures and their race, the
    file as a directory with crashes).
  \<^item> gateway/session.rs: \<open>Gateway_Session\<close>; \<open>Gateway_Slots\<close>, \<open>Gateway_Fo_Slots\<close> and \<open>Gateway_Props\<close> follow a whole 4001
    connection: it gives every slot and pin back, and a cold start reads the blob and then ascending rounds above it.
  \<^item> gateway/mod.rs: \<open>Gateway_Main\<close>, \<open>Gateway_Main_Props\<close> (the refresher, the background capture, the dispatch);
    gateway/pace.rs: \<open>Pace\<close>.
  \<^item> peerd: \<open>Peers_File\<close> (peers_file.rs), \<open>Crawl\<close> and \<open>Crawl_Props\<close> (crawl.rs: it ends within its budget and finds the
    whole neighbourhood when nothing cuts it), \<open>Probe\<close> (probe.rs), \<open>Peerd\<close>, \<open>Peerd_Text\<close>, \<open>Peerd_Props\<close> (daemon.rs: the form
    of its state, excluded addresses, the kept pool).
  \<^item> env_check.rs and main.rs: \<open>Startup\<close> (accepted settings are read as written), \<open>Entry\<close> (the choice of mode);
    responder.rs: \<open>Responder\<close>.

  This theory joins discovery and gateway: what peerd publishes is what the gateway uses.

  \<^bold>\<open>Bounds and termination.\<close> No definition has fuel that the code lacks: loops that the code bounds (hops, query
  budgets, polls, rounds of a race) recurse on that bound, and the others on the list of what happens. An input list
  that ends while a session still runs leaves it running, which is an outcome of its own; theorems on streams and
  bounds hold for every such prefix. That a race settles is \<open>capture_race_settles\<close>, that a crawl ends
  \<open>crawl_terminates\<close>.

  \<^bold>\<open>Not modelled.\<close> Log lines and status files (output only, except the redaction of addresses, which is in
  \<open>Priority\<close>); binding ports, accept loops and the spawning of tasks; the allocator setting of main.rs; probing the
  filesystem for a cache directory; curl, which is its exit status and output; testing.rs, whose mock peers, synthetic
  node and benchmark drive the other modes. Memory orderings of atomics are taken as sequentially consistent, and
  allocation never fails. Scalar settings of the code (timeouts, caps) are constants or abbreviations of the theory
  that uses them.
\<close>

section \<open>From discovery to the gateway\<close>

text \<open>A pool file as the daemon leaves it.\<close>

definition pool_file :: "string option \<Rightarrow> bool" where
  "pool_file out \<longleftrightarrow> (\<forall>f. out = Some f \<longrightarrow> (\<exists>pool n tip. (\<forall>a \<in> set pool. good_addr a) \<and> f = peers_json pool n tip))"

inductive peerd_life :: "(bytes \<Rightarrow> bytes option) \<Rightarrow> peerd_config \<Rightarrow> peerd \<Rightarrow> bool"
  for D :: "bytes \<Rightarrow> bytes option" and cfg :: peerd_config
where
  begins: "(\<forall>f. cand_file = Some f \<longrightarrow> CHR ''+'' \<notin> set f) \<Longrightarrow> pool_file out \<Longrightarrow>
    peerd_life D cfg (peerd_start cfg bl cand_file out)"
| reorders: "peerd_life D cfg s \<Longrightarrow> mset cs = mset (pd_candidates s) \<Longrightarrow> peerd_life D cfg (s\<lparr>pd_candidates := cs\<rparr>)"
| cycles: "peerd_life D cfg s \<Longrightarrow> (\<And>ts. mset (ci_joined i ts) = mset ts) \<Longrightarrow> (\<And>ts. mset (ci_arrive i ts) = mset ts) \<Longrightarrow>
    peerd_cycle D cfg i s = (n, s') \<Longrightarrow> peerd_life D cfg s'"

lemma cycle_pool_file:
  assumes "peerd_cycle D cfg i s = (n, s')" "peerd_ok cfg s" "\<And>ts. mset (ci_joined i ts) = mset ts" "pool_file (pd_out s)"
  shows "pool_file (pd_out s')"
proof -
  obtain ex cands1 live published where "cycle_view i s s' ex cands1 live published"
    using peerd_cycle_facts[OF assms(1,2,3)] by blast
  note f = this[unfolded cycle_view_def]
  show ?thesis
  proof (cases published)
    case None
    then show ?thesis using f assms(4) by auto
  next
    case (Some pool)
    then have "\<forall>a \<in> set pool. good_addr a"
      using f choose_pool_some[of "rank_live live" _ ex _ _ pool] by blast
    moreover obtain tip where "pd_out s' = write_atomic (ci_out_ok i) (peers_json pool (length cands1) tip) (pd_out s)"
      using f Some by auto
    ultimately show ?thesis using assms(4) by (cases "ci_out_ok i") (auto simp: pool_file_def write_atomic_def)
  qed
qed

lemma peerd_life_ok: "peerd_life D cfg s \<Longrightarrow> peerd_ok cfg s \<and> pool_file (pd_out s)"
proof (induction rule: peerd_life.induct)
  case (begins cand_file out bl)
  then show ?case using peerd_ok_start[of cand_file cfg bl out] by (simp add: peerd_start_def)
next
  case (reorders s cs)
  then show ?case
    using mset_eq_setD[OF reorders.hyps(2)] mset_eq_imp_distinct_iff[OF reorders.hyps(2)]
    by (auto simp: peerd_ok_def fails_ok_def)
next
  case (cycles s i n s')
  then show ?case
    using peerd_cycle_facts[OF cycles.hyps(4) conjunct1[OF cycles.IH] cycles.hyps(2)]
      cycle_pool_file[OF cycles.hyps(4) conjunct1[OF cycles.IH] cycles.hyps(2)] by blast
qed

lemma read_pool_of_file:
  assumes "\<forall>a \<in> set pool. good_addr a" "bl_ok bl"
  shows "read_pool bl t [peers_json pool n tip] =
    filter (\<lambda>a. \<not> bl_contains bl a \<and> \<not> tier_contains t a) (dedup_first [] pool)"
proof -
  have "read_node_peers [peers_json pool n tip] = dedup_first [] pool"
    using extract_peers_json[OF assms(1)] by (simp add: read_node_peers_def)
  moreover have "bl_filtered bl xs = filter (\<lambda>a. \<not> bl_contains bl a) xs" for xs
    using assms(2) by (auto simp: bl_filtered_def bl_contains_def)
  moreover have "strip t xs = filter (\<lambda>a. \<not> tier_contains t a) xs" for xs
    by (auto simp: strip_def tier_contains_iff)
  ultimately show ?thesis by (simp add: read_pool_def conj_commute)
qed

text \<open>C12: whatever the cycles of the daemon met, a gateway that refreshes from its pool file within fifteen minutes takes
  as its pool exactly the published peers that are neither listed nor priority peers, in the published order and each
  once (unless none is left, when it keeps the pool it has), and as the network tip the published one, if there is one.\<close>

theorem discovery_feeds_gateway:
  assumes "peerd_life D cfg s" "pd_out s = Some f" "bl_ok (pl_bl w)"
    and "pi_files g = [f]" "pi_contents g = Some f" "pi_age g = Some age" "age \<le> from_secs 900"
    and "w' = refresh_pool t g w"
  shows "\<exists>pool n tip. f = peers_json pool n tip \<and> (\<forall>a \<in> set pool. good_addr a) \<and>
    (let p = filter (\<lambda>a. \<not> bl_contains (pl_bl w') a \<and> \<not> tier_contains t a) (dedup_first [] pool)
     in pl_pool w' = (if p = [] then filter (\<lambda>a. \<not> bl_contains (pl_bl w') a) (pl_pool w) else p)) \<and>
    (\<forall>r. tip = Some r \<longrightarrow> pl_tip w' = r)"
proof -
  obtain pool n tip where good: "\<forall>a \<in> set pool. good_addr a" and f: "f = peers_json pool n tip"
    using peerd_life_ok[OF assms(1)] assms(2) by (auto simp: pool_file_def)
  have bl: "bl_ok (snd (reload (pi_env g) (pi_list g) (pl_bl w)))" using assms(3) by (rule bl_ok_reload)
  note pool = read_pool_of_file[OF good bl, of t n tip, folded f]
  have "fresh_peer_file_tip (pi_age g) (pi_contents g) = tip"
    using assms(5-7) tip_peers_json[OF good, of n tip]
    by (simp add: f fresh_peer_file_tip_def PEER_FILE_TIP_MAX_AGE_def)
  then have "\<forall>r. tip = Some r \<longrightarrow> pl_tip w' = r"
    by (simp add: assms(8) refresh_pool_def next_net_tip_def Let_def)
  moreover have "pl_bl w' = snd (reload (pi_env g) (pi_list g) (pl_bl w))"
      "pl_pool w' = (let p = read_pool (pl_bl w') t [f]
         in if p = [] then filter (\<lambda>a. \<not> bl_contains (pl_bl w') a) (pl_pool w) else p)"
    by (simp_all add: assms(4,8) refresh_pool_def Let_def)
  ultimately show ?thesis using f good pool by (intro exI[of _ pool] exI[of _ n] exI[of _ tip]) (simp add: Let_def)
qed

definition sample_pool_file :: string where
  "sample_pool_file = peers_json [show_ipv4 (Ipv4 192 0 2 7)] 1 (Some 850000000)"

definition sample_life :: peerd where
  "sample_life = peerd_start sample_peerd_config blacklist_init None (Some sample_pool_file)"

definition sample_reading :: pool_in where
  "sample_reading = \<lparr>pi_env = None, pi_list = None, pi_files = [sample_pool_file], pi_age = Some 0,
     pi_contents = Some sample_pool_file, pi_now = 0\<rparr>"

definition sample_pool_state :: pool_state where
  "sample_pool_state = \<lparr>pl_bl = blacklist_init, pl_pool = [], pl_tip = 0, pl_last_fresh = 0\<rparr>"

lemma sample_life: "peerd_life D sample_peerd_config sample_life" "pd_out sample_life = Some sample_pool_file"
proof -
  have "pool_file (Some sample_pool_file)"
    unfolding pool_file_def sample_pool_file_def using sample_good
    by (auto simp del: show_ipv4.simps intro!: exI[of _ "[show_ipv4 (Ipv4 192 0 2 7)]"])
  then show "peerd_life D sample_peerd_config sample_life"
    unfolding sample_life_def by (intro peerd_life.begins) simp_all
qed (simp add: sample_life_def peerd_start_def)

lemma sample_unlisted: "bl_contains (snd (reload None None blacklist_init)) a \<longleftrightarrow> False"
  using bl_contains_ok[OF bl_ok_reload[OF bl_ok_init], of None None a]
  by (simp add: bl_list_reload listed_def)

theorem discovery_feeds_gateway_witness:
  "pl_pool (refresh_pool (priority_new [] 0 0 Fallback) sample_reading sample_pool_state) = [show_ipv4 (Ipv4 192 0 2 7)] \<and>
   pl_tip (refresh_pool (priority_new [] 0 0 Fallback) sample_reading sample_pool_state) = 850000000"
proof -
  let ?t = "priority_new [] 0 0 Fallback"
  let ?w = "refresh_pool ?t sample_reading sample_pool_state"
  have bl: "pl_bl ?w = snd (reload None None blacklist_init)"
    by (simp add: refresh_pool_def sample_reading_def sample_pool_state_def Let_def)
  have tier: "tier_contains ?t a \<longleftrightarrow> False" for a by (simp add: tier_contains_iff priority_new_def)
  have g: "pi_files sample_reading = [sample_pool_file]" "pi_contents sample_reading = Some sample_pool_file"
      "pi_age sample_reading = Some 0" "bl_ok (pl_bl sample_pool_state)" "pl_pool sample_pool_state = []"
    by (simp_all add: sample_reading_def sample_pool_state_def bl_ok_init)
  from discovery_feeds_gateway[OF sample_life g(4,1-3) _ refl, of ?t] obtain pool n tip
    where f: "sample_pool_file = peers_json pool n tip" "\<forall>a \<in> set pool. good_addr a"
      and w: "pl_pool ?w = dedup_first [] pool" "\<forall>r. tip = Some r \<longrightarrow> pl_tip ?w = r"
    by (auto simp: bl sample_unlisted tier g(5) Let_def split: if_splits)
  have "dedup_first [] pool = [show_ipv4 (Ipv4 192 0 2 7)]" "tip = Some 850000000"
    using extract_peers_json[OF f(2), of n tip] tip_peers_json[OF f(2), of n tip] sample_good
      extract_peers_json[of "[show_ipv4 (Ipv4 192 0 2 7)]" 1 "Some 850000000"]
      tip_peers_json[of "[show_ipv4 (Ipv4 192 0 2 7)]" 1 "Some 850000000"] f(1)
    by (simp_all add: sample_pool_file_def del: show_ipv4.simps)
  then show ?thesis using w by (simp del: show_ipv4.simps)
qed

end
